(* ===== verification/Prelude.thy ===== *)
theory Prelude
  imports Main "HOL-Library.Word" "HOL-Library.While_Combinator"
begin

text \<open>
  Shared ground of the development: machine integers at their C widths, byte memories, the C
  library's decimal conversions (\<^verbatim>\<open>sprintf("%d")\<close>, \<^verbatim>\<open>sprintf("%lu")\<close>, \<^verbatim>\<open>sscanf("%d")\<close>,
  \<^verbatim>\<open>atoi\<close>, \<^verbatim>\<open>strncpy\<close>), error codes, the encoding of \<^verbatim>\<open>ioctl\<close> numbers, and the generic lemmas on
  them that the components share.  The collections \<open>mem_simps\<close> and \<open>dec_simps\<close> carry the
  rewriting of the component proofs.
\<close>

unbundle bit_operations_syntax

named_theorems mem_simps \<open>reads and writes of byte memories\<close>
named_theorems dec_simps \<open>decimal conversions\<close>

section \<open>Machine types\<close>

type_synonym u8 = "8 word"
type_synonym u16 = "16 word"
type_synonym u32 = "32 word"
type_synonym u64 = "64 word"
type_synonym ssize_t = "64 word"
type_synonym mem = "u64 \<Rightarrow> u8"

lemma uint_u8: "uint (x :: u8) < 256"
proof -
  have "uint x < 2 ^ LENGTH(8)" by (rule unsigned_less)
  then show ?thesis by simp
qed

lemma unat_u8: "unat (x :: u8) < 256"
proof -
  have "unat x < 2 ^ LENGTH(8)" by (rule unsigned_less)
  then show ?thesis by simp
qed

lemma unat_u64: "unat (x :: u64) < 2 ^ 64"
proof -
  have "unat x < 2 ^ LENGTH(64)" by (rule unsigned_less)
  then show ?thesis by simp
qed

text \<open>Kernel error numbers; a handler returns their negation.\<close>

definition ESRCH :: "'a::len word" where "ESRCH = 3"
definition EAGAIN :: "'a::len word" where "EAGAIN = 11"
definition ENOMEM :: "'a::len word" where "ENOMEM = 12"
definition EFAULT :: "'a::len word" where "EFAULT = 14"
definition EINVAL :: "'a::len word" where "EINVAL = 22"

lemmas errno_defs = ESRCH_def EAGAIN_def ENOMEM_def EFAULT_def EINVAL_def

text \<open>What a system call gives its caller: \<open>-1\<close> for a negative error of the handler, else the handler's value cut to an
  \<^verbatim>\<open>int\<close>.\<close>

definition syscall_ret :: "u64 \<Rightarrow> u32" where
  "syscall_ret v = (if - 4095 \<le> v then - 1 else ucast v)"

lemma syscall_ret_0 [simp]: "syscall_ret 0 = 0"
  by (simp add: syscall_ret_def word_le_nat_alt)

text \<open>
  A kernel handler runs to its end, or dereferences a null pointer, which kills the calling thread
  inside the kernel, or never returns: it waits for a lock that stays held, or loops for ever.
\<close>

datatype 'a outcome = Done 'a | Oops | Hang

definition obind :: "'a outcome \<Rightarrow> ('a \<Rightarrow> 'b outcome) \<Rightarrow> 'b outcome" where
  "obind x f = (case x of Done y \<Rightarrow> f y | Oops \<Rightarrow> Oops | Hang \<Rightarrow> Hang)"

lemma obind_simps [simp]: "obind (Done y) f = f y" "obind Oops f = Oops" "obind Hang f = Hang"
  by (simp_all add: obind_def)

text \<open>
  Copies between kernel and user memory, whose page faults the kernel decides: the number of bytes
  not copied with the kernel buffer, or with the new user memory.
\<close>

record uaccess =
  u_from :: "u64 \<Rightarrow> u64 \<Rightarrow> mem \<Rightarrow> u64 \<times> u8 list"
  u_to :: "u64 \<Rightarrow> u8 list \<Rightarrow> mem \<Rightarrow> u64 \<times> mem"

section \<open>Byte memories\<close>

fun mem_write :: "u64 \<Rightarrow> u8 list \<Rightarrow> mem \<Rightarrow> mem" where
  "mem_write a [] m = m"
| "mem_write a (b # bs) m = mem_write (a + 1) bs (m(a := b))"

definition mem_read :: "u64 \<Rightarrow> nat \<Rightarrow> mem \<Rightarrow> u8 list" where
  "mem_read a n m = map (\<lambda>i. m (a + of_nat i)) [0..<n]"

lemma length_mem_read [simp]: "length (mem_read a n m) = n"
  by (simp add: mem_read_def)

lemma nth_mem_read [simp]: "i < n \<Longrightarrow> mem_read a n m ! i = m (a + of_nat i)"
  by (simp add: mem_read_def)

lemma unat_minus_one_word: "x \<noteq> 0 \<Longrightarrow> unat (x - 1 :: 'a::len word) = unat x - 1"
  by (rule unat_minus_one)

lemma mem_write_apply:
  "length bs \<le> 2 ^ 64 \<Longrightarrow>
   mem_write a bs m x = (if unat (x - a) < length bs then bs ! unat (x - a) else m x)"
proof (induction bs arbitrary: a m)
  case Nil
  then show ?case by simp
next
  case (Cons b bs)
  show ?case
  proof (cases "x = a")
    case True
    have "unat (-1 :: u64) = 2 ^ 64 - 1"
      by (simp add: unsigned_minus_1_eq_mask mask_eq_exp_minus_1)
    with True Cons.prems have "\<not> unat (x - (a + 1)) < length bs" by simp
    with True Cons show ?thesis by simp
  next
    case False
    then have nz: "x - a \<noteq> 0" by simp
    have eq: "x - (a + 1) = (x - a) - 1" by simp
    have un: "unat (x - (a + 1)) = unat (x - a) - 1"
      unfolding eq by (rule unat_minus_one_word [OF nz])
    have pos: "0 < unat (x - a)" using nz by (simp add: unat_gt_0)
    from Cons.prems have len: "length bs \<le> 2 ^ 64" by simp
    show ?thesis
      unfolding mem_write.simps Cons.IH [OF len] un using pos False by (auto simp: nth_Cons')
  qed
qed

lemma unat_of_nat_u64: "i < 2 ^ 64 \<Longrightarrow> unat (of_nat i :: u64) = i"
  by (simp add: unat_of_nat)

lemma mem_read_write_same [mem_simps]:
  "length bs \<le> 2 ^ 64 \<Longrightarrow> mem_read a (length bs) (mem_write a bs m) = bs"
  by (rule nth_equalityI) (auto simp: mem_write_apply unat_of_nat_u64)

lemma mem_write_outside [mem_simps]:
  "length bs \<le> 2 ^ 64 \<Longrightarrow> length bs \<le> unat (x - a) \<Longrightarrow> mem_write a bs m x = m x"
  by (simp add: mem_write_apply)

lemma mem_write_twice [mem_simps]:
  "length bs \<le> 2 ^ 64 \<Longrightarrow> length cs = length bs \<Longrightarrow> mem_write a cs (mem_write a bs m) = mem_write a cs m"
  by (rule ext) (simp add: mem_write_apply)

lemma mem_write_read [mem_simps]: "n \<le> 2 ^ 64 \<Longrightarrow> mem_write a (mem_read a n m) m = m"
  by (rule ext) (simp add: mem_write_apply)

lemma mem_write_append:
  "mem_write a (xs @ ys) m = mem_write (a + of_nat (length xs)) ys (mem_write a xs m)"
  by (induction xs arbitrary: a m) (auto simp: algebra_simps)

lemma mem_read_append:
  "mem_read a (n + k) m = mem_read a n m @ mem_read (a + of_nat n) k m"
  by (rule nth_equalityI) (auto simp: nth_append algebra_simps)

lemma mem_read_cong:
  "(\<And>i. i < n \<Longrightarrow> m (a + of_nat i) = m' (a + of_nat i)) \<Longrightarrow> mem_read a n m = mem_read a n m'"
  by (simp add: mem_read_def)

text \<open>
  A user buffer of \<open>n\<close> bytes at \<open>a\<close> that is mapped: copies from it and to it succeed.  The last
  definition is a kernel for which every address is.
\<close>

definition user_ok :: "uaccess \<Rightarrow> u64 \<Rightarrow> u64 \<Rightarrow> bool" where
  "user_ok U a n \<longleftrightarrow> (\<forall>m bs. u_from U a n m = (0, mem_read a (unat n) m) \<and>
     (length bs = unat n \<longrightarrow> u_to U a bs m = (0, mem_write a bs m)))"

definition flat_user :: uaccess where
  "flat_user = \<lparr>u_from = (\<lambda>a n m. (0, mem_read a (unat n) m)), u_to = (\<lambda>a bs m. (0, mem_write a bs m))\<rparr>"

lemma flat_user_ok [simp]: "user_ok flat_user a n"
  by (simp add: user_ok_def flat_user_def)

section \<open>C strings and decimal conversions\<close>

text \<open>\<^verbatim>\<open>strncpy(dst, src, n)\<close>: up to the terminator, then zero padding up to \<open>n\<close> bytes.\<close>

definition strncpy :: "u8 list \<Rightarrow> nat \<Rightarrow> u8 list" where
  "strncpy src n =
     (let s = takeWhile (\<lambda>c. c \<noteq> 0) (take n src) in s @ replicate (n - length s) 0)"

lemma length_strncpy [simp]: "length (strncpy src n) = n"
proof -
  have "length (takeWhile (\<lambda>c. c \<noteq> 0) (take n src)) \<le> n"
    by (metis length_take length_takeWhile_le min.cobounded2 order_trans)
  then show ?thesis by (simp add: strncpy_def Let_def)
qed

lemma strncpy_no_nul: "n \<le> length src \<Longrightarrow> 0 \<notin> set (take n src) \<Longrightarrow> strncpy src n = take n src"
proof -
  assume n: "n \<le> length src" and z: "0 \<notin> set (take n src)"
  from z have *: "takeWhile (\<lambda>c. c \<noteq> 0) (take n src) = take n src"
    by (auto simp: takeWhile_eq_all_conv)
  show ?thesis unfolding strncpy_def Let_def * using n by simp
qed

definition digit :: "nat \<Rightarrow> u8" where
  "digit d = word_of_nat (48 + d)"

fun dec_nat :: "nat \<Rightarrow> u8 list" where
  "dec_nat n = (if n < 10 then [digit n] else dec_nat (n div 10) @ [digit (n mod 10)])"

declare dec_nat.simps [simp del]

definition dec_int :: "int \<Rightarrow> u8 list" where
  "dec_int i = (if i < 0 then 45 # dec_nat (nat (- i)) else dec_nat (nat i))"

text \<open>The bytes \<^verbatim>\<open>sprintf\<close> stores, the terminator included.\<close>

definition sprintf_d :: "u32 \<Rightarrow> u8 list" where
  "sprintf_d v = dec_int (sint v) @ [0]"

definition sprintf_lu :: "u64 \<Rightarrow> u8 list" where
  "sprintf_lu v = dec_nat (unat v) @ [0]"

definition sprintf_s :: "u8 list \<Rightarrow> u8 list" where
  "sprintf_s s = takeWhile (\<lambda>c. c \<noteq> 0) s @ [0]"

definition isdigit :: "u8 \<Rightarrow> bool" where
  "isdigit c \<longleftrightarrow> 48 \<le> c \<and> c \<le> 57"

definition isspace :: "u8 \<Rightarrow> bool" where
  "isspace c \<longleftrightarrow> 9 \<le> c \<and> c \<le> 13 \<or> c = 32 \<or> c = 160"

definition digits_val :: "u8 list \<Rightarrow> nat" where
  "digits_val s = foldl (\<lambda>acc c. acc * 10 + (unat c - 48)) 0 (takeWhile isdigit s)"

text \<open>
  The kernel's \<^verbatim>\<open>sscanf(buf, "%d", &v)\<close>: white space is skipped, a minus sign is accepted, at
  least one digit must follow, and the value is stored modulo \<open>2^32\<close>.  \<open>None\<close> means that the
  conversion failed and the variable keeps its value.
\<close>

definition sscanf_d :: "u8 list \<Rightarrow> u32 option" where
  "sscanf_d buf =
     (case dropWhile isspace buf of
        [] \<Rightarrow> None
      | c # cs \<Rightarrow>
          (if c = 45 then
             (case cs of
                [] \<Rightarrow> None
              | d # ds \<Rightarrow>
                  (if isdigit d then Some (word_of_int (- int (digits_val cs))) else None))
           else if isdigit c then Some (word_of_int (int (digits_val (c # cs))))
           else None))"

text \<open>
  The C library's \<^verbatim>\<open>atoi\<close>: white space, an optional sign and digits, as a \<^verbatim>\<open>long\<close> that stops at its bounds and
  is then cut to an \<^verbatim>\<open>int\<close>; no digit gives 0.
\<close>

definition libc_isspace :: "u8 \<Rightarrow> bool" where
  "libc_isspace c \<longleftrightarrow> 9 \<le> c \<and> c \<le> 13 \<or> c = 32"

definition strtol :: "u8 list \<Rightarrow> int" where
  "strtol s =
     (let s = dropWhile libc_isspace s;
          v = (case s of
                 [] \<Rightarrow> 0
               | c # cs \<Rightarrow> if c = 45 then - int (digits_val cs) else if c = 43 then int (digits_val cs) else int (digits_val s))
      in max (- (2 ^ 63)) (min (2 ^ 63 - 1) v))"

definition atoi :: "u8 list \<Rightarrow> u32" where
  "atoi s = word_of_int (strtol s)"

lemma unat_digit [dec_simps]: "d < 10 \<Longrightarrow> unat (digit d) = 48 + d"
  by (simp add: digit_def unat_of_nat del: of_nat_add)

lemma isdigit_digit [dec_simps]: "d < 10 \<Longrightarrow> isdigit (digit d)"
  by (simp add: isdigit_def word_le_nat_alt unat_digit)

lemma isspace_not_digit [dec_simps]: "isdigit c \<Longrightarrow> \<not> isspace c"
  by (auto simp: isdigit_def isspace_def word_le_nat_alt)

lemma dec_nat_neq_Nil [simp]: "dec_nat n \<noteq> []"
  by (subst dec_nat.simps) simp

lemma dec_nat_isdigit: "\<forall>c \<in> set (dec_nat n). isdigit c"
proof (induction n rule: dec_nat.induct)
  case (1 n)
  show ?case
  proof (cases "n < 10")
    case True
    then show ?thesis by (subst dec_nat.simps) (simp add: dec_simps)
  next
    case False
    with "1.IH" show ?thesis by (subst dec_nat.simps) (auto simp: dec_simps)
  qed
qed

lemma dec_nat_long: "10 ^ k \<le> n \<Longrightarrow> Suc k \<le> length (dec_nat n)"
proof (induction k arbitrary: n)
  case 0
  then show ?case by (cases "dec_nat n") simp_all
next
  case (Suc k)
  have "(1 :: nat) \<le> 10 ^ k" by simp
  moreover have "10 * 10 ^ k \<le> n" using Suc.prems by simp
  ultimately have "\<not> n < 10" by linarith
  moreover have "10 ^ k \<le> n div 10" using Suc.prems by (simp add: less_eq_div_iff_mult_less_eq mult.commute)
  ultimately show ?case using Suc.IH [of "n div 10"] by (subst dec_nat.simps) simp
qed

lemma dec_nat_no_nul: "0 \<notin> set (dec_nat n)"
  using dec_nat_isdigit [of n] by (auto simp: isdigit_def)

lemma foldl_dec_nat:
  "foldl (\<lambda>acc c. acc * 10 + (unat c - 48)) 0 (dec_nat n) = n"
proof (induction n rule: dec_nat.induct)
  case (1 n)
  show ?case
  proof (cases "n < 10")
    case True
    then show ?thesis by (subst dec_nat.simps) (simp add: dec_simps)
  next
    case False
    with "1.IH" show ?thesis by (subst dec_nat.simps) (simp add: dec_simps)
  qed
qed

text \<open>A rest that does not go on with a digit does not change the number in front of it.\<close>

definition stops :: "u8 list \<Rightarrow> bool" where
  "stops rest \<longleftrightarrow> rest = [] \<or> \<not> isdigit (hd rest)"

lemma digits_val_dec_nat: "stops rest \<Longrightarrow> digits_val (dec_nat n @ rest) = n"
proof -
  assume "stops rest"
  then have "takeWhile isdigit rest = []"
    by (cases rest) (auto simp: stops_def)
  then have "takeWhile isdigit (dec_nat n @ rest) = dec_nat n"
    using dec_nat_isdigit [of n] by (simp add: takeWhile_append2)
  then show ?thesis by (simp add: digits_val_def foldl_dec_nat)
qed

lemma dec_nat_Cons: "\<exists>c cs. dec_nat n = c # cs \<and> isdigit c"
  using dec_nat_isdigit [of n] by (cases "dec_nat n") auto

lemma sscanf_d_dec_int:
  assumes "stops rest"
  shows "sscanf_d (dec_int i @ rest) = Some (word_of_int i)"
proof (cases "i < 0")
  case True
  obtain c cs where c: "dec_nat (nat (- i)) = c # cs" "isdigit c"
    using dec_nat_Cons by blast
  have "digits_val (dec_nat (nat (- i)) @ rest) = nat (- i)"
    by (rule digits_val_dec_nat [OF assms])
  with True c show ?thesis
    by (simp add: sscanf_d_def dec_int_def isspace_def)
next
  case False
  obtain c cs where c: "dec_nat (nat i) = c # cs" "isdigit c"
    using dec_nat_Cons by blast
  have "digits_val (dec_nat (nat i) @ rest) = nat i"
    by (rule digits_val_dec_nat [OF assms])
  moreover from c have "c \<noteq> 45" by (auto simp: isdigit_def)
  ultimately show ?thesis using False c
    by (simp add: sscanf_d_def dec_int_def dec_simps)
qed

lemma sscanf_d_sprintf_d: "sscanf_d (sprintf_d v) = Some v"
proof -
  have "stops [0]" by (simp add: stops_def isdigit_def)
  from sscanf_d_dec_int [OF this, of "sint v"] show ?thesis
    by (simp add: sprintf_d_def)
qed

lemma libc_isspace_not_digit [dec_simps]: "isdigit c \<Longrightarrow> \<not> libc_isspace c"
  using isspace_not_digit [of c] by (auto simp: isspace_def libc_isspace_def)

lemma strtol_dec_int:
  assumes "- (2 ^ 63) \<le> i" "i < 2 ^ 63"
  shows "strtol (dec_int i) = i"
proof -
  obtain c cs where c: "dec_nat (nat \<bar>i\<bar>) = c # cs" "isdigit c" using dec_nat_Cons by blast
  have "digits_val (dec_nat (nat \<bar>i\<bar>)) = nat \<bar>i\<bar>" using digits_val_dec_nat [of "[]"] by (simp add: stops_def)
  moreover from c have "c \<noteq> 45" "c \<noteq> 43" by (auto simp: isdigit_def)
  moreover have "\<not> libc_isspace 45" by (simp add: libc_isspace_def)
  ultimately show ?thesis using assms c by (auto simp: strtol_def dec_int_def dec_simps abs_if split: if_splits)
qed

lemma atoi_dec_int: "atoi (dec_int (sint v)) = v"
proof -
  have "- (2 ^ 31) \<le> sint v" "sint v < 2 ^ 31" using sint_range_size [of v] by (auto simp: word_size)
  then show ?thesis by (simp add: atoi_def strtol_dec_int)
qed

lemma atoi_dec_nat: "n < 2 ^ 63 \<Longrightarrow> atoi (dec_nat n) = of_nat n"
  using strtol_dec_int [of "int n"] by (simp add: atoi_def dec_int_def)

lemma dec_int_no_nul: "0 \<notin> set (dec_int i)"
  using dec_nat_no_nul by (auto simp: dec_int_def)

text \<open>The length of a decimal number: one byte per factor of ten.\<close>

lemma length_dec_nat_le: "n < 10 ^ k \<Longrightarrow> 0 < k \<Longrightarrow> length (dec_nat n) \<le> k"
proof (induction n arbitrary: k rule: dec_nat.induct)
  case (1 n)
  show ?case
  proof (cases "n < 10")
    case True
    with 1 show ?thesis by (subst dec_nat.simps) simp
  next
    case False
    with "1.prems" obtain j where k: "k = Suc j" and "0 < j"
      by (cases k; cases "k - 1") auto
    with "1.prems" False have "length (dec_nat (n div 10)) \<le> j"
      by (intro "1.IH") auto
    with False k show ?thesis by (subst dec_nat.simps) simp
  qed
qed

lemma length_sprintf_d: "length (sprintf_d v) \<le> 12"
proof -
  have "- (2 ^ 31) \<le> sint v" and "sint v < 2 ^ 31"
    using sint_range_size [of v] by (auto simp: word_size)
  then have "nat (- sint v) < 10 ^ 10" and "nat (sint v) < 10 ^ 10" by auto
  then show ?thesis
    using length_dec_nat_le [of "nat (- sint v)" 10] length_dec_nat_le [of "nat (sint v)" 10]
    by (auto simp: sprintf_d_def dec_int_def)
qed

lemma length_sprintf_lu: "length (sprintf_lu v) \<le> 21"
proof -
  have "unat v < 10 ^ 20" using unsigned_less [of v, where ?'a = nat] by simp
  then show ?thesis
    using length_dec_nat_le [of "unat v" 20] by (auto simp: sprintf_lu_def)
qed

section \<open>Numbers of ioctl commands\<close>

text \<open>\<^verbatim>\<open>_IOC(dir, type, nr, size)\<close> of the kernel's \<^verbatim>\<open>ioctl.h\<close>.\<close>

definition IOC :: "u32 \<Rightarrow> u32 \<Rightarrow> u32 \<Rightarrow> u32 \<Rightarrow> u32" where
  "IOC dir ty nr sz = push_bit 30 dir OR push_bit 16 sz OR push_bit 8 ty OR nr"

definition IOW :: "u32 \<Rightarrow> u32 \<Rightarrow> u32 \<Rightarrow> u32" where "IOW ty nr sz = IOC 1 ty nr sz"
definition IOR :: "u32 \<Rightarrow> u32 \<Rightarrow> u32 \<Rightarrow> u32" where "IOR ty nr sz = IOC 2 ty nr sz"
definition IOWR :: "u32 \<Rightarrow> u32 \<Rightarrow> u32 \<Rightarrow> u32" where "IOWR ty nr sz = IOC 3 ty nr sz"

lemmas ioc_defs = IOC_def IOW_def IOR_def IOWR_def

section \<open>Loops that may not end\<close>

lemma while_option_False: "\<not> b s \<Longrightarrow> while_option b c s = Some s"
  by (simp add: while_option_unfold)

lemma while_option_True: "b s \<Longrightarrow> while_option b c s = while_option b c (c s)"
  by (simp add: while_option_unfold)

text \<open>
  A loop whose body counts a measure down until it is zero returns, and in the state reached
  there the invariant holds and the guard fails.
\<close>

lemma while_option_measure:
  fixes f :: "'s \<Rightarrow> nat"
  assumes "P s" and "\<And>s. P s \<Longrightarrow> b s \<Longrightarrow> P (c s) \<and> f (c s) < f s"
  shows "\<exists>t. while_option b c s = Some t \<and> P t \<and> \<not> b t"
proof -
  obtain t where t: "while_option b c s = Some t"
    using measure_while_option_Some [of P b c f s] assms by auto
  moreover have "P t"
    by (rule while_option_rule [OF _ t, of P]) (use assms in auto)
  moreover have "\<not> b t" using t by (rule while_option_stop)
  ultimately show ?thesis by blast
qed

end
