(* ===== verification/Kernel.thy ===== *)
theory Kernel
  imports Prelude
begin

text \<open>
  What the modules of the repository use of the Linux kernel.  The kernel's own code is not part
  of the repository, so its answers are a parameter: a record \<open>kapi\<close> of functions from the history
  of calls to the value returned.  Every call a module makes is appended to the history \<open>klog\<close> of
  its state, newest first; \<open>live\<close> reads off a history which kernel objects the module still owns
  and \<open>well_used\<close> that it never gives back an object it does not own.  The theory also holds the
  part of \<^verbatim>\<open>task_struct\<close> the process-information drivers read, and the contracts (locales) shared
  by all the character drivers.
\<close>

section \<open>Pointers and device numbers\<close>

type_synonym ptr = u64

text \<open>\<^verbatim>\<open>IS_ERR\<close>, \<^verbatim>\<open>PTR_ERR\<close> (stored in an \<^verbatim>\<open>int\<close>), \<^verbatim>\<open>MKDEV\<close>.\<close>

definition IS_ERR :: "ptr \<Rightarrow> bool" where
  "IS_ERR p \<longleftrightarrow> - 4095 \<le> p"

definition PTR_ERR :: "ptr \<Rightarrow> u32" where
  "PTR_ERR p = ucast p"

lemma PTR_ERR_nonzero: "IS_ERR p \<Longrightarrow> PTR_ERR p \<noteq> 0"
proof
  assume err: "IS_ERR p" and z: "PTR_ERR p = 0"
  have "unat (- 4095 :: ptr) = 2 ^ 64 - 4095" by simp
  with err have lo: "2 ^ 64 - 4095 \<le> unat p" by (simp add: IS_ERR_def word_le_nat_alt)
  have hi: "unat p < 2 ^ 64" by (rule unat_u64)
  have "unat (PTR_ERR p) = unat p mod 2 ^ 32"
    by (simp add: PTR_ERR_def unsigned_ucast_eq take_bit_eq_mod)
  with z have "unat p mod 2 ^ 32 = 0" by simp
  with lo hi show False by (auto simp: mod_eq_0_iff_dvd elim!: dvdE)
qed

definition MKDEV :: "u32 \<Rightarrow> u32 \<Rightarrow> u32" where
  "MKDEV ma mi = push_bit 20 ma OR mi"

section \<open>Calls into the kernel\<close>

datatype kcall =
    Register_chrdev string u32        \<comment> \<open>name, major number or negated error\<close>
  | Unregister_chrdev u32 string
  | Class_create string ptr           \<comment> \<open>name, object or error pointer\<close>
  | Class_destroy ptr
  | Device_create ptr u32 string ptr  \<comment> \<open>class, number, name, object or error pointer\<close>
  | Device_destroy ptr u32
  | Kobject_create string ptr         \<comment> \<open>name, object or null\<close>
  | Kobject_put ptr
  | Sysfs_create_file ptr string u32  \<comment> \<open>directory, name, 0 or negated error\<close>
  | Sysfs_remove_file ptr string
  | Kalloc nat ptr                    \<comment> \<open>size, object or null\<close>
  | Kfree ptr
  | Try_module_get
  | Module_put
  | Pci_enable_device u32             \<comment> \<open>0 or negated error; also for \<^verbatim>\<open>pci_enable_device_mem\<close>\<close>
  | Pci_disable_device
  | Pci_request_region u32 u32        \<comment> \<open>BAR, 0 or negated error\<close>
  | Pci_release_region u32
  | Ioremap u64 u64 ptr               \<comment> \<open>start, length, address or null\<close>
  | Iounmap ptr
  | Pci_set_master
  | Pci_clear_master
  | Pci_set_drvdata ptr
  | Pci_alloc_irq_vectors u32         \<comment> \<open>number of vectors or negated error\<close>
  | Pci_free_irq_vectors
  | Request_irq u32 u32               \<comment> \<open>line, 0 or negated error\<close>
  | Free_irq u32

record kapi =
  k_register_chrdev :: "kcall list \<Rightarrow> u32"
  k_class_create :: "kcall list \<Rightarrow> ptr"
  k_device_create :: "kcall list \<Rightarrow> ptr"
  k_kobject_create :: "kcall list \<Rightarrow> ptr"
  k_sysfs_create :: "kcall list \<Rightarrow> u32"
  k_alloc :: "kcall list \<Rightarrow> ptr"

text \<open>The static variables every character driver of the repository declares.\<close>

record chrdev =
  major :: u32
  device_opened :: u32
  demo_class :: ptr
  demo_device :: ptr
  klog :: "kcall list"

text \<open>One wrapper per kernel function: the answer and the extended history.\<close>

definition kcalled :: "kcall \<Rightarrow> 'a chrdev_scheme \<Rightarrow> 'a chrdev_scheme" where
  "kcalled c s = s\<lparr>klog := c # klog s\<rparr>"

definition register_chrdev :: "kapi \<Rightarrow> string \<Rightarrow> 'a chrdev_scheme \<Rightarrow> u32 \<times> 'a chrdev_scheme" where
  "register_chrdev k name s = (let r = k_register_chrdev k (klog s) in (r, kcalled (Register_chrdev name r) s))"

definition class_create :: "kapi \<Rightarrow> string \<Rightarrow> 'a chrdev_scheme \<Rightarrow> ptr \<times> 'a chrdev_scheme" where
  "class_create k name s = (let r = k_class_create k (klog s) in (r, kcalled (Class_create name r) s))"

definition device_create ::
  "kapi \<Rightarrow> ptr \<Rightarrow> u32 \<Rightarrow> string \<Rightarrow> 'a chrdev_scheme \<Rightarrow> ptr \<times> 'a chrdev_scheme" where
  "device_create k cls devt name s =
     (let r = k_device_create k (klog s) in (r, kcalled (Device_create cls devt name r) s))"

definition kobject_create_and_add ::
  "kapi \<Rightarrow> string \<Rightarrow> 'a chrdev_scheme \<Rightarrow> ptr \<times> 'a chrdev_scheme" where
  "kobject_create_and_add k name s =
     (let r = k_kobject_create k (klog s) in (r, kcalled (Kobject_create name r) s))"

definition sysfs_create_file ::
  "kapi \<Rightarrow> ptr \<Rightarrow> string \<Rightarrow> 'a chrdev_scheme \<Rightarrow> u32 \<times> 'a chrdev_scheme" where
  "sysfs_create_file k kobj name s =
     (let r = k_sysfs_create k (klog s) in (r, kcalled (Sysfs_create_file kobj name r) s))"

definition kalloc :: "kapi \<Rightarrow> nat \<Rightarrow> 'a chrdev_scheme \<Rightarrow> ptr \<times> 'a chrdev_scheme" where
  "kalloc k n s = (let r = k_alloc k (klog s) in (r, kcalled (Kalloc n r) s))"

lemmas kernel_defs = kcalled_def register_chrdev_def class_create_def device_create_def
  kobject_create_and_add_def sysfs_create_file_def kalloc_def

section \<open>Ownership of kernel objects\<close>

datatype resource =
  R_chrdev u32 | R_class ptr | R_device u32 | R_kobj ptr | R_sysfs ptr string | R_mem ptr |
  R_region u32 | R_iomap ptr | R_master | R_vectors | R_irq u32

text \<open>Dropping a directory object also removes the files in it.\<close>

fun under_kobj :: "ptr \<Rightarrow> resource \<Rightarrow> bool" where
  "under_kobj p (R_kobj q) = (p = q)"
| "under_kobj p (R_sysfs q n) = (p = q)"
| "under_kobj p _ = False"

fun live :: "kcall list \<Rightarrow> resource set" where
  "live [] = {}"
| "live (Register_chrdev n m # l) = (if m <s 0 then live l else insert (R_chrdev m) (live l))"
| "live (Unregister_chrdev m n # l) = live l - {R_chrdev m}"
| "live (Class_create n p # l) = (if IS_ERR p then live l else insert (R_class p) (live l))"
| "live (Class_destroy p # l) = live l - {R_class p}"
| "live (Device_create c d n p # l) = (if IS_ERR p then live l else insert (R_device d) (live l))"
| "live (Device_destroy c d # l) = live l - {R_device d}"
| "live (Kobject_create n p # l) = (if p = 0 then live l else insert (R_kobj p) (live l))"
| "live (Kobject_put p # l) = Set.filter (\<lambda>r. \<not> under_kobj p r) (live l)"
| "live (Sysfs_create_file p n r # l) = (if r = 0 then insert (R_sysfs p n) (live l) else live l)"
| "live (Sysfs_remove_file p n # l) = live l - {R_sysfs p n}"
| "live (Kalloc n p # l) = (if p = 0 then live l else insert (R_mem p) (live l))"
| "live (Kfree p # l) = live l - {R_mem p}"
| "live (Try_module_get # l) = live l"
| "live (Module_put # l) = live l"
| "live (Pci_enable_device r # l) = live l"
| "live (Pci_disable_device # l) = live l"
| "live (Pci_request_region b r # l) = (if r = 0 then insert (R_region b) (live l) else live l)"
| "live (Pci_release_region b # l) = live l - {R_region b}"
| "live (Ioremap a n p # l) = (if p = 0 then live l else insert (R_iomap p) (live l))"
| "live (Iounmap p # l) = live l - {R_iomap p}"
| "live (Pci_set_master # l) = insert R_master (live l)"
| "live (Pci_clear_master # l) = live l - {R_master}"
| "live (Pci_set_drvdata p # l) = live l"
| "live (Pci_alloc_irq_vectors r # l) = (if r <s 0 then live l else insert R_vectors (live l))"
| "live (Pci_free_irq_vectors # l) = live l - {R_vectors}"
| "live (Request_irq i r # l) = (if r = 0 then insert (R_irq i) (live l) else live l)"
| "live (Free_irq i # l) = live l - {R_irq i}"

text \<open>A release is well used when the object released is owned at that moment.\<close>

fun well_used :: "kcall list \<Rightarrow> bool" where
  "well_used [] = True"
| "well_used (Unregister_chrdev m n # l) = (R_chrdev m \<in> live l \<and> well_used l)"
| "well_used (Class_destroy p # l) = (R_class p \<in> live l \<and> well_used l)"
| "well_used (Device_destroy c d # l) = (R_device d \<in> live l \<and> well_used l)"
| "well_used (Kobject_put p # l) = (R_kobj p \<in> live l \<and> well_used l)"
| "well_used (Sysfs_remove_file p n # l) = (p \<noteq> 0 \<and> well_used l)"
| "well_used (Kfree p # l) = ((p = 0 \<or> R_mem p \<in> live l) \<and> well_used l)"
| "well_used (Pci_release_region b # l) = (R_region b \<in> live l \<and> well_used l)"
| "well_used (Iounmap p # l) = (R_iomap p \<in> live l \<and> well_used l)"
| "well_used (Free_irq i # l) = (R_irq i \<in> live l \<and> well_used l)"
| "well_used (_ # l) = well_used l"

text \<open>The module reference count: gets minus puts.\<close>

definition module_refs :: "kcall list \<Rightarrow> int" where
  "module_refs l = int (count_list l Try_module_get) - int (count_list l Module_put)"

text \<open>The enable count of a PCI device: granted enables minus disables.\<close>

fun pci_enables :: "kcall list \<Rightarrow> int" where
  "pci_enables [] = 0"
| "pci_enables (Pci_enable_device r # l) = (if r = 0 then 1 else 0) + pci_enables l"
| "pci_enables (Pci_disable_device # l) = pci_enables l - 1"
| "pci_enables (_ # l) = pci_enables l"

text \<open>A kernel that grants every request, for examples.\<close>

definition granting :: kapi where
  "granting = \<lparr>k_register_chrdev = \<lambda>_. 240, k_class_create = \<lambda>_. 4096, k_device_create = \<lambda>_. 8192,
     k_kobject_create = \<lambda>_. 12288, k_sysfs_create = \<lambda>_. 0, k_alloc = \<lambda>l. 16384 + of_nat (length l)\<rparr>"

section \<open>The contracts of a character driver\<close>

text \<open>
  Opening counts the device up and takes a module reference, releasing counts it down and gives
  the reference back; neither fails and neither touches the driver's other state (\<open>rest\<close>).
\<close>

locale chrdev_files =
  fixes opn release :: "'s \<Rightarrow> u32 \<times> 's"
    and opened :: "'s \<Rightarrow> u32" and log :: "'s \<Rightarrow> kcall list" and rest :: "'s \<Rightarrow> 'r"
  assumes opn_ret: "fst (opn s) = 0"
    and opn_count: "opened (snd (opn s)) = opened s + 1"
    and opn_log: "log (snd (opn s)) = Try_module_get # log s"
    and opn_rest: "rest (snd (opn s)) = rest s"
    and release_ret: "fst (release s) = 0"
    and release_count: "opened (snd (release s)) = opened s - 1"
    and release_log: "log (snd (release s)) = Module_put # log s"
    and release_rest: "rest (snd (release s)) = rest s"
begin

text \<open>A sequence of opens (\<open>True\<close>) and releases (\<open>False\<close>).\<close>

fun files_run :: "bool list \<Rightarrow> 's \<Rightarrow> 's" where
  "files_run [] s = s"
| "files_run (b # bs) s = files_run bs (snd (if b then opn s else release s))"

lemma files_run_count:
  "opened (files_run bs s) =
     opened s + of_nat (count_list bs True) - of_nat (count_list bs False)"
  by (induction bs arbitrary: s) (auto simp: opn_count release_count)

lemma files_run_refs:
  "module_refs (log (files_run bs s)) =
     module_refs (log s) + int (count_list bs True) - int (count_list bs False)"
  by (induction bs arbitrary: s) (auto simp: opn_log release_log module_refs_def)

lemma files_run_live: "live (log (files_run bs s)) = live (log s)"
  by (induction bs arbitrary: s) (auto simp: opn_log release_log)

lemma files_run_rest: "rest (files_run bs s) = rest s"
  by (induction bs arbitrary: s) (auto simp: opn_rest release_rest)

text \<open>A balanced session leaves the counter, the reference count and the driver as they were.\<close>

lemma balanced_session:
  assumes "count_list bs True = count_list bs False"
  shows "opened (files_run bs s) = opened s" "module_refs (log (files_run bs s)) = module_refs (log s)"
    "rest (files_run bs s) = rest s"
  using assms by (simp_all add: files_run_count files_run_refs files_run_rest)

end

text \<open>
  Loading and unloading: an initialisation that succeeds, under the condition \<open>ok\<close> on the kernel's
  answers, is undone by the exit function without loss and without a double release.
\<close>

locale chrdev_module =
  fixes ini :: "kapi \<Rightarrow> 's \<Rightarrow> u32 \<times> 's" and ext :: "'s \<Rightarrow> 's"
    and log :: "'s \<Rightarrow> kcall list" and ok :: "kapi \<Rightarrow> 's \<Rightarrow> bool"
  assumes load_unload:
    "ini k s = (0, s') \<Longrightarrow> ok k s \<Longrightarrow> live (log s) = {} \<Longrightarrow> well_used (log s) \<Longrightarrow>
     live (log (ext s')) = {} \<and> well_used (log (ext s'))"
begin

fun cycles :: "kapi list \<Rightarrow> 's \<Rightarrow> 's" where
  "cycles [] s = s"
| "cycles (k # ks) s = cycles ks (ext (snd (ini k s)))"

fun all_ok :: "kapi list \<Rightarrow> 's \<Rightarrow> bool" where
  "all_ok [] s = True"
| "all_ok (k # ks) s = (fst (ini k s) = 0 \<and> ok k s \<and> all_ok ks (ext (snd (ini k s))))"

text \<open>Any number of load/unload cycles leaves nothing behind and releases nothing twice.\<close>

lemma cycles_clean:
  "all_ok ks s \<Longrightarrow> live (log s) = {} \<Longrightarrow> well_used (log s) \<Longrightarrow>
   live (log (cycles ks s)) = {} \<and> well_used (log (cycles ks s))"
proof (induction ks arbitrary: s)
  case Nil
  then show ?case by simp
next
  case (Cons k ks)
  then have "ini k s = (0, snd (ini k s))" and "ok k s" by (cases "ini k s"; simp)+
  from load_unload [OF this Cons.prems(2,3)] Cons show ?case by simp
qed

end

section \<open>Tasks\<close>

record fdtable =
  max_fds :: u32
  fd :: "nat \<Rightarrow> ptr"

record task_struct =
  pid :: u32
  static_prio :: u32
  comm :: "u8 list"
  real_parent :: ptr
  nvcsw :: u64
  files :: "fdtable option"
  t_mm :: ptr   \<comment> \<open>\<^verbatim>\<open>mm\<close>, shared by the threads of a process, null for a kernel thread\<close>

record mm_struct =
  stack_vm :: u64

text \<open>The process table as a handler sees it: the running task, the tasks behind the pointers,
  the lookup by number in the caller's namespace, the ring of threads, and the address spaces behind the
  pointers.\<close>

record tasks =
  current :: ptr
  task_at :: "ptr \<Rightarrow> task_struct"
  pid_task :: "u32 \<Rightarrow> ptr"
  next_thread :: "ptr \<Rightarrow> ptr"
  mm_at :: "ptr \<Rightarrow> mm_struct"

text \<open>
  What the assignment asks the commands 0 to 4 to report of a task: its number, static priority,
  command name, parent's number, and number of voluntary context switches, as text.
\<close>

definition attribute :: "tasks \<Rightarrow> ptr \<Rightarrow> u32 \<Rightarrow> u8 list option" where
  "attribute T t v =
     (if v = 0 then Some (dec_int (sint (pid (task_at T t))))
      else if v = 1 then Some (dec_int (sint (static_prio (task_at T t))))
      else if v = 2 then Some (takeWhile (\<lambda>c. c \<noteq> 0) (comm (task_at T t)))
      else if v = 3 then Some (dec_int (sint (pid (task_at T (real_parent (task_at T t))))))
      else if v = 4 then Some (dec_nat (unat (nvcsw (task_at T t))))
      else None)"

text \<open>
  Documented facts about the process table: there is a running task, it is found under its own
  number, and a command name has at most 16 bytes.
\<close>

definition tasks_ok :: "tasks \<Rightarrow> bool" where
  "tasks_ok T \<longleftrightarrow> current T \<noteq> 0 \<and> pid_task T (pid (task_at T (current T))) = current T \<and>
     length (comm (task_at T (current T))) \<le> 16"

text \<open>The user buffer holds the text and its terminator, and nothing else changed.\<close>

definition holds_text :: "u64 \<Rightarrow> u8 list \<Rightarrow> mem \<Rightarrow> mem \<Rightarrow> bool" where
  "holds_text a str m m' \<longleftrightarrow> mem_read a (Suc (length str)) m' = str @ [0] \<and>
     (\<forall>x. length str < unat (x - a) \<longrightarrow> m' x = m x)"

lemma holds_text_write:
  assumes "length str < 2 ^ 64"
  shows "holds_text a str m (mem_write a (str @ [0]) m)"
proof -
  have "length (str @ [0 :: u8]) \<le> 2 ^ 64" using assms by simp
  from mem_read_write_same [OF this, of a m] mem_write_outside [OF this] show ?thesis
    by (simp add: holds_text_def)
qed

text \<open>Every attribute of a task is shorter than 21 bytes.\<close>

lemma length_attribute:
  assumes "length (comm (task_at T t)) \<le> 16" "attribute T t v = Some str"
  shows "length str \<le> 20"
proof -
  have "length (takeWhile (\<lambda>c. c \<noteq> 0) (comm (task_at T t))) \<le> 16"
    using assms(1) length_takeWhile_le order_trans by blast
  moreover have "length (dec_int (sint (w :: u32))) \<le> 11" for w
    using length_sprintf_d [of w] by (simp add: sprintf_d_def)
  moreover have "length (dec_nat (unat (w :: u64))) \<le> 20" for w
    using length_sprintf_lu [of w] by (simp add: sprintf_lu_def)
  ultimately show ?thesis using assms(2)
    by (auto simp: attribute_def split: if_splits intro: order_trans [of _ 16] order_trans [of _ 11])
qed

end
