(* ===== verification/Part1.thy ===== *)
theory Part1
  imports Kernel
begin

text \<open>
  The single-process information driver, \<^verbatim>\<open>Assignment_1/part1/driver.c\<close>: a sysfs file stores a
  command number in \<^verbatim>\<open>cs614_value\<close>, and a read of the character device prints the attribute of
  the calling process that the command selects into the caller's buffer.
\<close>

record drv =
  chrdev +
  d_buf :: ptr
  cs614_value :: u32
  cs614_value_kobj :: ptr

definition DEVNAME :: string where "DEVNAME = ''cs614_device''"

section \<open>The sysfs file\<close>

definition sysfs_store :: "u8 list \<Rightarrow> u64 \<Rightarrow> drv \<Rightarrow> ssize_t \<times> drv" where
  "sysfs_store buf count s =
     (let s = (case sscanf_d buf of None \<Rightarrow> s | Some v \<Rightarrow> s\<lparr>cs614_value := v\<rparr>)
      in (count, s))"

definition cs614_sysfs_init :: "kapi \<Rightarrow> drv \<Rightarrow> u32 \<times> drv" where
  "cs614_sysfs_init k s =
     (let (kobj, s) = kobject_create_and_add k ''cs614_sysfs'' s;
          s = s\<lparr>cs614_value_kobj := kobj\<rparr>
      in if kobj = 0 then (- ENOMEM, s)
         else
           (let (ret, s) = sysfs_create_file k kobj ''cs614_value'' s
            in if ret \<noteq> 0 then (ret, kcalled (Kobject_put kobj) s) else (0, s)))"

definition cs614_sysfs_exit :: "drv \<Rightarrow> drv" where
  "cs614_sysfs_exit s =
     (let s = kcalled (Sysfs_remove_file (cs614_value_kobj s) ''cs614_value'') s
      in kcalled (Kobject_put (cs614_value_kobj s)) s)"

section \<open>The character device\<close>

definition demo_open :: "drv \<Rightarrow> u32 \<times> drv" where
  "demo_open s =
     (let s = s\<lparr>device_opened := device_opened s + 1\<rparr>
      in (0, kcalled Try_module_get s))"

definition demo_release :: "drv \<Rightarrow> u32 \<times> drv" where
  "demo_release s =
     (let s = s\<lparr>device_opened := device_opened s - 1\<rparr>
      in (0, kcalled Module_put s))"

text \<open>\<^verbatim>\<open>sprintf\<close> writes straight into the user buffer; the result is the return value and memory.\<close>

definition demo_read :: "tasks \<Rightarrow> u64 \<Rightarrow> u64 \<Rightarrow> mem \<Rightarrow> drv \<Rightarrow> ssize_t \<times> mem" where
  "demo_read T ubuf len m s =
     (let p = pid (task_at T (current T));
          task = pid_task T p
      in if len < 4 then (- EINVAL, m)
         else if cs614_value s = 0 then (len, mem_write ubuf (sprintf_d p) m)
         else if cs614_value s = 1 then
           (if task = 0 then (- ESRCH, m)
            else (len, mem_write ubuf (sprintf_d (static_prio (task_at T task))) m))
         else if cs614_value s = 2 then
           (if task = 0 then (- ESRCH, m)
            else (len, mem_write ubuf (sprintf_s (comm (task_at T task))) m))
         else if cs614_value s = 3 then
           (if task = 0 then (- ESRCH, m)
            else (len, mem_write ubuf (sprintf_d (pid (task_at T (real_parent (task_at T task))))) m))
         else if cs614_value s = 4 then
           (if task = 0 then (- ESRCH, m)
            else (len, mem_write ubuf (sprintf_lu (nvcsw (task_at T task))) m))
         else (- EINVAL, m))"

text \<open>\<^verbatim>\<open>mode\<close> may be null; it is changed only for this driver's device number.\<close>

definition demo_devnode :: "u32 \<Rightarrow> u16 option \<Rightarrow> drv \<Rightarrow> u16 option" where
  "demo_devnode devt mode s =
     (case mode of None \<Rightarrow> None | Some v \<Rightarrow> if devt = MKDEV (major s) 0 then Some 0x1B6 else Some v)"

section \<open>Loading and unloading\<close>

definition cs614_driver_init :: "kapi \<Rightarrow> drv \<Rightarrow> u32 \<times> drv" where
  "cs614_driver_init k s =
     (let s = snd (cs614_sysfs_init k s);
          (r, s) = register_chrdev k DEVNAME s;
          s = s\<lparr>major := r\<rparr>
      in if r <s 0 then (r, s)
         else
           (let (c, s) = class_create k DEVNAME s;
                s = s\<lparr>demo_class := c\<rparr>
            in if IS_ERR c then (PTR_ERR c, kcalled (Unregister_chrdev (major s) DEVNAME) s)
               else
                 (let (d, s) = device_create k c (MKDEV (major s) 0) DEVNAME s;
                      s = s\<lparr>demo_device := d\<rparr>
                  in if IS_ERR d then
                       (let s = kcalled (Class_destroy (demo_class s)) s
                        in (PTR_ERR d, kcalled (Unregister_chrdev (major s) DEVNAME) s))
                     else
                       (let (b, s) = kalloc k 4096 s;
                            s = s\<lparr>d_buf := b\<rparr>
                        in (0, s\<lparr>device_opened := 0\<rparr>)))))"

definition cs614_driver_exit :: "drv \<Rightarrow> drv" where
  "cs614_driver_exit s =
     (let s = cs614_sysfs_exit s;
          s = kcalled (Kfree (d_buf s)) s;
          s = kcalled (Device_destroy (demo_class s) (MKDEV (major s) 0)) s;
          s = kcalled (Class_destroy (demo_class s)) s
      in kcalled (Unregister_chrdev (major s) DEVNAME) s)"

lemmas part1_defs = cs614_sysfs_init_def cs614_sysfs_exit_def cs614_driver_init_def
  cs614_driver_exit_def kernel_defs Let_def

section \<open>Lemmas\<close>

text \<open>The sysfs part of the initialisation succeeded.\<close>

definition sysfs_ok :: "kapi \<Rightarrow> drv \<Rightarrow> bool" where
  "sysfs_ok k s \<longleftrightarrow> fst (cs614_sysfs_init k s) = 0"

interpretation p1_files: chrdev_files demo_open demo_release device_opened klog
  "\<lambda>s. (major s, demo_class s, demo_device s, d_buf s, cs614_value s, cs614_value_kobj s)"
  by unfold_locales (simp_all add: demo_open_def demo_release_def kcalled_def Let_def)

interpretation p1_module: chrdev_module cs614_driver_init cs614_driver_exit klog sysfs_ok
proof
  fix k s s'
  assume *: "cs614_driver_init k s = (0, s')" "sysfs_ok k s" "live (klog s) = {}" "well_used (klog s)"
  show "live (klog (cs614_driver_exit s')) = {} \<and> well_used (klog (cs614_driver_exit s'))"
    using * PTR_ERR_nonzero
    by (auto simp: part1_defs sysfs_ok_def ENOMEM_def split: if_splits)
qed

section \<open>Properties\<close>

lemma demo_read_eq:
  assumes "tasks_ok T" "attribute T (current T) (cs614_value s) = Some str" "4 \<le> len"
  shows "demo_read T ubuf len m s = (len, mem_write ubuf (str @ [0]) m)"
  using assms
  by (auto simp: demo_read_def attribute_def tasks_ok_def Let_def sprintf_d_def sprintf_lu_def
      sprintf_s_def split: if_splits)

text \<open>
  C28: after a process has written a number \<open>v\<close> from 0 to 4 into the sysfs file, its read of the
  device with a buffer of at least 4 bytes returns the buffer length, and the buffer then holds
  the text of the attribute \<open>v\<close> of that process followed by the terminator, with no other byte of
  memory changed.
\<close>

theorem part1_store_then_read:
  assumes "tasks_ok T" and "sscanf_d buf = Some v"
    and "attribute T (current T) v = Some str" and "4 \<le> len"
  shows "fst (sysfs_store buf count s) = count \<and>
    (\<exists>m'. demo_read T ubuf len m (snd (sysfs_store buf count s)) = (len, m') \<and>
      holds_text ubuf str m m')"
proof -
  from assms(2) have stored: "fst (sysfs_store buf count s) = count"
      "cs614_value (snd (sysfs_store buf count s)) = v"
    by (auto simp: sysfs_store_def Let_def)
  have "length str \<le> 20"
    using assms(1,3) by (auto simp: tasks_ok_def intro: length_attribute)
  then have "holds_text ubuf str m (mem_write ubuf (str @ [0]) m)"
    by (intro holds_text_write) simp
  with demo_read_eq [of T "snd (sysfs_store buf count s)" str len] assms(1,3,4) stored
  show ?thesis by auto
qed

text \<open>A process table with one task, number 4711, whose parent is itself.\<close>

definition sample_tasks :: tasks where
  "sample_tasks =
     \<lparr>current = 1,
      task_at = (\<lambda>_. \<lparr>pid = 4711, static_prio = 120, comm = [115, 104, 0], real_parent = 1, nvcsw = 7,
         files = None, t_mm = 0\<rparr>),
      pid_task = (\<lambda>_. 1), next_thread = (\<lambda>t. t), mm_at = (\<lambda>_. \<lparr>stack_vm = 34\<rparr>)\<rparr>"

definition loaded :: drv where
  "loaded = \<lparr>major = 240, device_opened = 0, demo_class = 1, demo_device = 2, klog = [],
     d_buf = 3, cs614_value = 0, cs614_value_kobj = 4\<rparr>"

theorem part1_store_then_read_witness:
  "fst (sysfs_store [50, 10] 2 loaded) = 2 \<and>
   (\<exists>m'. demo_read sample_tasks 4096 16 (\<lambda>_. 0) (snd (sysfs_store [50, 10] 2 loaded)) = (16, m') \<and>
     holds_text 4096 [115, 104] (\<lambda>_. 0) m')"
proof -
  have 1: "tasks_ok sample_tasks" by (simp add: tasks_ok_def sample_tasks_def)
  have 2: "sscanf_d [50, 10] = Some 2" by code_simp
  have 3: "attribute sample_tasks (current sample_tasks) 2 = Some [115, 104]"
    by (simp add: attribute_def sample_tasks_def)
  show ?thesis by (rule part1_store_then_read [OF 1 2 3]) simp
qed

text \<open>
  the error branches.  A buffer of fewer than 4 bytes and a command above 4 give
  \<^verbatim>\<open>-EINVAL\<close>, a command from 1 to 4 for a task that is not found gives \<^verbatim>\<open>-ESRCH\<close>; none of them writes
  memory.  Text that is not a number is accepted by the sysfs file and leaves the command as it was.
\<close>

lemma part1_errors:
  "(len < 4 \<longrightarrow> demo_read T ubuf len m s = (- 22, m)) \<and>
   (4 < cs614_value s \<longrightarrow> demo_read T ubuf len m s = (- 22, m)) \<and>
   (4 \<le> len \<and> cs614_value s \<in> {1, 2, 3, 4} \<and> pid_task T (pid (task_at T (current T))) = 0 \<longrightarrow>
      demo_read T ubuf len m s = (- 3, m)) \<and>
   (sscanf_d buf = None \<longrightarrow> sysfs_store buf count s = (count, s))"
proof -
  have "4 < cs614_value s \<Longrightarrow> cs614_value s \<noteq> 0 \<and> cs614_value s \<noteq> 1 \<and> cs614_value s \<noteq> 2 \<and>
      cs614_value s \<noteq> 3 \<and> cs614_value s \<noteq> 4"
    by auto
  then show ?thesis
    by (auto simp: demo_read_def sysfs_store_def Let_def errno_defs not_less [symmetric])
qed



text \<open>
  Loading and unloading part 1.  A load whose sysfs part succeeded is undone completely by the unload:
  starting from a module that owns nothing, afterwards it owns nothing again, and every release gave back
  an object that was owned at that moment.  When the device registration fails, the sysfs directory
  and file created first stay behind, since no error path removes them.  When the sysfs file
  cannot be created, its error is ignored, the load succeeds, and the unload drops the directory
  object a second time.
\<close>

lemma part1_load_unload:
  assumes "cs614_driver_init k s = (e, s')" and "live (klog s) = {}" and "well_used (klog s)"
  shows "(e = 0 \<and> fst (cs614_sysfs_init k s) = 0 \<longrightarrow>
      live (klog (cs614_driver_exit s')) = {} \<and> well_used (klog (cs614_driver_exit s'))) \<and>
    (e \<noteq> 0 \<and> fst (cs614_sysfs_init k s) = 0 \<longrightarrow>
      live (klog s') = {R_kobj (cs614_value_kobj s'), R_sysfs (cs614_value_kobj s') ''cs614_value''}) \<and>
    (e = 0 \<and> cs614_value_kobj s' \<noteq> 0 \<and> fst (cs614_sysfs_init k s) \<noteq> 0 \<longrightarrow>
      \<not> well_used (klog (cs614_driver_exit s')))"
proof (intro conjI)
  show "e = 0 \<and> fst (cs614_sysfs_init k s) = 0 \<longrightarrow>
      live (klog (cs614_driver_exit s')) = {} \<and> well_used (klog (cs614_driver_exit s'))"
    using p1_module.load_unload [of k s s'] assms by (simp add: sysfs_ok_def)
  show "e \<noteq> 0 \<and> fst (cs614_sysfs_init k s) = 0 \<longrightarrow>
      live (klog s') = {R_kobj (cs614_value_kobj s'), R_sysfs (cs614_value_kobj s') ''cs614_value''}"
    using assms by (auto simp: part1_defs ENOMEM_def split: if_splits)
  show "e = 0 \<and> cs614_value_kobj s' \<noteq> 0 \<and> fst (cs614_sysfs_init k s) \<noteq> 0 \<longrightarrow> \<not> well_used (klog (cs614_driver_exit s'))"
    using assms PTR_ERR_nonzero by (auto simp: part1_defs ENOMEM_def split: if_splits)
qed

end
