(* ===== verification/Nodes.thy ===== *)
theory Nodes
  imports Kernel
begin

text \<open>
  The list of commands that parts 2 and 3 of the process-information driver keep: a singly linked
  list of heap nodes, one per write to the sysfs file, newest first, guarded by a mutex.  The list
  lives in an explicit store (\<open>heap\<close>); \<open>is_list\<close> is its shape.  What the drivers rely on is the
  locale \<open>command_store\<close>, interpreted on the two operations.
\<close>

section \<open>Nodes and operations\<close>

record node =
  n_pid :: u32
  n_value :: u32
  n_next :: ptr

record nodes =
  chrdev +
  cs614_mutex :: bool
  head :: ptr
  heap :: "ptr \<Rightarrow> node"

text \<open>
  \<^verbatim>\<open>new_node = kmalloc(...); new_node->pid = ...; new_node->next = head; head = new_node;\<close>  The
  allocation is not checked: a null pointer is dereferenced.
\<close>

definition add_node :: "kapi \<Rightarrow> u32 \<Rightarrow> u32 \<Rightarrow> 'a nodes_scheme \<Rightarrow> 'a nodes_scheme outcome" where
  "add_node k p v s =
     (let (new_node, s) = kalloc k 16 s
      in if new_node = 0 then Oops
         else
           (let s = s\<lparr>heap := (heap s)(new_node := \<lparr>n_pid = p, n_value = v, n_next = head s\<rparr>)\<rparr>
            in Done (s\<lparr>head := new_node\<rparr>)))"

text \<open>\<^verbatim>\<open>temp = head; while (temp != NULL) { if (temp->pid == pid) break; temp = temp->next; }\<close>\<close>

definition find_node :: "u32 \<Rightarrow> 'a nodes_scheme \<Rightarrow> ptr outcome" where
  "find_node p s =
     (case while_option (\<lambda>temp. temp \<noteq> 0 \<and> n_pid (heap s temp) \<noteq> p) (\<lambda>temp. n_next (heap s temp)) (head s) of
        None \<Rightarrow> Hang
      | Some temp \<Rightarrow> Done temp)"

section \<open>The shape of the list\<close>

fun is_list :: "(ptr \<Rightarrow> node) \<Rightarrow> ptr \<Rightarrow> ptr list \<Rightarrow> bool" where
  "is_list h p [] = (p = 0)"
| "is_list h p (q # qs) = (p = q \<and> q \<noteq> 0 \<and> is_list h (n_next (h q)) qs)"

definition list_inv :: "'a nodes_scheme \<Rightarrow> bool" where
  "list_inv s \<longleftrightarrow> (\<exists>qs. is_list (heap s) (head s) qs \<and> (\<forall>q \<in> set qs. R_mem q \<in> live (klog s)))"

text \<open>Between two operations the mutex is free as well.\<close>

definition nodes_inv :: "'a nodes_scheme \<Rightarrow> bool" where
  "nodes_inv s \<longleftrightarrow> \<not> cs614_mutex s \<and> list_inv s"

text \<open>The command a process wrote last, as the abstract content of the list.\<close>

definition command_of :: "u32 \<Rightarrow> 'a nodes_scheme \<Rightarrow> u32 option" where
  "command_of p s =
     (case find_node p s of Done temp \<Rightarrow> if temp = 0 then None else Some (n_value (heap s temp)) | _ \<Rightarrow> None)"

lemma is_list_upd: "q \<notin> set qs \<Longrightarrow> is_list (h(q := n)) p qs = is_list h p qs"
  by (induction h p qs rule: is_list.induct) auto

text \<open>Searching a list returns, with the first node of the process or null.\<close>

lemma find_in_list:
  assumes "is_list h p qs"
  shows "while_option (\<lambda>temp. temp \<noteq> 0 \<and> n_pid (h temp) \<noteq> a) (\<lambda>temp. n_next (h temp)) p =
    Some (case find (\<lambda>q. n_pid (h q) = a) qs of None \<Rightarrow> 0 | Some q \<Rightarrow> q)"
  using assms
proof (induction qs arbitrary: p)
  case Nil
  then show ?case by (simp add: while_option_False)
next
  case (Cons q qs)
  then show ?case by (cases "n_pid (h q) = a") (simp_all add: while_option_False while_option_True)
qed

lemma find_node_list:
  "is_list (heap s) (head s) qs \<Longrightarrow>
   find_node p s = Done (case find (\<lambda>q. n_pid (heap s q) = p) qs of None \<Rightarrow> 0 | Some q \<Rightarrow> q)"
  by (simp add: find_node_def find_in_list)

lemma is_list_nonzero: "is_list h p qs \<Longrightarrow> 0 \<notin> set qs"
  by (induction h p qs rule: is_list.induct) auto

lemma command_of_list:
  assumes "is_list (heap s) (head s) qs"
  shows "command_of p s = map_option (\<lambda>q. n_value (heap s q)) (find (\<lambda>q. n_pid (heap s q) = p) qs)"
proof -
  have "find (\<lambda>q. n_pid (heap s q) = p) qs = Some q \<Longrightarrow> q \<noteq> 0" for q
    using is_list_nonzero [OF assms] by (auto simp: find_Some_iff) (metis nth_mem)
  then show ?thesis using assms by (auto simp: command_of_def find_node_list split: option.splits)
qed

lemma find_node_returns: "list_inv s \<Longrightarrow> \<exists>temp. find_node p s = Done temp"
  by (auto simp: list_inv_def find_node_list)

lemma find_node_command:
  assumes "list_inv s"
  shows "\<exists>temp. find_node p s = Done temp \<and>
    command_of p s = (if temp = 0 then None else Some (n_value (heap s temp)))"
  using find_node_returns [OF assms, of p] by (auto simp: command_of_def)

text \<open>The other variables of a driver do not matter.\<close>

lemma nodes_cong:
  assumes "heap s' = heap s" "head s' = head s"
  shows "find_node p s' = find_node p s" "command_of p s' = command_of p s"
    "klog s' = klog s \<Longrightarrow> list_inv s' = list_inv s"
  unfolding find_node_def command_of_def list_inv_def assms by simp_all

text \<open>The allocation succeeds and the object is not one the module still owns.\<close>

definition fresh_alloc :: "kapi \<Rightarrow> 'a chrdev_scheme \<Rightarrow> bool" where
  "fresh_alloc k s \<longleftrightarrow> k_alloc k (klog s) \<noteq> 0 \<and> R_mem (k_alloc k (klog s)) \<notin> live (klog s)"

lemma add_node_list:
  assumes "list_inv s" "fresh_alloc k s"
  shows "\<exists>s'. add_node k p v s = Done s' \<and> list_inv s' \<and>
    (\<forall>q. command_of q s' = (if q = p then Some v else command_of q s)) \<and>
    klog s' = Kalloc 16 (k_alloc k (klog s)) # klog s \<and> cs614_mutex s' = cs614_mutex s"
proof -
  obtain qs where qs: "is_list (heap s) (head s) qs" "\<forall>q \<in> set qs. R_mem q \<in> live (klog s)"
    using assms(1) by (auto simp: list_inv_def)
  let ?n = "k_alloc k (klog s)"
  let ?s = "s\<lparr>klog := Kalloc 16 ?n # klog s, heap := (heap s)(?n := \<lparr>n_pid = p, n_value = v, n_next = head s\<rparr>), head := ?n\<rparr>"
  have n: "?n \<noteq> 0" "?n \<notin> set qs" using assms(2) qs(2) by (auto simp: fresh_alloc_def)
  have add: "add_node k p v s = Done ?s" using n by (simp add: add_node_def kalloc_def kcalled_def Let_def)
  have l: "is_list (heap ?s) (head ?s) (?n # qs)" using n qs by (simp add: is_list_upd)
  have inv: "list_inv ?s" unfolding list_inv_def
    using n qs l by (intro exI [of _ "?n # qs"]) simp
  have "find (\<lambda>q. n_pid (heap ?s q) = r) qs = find (\<lambda>q. n_pid (heap s q) = r) qs" for r
    using n(2) by (auto intro: find_cong)
  moreover have "q \<noteq> ?n" if "find (\<lambda>q. n_pid (heap s q) = r) qs = Some q" for q r
    using that n(2) nth_mem by (fastforce simp: find_Some_iff)
  ultimately have "command_of q ?s = (if q = p then Some v else command_of q s)" for q
    unfolding command_of_list [OF l] command_of_list [OF qs(1)]
    by (cases "find (\<lambda>r. n_pid (heap s r) = q) qs") auto
  with add inv show ?thesis by auto
qed

section \<open>What the drivers rely on\<close>

text \<open>
  Per process one command: adding one changes that of its own process only, and keeps the store
  usable.  \<open>ok\<close> is the condition under which an addition is granted.
\<close>

locale command_store =
  fixes inv :: "'s \<Rightarrow> bool" and ok :: "'s \<Rightarrow> bool" and add :: "u32 \<Rightarrow> u32 \<Rightarrow> 's \<Rightarrow> 's outcome"
    and cmd :: "u32 \<Rightarrow> 's \<Rightarrow> u32 option"
  assumes add_ok: "inv s \<Longrightarrow> ok s \<Longrightarrow>
    \<exists>s'. add p v s = Done s' \<and> inv s' \<and> (\<forall>q. cmd q s' = (if q = p then Some v else cmd q s))"
begin

fun adds :: "(u32 \<times> u32) list \<Rightarrow> 's \<Rightarrow> 's outcome" where
  "adds [] s = Done s"
| "adds ((p, v) # xs) s = obind (add p v s) (adds xs)"

fun adds_ok :: "(u32 \<times> u32) list \<Rightarrow> 's \<Rightarrow> bool" where
  "adds_ok [] s = True"
| "adds_ok ((p, v) # xs) s = (ok s \<and> (case add p v s of Done s \<Rightarrow> adds_ok xs s | _ \<Rightarrow> False))"

text \<open>Whatever the interleaving, a process has the command it wrote last, and one that wrote nothing has
  the one it had.\<close>

lemma adds_last:
  "inv s \<Longrightarrow> adds_ok xs s \<Longrightarrow>
   \<exists>s'. adds xs s = Done s' \<and> inv s' \<and>
     (\<forall>q. cmd q s' = (case map_of (rev xs) q of None \<Rightarrow> cmd q s | Some v \<Rightarrow> Some v))"
proof (induction xs s rule: adds.induct)
  case (1 s)
  then show ?case by simp
next
  case (2 p v xs s)
  then obtain s1 where s1: "add p v s = Done s1" "inv s1" "\<forall>q. cmd q s1 = (if q = p then Some v else cmd q s)"
    using add_ok [of s p v] by auto
  have "adds_ok xs s1" using 2(3) s1(1) by simp
  with 2(1) [OF s1(2)] obtain s' where s': "adds xs s1 = Done s'" "inv s'"
    "\<forall>q. cmd q s' = (case map_of (rev xs) q of None \<Rightarrow> cmd q s1 | Some v \<Rightarrow> Some v)"
    by blast
  have "cmd q s' = (case map_of (rev ((p, v) # xs)) q of None \<Rightarrow> cmd q s | Some v \<Rightarrow> Some v)" for q
    using s1(3) s'(3) by (cases "map_of (rev xs) q") (auto simp: map_add_def)
  with s1 s' show ?case by auto
qed

end

interpretation nodes: command_store list_inv "fresh_alloc k" "add_node k" command_of
  for k
proof
  fix s :: "'a nodes_scheme" and p v
  assume "list_inv s" "fresh_alloc k s"
  from add_node_list [OF this, of p v]
  show "\<exists>s'. add_node k p v s = Done s' \<and> list_inv s' \<and>
      (\<forall>q. command_of q s' = (if q = p then Some v else command_of q s))" by blast
qed

end
