(* ===== verification/Part2.thy ===== *)
theory Part2
  imports Nodes
begin

text \<open>
  The multi-process information driver, \<^verbatim>\<open>Assignment_1/part2/driver.c\<close>: every write to the sysfs
  file adds a node with the writer's number and the command to a list, and a read looks up the
  reader's newest node.  \<open>junk\<close> is what the uninitialised \<^verbatim>\<open>cs614_value1\<close> holds when there is none.
\<close>

record drv =
  nodes +
  d_buf :: ptr
  cs614_value :: u32
  cs614_value_kobj :: ptr

definition DEVNAME :: string where "DEVNAME = ''cs614_device''"

section \<open>The sysfs file\<close>

definition sysfs_store :: "kapi \<Rightarrow> tasks \<Rightarrow> u8 list \<Rightarrow> u64 \<Rightarrow> drv \<Rightarrow> (ssize_t \<times> drv) outcome" where
  "sysfs_store k T buf count s =
     (if cs614_mutex s then Hang
      else
        (let s = s\<lparr>cs614_mutex := True\<rparr>;
             s = (case sscanf_d buf of None \<Rightarrow> s | Some v \<Rightarrow> s\<lparr>cs614_value := v\<rparr>)
         in obind (add_node k (pid (task_at T (current T))) (cs614_value s) s) (\<lambda>s.
              Done (count, s\<lparr>cs614_mutex := False\<rparr>))))"

definition cs614_sysfs_init :: "kapi \<Rightarrow> drv \<Rightarrow> u32 \<times> drv" where
  "cs614_sysfs_init k s =
     (let (kobj, s) = kobject_create_and_add k ''cs614_sysfs'' s;
          s = s\<lparr>cs614_value_kobj := kobj\<rparr>
      in if kobj = 0 then (- ENOMEM, s)
         else
           (let (ret, s) = sysfs_create_file k kobj ''cs614_value'' s
            in if ret \<noteq> 0 then (ret, kcalled (Kobject_put kobj) s) else (0, s)))"

definition cs614_sysfs_exit :: "drv \<Rightarrow> drv" where
  "cs614_sysfs_exit s =
     (let s = kcalled (Sysfs_remove_file (cs614_value_kobj s) ''cs614_value'') s
      in kcalled (Kobject_put (cs614_value_kobj s)) s)"

section \<open>The character device\<close>

definition demo_open :: "drv \<Rightarrow> u32 \<times> drv" where
  "demo_open s =
     (let s = s\<lparr>device_opened := device_opened s + 1\<rparr>
      in (0, kcalled Try_module_get s))"

definition demo_release :: "drv \<Rightarrow> u32 \<times> drv" where
  "demo_release s =
     (let s = s\<lparr>device_opened := device_opened s - 1\<rparr>
      in (0, kcalled Module_put s))"

definition demo_read :: "tasks \<Rightarrow> u32 \<Rightarrow> u64 \<Rightarrow> u64 \<Rightarrow> mem \<Rightarrow> drv \<Rightarrow> (ssize_t \<times> mem) outcome" where
  "demo_read T junk ubuf len m s =
     (let p = pid (task_at T (current T))
      in if cs614_mutex s then Hang
         else obind (find_node p s) (\<lambda>temp.
           let cs614_value1 = (if temp = 0 then junk else n_value (heap s temp));
               task = pid_task T p
           in Done
             (if len < 4 then (- EINVAL, m)
              else if cs614_value1 = 0 then (len, mem_write ubuf (sprintf_d p) m)
              else if cs614_value1 = 1 then
                (if task = 0 then (- ESRCH, m)
                 else (len, mem_write ubuf (sprintf_d (static_prio (task_at T task))) m))
              else if cs614_value1 = 2 then
                (if task = 0 then (- ESRCH, m)
                 else (len, mem_write ubuf (sprintf_s (comm (task_at T task))) m))
              else if cs614_value1 = 3 then
                (if task = 0 then (- ESRCH, m)
                 else (len, mem_write ubuf (sprintf_d (pid (task_at T (real_parent (task_at T task))))) m))
              else if cs614_value1 = 4 then
                (if task = 0 then (- ESRCH, m)
                 else (len, mem_write ubuf (sprintf_lu (nvcsw (task_at T task))) m))
              else (- EINVAL, m))))"

definition demo_devnode :: "u32 \<Rightarrow> u16 option \<Rightarrow> drv \<Rightarrow> u16 option" where
  "demo_devnode devt mode s =
     (case mode of None \<Rightarrow> None | Some v \<Rightarrow> if devt = MKDEV (major s) 0 then Some 0x1B6 else Some v)"

section \<open>Loading and unloading\<close>

definition cs614_driver_init :: "kapi \<Rightarrow> drv \<Rightarrow> u32 \<times> drv" where
  "cs614_driver_init k s =
     (let s = s\<lparr>cs614_mutex := False\<rparr>;
          s = snd (cs614_sysfs_init k s);
          (r, s) = register_chrdev k DEVNAME s;
          s = s\<lparr>major := r\<rparr>
      in if r <s 0 then (r, s)
         else
           (let (c, s) = class_create k DEVNAME s;
                s = s\<lparr>demo_class := c\<rparr>
            in if IS_ERR c then (PTR_ERR c, kcalled (Unregister_chrdev (major s) DEVNAME) s)
               else
                 (let (d, s) = device_create k c (MKDEV (major s) 0) DEVNAME s;
                      s = s\<lparr>demo_device := d\<rparr>
                  in if IS_ERR d then
                       (let s = kcalled (Class_destroy (demo_class s)) s
                        in (PTR_ERR d, kcalled (Unregister_chrdev (major s) DEVNAME) s))
                     else
                       (let s = s\<lparr>cs614_mutex := True\<rparr>;
                            (b, s) = kalloc k 4096 s;
                            s = s\<lparr>d_buf := b\<rparr>;
                            s = s\<lparr>cs614_mutex := False\<rparr>
                        in (0, s\<lparr>device_opened := 0\<rparr>)))))"

definition cs614_driver_exit :: "drv \<Rightarrow> drv" where
  "cs614_driver_exit s =
     (let s = cs614_sysfs_exit s;
          s = kcalled (Kfree (d_buf s)) s;
          s = kcalled (Device_destroy (demo_class s) (MKDEV (major s) 0)) s;
          s = kcalled (Class_destroy (demo_class s)) s
      in kcalled (Unregister_chrdev (major s) DEVNAME) s)"

lemmas part2_defs = cs614_sysfs_init_def cs614_sysfs_exit_def cs614_driver_init_def
  cs614_driver_exit_def kernel_defs Let_def

section \<open>Commands of several processes\<close>

text \<open>The critical section of a write, on the number read from the text.\<close>

definition store_value :: "kapi \<Rightarrow> u32 \<Rightarrow> u32 \<Rightarrow> drv \<Rightarrow> drv outcome" where
  "store_value k p v s =
     (if cs614_mutex s then Hang
      else obind (add_node k p v (s\<lparr>cs614_mutex := True, cs614_value := v\<rparr>)) (\<lambda>s. Done (s\<lparr>cs614_mutex := False\<rparr>)))"

lemma sysfs_store_eq:
  "sysfs_store k T buf count s =
     obind (store_value k (pid (task_at T (current T))) (case sscanf_d buf of None \<Rightarrow> cs614_value s | Some v \<Rightarrow> v) s)
       (\<lambda>s. Done (count, s))"
proof -
  have "s\<lparr>cs614_mutex := True, cs614_value := cs614_value s\<rparr> = s\<lparr>cs614_mutex := True\<rparr>" by (cases s) simp
  then show ?thesis
    by (cases "sscanf_d buf") (simp_all add: sysfs_store_def store_value_def obind_def Let_def split: outcome.splits)
qed

lemma store_value_ok:
  assumes "nodes_inv s" "fresh_alloc k s"
  shows "\<exists>s'. store_value k p v s = Done s' \<and> nodes_inv s' \<and>
    (\<forall>q. command_of q s' = (if q = p then Some v else command_of q s)) \<and>
    klog s' = Kalloc 16 (k_alloc k (klog s)) # klog s"
proof -
  let ?s1 = "s\<lparr>cs614_mutex := True, cs614_value := v\<rparr>"
  have "list_inv ?s1" "fresh_alloc k ?s1"
    using assms nodes_cong(3) [of ?s1 s] by (simp_all add: nodes_inv_def fresh_alloc_def)
  from add_node_list [OF this, of p v] obtain s2 where s2: "add_node k p v ?s1 = Done s2" "list_inv s2"
    "\<forall>q. command_of q s2 = (if q = p then Some v else command_of q ?s1)"
    "klog s2 = Kalloc 16 (k_alloc k (klog s)) # klog s" by auto
  let ?s3 = "s2\<lparr>cs614_mutex := False\<rparr>"
  have "store_value k p v s = Done ?s3" using assms s2 by (simp add: store_value_def nodes_inv_def)
  moreover have "nodes_inv ?s3" using s2 nodes_cong(3) [of ?s3 s2] by (simp add: nodes_inv_def)
  moreover have "command_of q ?s3 = (if q = p then Some v else command_of q s)" for q
    using s2(3) nodes_cong(2) [of ?s3 s2 q] nodes_cong(2) [of ?s1 s q] by simp
  ultimately show ?thesis using s2(4) by auto
qed

interpretation p2_store: command_store nodes_inv "fresh_alloc k" "store_value k" command_of for k
  using store_value_ok by unfold_locales blast

interpretation p2_files: chrdev_files demo_open demo_release device_opened klog
  "\<lambda>s. (major s, demo_class s, demo_device s, d_buf s, cs614_value s, cs614_value_kobj s, head s, heap s, cs614_mutex s)"
  by unfold_locales (simp_all add: demo_open_def demo_release_def kcalled_def Let_def)

text \<open>A history of writes to the sysfs file, each by the process running at that time; reads in between
  change nothing.\<close>

fun stores :: "kapi \<Rightarrow> (tasks \<times> u8 list) list \<Rightarrow> drv \<Rightarrow> drv outcome" where
  "stores k [] s = Done s"
| "stores k ((T, buf) # xs) s =
     obind (sysfs_store k T buf (of_nat (length buf)) s) (\<lambda>(r, s). stores k xs s)"

fun stores_granted :: "kapi \<Rightarrow> (tasks \<times> u8 list) list \<Rightarrow> drv \<Rightarrow> bool" where
  "stores_granted k [] s = True"
| "stores_granted k ((T, buf) # xs) s =
     (fresh_alloc k s \<and>
      (case sysfs_store k T buf (of_nat (length buf)) s of Done (r, s) \<Rightarrow> stores_granted k xs s | _ \<Rightarrow> False))"

definition numeric :: "tasks \<times> u8 list \<Rightarrow> bool" where
  "numeric x \<longleftrightarrow> sscanf_d (snd x) \<noteq> None"

definition entry :: "tasks \<times> u8 list \<Rightarrow> u32 \<times> u32" where
  "entry x = (pid (task_at (fst x) (current (fst x))), case sscanf_d (snd x) of None \<Rightarrow> 0 | Some v \<Rightarrow> v)"

lemma stores_adds:
  "list_all numeric xs \<Longrightarrow> stores k xs s = p2_store.adds k (map entry xs) s"
  "list_all numeric xs \<Longrightarrow> stores_granted k xs s \<Longrightarrow> p2_store.adds_ok k (map entry xs) s"
proof (induction k xs s rule: stores.induct)
  case (2 k T buf xs s)
  { case 1
    then show ?case using 2 by (auto simp: sysfs_store_eq entry_def numeric_def obind_def split: outcome.splits)
  next
    case 2
    then show ?case using "2.IH" by (auto simp: sysfs_store_eq entry_def numeric_def obind_def split: outcome.splits) }
qed simp_all

lemma part2_read_eq:
  assumes "nodes_inv s" "tasks_ok T" "4 \<le> len"
    "v = (case command_of (pid (task_at T (current T))) s of None \<Rightarrow> junk | Some v \<Rightarrow> v)"
    "attribute T (current T) v = Some str"
  shows "demo_read T junk ubuf len m s = Done (len, mem_write ubuf (str @ [0]) m)"
proof -
  obtain temp where "find_node (pid (task_at T (current T))) s = Done temp"
    "command_of (pid (task_at T (current T))) s = (if temp = 0 then None else Some (n_value (heap s temp)))"
    using find_node_command assms(1) unfolding nodes_inv_def by blast
  then show ?thesis using assms
    by (auto simp: demo_read_def nodes_inv_def tasks_ok_def attribute_def sprintf_d_def sprintf_lu_def sprintf_s_def
        Let_def split: if_splits)
qed

section \<open>Properties\<close>

text \<open>
  C30: Processes do not disturb each other.  After any interleaving of writes by any processes, each of
  a number and each granted its memory, a process that wrote at least once reads the attribute selected
  by the number it wrote last itself, as text in its buffer and with no other byte changed, and the
  list is intact.
\<close>

theorem part2_isolation:
  assumes "nodes_inv s" "list_all numeric xs" "stores_granted k xs s" "tasks_ok T"
    "map_of (rev (map entry xs)) (pid (task_at T (current T))) = Some v"
    "attribute T (current T) v = Some str" "4 \<le> len"
  shows "\<exists>s'. stores k xs s = Done s' \<and> nodes_inv s' \<and>
    (\<exists>m'. demo_read T junk ubuf len m s' = Done (len, m') \<and> holds_text ubuf str m m')"
proof -
  obtain s' where s': "stores k xs s = Done s'" "nodes_inv s'"
    "\<forall>q. command_of q s' = (case map_of (rev (map entry xs)) q of None \<Rightarrow> command_of q s | Some v \<Rightarrow> Some v)"
    using p2_store.adds_last [OF assms(1) stores_adds(2) [OF assms(2,3)]] unfolding stores_adds(1) [OF assms(2)] by blast
  have "length str \<le> 20" using assms(4,6) by (auto simp: tasks_ok_def intro: length_attribute)
  then have "holds_text ubuf str m (mem_write ubuf (str @ [0]) m)" by (intro holds_text_write) simp
  moreover have "demo_read T junk ubuf len m s' = Done (len, mem_write ubuf (str @ [0]) m)"
    using part2_read_eq [OF s'(2) assms(4,7) _ assms(6), of junk] s'(3) assms(5) by simp
  ultimately show ?thesis using s' by blast
qed

text \<open>A task table in which the process of number \<open>p\<close> runs, and the driver after loading.\<close>

definition running :: "u32 \<Rightarrow> tasks" where
  "running p =
     \<lparr>current = 1,
      task_at = (\<lambda>_. \<lparr>pid = p, static_prio = 120, comm = [115, 104, 0], real_parent = 1, nvcsw = 7,
         files = None, t_mm = 0\<rparr>),
      pid_task = (\<lambda>_. 1), next_thread = (\<lambda>t. t), mm_at = (\<lambda>_. \<lparr>stack_vm = 34\<rparr>)\<rparr>"

definition loaded :: drv where
  "loaded = \<lparr>major = 240, device_opened = 0, demo_class = 1, demo_device = 2, klog = [],
     cs614_mutex = False, head = 0, heap = (\<lambda>_. \<lparr>n_pid = 0, n_value = 0, n_next = 0\<rparr>),
     d_buf = 3, cs614_value = 0, cs614_value_kobj = 4\<rparr>"

lemma running_simps [simp]:
  "tasks_ok (running p)" "pid (task_at (running p) q) = p" "current (running p) = 1"
  "attribute (running p) 1 2 = Some [115, 104]"
  by (simp_all add: running_def tasks_ok_def attribute_def)

lemma loaded_inv [simp]: "nodes_inv loaded"
  by (auto simp: nodes_inv_def list_inv_def loaded_def intro: exI [of _ "[]"])

lemma sscanf_examples [simp]: "sscanf_d [50, 10] = Some 2" "sscanf_d [49] = Some 1" "sscanf_d [120] = None"
  by code_simp+

theorem part2_isolation_witness:
  "\<exists>s'. stores granting [(running 100, [50, 10]), (running 200, [49])] loaded = Done s' \<and>
    (\<exists>m'. demo_read (running 100) 99 4096 16 (\<lambda>_. 0) s' = Done (16, m') \<and> holds_text 4096 [115, 104] (\<lambda>_. 0) m')"
proof -
  let ?xs = "[(running 100, [50, 10]), (running 200, [49])]"
  have "stores_granted granting ?xs loaded"
    by (simp add: fresh_alloc_def sysfs_store_def add_node_def kernel_defs granting_def loaded_def)
  with part2_isolation [of loaded ?xs granting "running 100" 2 "[115, 104]" 16 99 4096 "\<lambda>_. 0"] show ?thesis
    by (auto simp: numeric_def entry_def simp del: stores.simps stores_granted.simps)
qed

text \<open>
  A write of text that is not a number is accepted, and gives the writer the command another process
  wrote before it: the number is scanned into a global variable that keeps its old value.
\<close>

lemma part2_crosstalk:
  assumes "nodes_inv s" "stores_granted k [(T1, b1), (T2, b2)] s" "sscanf_d b1 = Some v" "sscanf_d b2 = None"
  shows "\<exists>s'. stores k [(T1, b1), (T2, b2)] s = Done s' \<and>
    command_of (pid (task_at T2 (current T2))) s' = Some v"
proof -
  have "fresh_alloc k s" using assms(2) by simp
  then obtain s1 where s1: "store_value k (pid (task_at T1 (current T1))) v s = Done s1" "nodes_inv s1"
    using store_value_ok [OF assms(1)] by blast
  have v: "cs614_value s1 = v"
    using s1(1) by (auto simp: store_value_def add_node_def kernel_defs Let_def obind_def split: if_splits outcome.splits)
  have "fresh_alloc k s1" using assms(2,3) s1(1) by (simp add: sysfs_store_eq)
  then obtain s2 where "store_value k (pid (task_at T2 (current T2))) v s1 = Done s2"
    "command_of (pid (task_at T2 (current T2))) s2 = Some v"
    using store_value_ok [OF s1(2)] by fastforce
  with s1 v assms(3,4) show ?thesis by (simp add: sysfs_store_eq)
qed

text \<open>
  A process that never wrote a command reads by whatever the uninitialised local variable holds: for
  every command number there is a value of it that selects that attribute.  A write for which no memory
  is left dereferences the null pointer, and a process with a buffer below 4 bytes gets EINVAL.
\<close>

lemma part2_unset_command:
  assumes "nodes_inv s" "tasks_ok T" "command_of (pid (task_at T (current T))) s = None"
  shows "(4 \<le> len \<and> attribute T (current T) junk = Some str \<longrightarrow>
      demo_read T junk ubuf len m s = Done (len, mem_write ubuf (str @ [0]) m)) \<and>
    (len < 4 \<longrightarrow> demo_read T junk ubuf len m s = Done (- EINVAL, m)) \<and>
    (k_alloc k (klog s) = 0 \<longrightarrow> sysfs_store k T buf count s = Oops)"
proof -
  obtain temp where "find_node (pid (task_at T (current T))) s = Done temp"
    using find_node_returns assms(1) unfolding nodes_inv_def by blast
  then have "len < 4 \<longrightarrow> demo_read T junk ubuf len m s = Done (- EINVAL, m)"
    using assms(1) by (simp add: demo_read_def nodes_inv_def Let_def)
  moreover have "k_alloc k (klog s) = 0 \<longrightarrow> sysfs_store k T buf count s = Oops"
    using assms(1) by (simp add: sysfs_store_eq store_value_def add_node_def kernel_defs nodes_inv_def)
  ultimately show ?thesis using part2_read_eq [OF assms(1,2)] assms(3) by simp
qed

section \<open>Loading and unloading\<close>

definition sysfs_ok :: "kapi \<Rightarrow> drv \<Rightarrow> bool" where
  "sysfs_ok k s \<longleftrightarrow> fst (cs614_sysfs_init k s) = 0"

lemma sysfs_ok_mutex [simp]: "fst (cs614_sysfs_init k (s\<lparr>cs614_mutex := b\<rparr>)) = fst (cs614_sysfs_init k s)"
  by (simp add: part2_defs)

interpretation p2_module: chrdev_module cs614_driver_init cs614_driver_exit klog sysfs_ok
proof
  fix k s s'
  assume *: "cs614_driver_init k s = (0, s')" "sysfs_ok k s" "live (klog s) = {}" "well_used (klog s)"
  show "live (klog (cs614_driver_exit s')) = {} \<and> well_used (klog (cs614_driver_exit s'))"
    using * PTR_ERR_nonzero
    by (auto simp: part2_defs sysfs_ok_def ENOMEM_def split: if_splits)
qed

text \<open>Every write leaves one more object with the module, and touches no other variable of it.\<close>

lemma stores_live:
  assumes "nodes_inv s" "stores_granted k xs s" "stores k xs s = Done s'"
  shows "\<exists>N. live (klog s') = live (klog s) \<union> R_mem ` N \<and> R_mem ` N \<inter> live (klog s) = {} \<and> finite N \<and> 0 \<notin> N \<and>
    card N = length xs \<and> (major s', demo_class s', d_buf s', cs614_value_kobj s') = (major s, demo_class s, d_buf s, cs614_value_kobj s)"
  using assms
proof (induction k xs s rule: stores.induct)
  case (1 k s)
  then show ?case by (intro exI [of _ "{}"]) simp
next
  case (2 k T buf xs s)
  let ?v = "case sscanf_d buf of None \<Rightarrow> cs614_value s | Some v \<Rightarrow> v" and ?p = "pid (task_at T (current T))"
  have f: "fresh_alloc k s" using 2 by simp
  obtain s1 where s1: "store_value k ?p ?v s = Done s1" "nodes_inv s1" "klog s1 = Kalloc 16 (k_alloc k (klog s)) # klog s"
    using store_value_ok [OF "2.prems"(1) f] by blast
  have same: "(major s1, demo_class s1, d_buf s1, cs614_value_kobj s1) = (major s, demo_class s, d_buf s, cs614_value_kobj s)"
    using s1(1) by (auto simp: store_value_def add_node_def kernel_defs Let_def obind_def split: if_splits outcome.splits)
  have step: "sysfs_store k T buf (of_nat (length buf)) s = Done (of_nat (length buf), s1)"
    using s1(1) by (simp add: sysfs_store_eq)
  then have "stores_granted k xs s1" "stores k xs s1 = Done s'" using "2.prems" by simp_all
  from "2.IH" [OF s1(2) this] obtain N where N: "live (klog s') = live (klog s1) \<union> R_mem ` N"
    "R_mem ` N \<inter> live (klog s1) = {}" "finite N" "0 \<notin> N" "card N = length xs"
    "(major s', demo_class s', d_buf s', cs614_value_kobj s') = (major s1, demo_class s1, d_buf s1, cs614_value_kobj s1)"
    by blast
  let ?n = "k_alloc k (klog s)"
  have n: "?n \<noteq> 0" "R_mem ?n \<notin> live (klog s)" using f by (simp_all add: fresh_alloc_def)
  then have l1: "live (klog s1) = insert (R_mem ?n) (live (klog s))" using s1(3) by simp
  have "?n \<notin> N" using N(2) l1 by auto
  then show ?case using N n l1 same by (intro exI [of _ "insert ?n N"]) auto
qed

text \<open>
  Unloading frees everything the module owns except the nodes of the list: after a load and any
  number of writes, exactly one object per write is left behind.
\<close>

lemma part2_unload_leaks_nodes:
  assumes "cs614_driver_init k s = (0, s0)" "fst (cs614_sysfs_init k s) = 0" "live (klog s) = {}"
    "nodes_inv s0" "stores_granted k' xs s0" "stores k' xs s0 = Done s'"
  shows "\<exists>N. live (klog (cs614_driver_exit s')) = R_mem ` N \<and> finite N \<and> card N = length xs"
proof -
  obtain N where N: "live (klog s') = live (klog s0) \<union> R_mem ` N" "R_mem ` N \<inter> live (klog s0) = {}" "finite N" "0 \<notin> N"
    "card N = length xs" "(major s', demo_class s', d_buf s', cs614_value_kobj s') = (major s0, demo_class s0, d_buf s0, cs614_value_kobj s0)"
    using stores_live [OF assms(4-6)] by blast
  have l0: "live (klog s0) \<subseteq> {R_kobj (cs614_value_kobj s0), R_sysfs (cs614_value_kobj s0) ''cs614_value'', R_chrdev (major s0),
      R_class (demo_class s0), R_device (MKDEV (major s0) 0), R_mem (d_buf s0)}" and db: "d_buf s0 \<noteq> 0 \<longrightarrow> R_mem (d_buf s0) \<in> live (klog s0)"
    using assms(1-3) PTR_ERR_nonzero by (auto simp: part2_defs ENOMEM_def split: if_splits)
  have "d_buf s0 \<notin> N"
  proof
    assume a: "d_buf s0 \<in> N"
    then have "d_buf s0 \<noteq> 0" using N(4) by auto
    with db a N(2) show False by blast
  qed
  then have "live (klog (cs614_driver_exit s')) = R_mem ` N"
    using N l0 by (auto simp: cs614_driver_exit_def cs614_sysfs_exit_def kcalled_def Let_def)
  with N show ?thesis by blast
qed

section \<open>The life of the loaded module\<close>

text \<open>
  What users do to the loaded driver, in any order and by any process: opening and closing the device
  file, and writes to the sysfs file that return.  A read and the mode of the device file leave the
  driver's state as it is.
\<close>

inductive p2_step :: "kapi \<Rightarrow> drv \<Rightarrow> drv \<Rightarrow> bool" for k where
  opened: "p2_step k s (snd (demo_open s))"
| released: "p2_step k s (snd (demo_release s))"
| stored: "sysfs_store k T buf count s = Done (r, s') \<Longrightarrow> p2_step k s s'"

inductive p2_life :: "kapi \<Rightarrow> drv \<Rightarrow> drv \<Rightarrow> bool" for k where
  loading: "cs614_driver_init k s = (0, s') \<Longrightarrow> p2_life k s s'"
| used: "p2_life k s s' \<Longrightarrow> p2_step k s' s'' \<Longrightarrow> p2_life k s s''"

text \<open>The allocator never hands out an object the module still owns.\<close>

definition lawful_alloc :: "kapi \<Rightarrow> bool" where
  "lawful_alloc k \<longleftrightarrow> (\<forall>l. k_alloc k l = 0 \<or> R_mem (k_alloc k l) \<notin> live l)"

lemma sysfs_store_outcome:
  assumes "nodes_inv s" "lawful_alloc k"
  shows "k_alloc k (klog s) = 0 \<and> sysfs_store k T buf count s = Oops \<or>
    k_alloc k (klog s) \<noteq> 0 \<and> (\<exists>s'. sysfs_store k T buf count s = Done (count, s') \<and> nodes_inv s')"
proof (cases "k_alloc k (klog s) = 0")
  case True
  then show ?thesis
    using assms(1) by (simp add: sysfs_store_eq store_value_def add_node_def kernel_defs nodes_inv_def)
next
  case False
  then have "fresh_alloc k s" using assms(2) by (auto simp: fresh_alloc_def lawful_alloc_def)
  from store_value_ok [OF assms(1) this] obtain s' where
    "store_value k (pid (task_at T (current T))) (case sscanf_d buf of None \<Rightarrow> cs614_value s | Some v \<Rightarrow> v) s = Done s'" "nodes_inv s'"
    by blast
  with False show ?thesis by (simp add: sysfs_store_eq)
qed

lemma init_nodes_inv:
  assumes "head s = 0" "cs614_driver_init k s = (0, s')"
  shows "nodes_inv s'"
proof -
  have "head s' = 0 \<and> \<not> cs614_mutex s'"
    using assms PTR_ERR_nonzero by (auto simp: part2_defs split: if_splits)
  then show ?thesis by (auto simp: nodes_inv_def list_inv_def intro: exI [of _ "[]"])
qed

lemma p2_step_inv:
  assumes "p2_step k s s'" "nodes_inv s" "lawful_alloc k"
  shows "nodes_inv s'"
  using assms
proof cases
  case opened
  then show ?thesis using assms(2) by (simp add: demo_open_def nodes_inv_def list_inv_def kcalled_def Let_def)
next
  case released
  then show ?thesis using assms(2) by (simp add: demo_release_def nodes_inv_def list_inv_def kcalled_def Let_def)
next
  case (stored T buf count r)
  then show ?thesis using sysfs_store_outcome [OF assms(2,3), of T buf count] by auto
qed

lemma p2_life_inv: "p2_life k s s' \<Longrightarrow> head s = 0 \<Longrightarrow> lawful_alloc k \<Longrightarrow> nodes_inv s'"
  by (induction rule: p2_life.induct) (auto intro: init_nodes_inv p2_step_inv)

lemma demo_read_returns: "nodes_inv s \<Longrightarrow> \<exists>r m'. demo_read T junk ubuf len m s = Done (r, m')"
  using find_node_returns [of s "pid (task_at T (current T))"] by (auto simp: nodes_inv_def demo_read_def Let_def)

text \<open>
  C29: Every state the loaded driver reaches is well-formed and not stuck.  From the state in which the
  module is inserted (its list pointer is null), through any order of opens, closes and writes of any
  processes, the mutex is free and the list is a finite chain of objects the module owns; a read
  always returns, and a write never hangs: it dereferences a null pointer exactly when the allocator
  has no memory, and otherwise takes all its bytes and reaches a well-formed state again.  That holds for every
  text, a number beyond 7 included, for which the assignment asks for an error.
\<close>

theorem part2_well_formed:
  assumes "head s = 0" "lawful_alloc k" "p2_life k s s'"
  shows "nodes_inv s' \<and>
    (\<exists>r m'. demo_read T junk ubuf len m s' = Done (r, m')) \<and>
    (if k_alloc k (klog s') = 0 then sysfs_store k T buf count s' = Oops
     else \<exists>s''. sysfs_store k T buf count s' = Done (count, s'') \<and> p2_life k s s'')"
proof -
  have inv: "nodes_inv s'" using p2_life_inv assms by blast
  moreover have "p2_life k s s''" if "sysfs_store k T buf count s' = Done (count, s'')" for s''
    using assms(3) that by (blast intro: p2_life.used p2_step.stored)
  ultimately show ?thesis using sysfs_store_outcome [OF inv assms(2), of T buf count] demo_read_returns by auto
qed

text \<open>An allocator that counts upwards and refuses once it would repeat itself.\<close>

definition counting :: kapi where
  "counting = granting\<lparr>k_alloc := (\<lambda>l. let p = of_nat (length l + 1) in if R_mem p \<in> live l then 0 else p)\<rparr>"

theorem part2_well_formed_witness:
  "\<exists>s' s''. cs614_driver_init counting loaded = (0, s') \<and>
     sysfs_store counting (running 100) [50, 10] 2 s' = Done (2, s'') \<and> nodes_inv s'' \<and>
     (\<exists>r m'. demo_read (running 100) 99 4096 16 (\<lambda>_. 0) s'' = Done (r, m'))"
proof -
  have law: "lawful_alloc counting" by (simp add: lawful_alloc_def counting_def Let_def)
  have h: "head loaded = 0" by (simp add: loaded_def)
  have "\<not> (240 :: u32) <s 0" "\<not> IS_ERR 4096" "\<not> IS_ERR 8192" by code_simp+
  then have "fst (cs614_driver_init counting loaded) = 0 \<and> k_alloc counting (klog (snd (cs614_driver_init counting loaded))) \<noteq> 0"
    by (simp add: part2_defs counting_def granting_def loaded_def)
  then obtain s' where s': "cs614_driver_init counting loaded = (0, s')" and "k_alloc counting (klog s') \<noteq> 0"
    by (metis prod.collapse)
  with part2_well_formed [OF h law p2_life.loading [OF s'], of "running 100" 99 4096 16 "\<lambda>_. 0" "[50, 10]" 2]
  obtain s'' where s'': "sysfs_store counting (running 100) [50, 10] 2 s' = Done (2, s'')" "p2_life counting loaded s''"
    by auto
  with part2_well_formed [OF h law s''(2), of "running 100" 99 4096 16 "\<lambda>_. 0" "[]" 0] s' show ?thesis by blast
qed

end
