(* ===== verification/Part3.thy ===== *)
theory Part3
  imports Part2
begin

text \<open>
  The multi-threaded information driver, \<^verbatim>\<open>Assignment_1/part3/driver.c\<close>: the globals and the writes are
  those of part 2 (type \<open>Part2.drv\<close>), and a read knows three more commands: the number of threads of
  the process (5), the number of its open files (6) and the thread with the largest stack (7).
\<close>

section \<open>The functions shared with part 2\<close>

definition DEVNAME :: string where "DEVNAME = ''cs614_device''"

definition sysfs_store :: "kapi \<Rightarrow> tasks \<Rightarrow> u8 list \<Rightarrow> u64 \<Rightarrow> drv \<Rightarrow> (ssize_t \<times> drv) outcome" where
  "sysfs_store k T buf count s =
     (if cs614_mutex s then Hang
      else
        (let s = s\<lparr>cs614_mutex := True\<rparr>;
             s = (case sscanf_d buf of None \<Rightarrow> s | Some v \<Rightarrow> s\<lparr>cs614_value := v\<rparr>)
         in obind (add_node k (pid (task_at T (current T))) (cs614_value s) s) (\<lambda>s.
              Done (count, s\<lparr>cs614_mutex := False\<rparr>))))"

definition cs614_sysfs_init :: "kapi \<Rightarrow> drv \<Rightarrow> u32 \<times> drv" where
  "cs614_sysfs_init k s =
     (let (kobj, s) = kobject_create_and_add k ''cs614_sysfs'' s;
          s = s\<lparr>cs614_value_kobj := kobj\<rparr>
      in if kobj = 0 then (- ENOMEM, s)
         else
           (let (ret, s) = sysfs_create_file k kobj ''cs614_value'' s
            in if ret \<noteq> 0 then (ret, kcalled (Kobject_put kobj) s) else (0, s)))"

definition cs614_sysfs_exit :: "drv \<Rightarrow> drv" where
  "cs614_sysfs_exit s =
     (let s = kcalled (Sysfs_remove_file (cs614_value_kobj s) ''cs614_value'') s
      in kcalled (Kobject_put (cs614_value_kobj s)) s)"

definition demo_open :: "drv \<Rightarrow> u32 \<times> drv" where
  "demo_open s =
     (let s = s\<lparr>device_opened := device_opened s + 1\<rparr>
      in (0, kcalled Try_module_get s))"

definition demo_release :: "drv \<Rightarrow> u32 \<times> drv" where
  "demo_release s =
     (let s = s\<lparr>device_opened := device_opened s - 1\<rparr>
      in (0, kcalled Module_put s))"

definition demo_devnode :: "u32 \<Rightarrow> u16 option \<Rightarrow> drv \<Rightarrow> u16 option" where
  "demo_devnode devt mode s =
     (case mode of None \<Rightarrow> None | Some v \<Rightarrow> if devt = MKDEV (major s) 0 then Some 0x1B6 else Some v)"

definition cs614_driver_init :: "kapi \<Rightarrow> drv \<Rightarrow> u32 \<times> drv" where
  "cs614_driver_init k s =
     (let s = s\<lparr>cs614_mutex := False\<rparr>;
          s = snd (cs614_sysfs_init k s);
          (r, s) = register_chrdev k DEVNAME s;
          s = s\<lparr>major := r\<rparr>
      in if r <s 0 then (r, s)
         else
           (let (c, s) = class_create k DEVNAME s;
                s = s\<lparr>demo_class := c\<rparr>
            in if IS_ERR c then (PTR_ERR c, kcalled (Unregister_chrdev (major s) DEVNAME) s)
               else
                 (let (d, s) = device_create k c (MKDEV (major s) 0) DEVNAME s;
                      s = s\<lparr>demo_device := d\<rparr>
                  in if IS_ERR d then
                       (let s = kcalled (Class_destroy (demo_class s)) s
                        in (PTR_ERR d, kcalled (Unregister_chrdev (major s) DEVNAME) s))
                     else
                       (let s = s\<lparr>cs614_mutex := True\<rparr>;
                            (b, s) = kalloc k 4096 s;
                            s = s\<lparr>d_buf := b\<rparr>;
                            s = s\<lparr>cs614_mutex := False\<rparr>
                        in (0, s\<lparr>device_opened := 0\<rparr>)))))"

definition cs614_driver_exit :: "drv \<Rightarrow> drv" where
  "cs614_driver_exit s =
     (let s = cs614_sysfs_exit s;
          s = kcalled (Kfree (d_buf s)) s;
          s = kcalled (Device_destroy (demo_class s) (MKDEV (major s) 0)) s;
          s = kcalled (Class_destroy (demo_class s)) s
      in kcalled (Unregister_chrdev (major s) DEVNAME) s)"

section \<open>Reading\<close>

text \<open>\<^verbatim>\<open>do { count++; process = next_thread(process); } while (process != task);\<close>\<close>

definition count_threads :: "tasks \<Rightarrow> ptr \<Rightarrow> u32 outcome" where
  "count_threads T task =
     (case while_option (\<lambda>(count, process). process \<noteq> task)
        (\<lambda>(count, process). (count + 1, next_thread T process)) (1, next_thread T task) of
        None \<Rightarrow> Hang
      | Some (count, process) \<Rightarrow> Done count)"

text \<open>\<^verbatim>\<open>for (j = 0; j < fdt->max_fds; j++) if (fdt->fd[j] != NULL) count++;\<close>\<close>

definition count_files :: "tasks \<Rightarrow> ptr \<Rightarrow> u32" where
  "count_files T task =
     (case files (task_at T task) of
        None \<Rightarrow> 0
      | Some fdt \<Rightarrow>
          foldl (\<lambda>count j. if fd fdt j \<noteq> 0 then count + 1 else count) 0 [0..<unat (max_fds fdt)])"

text \<open>\<^verbatim>\<open>process->mm->stack_vm\<close>, \<open>None\<close> where \<^verbatim>\<open>mm\<close> is null.\<close>

definition thread_stack :: "tasks \<Rightarrow> ptr \<Rightarrow> u64 option" where
  "thread_stack T process =
     (let mm = t_mm (task_at T process) in if mm = 0 then None else Some (stack_vm (mm_at T mm)))"

text \<open>One round of the search for the largest stack; a thread without \<^verbatim>\<open>mm\<close> is a null dereference.\<close>

definition stack_round :: "tasks \<Rightarrow> ptr \<Rightarrow> (u64 \<times> u32) option \<Rightarrow> (u64 \<times> u32) option" where
  "stack_round T process st =
     (case st of
        None \<Rightarrow> None
      | Some (max_stack, tid) \<Rightarrow>
          (case thread_stack T process of
             None \<Rightarrow> None
           | Some thread_stack_size \<Rightarrow>
               Some (if max_stack < thread_stack_size then (thread_stack_size, pid (task_at T process))
                     else (max_stack, tid))))"

definition max_stack_tid :: "tasks \<Rightarrow> u32 \<Rightarrow> ptr \<Rightarrow> u32 outcome" where
  "max_stack_tid T tid task =
     (case while_option (\<lambda>(st, process). st \<noteq> None \<and> process \<noteq> current T)
        (\<lambda>(st, process). (stack_round T process st, next_thread T process))
        (stack_round T task (Some (0, tid)), next_thread T task) of
        None \<Rightarrow> Hang
      | Some (None, process) \<Rightarrow> Oops
      | Some (Some (max_stack, tid), process) \<Rightarrow> Done tid)"

text \<open>\<open>junk\<close> and \<open>junk_tid\<close> are the uninitialised \<^verbatim>\<open>cs614_value1\<close> and \<^verbatim>\<open>tid\<close>.\<close>

definition demo_read ::
  "tasks \<Rightarrow> u32 \<Rightarrow> u32 \<Rightarrow> u64 \<Rightarrow> u64 \<Rightarrow> mem \<Rightarrow> drv \<Rightarrow> (ssize_t \<times> mem) outcome" where
  "demo_read T junk junk_tid ubuf len m s =
     (let p = pid (task_at T (current T))
      in if cs614_mutex s then Hang
         else obind (find_node p s) (\<lambda>temp.
           let cs614_value1 = (if temp = 0 then junk else n_value (heap s temp));
               task = current T
           in if len < 4 then Done (- EINVAL, m)
              else if cs614_value1 = 0 then Done (len, mem_write ubuf (sprintf_d p) m)
              else if cs614_value1 = 1 then
                Done (if task = 0 then (- ESRCH, m)
                      else (len, mem_write ubuf (sprintf_d (static_prio (task_at T task))) m))
              else if cs614_value1 = 2 then
                Done (if task = 0 then (- ESRCH, m)
                      else (len, mem_write ubuf (sprintf_s (comm (task_at T task))) m))
              else if cs614_value1 = 3 then
                Done (if task = 0 then (- ESRCH, m)
                      else (len, mem_write ubuf (sprintf_d (pid (task_at T (real_parent (task_at T task))))) m))
              else if cs614_value1 = 4 then
                Done (if task = 0 then (- ESRCH, m)
                      else (len, mem_write ubuf (sprintf_lu (nvcsw (task_at T task))) m))
              else if cs614_value1 = 5 then
                obind (count_threads T task) (\<lambda>count. Done (len, mem_write ubuf (sprintf_d count) m))
              else if cs614_value1 = 6 then Done (len, mem_write ubuf (sprintf_d (count_files T task)) m)
              else if cs614_value1 = 7 then
                obind (max_stack_tid T junk_tid task) (\<lambda>tid.
                  Done (len, mem_write ubuf (sprintf_lu (ucast tid)) m))
              else Done (- EINVAL, m)))"

section \<open>The ring of threads\<close>

text \<open>The threads of a process form a ring under \<^verbatim>\<open>next_thread\<close>, here listed from thread \<open>t\<close>.\<close>

definition is_ring :: "tasks \<Rightarrow> ptr \<Rightarrow> ptr list \<Rightarrow> bool" where
  "is_ring T t ts \<longleftrightarrow> ts \<noteq> [] \<and> hd ts = t \<and> distinct ts \<and>
     (\<forall>i < length ts. next_thread T (ts ! i) = ts ! (Suc i mod length ts))"

text \<open>A do-while loop around the ring visits every thread once and stops where it started.\<close>

lemma ring_loop:
  assumes ring: "is_ring T t ts" and g: "\<And>i. i \<le> length ts \<Longrightarrow> g (fold f (take i ts) a)"
  shows "while_option (\<lambda>(st, p). g st \<and> p \<noteq> t) (\<lambda>(st, p). (f p st, next_thread T p))
      (f t a, next_thread T t) = Some (fold f ts a, t)"
proof -
  let ?n = "length ts"
  let ?W = "while_option (\<lambda>(st, p). g st \<and> p \<noteq> t) (\<lambda>(st, p). (f p st, next_thread T p))"
  have n: "0 < ?n" and t: "ts ! 0 = t" using ring by (auto simp: is_ring_def hd_conv_nth)
  have nxt: "next_thread T (ts ! i) = ts ! (Suc i mod ?n)" if "i < ?n" for i
    using ring that by (simp add: is_ring_def)
  have "?W (fold f (take i ts) a, ts ! (i mod ?n)) = Some (fold f ts a, t)" if "1 \<le> i" "i \<le> ?n" for i
    using that
  proof (induction "?n - i" arbitrary: i)
    case 0
    then show ?case using t by (simp add: while_option_False)
  next
    case (Suc k)
    then have i: "i < ?n" "i mod ?n = i" by simp_all
    have "ts ! i \<noteq> t" using ring i Suc.prems t n by (auto simp: is_ring_def nth_eq_iff_index_eq [of ts i 0])
    then have "?W (fold f (take i ts) a, ts ! (i mod ?n)) =
        ?W (f (ts ! i) (fold f (take i ts) a), next_thread T (ts ! i))"
      using g [of i] i by (simp add: while_option_True)
    also have "\<dots> = ?W (fold f (take (Suc i) ts) a, ts ! (Suc i mod ?n))"
      using i nxt [OF i(1)] by (simp add: take_Suc_conv_app_nth)
    finally show ?case using Suc by simp
  qed
  from this [of 1] n show ?thesis using t nxt [OF n] by (simp add: take_Suc_conv_app_nth)
qed

lemma count_threads_ring:
  assumes "is_ring T t ts"
  shows "count_threads T t = Done (of_nat (length ts))"
proof -
  have "fold (\<lambda>p c. c + 1) ts (a :: u32) = a + of_nat (length ts)" for a
    by (induction ts arbitrary: a) simp_all
  then show ?thesis
    using ring_loop [OF assms, of "\<lambda>_. True" "\<lambda>p c. c + (1 :: u32)" 0] by (simp add: count_threads_def)
qed

lemma count_files_card:
  "files (task_at T t) = Some fdt \<Longrightarrow>
   count_files T t = of_nat (card {j. j < unat (max_fds fdt) \<and> fd fdt j \<noteq> 0})"
proof -
  have "foldl (\<lambda>c j. if fd fdt j \<noteq> 0 then c + 1 else c) (0 :: u32) [0..<n] =
      of_nat (card {j. j < n \<and> fd fdt j \<noteq> 0})" for n
  proof (induction n)
    case 0
    then show ?case by simp
  next
    case (Suc n)
    have "{j. j < Suc n \<and> fd fdt j \<noteq> 0} =
        (if fd fdt n \<noteq> 0 then insert n {j. j < n \<and> fd fdt j \<noteq> 0} else {j. j < n \<and> fd fdt j \<noteq> 0})"
      by (auto simp: less_Suc_eq)
    with Suc show ?case by simp
  qed
  then show "files (task_at T t) = Some fdt \<Longrightarrow> ?thesis" by (simp add: count_files_def)
qed

lemma stack_fold_some:
  "\<forall>p \<in> set ts. thread_stack T p \<noteq> None \<Longrightarrow> \<exists>y. fold (stack_round T) ts (Some x) = Some y"
  by (induction ts arbitrary: x) (auto simp: stack_round_def split: prod.splits)

lemma max_stack_ring:
  assumes ring: "is_ring T (current T) ts" and mm: "\<forall>p \<in> set ts. thread_stack T p \<noteq> None"
  shows "max_stack_tid T tid (current T) = Done (snd (the (fold (stack_round T) ts (Some (0, tid)))))"
proof -
  have g: "fold (stack_round T) (take i ts) (Some (0, tid)) \<noteq> None" for i
  proof -
    have "\<forall>p \<in> set (take i ts). thread_stack T p \<noteq> None" using mm in_set_takeD by fast
    from stack_fold_some [OF this, of "(0, tid)"] show ?thesis by (elim exE) simp
  qed
  obtain x y where xy: "fold (stack_round T) ts (Some (0, tid)) = Some (x, y)"
    using stack_fold_some [OF mm, of "(0, tid)"] by auto
  show ?thesis
    using ring_loop [OF ring, of "\<lambda>st. st \<noteq> None" "stack_round T" "Some (0, tid)", OF g] xy
    by (simp add: max_stack_tid_def)
qed

section \<open>What a read gives\<close>

lemma same_as_part2:
  assumes "tasks_ok T" "nodes_inv s" "(case command_of (pid (task_at T (current T))) s of None \<Rightarrow> junk | Some v \<Rightarrow> v) < 5"
  shows "sysfs_store k T buf count s = Part2.sysfs_store k T buf count s \<and>
    demo_open s = Part2.demo_open s \<and> demo_release s = Part2.demo_release s \<and>
    cs614_driver_init k s = Part2.cs614_driver_init k s \<and> cs614_driver_exit s = Part2.cs614_driver_exit s \<and>
    demo_read T junk junk_tid ubuf len m s = Part2.demo_read T junk ubuf len m s"
proof -
  obtain temp where temp: "find_node (pid (task_at T (current T))) s = Done temp"
    "command_of (pid (task_at T (current T))) s = (if temp = 0 then None else Some (n_value (heap s temp)))"
    using find_node_command assms(2) unfolding nodes_inv_def by blast
  define w where "w = (if temp = 0 then junk else n_value (heap s temp))"
  have "w < 5" using assms(3) temp(2) by (auto simp: w_def split: if_splits)
  then have w: "w \<noteq> 5" "w \<noteq> 6" "w \<noteq> 7" by auto
  have "demo_read T junk junk_tid ubuf len m s = Part2.demo_read T junk ubuf len m s"
    using assms(1,2) temp(1) w unfolding demo_read_def Part2.demo_read_def
    by (simp add: tasks_ok_def nodes_inv_def Let_def w_def [symmetric])
  then show ?thesis
    unfolding sysfs_store_def Part2.sysfs_store_def demo_open_def Part2.demo_open_def demo_release_def
      Part2.demo_release_def cs614_driver_init_def Part2.cs614_driver_init_def cs614_driver_exit_def
      Part2.cs614_driver_exit_def cs614_sysfs_init_def Part2.cs614_sysfs_init_def cs614_sysfs_exit_def
      Part2.cs614_sysfs_exit_def DEVNAME_def Part2.DEVNAME_def by simp
qed

lemma thread_commands:
  assumes "nodes_inv s" "4 \<le> len" "is_ring T (current T) ts" "length ts < 2 ^ 31"
    "command_of (pid (task_at T (current T))) s = Some v"
  shows "(v = 5 \<longrightarrow> demo_read T junk junk_tid ubuf len m s =
      Done (len, mem_write ubuf (dec_nat (length ts) @ [0]) m)) \<and>
    (v = 6 \<longrightarrow> demo_read T junk junk_tid ubuf len m s =
      Done (len, mem_write ubuf (sprintf_d (case files (task_at T (current T)) of None \<Rightarrow> 0
        | Some fdt \<Rightarrow> of_nat (card {j. j < unat (max_fds fdt) \<and> fd fdt j \<noteq> 0}))) m))"
proof -
  obtain temp where temp: "find_node (pid (task_at T (current T))) s = Done temp" "temp \<noteq> 0" "n_value (heap s temp) = v"
    using find_node_command [of s "pid (task_at T (current T))"] assms(1,5) unfolding nodes_inv_def by (auto split: if_splits)
  have len: "\<not> len < 4" using assms(2) by (simp add: not_less)
  have unlocked: "\<not> cs614_mutex s" using assms(1) by (simp add: nodes_inv_def)
  note read = demo_read_def Let_def temp len unlocked
  have "sint (of_nat (length ts) :: u32) = int (length ts)"
    using assms(4) by (simp add: signed_of_nat signed_take_bit_int_eq_self_iff)
  then have 5: "v = 5 \<longrightarrow> demo_read T junk junk_tid ubuf len m s = Done (len, mem_write ubuf (dec_nat (length ts) @ [0]) m)"
    by (simp add: read count_threads_ring [OF assms(3)] sprintf_d_def dec_int_def)
  have 6: "v = 6 \<longrightarrow> demo_read T junk junk_tid ubuf len m s =
      Done (len, mem_write ubuf (sprintf_d (case files (task_at T (current T)) of None \<Rightarrow> 0
        | Some fdt \<Rightarrow> of_nat (card {j. j < unat (max_fds fdt) \<and> fd fdt j \<noteq> 0}))) m)"
    by (auto simp: read count_files_card split: option.splits) (simp add: count_files_def)
  with 5 6 show ?thesis by blast
qed

text \<open>
  Command 7 cannot tell threads apart: the stack size it compares belongs to the address space, which all
  threads of a process share, so it always prints the number of the reading thread; when that size is 0
  it prints an uninitialised variable, and for a thread without address space it dereferences a null
  pointer.
\<close>

lemma stack_is_shared:
  assumes "nodes_inv s" "4 \<le> len" "is_ring T (current T) ts" "command_of (pid (task_at T (current T))) s = Some 7"
    and shared: "\<forall>p \<in> set ts. thread_stack T p = w"
  shows "demo_read T junk junk_tid ubuf len m s =
    (case w of None \<Rightarrow> Oops
     | Some v \<Rightarrow> Done (len, mem_write ubuf (sprintf_lu (ucast (if v = 0 then junk_tid else pid (task_at T (current T))))) m))"
proof -
  obtain temp where temp: "find_node (pid (task_at T (current T))) s = Done temp" "temp \<noteq> 0" "n_value (heap s temp) = 7"
    using find_node_command [of s "pid (task_at T (current T))"] assms(1,4) unfolding nodes_inv_def by (auto split: if_splits)
  have len: "\<not> len < 4" using assms(2) by (simp add: not_less)
  have unlocked: "\<not> cs614_mutex s" using assms(1) by (simp add: nodes_inv_def)
  have c: "current T \<in> set ts" using assms(3) by (metis hd_in_set is_ring_def)
  have read: "demo_read T junk junk_tid ubuf len m s = obind (max_stack_tid T junk_tid (current T)) (\<lambda>tid.
      Done (len, mem_write ubuf (sprintf_lu (ucast tid)) m))"
    using temp len unlocked by (simp add: demo_read_def Let_def)
  show ?thesis
  proof (cases w)
    case None
    then have "stack_round T (current T) (Some (0, junk_tid)) = None" using shared c by (simp add: stack_round_def)
    then show ?thesis using None by (simp add: read max_stack_tid_def while_option_False)
  next
    case (Some v)
    have keep: "fold (stack_round T) xs (Some (v, j)) = Some (v, j)" if "set xs \<subseteq> set ts" for xs j
      using that by (induction xs) (auto simp: stack_round_def shared Some)
    obtain us where us: "ts = current T # us" using assms(3) by (cases ts) (auto simp: is_ring_def)
    have "fold (stack_round T) ts (Some (0, junk_tid)) = Some (v, if v = 0 then junk_tid else pid (task_at T (current T)))"
      using keep [of us] us shared Some word_gt_0 [of v] by (auto simp: stack_round_def)
    moreover have "\<forall>p \<in> set ts. thread_stack T p \<noteq> None" using shared Some by simp
    ultimately show ?thesis using Some by (simp add: read max_stack_ring [OF assms(3)])
  qed
qed

section \<open>Properties\<close>

text \<open>
  C36: Part 3 keeps part 2: its writes, its open and release, its loading and unloading are the same functions,
  and on a consistent process table a read of a command below 5 gives the same result.
\<close>

theorem part3_extends_part2:
  assumes "tasks_ok T" "nodes_inv s" "(case command_of (pid (task_at T (current T))) s of None \<Rightarrow> junk | Some v \<Rightarrow> v) < 5"
  shows "sysfs_store k T buf count s = Part2.sysfs_store k T buf count s \<and>
    demo_open s = Part2.demo_open s \<and> demo_release s = Part2.demo_release s \<and>
    cs614_driver_init k s = Part2.cs614_driver_init k s \<and> cs614_driver_exit s = Part2.cs614_driver_exit s \<and>
    demo_read T junk junk_tid ubuf len m s = Part2.demo_read T junk ubuf len m s"
  by (rule same_as_part2 [OF assms])

theorem part3_extends_part2_witness:
  "demo_read (running 7) 2 0 4096 8 (\<lambda>_. 0) loaded = Part2.demo_read (running 7) 2 4096 8 (\<lambda>_. 0) loaded"
proof -
  have "command_of 7 loaded = None"
    by (simp add: command_of_def find_node_def loaded_def while_option_False)
  then show ?thesis
    using part3_extends_part2 [of "running 7" loaded 2 granting "[]" 0 0 4096 8 "\<lambda>_. 0"] by simp
qed

text \<open>The threads of a process: a ring that starts at the running thread, all in one address space.\<close>

definition thread_group :: "tasks \<Rightarrow> ptr list \<Rightarrow> bool" where
  "thread_group T ts \<longleftrightarrow> is_ring T (current T) ts \<and> (\<forall>p \<in> set ts. t_mm (task_at T p) = t_mm (task_at T (current T)))"

text \<open>
  C37: The three new commands, for a process whose threads form a ring and share one address space.  Command 5 prints the
  number of its threads, and its loop ends; command 6 prints the number of open entries of its file table, and 0 where it
  has none.  The loop of command 7 ends too, but the size it compares is that of the shared address space: it prints the
  number of the thread that reads, whichever has the largest stack, and, when that size is 0, a variable that was never set;
  without an address space it dereferences a null pointer.
\<close>

theorem part3_thread_commands:
  assumes "nodes_inv s" "4 \<le> len" "thread_group T ts" "length ts < 2 ^ 31"
    "command_of (pid (task_at T (current T))) s = Some v" "v \<in> {5, 6, 7}"
  shows "demo_read T junk junk_tid ubuf len m s =
    (if v = 5 then Done (len, mem_write ubuf (dec_nat (length ts) @ [0]) m)
     else if v = 6 then
       Done (len, mem_write ubuf (sprintf_d (case files (task_at T (current T)) of None \<Rightarrow> 0
         | Some fdt \<Rightarrow> of_nat (card {j. j < unat (max_fds fdt) \<and> fd fdt j \<noteq> 0}))) m)
     else
       (case thread_stack T (current T) of
          None \<Rightarrow> Oops
        | Some sz \<Rightarrow>
            Done (len, mem_write ubuf (dec_nat (unat (if sz = 0 then junk_tid else pid (task_at T (current T)))) @ [0]) m)))"
proof -
  have ring: "is_ring T (current T) ts" using assms(3) by (simp add: thread_group_def)
  have shared: "\<forall>p \<in> set ts. thread_stack T p = thread_stack T (current T)"
    using assms(3) by (simp add: thread_group_def thread_stack_def)
  have w: "unat (ucast x :: u64) = unat x" for x :: u32
    using unsigned_less [of x, where ?'a = nat] by (simp add: unsigned_ucast_eq take_bit_eq_mod)
  show ?thesis
  proof (cases "v = 7")
    case True
    then have "command_of (pid (task_at T (current T))) s = Some 7" using assms(5) by simp
    from stack_is_shared [OF assms(1,2) ring this shared] True show ?thesis by (simp add: sprintf_lu_def w split: option.splits)
  next
    case False
    then show ?thesis using thread_commands [OF assms(1,2) ring assms(4,5)] assms(6) by auto
  qed
qed

text \<open>A process of two threads and the driver after it wrote the command \<open>v\<close>.\<close>

definition threads2 :: tasks where
  "threads2 =
     \<lparr>current = 1,
      task_at = (\<lambda>p. \<lparr>pid = 100 + ucast p, static_prio = 120, comm = [115, 104, 0], real_parent = 1, nvcsw = 7,
         files = Some \<lparr>max_fds = 3, fd = (\<lambda>j. if j < 2 then 1 else 0)\<rparr>, t_mm = 16\<rparr>),
      pid_task = (\<lambda>_. 1), next_thread = (\<lambda>t. if t = 1 then 2 else 1), mm_at = (\<lambda>_. \<lparr>stack_vm = 34\<rparr>)\<rparr>"

definition wrote :: "u32 \<Rightarrow> drv" where
  "wrote v = loaded\<lparr>klog := [Kalloc 16 5], head := 5, heap := (\<lambda>_. \<lparr>n_pid = 101, n_value = v, n_next = 0\<rparr>)\<rparr>"

lemma threads2_simps [simp]:
  "thread_group threads2 [1, 2]" "current threads2 = 1" "thread_stack threads2 p = Some 34" "pid (task_at threads2 p) = 100 + ucast p"
  by (auto simp: thread_group_def thread_stack_def is_ring_def threads2_def less_Suc_eq)

lemma wrote_simps [simp]: "nodes_inv (wrote v)" "command_of 101 (wrote v) = Some v"
proof -
  have l: "is_list (heap (wrote v)) (head (wrote v)) [5]" by (simp add: wrote_def)
  then show "nodes_inv (wrote v)"
    unfolding nodes_inv_def list_inv_def by (auto simp: wrote_def loaded_def intro!: exI [of _ "[5]"])
  show "command_of 101 (wrote v) = Some v" unfolding command_of_list [OF l] by (simp add: wrote_def)
qed

theorem part3_thread_commands_witness:
  "demo_read threads2 0 0 4096 16 (\<lambda>_. 0) (wrote 5) = Done (16, mem_write 4096 [50, 0] (\<lambda>_. 0)) \<and>
   demo_read threads2 0 0 4096 16 (\<lambda>_. 0) (wrote 7) = Done (16, mem_write 4096 [49, 48, 49, 0] (\<lambda>_. 0))"
proof
  have digits: "dec_nat (Suc (Suc 0)) @ [0] = [50, 0 :: u8]" "dec_nat 101 @ [0] = [49, 48, 49, 0 :: u8]"
    by (simp_all add: dec_nat.simps digit_def)
  from part3_thread_commands [of "wrote 5" 16 threads2 "[1, 2]" 5 0 0 4096 "\<lambda>_. 0"]
  show "demo_read threads2 0 0 4096 16 (\<lambda>_. 0) (wrote 5) = Done (16, mem_write 4096 [50, 0] (\<lambda>_. 0))"
    by (simp add: digits)
  from part3_thread_commands [of "wrote 7" 16 threads2 "[1, 2]" 7 0 0 4096 "\<lambda>_. 0"]
  show "demo_read threads2 0 0 4096 16 (\<lambda>_. 0) (wrote 7) = Done (16, mem_write 4096 [49, 48, 49, 0] (\<lambda>_. 0))"
    by (simp add: digits)
qed

end
