(* ===== verification/Infoprogs.thy ===== *)
theory Infoprogs
  imports Part1 Part3
begin

text \<open>
  The test programs of the process-information driver, part one: the system calls they make (\<^verbatim>\<open>open\<close>, \<^verbatim>\<open>write\<close>,
  \<^verbatim>\<open>read\<close>, \<^verbatim>\<open>close\<close>, \<^verbatim>\<open>exit\<close>, \<^verbatim>\<open>getpid\<close> and its like) over any of the three drivers, the contract of such a driver as
  a locale, and the programs of one process: \<^verbatim>\<open>testcases_A1_CS614_23/test1.c\<close> to \<^verbatim>\<open>test5.c\<close> and
  \<^verbatim>\<open>Part1/user_progs/user_prog_1.c\<close>.
\<close>

section \<open>The system under a program\<close>

text \<open>The entry points of a loaded driver.\<close>

record 's info_driver =
  i_open :: "'s \<Rightarrow> u32 \<times> 's"
  i_release :: "'s \<Rightarrow> u32 \<times> 's"
  i_store :: "tasks \<Rightarrow> u8 list \<Rightarrow> u64 \<Rightarrow> 's \<Rightarrow> (ssize_t \<times> 's) outcome"
  i_read :: "tasks \<Rightarrow> u64 \<Rightarrow> u64 \<Rightarrow> mem \<Rightarrow> 's \<Rightarrow> (ssize_t \<times> mem) outcome"

definition part1_driver :: "Part1.drv info_driver" where
  "part1_driver = \<lparr>i_open = Part1.demo_open, i_release = Part1.demo_release,
     i_store = (\<lambda>T b n s. Done (Part1.sysfs_store b n s)), i_read = (\<lambda>T a n m s. Done (Part1.demo_read T a n m s))\<rparr>"

definition part2_driver :: "kapi \<Rightarrow> u32 \<Rightarrow> Part2.drv info_driver" where
  "part2_driver k junk = \<lparr>i_open = Part2.demo_open, i_release = Part2.demo_release,
     i_store = Part2.sysfs_store k, i_read = (\<lambda>T. Part2.demo_read T junk)\<rparr>"

definition part3_driver :: "kapi \<Rightarrow> u32 \<Rightarrow> u32 \<Rightarrow> Part2.drv info_driver" where
  "part3_driver k junk junk_tid = \<lparr>i_open = Part3.demo_open, i_release = Part3.demo_release,
     i_store = Part3.sysfs_store k, i_read = (\<lambda>T. Part3.demo_read T junk junk_tid)\<rparr>"

text \<open>The kinds of open files of the programs: the standard ones, \<^verbatim>\<open>/sys/kernel/cs614_sysfs/cs614_value\<close> and
  \<^verbatim>\<open>/dev/cs614_device\<close>.\<close>

datatype ufile = Std | Sysfs | Device

text \<open>
  What the programs find: which paths can be opened, the process table when task \<open>p\<close> runs at a time, the number of the
  process (thread group) a task belongs to, the address of \<^verbatim>\<open>buf\<close>, and the arguments.
\<close>

record env =
  e_exists :: "ufile \<Rightarrow> bool"
  e_view :: "u32 \<Rightarrow> nat \<Rightarrow> tasks"
  e_tgid :: "ptr \<Rightarrow> u32"
  e_buf :: u64
  e_argv :: "u8 list list"

text \<open>How a program ends: what it said of the test, with its exit status, or by a failed assertion.\<close>

datatype report = Passed | Failed | Quiet
datatype ending = Ended report u32 | Aborted

text \<open>
  The driver, the references to every open file and the number of the next one, a clock that counts system calls, how the
  processes that are gone have ended, and the memory and descriptor table of the process.
\<close>

record 's ustate =
  u_drv :: 's
  u_refs :: "nat \<Rightarrow> nat"
  u_ids :: nat
  u_time :: nat
  u_exits :: "ending list"
  u_mem :: mem
  u_fds :: "(ufile \<times> nat) option list"

definition lookup :: "u32 \<Rightarrow> 's ustate \<Rightarrow> (ufile \<times> nat) option" where
  "lookup f st = (if unat f < length (u_fds st) then u_fds st ! unat f else None)"

text \<open>The lowest free descriptor; opening the device calls the driver.\<close>

definition free_slot :: "(ufile \<times> nat) option list \<Rightarrow> nat" where
  "free_slot fs = length (takeWhile (\<lambda>x. x \<noteq> None) fs)"

definition uopen :: "'s info_driver \<Rightarrow> env \<Rightarrow> ufile \<Rightarrow> 's ustate \<Rightarrow> u32 \<times> 's ustate" where
  "uopen D E kind st =
     (let i = free_slot (u_fds st)
      in if \<not> e_exists E kind \<or> i = length (u_fds st) then (- 1, st)
         else
           (let (r, d) = (if kind = Device then i_open D (u_drv st) else (0, u_drv st));
                st = st\<lparr>u_drv := d\<rparr>
            in if r \<noteq> 0 then (- 1, st)
               else (of_nat i, st\<lparr>u_fds := (u_fds st)[i := Some (kind, u_ids st)], u_refs := (u_refs st)(u_ids st := 1),
                      u_ids := Suc (u_ids st)\<rparr>)))"

text \<open>The driver is told when the last descriptor of an open file goes.\<close>

definition uclose :: "'s info_driver \<Rightarrow> u32 \<Rightarrow> 's ustate \<Rightarrow> 's ustate" where
  "uclose D f st =
     (case lookup f st of
        None \<Rightarrow> st
      | Some (kind, i) \<Rightarrow>
          (let st = st\<lparr>u_fds := (u_fds st)[unat f := None], u_refs := (u_refs st)(i := u_refs st i - 1)\<rparr>
           in if kind = Device \<and> u_refs st i = 0 then st\<lparr>u_drv := snd (i_release D (u_drv st))\<rparr> else st))"

text \<open>The end of a process closes its files.\<close>

definition uexit :: "'s info_driver \<Rightarrow> 's ustate \<Rightarrow> 's ustate" where
  "uexit D st = fold (\<lambda>i. uclose D (of_nat i)) [0..<length (u_fds st)] st"

text \<open>The process table a handler sees has the descriptor table of the caller in it.\<close>

definition fdtable_of :: "(ufile \<times> nat) option list \<Rightarrow> fdtable" where
  "fdtable_of fs = \<lparr>max_fds = of_nat (length fs), fd = (\<lambda>j. if j < length fs \<and> fs ! j \<noteq> None then 1 else 0)\<rparr>"

definition with_files :: "(ufile \<times> nat) option list \<Rightarrow> tasks \<Rightarrow> tasks" where
  "with_files fs T = T\<lparr>task_at := (task_at T)(current T := (task_at T (current T))\<lparr>files := Some (fdtable_of fs)\<rparr>)\<rparr>"

definition seen :: "env \<Rightarrow> u32 \<Rightarrow> 's ustate \<Rightarrow> tasks" where
  "seen E me st = with_files (u_fds st) (e_view E me (u_time st))"

definition tick :: "'s ustate \<Rightarrow> 's ustate" where
  "tick st = st\<lparr>u_time := Suc (u_time st)\<rparr>"

text \<open>The programs write only to the sysfs file and read only from the device.\<close>

definition uwrite :: "'s info_driver \<Rightarrow> env \<Rightarrow> u32 \<Rightarrow> u32 \<Rightarrow> u8 list \<Rightarrow> 's ustate \<Rightarrow> (u32 \<times> 's ustate) outcome" where
  "uwrite D E me f bs st =
     (case lookup f st of
        Some (Sysfs, i) \<Rightarrow>
          obind (i_store D (seen E me st) bs (of_nat (length bs)) (u_drv st)) (\<lambda>(r, d).
            Done (syscall_ret r, tick (st\<lparr>u_drv := d\<rparr>)))
      | _ \<Rightarrow> Done (- 1, tick st))"

definition uread :: "'s info_driver \<Rightarrow> env \<Rightarrow> u32 \<Rightarrow> u32 \<Rightarrow> u64 \<Rightarrow> u64 \<Rightarrow> 's ustate \<Rightarrow> (u32 \<times> 's ustate) outcome" where
  "uread D E me f a n st =
     (case lookup f st of
        Some (Device, i) \<Rightarrow>
          obind (i_read D (seen E me st) a n (u_mem st) (u_drv st)) (\<lambda>(r, m).
            Done (syscall_ret r, tick (st\<lparr>u_mem := m\<rparr>)))
      | _ \<Rightarrow> Done (- 1, tick st))"

definition sleeps :: "nat \<Rightarrow> 's ustate \<Rightarrow> 's ustate" where
  "sleeps n st = (tick ^^ n) st"

definition getpid :: "env \<Rightarrow> u32 \<Rightarrow> 's ustate \<Rightarrow> u32" where
  "getpid E me st = e_tgid E (current (seen E me st))"

definition getppid :: "env \<Rightarrow> u32 \<Rightarrow> 's ustate \<Rightarrow> u32" where
  "getppid E me st = (let T = seen E me st in e_tgid E (real_parent (task_at T (current T))))"

text \<open>\<^verbatim>\<open>getpriority\<close> gives the nice value, and \<^verbatim>\<open>getrusage\<close> the counter of the only thread.\<close>

definition getpriority :: "env \<Rightarrow> u32 \<Rightarrow> 's ustate \<Rightarrow> u32" where
  "getpriority E me st = (let T = seen E me st in static_prio (task_at T (current T)) - 120)"

definition ru_nvcsw :: "env \<Rightarrow> u32 \<Rightarrow> 's ustate \<Rightarrow> u64" where
  "ru_nvcsw E me st = (let T = seen E me st in nvcsw (task_at T (current T)))"

section \<open>Pieces of the programs\<close>

type_synonym 's run = "(ending \<times> 's ustate) outcome"

definition finish :: "'s info_driver \<Rightarrow> ending \<Rightarrow> 's ustate \<Rightarrow> 's run" where
  "finish D e st = (let st = uexit D st in Done (e, st\<lparr>u_exits := u_exits st @ [e]\<rparr>))"

definition asserting :: "'s info_driver \<Rightarrow> bool \<Rightarrow> ('s ustate \<Rightarrow> 's run) \<Rightarrow> 's ustate \<Rightarrow> 's run" where
  "asserting D b rest st = (if b then rest st else finish D Aborted st)"

text \<open>The C string at an address: up to its terminator.\<close>

partial_function (option) cstr :: "u64 \<Rightarrow> mem \<Rightarrow> u8 list option" where
  "cstr a m = (if m a = 0 then Some [] else Option.bind (cstr (a + 1) m) (\<lambda>s. Some (m a # s)))"

definition buf_text :: "env \<Rightarrow> 's ustate \<Rightarrow> u8 list outcome" where
  "buf_text E st = (case cstr (e_buf E) (u_mem st) of None \<Rightarrow> Hang | Some s \<Rightarrow> Done s)"

text \<open>\<^verbatim>\<open>memset(buf, 0, SIZE)\<close> with \<^verbatim>\<open>SIZE\<close> 16.\<close>

definition clear_buf :: "env \<Rightarrow> 's ustate \<Rightarrow> 's ustate" where
  "clear_buf E st = st\<lparr>u_mem := mem_write (e_buf E) (replicate 16 0) (u_mem st)\<rparr>"

text \<open>Commands to the sysfs file, each write asserted to be complete.\<close>

fun put_commands ::
  "'s info_driver \<Rightarrow> env \<Rightarrow> u32 \<Rightarrow> u32 \<Rightarrow> u8 list list \<Rightarrow> ('s ustate \<Rightarrow> 's run) \<Rightarrow> 's ustate \<Rightarrow> 's run" where
  "put_commands D E me fd_1 [] rest st = rest st"
| "put_commands D E me fd_1 (c # cs) rest st =
     obind (uwrite D E me fd_1 c st) (\<lambda>(ret, st).
       asserting D (ret = of_nat (length c)) (put_commands D E me fd_1 cs rest) st)"

text \<open>Read the device, with the length asserted to be positive.\<close>

definition get_answer ::
  "'s info_driver \<Rightarrow> env \<Rightarrow> u32 \<Rightarrow> u32 \<Rightarrow> (u32 \<Rightarrow> 's ustate \<Rightarrow> 's run) \<Rightarrow> 's ustate \<Rightarrow> 's run" where
  "get_answer D E me fd_2 rest st =
     obind (uread D E me fd_2 (e_buf E) 16 st) (\<lambda>(ret, st). asserting D (0 <s ret) (rest ret) st)"

definition opened ::
  "'s info_driver \<Rightarrow> env \<Rightarrow> ufile \<Rightarrow> (u32 \<Rightarrow> 's ustate \<Rightarrow> 's run) \<Rightarrow> 's ustate \<Rightarrow> 's run" where
  "opened D E kind rest st = (let (f, st) = uopen D E kind st in asserting D (\<not> f <s 0) (rest f) st)"

text \<open>The body that the programs of one process share: commands, a pause, the answer, and both files closed.\<close>

definition ask ::
  "'s info_driver \<Rightarrow> env \<Rightarrow> u32 \<Rightarrow> u8 list list \<Rightarrow> nat \<Rightarrow> (u32 \<Rightarrow> 's ustate \<Rightarrow> 's run) \<Rightarrow> 's ustate \<Rightarrow> 's run" where
  "ask D E me cmds pause rest =
     opened D E Sysfs (\<lambda>fd_1. put_commands D E me fd_1 cmds (
       opened D E Device (\<lambda>fd_2 st.
         get_answer D E me fd_2 (\<lambda>ret st. rest ret (uclose D fd_2 (uclose D fd_1 st)))
           (sleeps pause (clear_buf E st)))))"

definition verdict :: "'s info_driver \<Rightarrow> bool \<Rightarrow> 's ustate \<Rightarrow> 's run" where
  "verdict D ok = finish D (if ok then Ended Passed 0 else Ended Failed (- 1))"

text \<open>A string from its \<open>n\<close>-th byte on; beyond its end is not its memory.\<close>

definition str_from :: "nat \<Rightarrow> u8 list \<Rightarrow> u8 list outcome" where
  "str_from n s = (if n \<le> length s then Done (drop n s) else Oops)"

section \<open>The programs of one process\<close>

text \<open>\<^verbatim>\<open>ret == strlen(buf)\<close> compares the \<^verbatim>\<open>int\<close> as an unsigned long.\<close>

definition test1 :: "'s info_driver \<Rightarrow> env \<Rightarrow> u32 \<Rightarrow> 's ustate \<Rightarrow> 's run" where
  "test1 D E me st =
     (if length (e_argv E) \<noteq> 1 then finish D (Ended Quiet (- 1)) st
      else ask D E me [[48]] 0 (\<lambda>ret st.
        obind (buf_text E st) (\<lambda>buf.
          verdict D (scast ret = (of_nat (length buf) :: u64) \<and> atoi buf = getpid E me st) st)) st)"

definition test2 :: "'s info_driver \<Rightarrow> env \<Rightarrow> u32 \<Rightarrow> 's ustate \<Rightarrow> 's run" where
  "test2 D E me st =
     (if length (e_argv E) \<noteq> 1 then finish D (Ended Quiet (- 1)) st
      else ask D E me [[48], [49]] 0 (\<lambda>ret st.
        obind (buf_text E st) (\<lambda>buf. verdict D (atoi buf = 120 + getpriority E me st) st)) st)"

definition test3 :: "'s info_driver \<Rightarrow> env \<Rightarrow> u32 \<Rightarrow> 's ustate \<Rightarrow> 's run" where
  "test3 D E me st =
     (if length (e_argv E) \<noteq> 1 then finish D (Ended Quiet (- 1)) st
      else ask D E me [[50]] 0 (\<lambda>ret st.
        obind (buf_text E st) (\<lambda>buf. obind (str_from 50 (e_argv E ! 0)) (\<lambda>name. verdict D (name = buf) st))) st)"

definition test4 :: "'s info_driver \<Rightarrow> env \<Rightarrow> u32 \<Rightarrow> 's ustate \<Rightarrow> 's run" where
  "test4 D E me st =
     (if length (e_argv E) \<noteq> 1 then finish D (Ended Quiet (- 1)) st
      else ask D E me [[51]] 0 (\<lambda>ret st.
        obind (buf_text E st) (\<lambda>buf. verdict D (atoi buf = getppid E me st) st)) st)"

definition test5 :: "'s info_driver \<Rightarrow> env \<Rightarrow> u32 \<Rightarrow> 's ustate \<Rightarrow> 's run" where
  "test5 D E me st =
     (if length (e_argv E) \<noteq> 1 then finish D (Ended Quiet (- 1)) st
      else ask D E me [[52]] 3 (\<lambda>ret st.
        obind (buf_text E st) (\<lambda>buf. verdict D (scast (atoi buf) = ru_nvcsw E me st) st)) st)"

text \<open>The same checks chosen by the command; the exit status is 0 in either case.\<close>

definition check_option :: "'s info_driver \<Rightarrow> env \<Rightarrow> u32 \<Rightarrow> u8 list \<Rightarrow> 's ustate \<Rightarrow> 's run" where
  "check_option D E me option st =
     obind (buf_text E st) (\<lambda>buf.
       if atoi option = 0 \<and> atoi buf = getpid E me st then finish D (Ended Passed 0) st
       else if atoi option = 1 \<and> atoi buf = 120 + getpriority E me st then finish D (Ended Passed 0) st
       else
         obind (if atoi option = 2 then obind (str_from 2 (e_argv E ! 0)) (\<lambda>name. Done (name = buf)) else Done False) (\<lambda>same.
           if same then finish D (Ended Passed 0) st
           else if atoi option = 3 \<and> atoi buf = getppid E me st then finish D (Ended Passed 0) st
           else if atoi option = 4 \<and> scast (atoi buf) = ru_nvcsw E me st then finish D (Ended Passed 0) st
           else finish D (Ended Failed 0) st))"

definition user_prog_1 :: "'s info_driver \<Rightarrow> env \<Rightarrow> u32 \<Rightarrow> 's ustate \<Rightarrow> 's run" where
  "user_prog_1 D E me st =
     (if length (e_argv E) \<noteq> 2 then finish D (Ended Quiet (- 1)) st
      else ask D E me [e_argv E ! 1] 0 (\<lambda>ret. check_option D E me (e_argv E ! 1)) st)"

section \<open>Facts about the calls\<close>

lemma with_files_simps [simp]:
  "current (with_files fs T) = current T" "pid (task_at (with_files fs T) t) = pid (task_at T t)"
  "static_prio (task_at (with_files fs T) t) = static_prio (task_at T t)" "comm (task_at (with_files fs T) t) = comm (task_at T t)"
  "real_parent (task_at (with_files fs T) t) = real_parent (task_at T t)" "nvcsw (task_at (with_files fs T) t) = nvcsw (task_at T t)"
  "t_mm (task_at (with_files fs T) t) = t_mm (task_at T t)" "mm_at (with_files fs T) = mm_at T"
  "files (task_at (with_files fs T) (current T)) = Some (fdtable_of fs)"
  "pid_task (with_files fs T) = pid_task T" "next_thread (with_files fs T) = next_thread T"
  by (simp_all add: with_files_def)

lemma with_files_facts [simp]:
  "attribute (with_files fs T) t v = attribute T t v" "tasks_ok (with_files fs T) = tasks_ok T"
  "is_ring (with_files fs T) t ts = is_ring T t ts" "thread_stack (with_files fs T) t = thread_stack T t"
  by (simp_all add: attribute_def tasks_ok_def is_ring_def thread_stack_def Let_def)

lemma tick_simps [simp]:
  "u_drv (tick st) = u_drv st" "u_refs (tick st) = u_refs st" "u_ids (tick st) = u_ids st" "u_mem (tick st) = u_mem st"
  "u_fds (tick st) = u_fds st" "u_exits (tick st) = u_exits st" "u_time (tick st) = Suc (u_time st)"
  by (simp_all add: tick_def)

lemma sleeps_simps [simp]:
  "u_drv (sleeps n st) = u_drv st" "u_refs (sleeps n st) = u_refs st" "u_ids (sleeps n st) = u_ids st" "u_mem (sleeps n st) = u_mem st"
  "u_fds (sleeps n st) = u_fds st" "u_exits (sleeps n st) = u_exits st" "u_time (sleeps n st) = u_time st + n"
  by (induction n) (simp_all add: sleeps_def)

lemma clear_buf_simps [simp]:
  "u_drv (clear_buf E st) = u_drv st" "u_refs (clear_buf E st) = u_refs st" "u_ids (clear_buf E st) = u_ids st"
  "u_fds (clear_buf E st) = u_fds st" "u_exits (clear_buf E st) = u_exits st" "u_time (clear_buf E st) = u_time st"
  by (simp_all add: clear_buf_def)

lemma lookup_cong: "u_fds st' = u_fds st \<Longrightarrow> lookup f st' = lookup f st"
  by (simp add: lookup_def)

text \<open>The text of a buffer after a handler put it there with its terminator.\<close>

lemma cstr_Cons: "m a \<noteq> 0 \<Longrightarrow> cstr (a + 1) m = Some s \<Longrightarrow> cstr a m = Some (m a # s)"
  by (subst cstr.simps) simp

lemma cstr_read:
  "mem_read a (Suc (length s)) m = s @ [0] \<Longrightarrow> 0 \<notin> set s \<Longrightarrow> cstr a m = Some s"
proof (induction s arbitrary: a)
  case Nil
  then have "m a = 0" by (simp add: mem_read_def)
  then show ?case by (subst cstr.simps) simp
next
  case (Cons c s)
  have "mem_read a (Suc (Suc (length s))) m = mem_read a 1 m @ mem_read (a + 1) (Suc (length s)) m"
    using mem_read_append [of a 1 "Suc (length s)" m] by simp
  moreover have "mem_read a 1 m = [m a]" by (simp add: mem_read_def)
  ultimately have "m a = c" "mem_read (a + 1) (Suc (length s)) m = s @ [0]" using Cons.prems(1) by simp_all
  with Cons show ?case using cstr_Cons [of m a s] by simp
qed

lemma cstr_write: "length s < 2 ^ 64 \<Longrightarrow> 0 \<notin> set s \<Longrightarrow> cstr a (mem_write a (s @ [0]) m) = Some s"
  using holds_text_write [of s a m] by (intro cstr_read) (simp_all add: holds_text_def)

lemma attribute_no_nul: "attribute T t v = Some str \<Longrightarrow> 0 \<notin> set str"
  using dec_int_no_nul dec_nat_no_nul by (auto simp: attribute_def split: if_splits dest: set_takeWhileD)

text \<open>The process table of a task is consistent at all times, and shows the task as running.\<close>

definition views :: "env \<Rightarrow> u32 \<Rightarrow> bool" where
  "views E me \<longleftrightarrow> (\<forall>t. tasks_ok (e_view E me t) \<and> pid (task_at (e_view E me t) (current (e_view E me t))) = me)"

text \<open>
  Besides, the task is the main thread of its process, so is its parent, and neither the parent nor the priority
  changes while the program runs.
\<close>

abbreviation self :: "env \<Rightarrow> u32 \<Rightarrow> nat \<Rightarrow> task_struct" where
  "self E me t \<equiv> task_at (e_view E me t) (current (e_view E me t))"

definition steady :: "env \<Rightarrow> u32 \<Rightarrow> u32 \<Rightarrow> u32 \<Rightarrow> bool" where
  "steady E me prio parent \<longleftrightarrow> views E me \<and> (\<forall>t. e_tgid E (current (e_view E me t)) = me \<and> static_prio (self E me t) = prio \<and>
     pid (task_at (e_view E me t) (real_parent (self E me t))) = parent \<and> e_tgid E (real_parent (self E me t)) = parent)"

text \<open>A descriptor table with its used entries in front.\<close>

definition table :: "(ufile \<times> nat) option list \<Rightarrow> nat \<Rightarrow> 's ustate \<Rightarrow> bool" where
  "table xs n st \<longleftrightarrow> u_fds st = xs @ replicate n None \<and> None \<notin> set xs \<and> length xs + n < 2 ^ 31"

lemma table_lookup:
  assumes "table xs n st" "i < length xs"
  shows "lookup (of_nat i) st = xs ! i"
proof -
  have "unat (of_nat i :: u32) = i" using assms by (simp add: table_def unat_of_nat)
  with assms show ?thesis by (simp add: lookup_def table_def nth_append)
qed

lemma sint_small: "i < 2 ^ 31 \<Longrightarrow> sint (of_nat i :: u32) = int i"
  by (simp add: signed_of_nat signed_take_bit_int_eq_self_iff)

lemma fd_positive: "i < 2 ^ 31 \<Longrightarrow> \<not> (of_nat i :: u32) <s 0"
  using sint_small [of i] by (simp add: word_sless_alt)

lemma syscall_ret_of_nat:
  assumes "n < 2 ^ 31"
  shows "syscall_ret (of_nat n) = of_nat n"
proof -
  have "unat (of_nat n :: u64) = n" using assms by (simp add: unat_of_nat)
  then show ?thesis using assms by (simp add: syscall_ret_def word_le_nat_alt unsigned_of_nat take_bit_nat_eq_self)
qed

lemma free_slot_used: "None \<notin> set xs \<Longrightarrow> free_slot (xs @ None # ys) = length xs"
  by (induction xs) (simp_all add: free_slot_def eq_commute [of None] del: not_None_eq)

lemma uopen_table:
  assumes "table xs (Suc n) st" "e_exists E kind"
    "(if kind = Device then i_open D (u_drv st) else (0, u_drv st)) = (0, d)"
  shows "\<exists>st'. uopen D E kind st = (of_nat (length xs), st') \<and> table (xs @ [Some (kind, u_ids st)]) n st' \<and>
    u_drv st' = d \<and> u_time st' = u_time st \<and> u_mem st' = u_mem st \<and> u_refs st' = (u_refs st)(u_ids st := 1) \<and>
    u_ids st' = Suc (u_ids st) \<and> u_exits st' = u_exits st"
proof -
  have fs: "u_fds st = xs @ None # replicate n None" "None \<notin> set xs" "length xs + Suc n < 2 ^ 31"
    using assms(1) by (simp_all add: table_def)
  let ?st' = "st\<lparr>u_drv := d, u_fds := xs @ Some (kind, u_ids st) # replicate n None, u_refs := (u_refs st)(u_ids st := 1), u_ids := Suc (u_ids st)\<rparr>"
  have "uopen D E kind st = (of_nat (length xs), ?st')"
    using assms(2,3) fs by (simp add: uopen_def free_slot_used Let_def)
  moreover have "table (xs @ [Some (kind, u_ids st)]) n ?st'" using fs by (simp add: table_def)
  ultimately show ?thesis by auto
qed

text \<open>The paths are there, the task is steady and there is room for two more files.\<close>

definition can_run :: "env \<Rightarrow> u32 \<Rightarrow> u32 \<Rightarrow> u32 \<Rightarrow> 's ustate \<Rightarrow> bool" where
  "can_run E me prio parent st \<longleftrightarrow> e_exists E Sysfs \<and> e_exists E Device \<and> steady E me prio parent \<and> (\<exists>xs k. table xs (Suc (Suc k)) st)"

lemma steady_gets:
  assumes "steady E me prio parent"
  shows "getpid E me st = me" "getppid E me st = parent" "120 + getpriority E me st = prio"
    "attribute (e_view E me t) (current (e_view E me t)) 0 = Some (dec_int (sint me))"
    "attribute (e_view E me t) (current (e_view E me t)) 1 = Some (dec_int (sint prio))"
    "attribute (e_view E me t) (current (e_view E me t)) 2 = Some (takeWhile (\<lambda>c. c \<noteq> 0) (comm (self E me t)))"
    "attribute (e_view E me t) (current (e_view E me t)) 3 = Some (dec_int (sint parent))"
    "attribute (e_view E me t) (current (e_view E me t)) 4 = Some (dec_nat (unat (nvcsw (self E me t))))"
  using assms by (simp_all add: steady_def views_def getpid_def getppid_def getpriority_def seen_def attribute_def Let_def)

lemma digit_commands: "sscanf_d [48] = Some 0" "sscanf_d [49] = Some 1" "sscanf_d [50] = Some 2" "sscanf_d [51] = Some 3"
  "sscanf_d [52] = Some 4" "sscanf_d [53] = Some 5" "sscanf_d [54] = Some 6" "sscanf_d [55] = Some 7"
  by code_simp+

lemma atoi_nvcsw:
  assumes "unat (w :: u64) < 2 ^ 31"
  shows "scast (atoi (dec_nat (unat w))) = w"
proof -
  have "atoi (dec_nat (unat w)) = of_nat (unat w)" using assms by (intro atoi_dec_nat) simp
  then have "sint (atoi (dec_nat (unat w))) = int (unat w)" using sint_small [OF assms] by simp
  then show ?thesis by (simp add: scast_eq)
qed

lemma uclose_at:
  assumes "u_fds st = xs @ Some (kind, i) # ys" "length xs < 2 ^ 31"
  shows "uclose D (of_nat (length xs)) st =
    (let st = st\<lparr>u_fds := xs @ None # ys, u_refs := (u_refs st)(i := u_refs st i - 1)\<rparr>
     in if kind = Device \<and> u_refs st i = 0 then st\<lparr>u_drv := snd (i_release D (u_drv st))\<rparr> else st)"
proof -
  have "unat (of_nat (length xs) :: u32) = length xs" using assms(2) by (simp add: unat_of_nat)
  then show ?thesis using assms(1) by (simp add: uclose_def lookup_def Let_def)
qed

lemma uclose_fds: "u_fds (uclose D f st) = (u_fds st)[unat f := None]"
  by (auto simp: uclose_def lookup_def Let_def list_update_beyond split: option.splits) (metis list_update_id)

lemma uclose_rest [simp]: "u_time (uclose D f st) = u_time st" "u_mem (uclose D f st) = u_mem st" "u_ids (uclose D f st) = u_ids st"
  "u_exits (uclose D f st) = u_exits st"
  by (auto simp: uclose_def Let_def split: option.splits)

lemma buf_text_uclose [simp]: "buf_text E (uclose D f st) = buf_text E st"
  by (simp add: buf_text_def)

text \<open>An answer that the handler puts into the buffer.\<close>

lemma answer_text:
  assumes "lookup f st = Some (Device, i)" "0 \<notin> set str" "length str < 2 ^ 64"
    "i_read D (seen E me st) (e_buf E) 16 (u_mem st) (u_drv st) = Done (16, mem_write (e_buf E) (str @ [0]) (u_mem st))"
  shows "\<exists>st'. get_answer D E me f rest st = rest 16 st' \<and> u_drv st' = u_drv st \<and> u_fds st' = u_fds st \<and>
    u_time st' = Suc (u_time st) \<and> u_refs st' = u_refs st \<and> u_ids st' = u_ids st \<and> u_exits st' = u_exits st \<and> buf_text E st' = Done str"
proof -
  have "syscall_ret 16 = 16" using syscall_ret_of_nat [of 16] by simp
  moreover have "(0 :: u32) <s 16" by (simp add: word_sless_alt)
  ultimately show ?thesis using assms(1,4) cstr_write [OF assms(3,2)]
    by (intro exI [of _ "tick (st\<lparr>u_mem := mem_write (e_buf E) (str @ [0]) (u_mem st)\<rparr>)"])
      (simp add: get_answer_def uread_def asserting_def buf_text_def)
qed

section \<open>What the programs rely on\<close>

text \<open>
  A driver under these calls: \<open>cmd\<close> is the command a task has, \<open>ready n\<close> that the kernel grants the next \<open>n\<close> calls
  what they need.  Opening and releasing change no command, a number written is the writer's command and does to those
  of the other tasks what \<open>spill\<close> says, and a read puts the attribute that the command selects into the buffer.
\<close>

locale info_device =
  fixes D :: "'s info_driver" and inv :: "'s \<Rightarrow> bool" and ready :: "nat \<Rightarrow> 's \<Rightarrow> bool" and cmd :: "u32 \<Rightarrow> 's \<Rightarrow> u32 option"
    and spill :: "u32 \<Rightarrow> u32 option \<Rightarrow> u32 option"
  assumes fewer: "ready (Suc n) s \<Longrightarrow> ready n s"
    and open_ok: "inv s \<Longrightarrow> ready (Suc n) s \<Longrightarrow>
      \<exists>s'. i_open D s = (0, s') \<and> inv s' \<and> ready n s' \<and> (\<forall>q. cmd q s' = cmd q s)"
    and release_ok: "inv s \<Longrightarrow> ready (Suc n) s \<Longrightarrow>
      \<exists>s'. i_release D s = (0, s') \<and> inv s' \<and> ready n s' \<and> (\<forall>q. cmd q s' = cmd q s)"
    and store_ok: "inv s \<Longrightarrow> ready (Suc n) s \<Longrightarrow> sscanf_d b = Some v \<Longrightarrow>
      \<exists>s'. i_store D T b c s = Done (c, s') \<and> inv s' \<and> ready n s' \<and>
        (\<forall>q. cmd q s' = (if q = pid (task_at T (current T)) then Some v else spill v (cmd q s)))"
    and read_ok: "inv s \<Longrightarrow> tasks_ok T \<Longrightarrow> cmd (pid (task_at T (current T))) s = Some v \<Longrightarrow>
      attribute T (current T) v = Some str \<Longrightarrow> 4 \<le> len \<Longrightarrow> i_read D T a len m s = Done (len, mem_write a (str @ [0]) m)"
begin

text \<open>The state between two calls of a program.\<close>

definition good :: "nat \<Rightarrow> 's ustate \<Rightarrow> bool" where
  "good n st \<longleftrightarrow> inv (u_drv st) \<and> ready n (u_drv st)"

lemma open_sysfs:
  assumes "good n st" "table xs (Suc k) st" "e_exists E Sysfs"
  shows "\<exists>st'. opened D E Sysfs rest st = rest (of_nat (length xs)) st' \<and> good n st' \<and>
    table (xs @ [Some (Sysfs, u_ids st)]) k st' \<and> u_drv st' = u_drv st \<and> u_time st' = u_time st \<and> u_mem st' = u_mem st \<and>
    u_refs st' = (u_refs st)(u_ids st := 1) \<and> u_ids st' = Suc (u_ids st) \<and> u_exits st' = u_exits st"
proof -
  have "\<not> (of_nat (length xs) :: u32) <s 0" using assms(2) by (intro fd_positive) (simp add: table_def)
  then show ?thesis using uopen_table [OF assms(2,3), of D "u_drv st"] assms(1) by (auto simp: opened_def asserting_def good_def)
qed

lemma open_device:
  assumes "good (Suc n) st" "table xs (Suc k) st" "e_exists E Device"
  shows "\<exists>st'. opened D E Device rest st = rest (of_nat (length xs)) st' \<and> good n st' \<and>
    table (xs @ [Some (Device, u_ids st)]) k st' \<and> (\<forall>q. cmd q (u_drv st') = cmd q (u_drv st)) \<and> u_time st' = u_time st \<and>
    u_mem st' = u_mem st \<and> u_refs st' = (u_refs st)(u_ids st := 1) \<and> u_ids st' = Suc (u_ids st) \<and> u_exits st' = u_exits st"
proof -
  obtain d where d: "i_open D (u_drv st) = (0, d)" "inv d" "ready n d" "\<forall>q. cmd q d = cmd q (u_drv st)"
    using open_ok [of "u_drv st" n] assms(1) by (auto simp: good_def)
  have "\<not> (of_nat (length xs) :: u32) <s 0" using assms(2) by (intro fd_positive) (simp add: table_def)
  then show ?thesis using uopen_table [OF assms(2,3), of D d] d by (auto simp: opened_def asserting_def good_def)
qed

lemma put_one:
  assumes "good (Suc n) st" "lookup f st = Some (Sysfs, i)" "sscanf_d c = Some v" "length c < 2 ^ 31"
    "views E me"
  shows "\<exists>st'. put_commands D E me f (c # cs) rest st = put_commands D E me f cs rest st' \<and> good n st' \<and>
    (\<forall>q. cmd q (u_drv st') = (if q = me then Some v else spill v (cmd q (u_drv st)))) \<and> u_fds st' = u_fds st \<and>
    u_time st' = Suc (u_time st) \<and> u_mem st' = u_mem st \<and> u_refs st' = u_refs st \<and> u_ids st' = u_ids st \<and> u_exits st' = u_exits st"
proof -
  obtain d where d: "i_store D (seen E me st) c (of_nat (length c)) (u_drv st) = Done (of_nat (length c), d)" "inv d" "ready n d"
    "\<forall>q. cmd q d = (if q = me then Some v else spill v (cmd q (u_drv st)))"
    using store_ok [of "u_drv st" n c v "seen E me st" "of_nat (length c)"] assms(1,3,5)
    by (auto simp: good_def views_def seen_def)
  with assms(2) syscall_ret_of_nat [OF assms(4)] show ?thesis
    by (intro exI [of _ "tick (st\<lparr>u_drv := d\<rparr>)"]) (simp add: uwrite_def asserting_def good_def)
qed

lemma put_all:
  assumes "good (n + length cs) st" "lookup f st = Some (Sysfs, i)" "\<forall>c \<in> set cs. sscanf_d c \<noteq> None \<and> length c < 2 ^ 31"
    "cs = [] \<longrightarrow> cmd me (u_drv st) = Some v" "cs \<noteq> [] \<longrightarrow> sscanf_d (last cs) = Some v" "views E me"
  shows "\<exists>st'. put_commands D E me f cs rest st = rest st' \<and> good n st' \<and> cmd me (u_drv st') = Some v \<and>
    u_fds st' = u_fds st \<and> u_time st' = u_time st + length cs \<and> u_mem st' = u_mem st \<and> u_refs st' = u_refs st \<and> u_ids st' = u_ids st \<and> u_exits st' = u_exits st"
  using assms
proof (induction cs arbitrary: st)
  case Nil
  then show ?case by auto
next
  case (Cons c cs)
  obtain w where "sscanf_d c = Some w" "length c < 2 ^ 31" using Cons.prems(3) by auto
  then obtain st1 where st1: "put_commands D E me f (c # cs) rest st = put_commands D E me f cs rest st1" "good (n + length cs) st1"
    "cmd me (u_drv st1) = Some w" "u_fds st1 = u_fds st" "u_time st1 = Suc (u_time st)" "u_mem st1 = u_mem st"
    "u_refs st1 = u_refs st" "u_ids st1 = u_ids st" "u_exits st1 = u_exits st"
    using put_one [of "n + length cs" st f i c w E me cs rest] Cons.prems by auto
  have v: "cs = [] \<longrightarrow> cmd me (u_drv st1) = Some v" "cs \<noteq> [] \<longrightarrow> sscanf_d (last cs) = Some v"
    using Cons.prems(5) st1(3) \<open>sscanf_d c = Some w\<close> by (auto split: if_splits)
  have "lookup f st1 = Some (Sysfs, i)" using Cons.prems(2) lookup_cong [OF st1(4)] by simp
  from Cons.IH [OF st1(2) this _ v] Cons.prems(3,6) st1 show ?case by auto
qed

lemma answer:
  assumes "good n st" "lookup f st = Some (Device, i)" "views E me" "cmd me (u_drv st) = Some v"
    "attribute (e_view E me (u_time st)) (current (e_view E me (u_time st))) v = Some str"
  shows "\<exists>st'. get_answer D E me f rest st = rest 16 st' \<and> u_drv st' = u_drv st \<and> u_fds st' = u_fds st \<and>
    u_time st' = Suc (u_time st) \<and> u_refs st' = u_refs st \<and> u_ids st' = u_ids st \<and> u_exits st' = u_exits st \<and> buf_text E st' = Done str"
proof -
  let ?T = "seen E me st"
  have T: "tasks_ok ?T" "pid (task_at ?T (current ?T)) = me" "attribute ?T (current ?T) v = Some str"
    using assms(3,5) by (simp_all add: seen_def views_def)
  then have r: "i_read D ?T (e_buf E) 16 (u_mem st) (u_drv st) = Done (16, mem_write (e_buf E) (str @ [0]) (u_mem st))"
    using assms(1,4) by (intro read_ok) (simp_all add: good_def)
  have "length str \<le> 20" using T(1,3) by (auto simp: tasks_ok_def intro: length_attribute)
  then have "length str < 2 ^ 64" by simp
  from answer_text [OF assms(2) attribute_no_nul [OF T(3)] this r] show ?thesis .
qed

text \<open>The sysfs file and the device, opened one after the other and held by this process alone, are closed again.\<close>

lemma close_both:
  assumes "good (Suc n) st" "u_fds st = xs @ Some (Sysfs, i) # Some (Device, j) # ys" "u_refs st j = 1" "i \<noteq> j" "length xs + 1 < 2 ^ 31"
  shows "\<exists>d. uclose D (of_nat (Suc (length xs))) (uclose D (of_nat (length xs)) st) =
      st\<lparr>u_drv := d, u_fds := xs @ None # None # ys, u_refs := (u_refs st)(i := u_refs st i - 1, j := 0)\<rparr> \<and>
    inv d \<and> ready n d \<and> (\<forall>q. cmd q d = cmd q (u_drv st))"
proof -
  let ?st1 = "st\<lparr>u_fds := xs @ None # Some (Device, j) # ys, u_refs := (u_refs st)(i := u_refs st i - 1)\<rparr>"
  obtain d where d: "i_release D (u_drv st) = (0, d)" "inv d" "ready n d" "\<forall>q. cmd q d = cmd q (u_drv st)"
    using release_ok [of "u_drv st" n] assms(1) by (auto simp: good_def)
  have "uclose D (of_nat (length xs)) st = ?st1" using uclose_at [OF assms(2), of D] assms(5) by simp
  moreover have "uclose D (of_nat (length (xs @ [None]))) ?st1 =
      st\<lparr>u_drv := d, u_fds := xs @ None # None # ys, u_refs := (u_refs st)(i := u_refs st i - 1, j := 0)\<rparr>"
    using uclose_at [of ?st1 "xs @ [None]" Device j ys D] assms(3-5) d(1) by (simp add: fun_upd_twist)
  ultimately show ?thesis using d by auto
qed

text \<open>Commands between the opening of the two files.\<close>

lemma opened_both:
  assumes g: "good (Suc n + length cs) st" and tab: "table xs (Suc (Suc k)) st" and ex: "e_exists E Sysfs" "e_exists E Device"
    and vw: "views E me" and cs: "\<forall>c \<in> set cs. sscanf_d c \<noteq> None \<and> length c < 2 ^ 31" "cs \<noteq> []" "sscanf_d (last cs) = Some v"
  shows "\<exists>st'. opened D E Sysfs (\<lambda>f1. put_commands D E me f1 cs (opened D E Device (rest f1))) st =
      rest (of_nat (length xs)) (of_nat (Suc (length xs))) st' \<and> good n st' \<and> cmd me (u_drv st') = Some v \<and>
    table (xs @ [Some (Sysfs, u_ids st), Some (Device, Suc (u_ids st))]) k st' \<and> u_time st' = u_time st + length cs \<and>
    u_refs st' (Suc (u_ids st)) = 1 \<and> lookup (of_nat (length xs)) st' = Some (Sysfs, u_ids st) \<and>
    lookup (of_nat (Suc (length xs))) st' = Some (Device, Suc (u_ids st))"
proof -
  let ?xs = "xs @ [Some (Sysfs, u_ids st)]" and ?f1 = "of_nat (length xs) :: u32" and ?f2 = "of_nat (Suc (length xs)) :: u32"
  define dev where "dev = (\<lambda>f1. opened D E Device (rest f1))"
  obtain st1 where st1: "opened D E Sysfs (\<lambda>f1. put_commands D E me f1 cs (dev f1)) st = put_commands D E me ?f1 cs (dev ?f1) st1"
    "good (Suc n + length cs) st1" "table ?xs (Suc k) st1" "u_time st1 = u_time st" "u_ids st1 = Suc (u_ids st)"
    using open_sysfs [OF g tab ex(1)] by fastforce
  have f1: "lookup ?f1 st1 = Some (Sysfs, u_ids st)" using table_lookup [OF st1(3), of "length xs"] by simp
  obtain st2 where st2: "put_commands D E me ?f1 cs (dev ?f1) st1 = dev ?f1 st2" "good (Suc n) st2" "cmd me (u_drv st2) = Some v"
    "u_fds st2 = u_fds st1" "u_time st2 = u_time st + length cs" "u_ids st2 = u_ids st1"
    using put_all [OF st1(2) f1 cs(1) _ _ vw] cs(2,3) st1(4) by fastforce
  have t2: "table ?xs (Suc k) st2" using st1(3) st2(4) by (simp add: table_def)
  obtain st3 where st3: "dev ?f1 st2 = rest ?f1 ?f2 st3" "good n st3" "table (?xs @ [Some (Device, Suc (u_ids st))]) k st3"
    "\<forall>q. cmd q (u_drv st3) = cmd q (u_drv st2)" "u_time st3 = u_time st2" "u_refs st3 = (u_refs st2)(Suc (u_ids st) := 1)"
    using open_device [OF st2(2) t2 ex(2)] unfolding dev_def st2(6) st1(5) by fastforce
  show ?thesis
    using st1(1) st2(1,3,5) st3 table_lookup [OF st3(3), of "length xs"] table_lookup [OF st3(3), of "Suc (length xs)"]
    by (intro exI [of _ st3]) (simp add: dev_def nth_append)
qed

text \<open>The last command decides what the answer is; the files are closed as they were opened.\<close>

lemma ask_answers:
  assumes g: "good (n + length cs + 2) st" and tab: "table xs (Suc (Suc k)) st" and ex: "e_exists E Sysfs" "e_exists E Device"
    and vw: "views E me" and cs: "\<forall>c \<in> set cs. sscanf_d c \<noteq> None \<and> length c < 2 ^ 31" "cs \<noteq> []" "sscanf_d (last cs) = Some v"
    and str: "attribute (e_view E me (u_time st + length cs + pause)) (current (e_view E me (u_time st + length cs + pause))) v = Some str"
  shows "\<exists>st'. ask D E me cs pause rest st = rest 16 st' \<and> good n st' \<and> cmd me (u_drv st') = Some v \<and> buf_text E st' = Done str \<and>
    u_fds st' = u_fds st \<and> u_time st' = Suc (u_time st + length cs + pause)"
proof -
  let ?f1 = "of_nat (length xs) :: u32" and ?f2 = "of_nat (Suc (length xs)) :: u32"
  define fin where "fin = (\<lambda>f1 f2 ret st. rest ret (uclose D f2 (uclose D f1 st)))"
  have g': "good (Suc (Suc n) + length cs) st" using g by simp
  obtain st3 where st3: "ask D E me cs pause rest st = get_answer D E me ?f2 (fin ?f1 ?f2) (sleeps pause (clear_buf E st3))"
    "good (Suc n) st3" "cmd me (u_drv st3) = Some v" "table (xs @ [Some (Sysfs, u_ids st), Some (Device, Suc (u_ids st))]) k st3"
    "u_time st3 = u_time st + length cs" "u_refs st3 (Suc (u_ids st)) = 1" "lookup ?f2 st3 = Some (Device, Suc (u_ids st))"
    using opened_both [OF g' tab ex vw cs, of "\<lambda>f1 f2 st. get_answer D E me f2 (fin f1 f2) (sleeps pause (clear_buf E st))"]
    unfolding ask_def fin_def by auto
  let ?st3 = "sleeps pause (clear_buf E st3)"
  have f2: "lookup ?f2 ?st3 = Some (Device, Suc (u_ids st))" using st3(7) lookup_cong [of ?st3 st3] by simp
  obtain st4 where st4: "get_answer D E me ?f2 (fin ?f1 ?f2) ?st3 = fin ?f1 ?f2 16 st4" "u_drv st4 = u_drv st3" "u_fds st4 = u_fds st3"
    "u_time st4 = Suc (u_time st + length cs + pause)" "u_refs st4 = u_refs st3" "buf_text E st4 = Done str"
    using answer [of "Suc n" ?st3 ?f2 "Suc (u_ids st)" E me v str "fin ?f1 ?f2"] f2 vw st3(2,3,5) str
    by (auto simp: good_def)
  have "u_fds st4 = xs @ Some (Sysfs, u_ids st) # Some (Device, Suc (u_ids st)) # replicate k None" "length xs + 1 < 2 ^ 31"
    using st4(3) st3(4) by (simp_all add: table_def)
  then obtain d where d: "uclose D ?f2 (uclose D ?f1 st4) = st4\<lparr>u_drv := d, u_fds := xs @ None # None # replicate k None,
      u_refs := (u_refs st4)(u_ids st := u_refs st4 (u_ids st) - 1, Suc (u_ids st) := 0)\<rparr>" "inv d" "ready n d"
    "\<forall>q. cmd q d = cmd q (u_drv st4)"
    using close_both [of n st4 xs "u_ids st" "Suc (u_ids st)"] st3(2,6) st4(2,5) by (auto simp: good_def)
  show ?thesis
    using d tab st3(1,3) st4
    by (intro exI [of _ "uclose D ?f2 (uclose D ?f1 st4)"]) (simp add: fin_def good_def table_def buf_text_def)
qed

text \<open>The verdict of a program that checks the answer to its last command.\<close>

lemma ask_verdict:
  assumes "can_run E me prio parent st" "good (length cs + 2) st" "\<forall>c \<in> set cs. sscanf_d c \<noteq> None \<and> length c < 2 ^ 31" "cs \<noteq> []"
    "sscanf_d (last cs) = Some v"
    "attribute (e_view E me (u_time st + length cs + pause)) (current (e_view E me (u_time st + length cs + pause))) v = Some str"
    "\<And>st'. u_time st' = Suc (u_time st + length cs + pause) \<Longrightarrow> buf_text E st' = Done str \<Longrightarrow> \<exists>st''. rest 16 st' = Done (e, st'')"
  shows "\<exists>st'. ask D E me cs pause rest st = Done (e, st')"
proof -
  obtain xs k where tab: "table xs (Suc (Suc k)) st" using assms(1) by (auto simp: can_run_def)
  have pre: "good (0 + length cs + 2) st" "e_exists E Sysfs" "e_exists E Device" "views E me"
    using assms(1,2) by (simp_all add: can_run_def steady_def)
  obtain st' where "ask D E me cs pause rest st = rest 16 st'" "buf_text E st' = Done str"
    "u_time st' = Suc (u_time st + length cs + pause)"
    using ask_answers [OF pre(1) tab pre(2-4) assms(3-6), of rest] by blast
  with assms(7) [of st'] show ?thesis by simp
qed

lemma ask_passes:
  assumes run: "can_run E me prio parent st" and str: "attribute (e_view E me (u_time st + length cs + pause))
      (current (e_view E me (u_time st + length cs + pause))) v = Some str"
    and g: "good m st" "m = length cs + 2"
    and cs: "\<forall>c \<in> set cs. sscanf_d c \<noteq> None \<and> length c < 2 ^ 31" "cs \<noteq> []" "sscanf_d (last cs) = Some v"
    and check: "\<And>st'. u_time st' = Suc (u_time st + length cs + pause) \<Longrightarrow> P 16 str st'"
  shows "\<exists>st'. ask D E me cs pause (\<lambda>ret st. obind (buf_text E st) (\<lambda>buf. verdict D (P ret buf st) st)) st = Done (Ended Passed 0, st')"
  using g check by (intro ask_verdict [OF run _ cs str]) (auto simp: verdict_def finish_def Let_def)

lemma ask_fails:
  assumes run: "can_run E me prio parent st" and str: "attribute (e_view E me (u_time st + length cs + pause))
      (current (e_view E me (u_time st + length cs + pause))) v = Some str"
    and g: "good m st" "m = length cs + 2"
    and cs: "\<forall>c \<in> set cs. sscanf_d c \<noteq> None \<and> length c < 2 ^ 31" "cs \<noteq> []" "sscanf_d (last cs) = Some v"
    and check: "\<And>st'. u_time st' = Suc (u_time st + length cs + pause) \<Longrightarrow> \<not> P 16 str st'"
  shows "\<exists>st'. ask D E me cs pause (\<lambda>ret st. obind (buf_text E st) (\<lambda>buf. verdict D (P ret buf st) st)) st = Done (Ended Failed (- 1), st')"
  using g check by (intro ask_verdict [OF run _ cs str]) (auto simp: verdict_def finish_def Let_def)

lemma test1_fails:
  assumes "can_run E me prio parent st" "good 3 st" "length (e_argv E) = 1"
  shows "\<exists>st'. test1 D E me st = Done (Ended Failed (- 1), st')"
proof -
  have s: "steady E me prio parent" using assms(1) by (simp add: can_run_def)
  have "length (dec_int (sint me)) \<le> 11" using length_sprintf_d [of me] by (simp add: sprintf_d_def)
  then have "of_nat (length (dec_int (sint me))) \<noteq> (16 :: u64)" by (auto simp: word_unat_eq_iff unat_of_nat)
  then show ?thesis unfolding test1_def using assms(3)
    by (simp only: simp_thms if_False) (rule ask_fails [OF assms(1) steady_gets(4) [OF s] assms(2)]; auto simp: digit_commands)
qed

lemma test2_passes:
  assumes "can_run E me prio parent st" "good 4 st" "length (e_argv E) = 1"
  shows "\<exists>st'. test2 D E me st = Done (Ended Passed 0, st')"
proof -
  have s: "steady E me prio parent" using assms(1) by (simp add: can_run_def)
  show ?thesis unfolding test2_def using assms(3)
    by (simp only: simp_thms if_False)
      (rule ask_passes [OF assms(1) steady_gets(5) [OF s] assms(2)]; simp add: digit_commands steady_gets [OF s] atoi_dec_int)
qed

text \<open>The third checks the name behind the fiftieth byte of the path it was called by.\<close>

lemma test3_passes:
  assumes "can_run E me prio parent st" "good 3 st" "e_argv E = [path]" "50 \<le> length path"
    "drop 50 path = takeWhile (\<lambda>c. c \<noteq> 0) (comm (self E me (u_time st + 1)))"
  shows "\<exists>st'. test3 D E me st = Done (Ended Passed 0, st')"
proof -
  have s: "steady E me prio parent" using assms(1) by (simp add: can_run_def)
  have name: "str_from 50 (e_argv E ! 0) = Done (drop 50 path)" "length (e_argv E) = 1" using assms(3,4) by (simp_all add: str_from_def)
  show ?thesis unfolding test3_def name obind_simps
    by (simp only: simp_thms if_False)
      (rule ask_passes [OF assms(1) steady_gets(6) [OF s] assms(2)]; simp add: digit_commands assms(5))
qed

lemma test4_passes:
  assumes "can_run E me prio parent st" "good 3 st" "length (e_argv E) = 1"
  shows "\<exists>st'. test4 D E me st = Done (Ended Passed 0, st')"
proof -
  have s: "steady E me prio parent" using assms(1) by (simp add: can_run_def)
  show ?thesis unfolding test4_def using assms(3)
    by (simp only: simp_thms if_False)
      (rule ask_passes [OF assms(1) steady_gets(7) [OF s] assms(2)]; simp add: digit_commands steady_gets [OF s] atoi_dec_int)
qed

text \<open>The fifth expects that the program is not switched out between the answer and its own count.\<close>

lemma test5_verdict:
  assumes "can_run E me prio parent st" "good 3 st" "length (e_argv E) = 1" "unat (nvcsw (self E me (4 + u_time st))) < 2 ^ 31"
  shows "\<exists>st'. test5 D E me st = Done (if nvcsw (self E me (4 + u_time st)) = nvcsw (self E me (5 + u_time st))
    then Ended Passed 0 else Ended Failed (- 1), st')"
proof -
  have s: "steady E me prio parent" using assms(1) by (simp add: can_run_def)
  have n: "scast (atoi (dec_nat (unat (nvcsw (self E me (4 + u_time st)))))) = nvcsw (self E me (4 + u_time st))"
    using atoi_nvcsw [OF assms(4)] by simp
  have later: "ru_nvcsw E me st' = nvcsw (self E me (5 + u_time st))"
    if "u_time st' = 5 + u_time st" for st' :: "'s ustate"
    using that by (simp add: ru_nvcsw_def seen_def Let_def)
  show ?thesis
  proof (cases "nvcsw (self E me (4 + u_time st)) = nvcsw (self E me (5 + u_time st))")
    case True
    then show ?thesis unfolding test5_def using assms(3)
      by (simp only: simp_thms if_False if_True)
        (rule ask_passes [OF assms(1) steady_gets(8) [OF s] assms(2)]; simp add: digit_commands n [unfolded True] later)
  next
    case False
    then show ?thesis unfolding test5_def using assms(3)
      by (simp only: simp_thms if_False)
        (rule ask_fails [OF assms(1) steady_gets(8) [OF s] assms(2)]; simp add: digit_commands n later)
  qed
qed

text \<open>The program that takes the command as its argument passes for each of the five.\<close>

lemma user_prog_1_passes:
  assumes "can_run E me prio parent st" "good 3 st" "e_argv E = [path, dec_nat v]" "v \<le> 4" "2 \<le> length path"
    "drop 2 path = takeWhile (\<lambda>c. c \<noteq> 0) (comm (self E me (u_time st + 1)))"
    "nvcsw (self E me (u_time st + 1)) = nvcsw (self E me (u_time st + 2))" "unat (nvcsw (self E me (u_time st + 1))) < 2 ^ 31"
  shows "\<exists>st'. user_prog_1 D E me st = Done (Ended Passed 0, st')"
proof -
  have s: "steady E me prio parent" using assms(1) by (simp add: can_run_def)
  have cmd: "sscanf_d (dec_nat v) = Some (of_nat v)" "atoi (dec_nat v) = of_nat v" "length (dec_nat v) < 2 ^ 31"
    using sscanf_d_dec_int [of "[]" "int v"] assms(4) atoi_dec_nat [of v] length_dec_nat_le [of v 1]
    by (simp_all add: stops_def dec_int_def)
  have five: "v = 0 \<or> v = 1 \<or> v = 2 \<or> v = 3 \<or> v = 4" using assms(4) by arith
  let ?T = "e_view E me (u_time st + length [dec_nat v] + 0)"
  obtain str where str: "attribute ?T (current ?T) (of_nat v) = Some str" using five steady_gets [OF s] by auto
  have "check_option D E me (dec_nat v) st' = finish D (Ended Passed 0) st'"
    if "u_time st' = Suc (u_time st + length [dec_nat v] + 0)" "buf_text E st' = Done str" for st' :: "'s ustate"
  proof -
    have later: "ru_nvcsw E me st' = nvcsw (self E me (Suc (u_time st)))"
      using that(1) assms(7) by (simp add: ru_nvcsw_def seen_def Let_def)
    have a0: "e_argv E ! 0 = path" using assms(3) by simp
    have nv: "scast (atoi (dec_nat (unat (nvcsw (self E me (Suc (u_time st))))))) = nvcsw (self E me (Suc (u_time st)))"
      using atoi_nvcsw assms(8) by simp
    show ?thesis unfolding check_option_def that(2) obind_simps cmd(2) a0
      using five str assms(5,6) by (elim disjE) (auto simp: steady_gets [OF s] atoi_dec_int str_from_def later nv)
  qed
  then have "\<exists>st'. ask D E me [dec_nat v] 0 (\<lambda>ret. check_option D E me (dec_nat v)) st = Done (Ended Passed 0, st')"
    using cmd assms(2) by (intro ask_verdict [OF assms(1) _ _ _ _ str]) (simp_all add: finish_def Let_def numeral_3_eq_3)
  then show ?thesis using assms(3) by (simp add: user_prog_1_def)
qed

end

section \<open>The three drivers\<close>

text \<open>
  The allocations among the next \<open>n\<close> calls of a module are granted, and give objects it does not own; an allocation is
  answered by the kernel.
\<close>

definition answered :: "kapi \<Rightarrow> kcall list \<Rightarrow> kcall \<Rightarrow> bool" where
  "answered k l c = (case c of Kalloc n p \<Rightarrow> p = k_alloc k l | _ \<Rightarrow> True)"

fun honest :: "kapi \<Rightarrow> kcall list \<Rightarrow> kcall list \<Rightarrow> bool" where
  "honest k l [] = True"
| "honest k l (c # cs) = (honest k l cs \<and> answered k (cs @ l) c)"

definition supplies :: "kapi \<Rightarrow> nat \<Rightarrow> kcall list \<Rightarrow> bool" where
  "supplies k n l \<longleftrightarrow> (\<forall>cs. length cs < n \<and> honest k l cs \<longrightarrow>
     k_alloc k (cs @ l) \<noteq> 0 \<and> R_mem (k_alloc k (cs @ l)) \<notin> live (cs @ l))"

lemma honest_snoc: "honest k l (cs @ [c]) \<longleftrightarrow> honest k l [c] \<and> honest k (c # l) cs"
  by (induction cs) auto

lemma supplies_call: "supplies k (Suc n) l \<Longrightarrow> answered k l c \<Longrightarrow> supplies k n (c # l)"
  unfolding supplies_def
proof (intro allI impI)
  fix cs
  assume a: "\<forall>cs. length cs < Suc n \<and> honest k l cs \<longrightarrow> k_alloc k (cs @ l) \<noteq> 0 \<and> R_mem (k_alloc k (cs @ l)) \<notin> live (cs @ l)"
    "answered k l c" "length cs < n \<and> honest k (c # l) cs"
  from a(1) [rule_format, of "cs @ [c]"] a(2,3) show "k_alloc k (cs @ c # l) \<noteq> 0 \<and> R_mem (k_alloc k (cs @ c # l)) \<notin> live (cs @ c # l)"
    by (simp add: honest_snoc)
qed

lemma supplies_fewer: "supplies k (Suc n) l \<Longrightarrow> supplies k n l"
  by (simp add: supplies_def)

lemma supplies_fresh: "supplies k (Suc n) (klog s) \<Longrightarrow> fresh_alloc k s"
  unfolding supplies_def fresh_alloc_def by (metis append_Nil honest.simps(1) list.size(3) zero_less_Suc)

text \<open>The kernel that grants everything has a fresh object for each of the next calls.\<close>

lemma granting_live: "honest granting [] cs \<Longrightarrow> R_mem p \<in> live cs \<Longrightarrow> \<exists>j < length cs. p = 16384 + of_nat j"
proof (induction cs)
  case (Cons c cs)
  have "R_mem p \<in> live cs \<or> (\<exists>n. c = Kalloc n p)" using Cons.prems(2) by (cases c) (auto split: if_splits)
  moreover have "p = 16384 + of_nat (length cs)" if "c = Kalloc n p" for n
    using that Cons.prems(1) by (simp add: answered_def granting_def)
  ultimately show ?case using Cons by (auto intro: less_SucI)
qed simp

lemma granting_supplies: "n \<le> 2 ^ 32 \<Longrightarrow> supplies granting n []"
  unfolding supplies_def
proof (intro allI impI)
  fix cs
  assume n: "n \<le> 2 ^ 32" and cs: "length cs < n \<and> honest granting [] cs"
  have u: "unat (16384 + of_nat j :: u64) = 16384 + j" if "j < 2 ^ 32" for j
    using that by (simp add: unat_word_ariths unat_of_nat)
  have p: "k_alloc granting (cs @ []) = 16384 + of_nat (length cs)" by (simp add: granting_def)
  have "k_alloc granting (cs @ []) \<noteq> 0" using u [of "length cs"] n cs unfolding p by auto
  moreover have "R_mem (k_alloc granting (cs @ [])) \<notin> live (cs @ [])"
    using granting_live [of cs "16384 + of_nat (length cs)"] u n cs unfolding p
    by (auto simp: word_unat_eq_iff)
  ultimately show "k_alloc granting (cs @ []) \<noteq> 0 \<and> R_mem (k_alloc granting (cs @ [])) \<notin> live (cs @ [])" ..
qed

interpretation p1_info: info_device part1_driver "\<lambda>_. True" "\<lambda>_ _. True" "\<lambda>q s. Some (Part1.cs614_value s)" "\<lambda>v _. Some v"
proof
  fix s :: Part1.drv and T v str len a m
  assume "tasks_ok T" "Some (Part1.cs614_value s) = Some v" "attribute T (current T) v = Some str" "4 \<le> (len :: u64)"
  then show "i_read part1_driver T a len m s = Done (len, mem_write a (str @ [0]) m)"
    using Part1.demo_read_eq [of T s str len] by (simp add: part1_driver_def)
qed (auto simp: part1_driver_def Part1.demo_open_def Part1.demo_release_def Part1.sysfs_store_def kcalled_def Let_def)

lemma part2_store_ok:
  assumes "nodes_inv s" "supplies k (Suc n) (klog s)" "sscanf_d b = Some v"
  shows "\<exists>s'. Part2.sysfs_store k T b c s = Done (c, s') \<and> nodes_inv s' \<and> supplies k n (klog s') \<and>
    (\<forall>q. command_of q s' = (if q = pid (task_at T (current T)) then Some v else command_of q s))"
proof -
  obtain s' where s': "store_value k (pid (task_at T (current T))) v s = Done s'" "nodes_inv s'"
    "\<forall>q. command_of q s' = (if q = pid (task_at T (current T)) then Some v else command_of q s)"
    "klog s' = Kalloc 16 (k_alloc k (klog s)) # klog s"
    using store_value_ok [OF assms(1) supplies_fresh [OF assms(2)]] by blast
  then show ?thesis using assms(3) supplies_call [OF assms(2)] by (simp add: sysfs_store_eq answered_def)
qed

text \<open>Opening and releasing are log entries to the list.\<close>

lemma part2_files_ok:
  assumes "nodes_inv s" "supplies k (Suc n) (klog s)" "s' = snd (Part2.demo_open s) \<or> s' = snd (Part2.demo_release s)"
  shows "nodes_inv s'" "supplies k n (klog s')" "command_of q s' = command_of q s"
proof -
  have same: "heap s' = heap s" "head s' = head s" "cs614_mutex s' = cs614_mutex s"
    and log: "klog s' = Try_module_get # klog s \<or> klog s' = Module_put # klog s"
    using assms(3) by (auto simp: Part2.demo_open_def Part2.demo_release_def kcalled_def Let_def)
  have "live (klog s') = live (klog s)" using log by auto
  then show "nodes_inv s'" using assms(1) same by (simp add: nodes_inv_def list_inv_def)
  show "supplies k n (klog s')" using log supplies_call [OF assms(2)] by (auto simp: answered_def)
  show "command_of q s' = command_of q s" using same by (intro nodes_cong(2))
qed

lemma part2_files_ret: "fst (Part2.demo_open s) = 0" "fst (Part2.demo_release s) = 0"
  by (simp_all add: Part2.demo_open_def Part2.demo_release_def Let_def)

interpretation p2_info: info_device "part2_driver k junk" nodes_inv "\<lambda>n s. supplies k n (klog s)" command_of "\<lambda>_ c. c" for k junk
proof
  fix s :: Part2.drv and n b v T c
  assume "nodes_inv s" "supplies k (Suc n) (klog s)" "sscanf_d b = Some v"
  from part2_store_ok [OF this, of T c]
  show "\<exists>s'. i_store (part2_driver k junk) T b c s = Done (c, s') \<and> nodes_inv s' \<and> supplies k n (klog s') \<and>
      (\<forall>q. command_of q s' = (if q = pid (task_at T (current T)) then Some v else command_of q s))" by (auto simp: part2_driver_def)
next
  fix s :: Part2.drv and T v str len a m
  assume "nodes_inv s" "tasks_ok T" "command_of (pid (task_at T (current T))) s = Some v" "attribute T (current T) v = Some str" "4 \<le> (len :: u64)"
  then show "i_read (part2_driver k junk) T a len m s = Done (len, mem_write a (str @ [0]) m)"
    using part2_read_eq [of s T len v junk str] by (simp add: part2_driver_def)
qed (auto simp: part2_driver_def prod_eq_iff part2_files_ret dest: part2_files_ok supplies_fewer)

lemma attribute_small: "attribute T t v = Some str \<Longrightarrow> v < 5"
  by (auto simp: attribute_def split: if_splits)

interpretation p3_info: info_device "part3_driver k junk junk_tid" nodes_inv "\<lambda>n s. supplies k n (klog s)" command_of "\<lambda>_ c. c" for k junk junk_tid
proof
  fix s :: Part2.drv and n b v T c
  assume "nodes_inv s" "supplies k (Suc n) (klog s)" "sscanf_d b = Some v"
  from part2_store_ok [OF this, of T c]
  show "\<exists>s'. i_store (part3_driver k junk junk_tid) T b c s = Done (c, s') \<and> nodes_inv s' \<and> supplies k n (klog s') \<and>
      (\<forall>q. command_of q s' = (if q = pid (task_at T (current T)) then Some v else command_of q s))"
    by (auto simp: part3_driver_def Part3.sysfs_store_def Part2.sysfs_store_def)
next
  fix s :: Part2.drv and T v str len a m
  assume "nodes_inv s" "tasks_ok T" "command_of (pid (task_at T (current T))) s = Some v" "attribute T (current T) v = Some str" "4 \<le> (len :: u64)"
  then show "i_read (part3_driver k junk junk_tid) T a len m s = Done (len, mem_write a (str @ [0]) m)"
    using part2_read_eq [of s T len v junk str] same_as_part2 [of T s junk] attribute_small [of T "current T" v str]
    by (simp add: part3_driver_def)
qed (auto simp: part3_driver_def prod_eq_iff Part3.demo_open_def [folded Part2.demo_open_def]
    Part3.demo_release_def [folded Part2.demo_release_def] part2_files_ret dest: part2_files_ok supplies_fewer)

section \<open>Properties\<close>


text \<open>A machine with a task table that never changes and the three standard files open.\<close>

definition calm :: "u8 list list \<Rightarrow> env" where
  "calm argv = \<lparr>e_exists = (\<lambda>_. True), e_view = (\<lambda>p t. running p), e_tgid = (\<lambda>_. 4711), e_buf = 4096, e_argv = argv\<rparr>"

definition started :: "'s \<Rightarrow> nat \<Rightarrow> 's ustate" where
  "started d n = \<lparr>u_drv = d, u_refs = (\<lambda>_. 1), u_ids = 3, u_time = 0, u_exits = [], u_mem = (\<lambda>_. 7),
     u_fds = [Some (Std, 0), Some (Std, 1), Some (Std, 2)] @ replicate n None\<rparr>"

lemma calm_can_run: "2 \<le> n \<Longrightarrow> n < 2 ^ 30 \<Longrightarrow> can_run (calm argv) 4711 120 4711 (started d n)"
  unfolding can_run_def
proof (intro conjI)
  assume n: "2 \<le> n" "n < 2 ^ 30"
  then obtain k where "n = Suc (Suc k)" by (metis add_2_eq_Suc le_Suc_ex)
  with n have "table [Some (Std, 0), Some (Std, 1), Some (Std, 2)] (Suc (Suc k)) (started d n)"
    by (simp add: table_def started_def)
  then show "\<exists>xs k. table xs (Suc (Suc k)) (started d n)" by blast
qed (auto simp: calm_def steady_def views_def running_def tasks_ok_def)

lemma calm_self [simp]: "comm (self (calm argv) p t) = [115, 104, 0]" "nvcsw (self (calm argv) p t) = 7"
  by (simp_all add: calm_def running_def)


end
