(* ===== verification/Infoprogs_Forks.thy ===== *)
theory Infoprogs_Forks
  imports Infoprogs
begin

text \<open>
  The test programs of the process-information driver, part two: the programs that fork, \<^verbatim>\<open>test6.c\<close>, \<^verbatim>\<open>test7.c\<close> and
  \<^verbatim>\<open>test8.c\<close> of \<^verbatim>\<open>testcases_A1_CS614_23\<close>.  A parent waits for its child before its next call into the driver, so
  the child runs from its fork to its end in between.
\<close>

section \<open>Forking\<close>

text \<open>The child shares the open files; the parent has its own memory and descriptors again when the child is gone.  The
  number of the child is the kernel's choice, and \<open>None\<close> when it cannot fork.\<close>

definition shared :: "'s ustate \<Rightarrow> 's ustate" where
  "shared st = st\<lparr>u_refs := (\<lambda>i. u_refs st i + length (filter (\<lambda>x. map_option snd x = Some i) (u_fds st)))\<rparr>"

definition after_child :: "'s ustate \<Rightarrow> 's ustate \<Rightarrow> 's ustate" where
  "after_child st st' = st\<lparr>u_drv := u_drv st', u_refs := u_refs st', u_ids := u_ids st', u_time := u_time st', u_exits := u_exits st'\<rparr>"

text \<open>The status that \<^verbatim>\<open>wait\<close> stores: the low byte of the exit value above, or the signal of a failed assertion.\<close>

fun wait_status :: "ending \<Rightarrow> u32" where
  "wait_status (Ended r v) = push_bit 8 (v AND 0xFF)"
| "wait_status Aborted = 6"

definition WIFEXITED :: "u32 \<Rightarrow> bool" where "WIFEXITED s \<longleftrightarrow> s AND 0x7F = 0"
definition WEXITSTATUS :: "u32 \<Rightarrow> u32" where "WEXITSTATUS s = drop_bit 8 s AND 0xFF"

definition fork_wait :: "('s ustate \<Rightarrow> 's run) \<Rightarrow> (u32 \<Rightarrow> 's ustate \<Rightarrow> 's run) \<Rightarrow> 's ustate \<Rightarrow> 's run" where
  "fork_wait child parent st = obind (child (shared st)) (\<lambda>(e, st'). parent (wait_status e) (after_child st st'))"

section \<open>A parent and a child\<close>

definition child_prio :: "'s info_driver \<Rightarrow> env \<Rightarrow> u32 \<Rightarrow> u32 \<Rightarrow> u32 \<Rightarrow> 's ustate \<Rightarrow> 's run" where
  "child_prio D E c fd_1 fd_2 =
     put_commands D E c fd_1 [[49]] (get_answer D E c fd_2 (\<lambda>ret st.
       let st = uclose D fd_2 (uclose D fd_1 st)
       in obind (buf_text E st) (\<lambda>buf.
            finish D (if atoi buf = 120 + getpriority E c st then Ended Quiet 0 else Ended Failed (- 1)) st)))"

definition test6 :: "'s info_driver \<Rightarrow> env \<Rightarrow> u32 \<Rightarrow> u32 option \<Rightarrow> 's ustate \<Rightarrow> 's run" where
  "test6 D E me child st =
     (if length (e_argv E) \<noteq> 1 then finish D (Ended Quiet (- 1)) st
      else opened D E Sysfs (\<lambda>fd_1. put_commands D E me fd_1 [[48]] (opened D E Device (\<lambda>fd_2 st.
        let st = clear_buf E st
        in case child of
             None \<Rightarrow> finish D Aborted st
           | Some c \<Rightarrow> fork_wait (child_prio D E c fd_1 fd_2) (\<lambda>ret. asserting D (ret = 0) (get_answer D E me fd_2 (\<lambda>ret st.
               let st = uclose D fd_2 (uclose D fd_1 st)
               in obind (buf_text E st) (\<lambda>buf. verdict D (atoi buf = getpid E me st) st)))) st))) st)"

text \<open>Two answers of the same parent; the files stay open when the first or the second is wrong.\<close>

definition check_parent ::
  "'s info_driver \<Rightarrow> env \<Rightarrow> u32 \<Rightarrow> u32 \<Rightarrow> ('s ustate \<Rightarrow> 's run) \<Rightarrow> 's ustate \<Rightarrow> 's run" where
  "check_parent D E me fd_2 rest st =
     get_answer D E me fd_2 (\<lambda>ret st.
       obind (buf_text E st) (\<lambda>buf.
         if atoi buf \<noteq> getppid E me st then finish D (Ended Failed (- 1)) st else rest st)) (clear_buf E st)"

definition test8 :: "'s info_driver \<Rightarrow> env \<Rightarrow> u32 \<Rightarrow> u32 option \<Rightarrow> 's ustate \<Rightarrow> 's run" where
  "test8 D E me child st =
     (if length (e_argv E) \<noteq> 1 then finish D (Ended Quiet (- 1)) st
      else opened D E Sysfs (\<lambda>fd_1. put_commands D E me fd_1 [[48], [49], [51]] (opened D E Device (\<lambda>fd_2 st.
        case child of
          None \<Rightarrow> finish D Aborted st
        | Some c \<Rightarrow> fork_wait (child_prio D E c fd_1 fd_2) (\<lambda>ret. asserting D (ret = 0)
            (check_parent D E me fd_2 (check_parent D E me fd_2 (\<lambda>st.
              finish D (Ended Passed 0) (uclose D fd_2 (uclose D fd_1 st)))))) st))) st)"

section \<open>A chain of processes\<close>

text \<open>\<^verbatim>\<open>'0' + getpid() % NUM_OPS\<close>; process numbers are positive.\<close>

definition operation :: "env \<Rightarrow> u32 \<Rightarrow> 's ustate \<Rightarrow> u8 list" where
  "operation E me st = [48 + ucast (getpid E me st mod 5)]"

definition write_operation :: "'s info_driver \<Rightarrow> env \<Rightarrow> u32 \<Rightarrow> u32 \<Rightarrow> ('s ustate \<Rightarrow> 's run) \<Rightarrow> 's ustate \<Rightarrow> 's run" where
  "write_operation D E me fd_1 rest st = put_commands D E me fd_1 [operation E me st] rest st"

text \<open>The check that belongs to the operation.\<close>

definition check_operation :: "'s info_driver \<Rightarrow> env \<Rightarrow> u32 \<Rightarrow> 's ustate \<Rightarrow> 's run" where
  "check_operation D E me st =
     (let op = getpid E me st mod 5
      in obind (buf_text E st) (\<lambda>buf.
           if op = 0 \<and> atoi buf = getpid E me st then finish D (Ended Quiet 0) st
           else if op = 1 \<and> atoi buf = 120 + getpriority E me st then finish D (Ended Quiet 0) st
           else
             obind (if op = 2 then obind (str_from 2 (e_argv E ! 0)) (\<lambda>name. Done (name = buf)) else Done False) (\<lambda>same.
               if same then finish D (Ended Quiet 0) st
               else if op = 3 \<and> atoi buf = getppid E me st then finish D (Ended Quiet 0) st
               else if op = 4 \<and> scast (atoi buf) = ru_nvcsw E me st then finish D (Ended Quiet 0) st
               else finish D (Ended Quiet (- 1)) st)))"

text \<open>What every process of the chain does after the loop, with the status of its child, 0 when it has none.\<close>

definition chain_end :: "'s info_driver \<Rightarrow> env \<Rightarrow> u32 \<Rightarrow> u32 \<Rightarrow> u32 \<Rightarrow> 's ustate \<Rightarrow> 's run" where
  "chain_end D E me fd_1 status st =
     (if WIFEXITED status \<and> WEXITSTATUS status \<noteq> 0 then finish D (Ended Quiet (- 1)) st
      else opened D E Device (\<lambda>fd_2 st.
        get_answer D E me fd_2 (\<lambda>ret st. check_operation D E me (uclose D fd_2 (uclose D fd_1 st))) (clear_buf E st)) st)"

text \<open>
  The loop with \<^verbatim>\<open>num_fork\<close> rounds left, the numbers the kernel gives to the children still to come, and for every process
  the time its shell commands take.
\<close>

fun chain_loop :: "'s info_driver \<Rightarrow> env \<Rightarrow> (u32 \<Rightarrow> nat) \<Rightarrow> nat \<Rightarrow> u32 \<Rightarrow> u32 \<Rightarrow> u32 list \<Rightarrow> 's ustate \<Rightarrow> 's run" where
  "chain_loop D E busy 0 me fd_1 kids st = chain_end D E me fd_1 0 st"
| "chain_loop D E busy (Suc n) me fd_1 [] st = finish D Aborted st"
| "chain_loop D E busy (Suc n) me fd_1 (c # kids) st =
     fork_wait (opened D E Sysfs (\<lambda>fd_1. write_operation D E c fd_1 (\<lambda>st. chain_loop D E busy n c fd_1 kids (sleeps (busy c) st))))
       (chain_end D E me fd_1) st"

definition test7 :: "'s info_driver \<Rightarrow> env \<Rightarrow> (u32 \<Rightarrow> nat) \<Rightarrow> u32 \<Rightarrow> u32 list \<Rightarrow> 's ustate \<Rightarrow> 's run" where
  "test7 D E busy me kids st =
     (if length (e_argv E) \<noteq> 1 then finish D (Ended Quiet (- 1)) st
      else opened D E Sysfs (\<lambda>fd_1. write_operation D E me fd_1 (chain_loop D E busy 999 me fd_1 kids)) st)"

section \<open>Closing files that others may hold\<close>

definition no_device :: "'s ustate \<Rightarrow> bool" where
  "no_device st \<longleftrightarrow> (\<forall>i. Some (Device, i) \<notin> set (u_fds st))"

lemma shared_simps [simp]:
  "u_drv (shared st) = u_drv st" "u_ids (shared st) = u_ids st" "u_time (shared st) = u_time st" "u_mem (shared st) = u_mem st"
  "u_fds (shared st) = u_fds st" "u_exits (shared st) = u_exits st"
  by (simp_all add: shared_def)

lemma after_child_simps [simp]:
  "u_drv (after_child st st') = u_drv st'" "u_ids (after_child st st') = u_ids st'" "u_time (after_child st st') = u_time st'"
  "u_mem (after_child st st') = u_mem st" "u_fds (after_child st st') = u_fds st" "u_exits (after_child st st') = u_exits st'"
  by (simp_all add: after_child_def)

lemma uclose_no_device:
  assumes "no_device st"
  shows "u_drv (uclose D f st) = u_drv st" "no_device (uclose D f st)"
proof -
  have "lookup f st \<noteq> Some (Device, i)" for i
    using assms by (auto simp: lookup_def no_device_def) (metis nth_mem)
  then show "u_drv (uclose D f st) = u_drv st" by (auto simp: uclose_def Let_def split: option.splits)
  show "no_device (uclose D f st)"
    using assms set_update_subset_insert [of "u_fds st" "unat f" None] by (auto simp: no_device_def uclose_fds)
qed

lemma uexit_rest:
  "no_device st \<Longrightarrow> u_drv (uexit D st) = u_drv st" "u_time (uexit D st) = u_time st" "u_exits (uexit D st) = u_exits st"
proof -
  have "no_device st \<Longrightarrow> u_drv (fold (\<lambda>i. uclose D (of_nat i)) is st) = u_drv st" for "is" :: "nat list"
    by (induction "is" arbitrary: st) (simp_all add: uclose_no_device)
  then show "no_device st \<Longrightarrow> u_drv (uexit D st) = u_drv st" by (simp add: uexit_def)
  have "u_time (fold (\<lambda>i. uclose D (of_nat i)) is st) = u_time st" "u_exits (fold (\<lambda>i. uclose D (of_nat i)) is st) = u_exits st"
    for "is" :: "nat list" by (induction "is" arbitrary: st) simp_all
  then show "u_time (uexit D st) = u_time st" "u_exits (uexit D st) = u_exits st" by (simp_all add: uexit_def)
qed

context info_device
begin

lemma uclose_good:
  assumes "good (Suc n) st"
  shows "good n (uclose D f st)" "cmd q (u_drv (uclose D f st)) = cmd q (u_drv st)"
proof -
  obtain s' where s': "i_release D (u_drv st) = (0, s')" "inv s'" "ready n s'" "\<forall>q. cmd q s' = cmd q (u_drv st)"
    using release_ok [of "u_drv st" n] assms by (auto simp: good_def)
  then show "good n (uclose D f st)" "cmd q (u_drv (uclose D f st)) = cmd q (u_drv st)"
    using assms fewer by (auto simp: uclose_def good_def Let_def split: option.splits)
qed

lemma good_mono: "good (Suc n) st \<Longrightarrow> good n st"
  using fewer by (auto simp: good_def)

text \<open>The child of the sixth and the eighth test.\<close>

lemma child_prio_ok:
  assumes g: "good (n + 3) st" and f: "lookup fd_1 st = Some (Sysfs, i)" "lookup fd_2 st = Some (Device, j)" and s: "steady E c prio parent"
    and dev: "no_device (st\<lparr>u_fds := (u_fds st)[unat fd_1 := None, unat fd_2 := None]\<rparr>)"
  shows "\<exists>st'. child_prio D E c fd_1 fd_2 st = Done (Ended Quiet 0, st') \<and> good n st' \<and>
    (\<forall>q. cmd q (u_drv st') = (if q = c then Some 1 else spill 1 (cmd q (u_drv st)))) \<and> u_time st' = u_time st + 2"
proof -
  have vw: "views E c" using s by (simp add: steady_def)
  define fin where "fin ret st = (let st = uclose D fd_2 (uclose D fd_1 st) in obind (buf_text E st) (\<lambda>buf.
      finish D (if atoi buf = 120 + getpriority E c st then Ended Quiet 0 else Ended Failed (- 1)) st))" for ret :: u32 and st
  have g': "good (Suc (n + 2)) st" using g by (simp add: numeral_3_eq_3)
  obtain st1 where st1: "put_commands D E c fd_1 [[49]] (get_answer D E c fd_2 fin) st = get_answer D E c fd_2 fin st1" "good (n + 2) st1"
    "\<forall>q. cmd q (u_drv st1) = (if q = c then Some 1 else spill 1 (cmd q (u_drv st)))" "u_fds st1 = u_fds st" "u_time st1 = Suc (u_time st)"
    using put_one [OF g' f(1) digit_commands(2) _ vw, of "[]" "get_answer D E c fd_2 fin"] by auto
  obtain st2 where st2: "get_answer D E c fd_2 fin st1 = fin 16 st2" "u_drv st2 = u_drv st1" "u_fds st2 = u_fds st"
    "u_time st2 = u_time st + 2" "buf_text E st2 = Done (dec_int (sint prio))"
    using answer [OF st1(2) _ vw _ steady_gets(5) [OF s], of fd_2 j fin] f(2) lookup_cong [OF st1(4)] st1 by auto
  let ?st3 = "uclose D fd_2 (uclose D fd_1 st2)"
  have g2: "good (Suc (Suc n)) st2" using st1(2) st2(2) by (simp add: good_def)
  have "no_device ?st3" using dev st2(3) by (simp add: no_device_def uclose_fds)
  then have e: "u_drv (uexit D ?st3) = u_drv ?st3" "u_time (uexit D ?st3) = u_time st + 2"
    using st2(4) by (simp_all add: uexit_rest)
  have "good n ?st3" "\<forall>q. cmd q (u_drv ?st3) = cmd q (u_drv st1)"
    using uclose_good [OF uclose_good(1) [OF g2]] uclose_good(2) [OF g2] st2(2) by simp_all
  moreover have "fin 16 st2 = Done (Ended Quiet 0, (uexit D ?st3)\<lparr>u_exits := u_exits st2 @ [Ended Quiet 0]\<rparr>)"
    using st2(5) by (simp add: fin_def finish_def steady_gets [OF s] atoi_dec_int uexit_rest Let_def)
  moreover have "child_prio D E c fd_1 fd_2 st = fin 16 st2"
    using st1(1) st2(1) unfolding child_prio_def fin_def by simp
  ultimately show ?thesis using st1(3) e by (intro exI [of _ "(uexit D ?st3)\<lparr>u_exits := u_exits st2 @ [Ended Quiet 0]\<rparr>"]) (simp add: good_def)
qed

lemma fork_prio:
  assumes g: "good (n + 3) st" and tab: "table (xs @ [Some (Sysfs, i), Some (Device, j)]) k st" "\<forall>i. Some (Device, i) \<notin> set xs"
    and s: "steady E c prio parent"
  shows "\<exists>st'. fork_wait (child_prio D E c (of_nat (length xs)) (of_nat (Suc (length xs)))) rest st = rest 0 st' \<and> good n st' \<and>
    (\<forall>q. cmd q (u_drv st') = (if q = c then Some 1 else spill 1 (cmd q (u_drv st)))) \<and> u_time st' = u_time st + 2 \<and>
    u_fds st' = u_fds st \<and> u_mem st' = u_mem st"
proof -
  let ?f1 = "of_nat (length xs) :: u32" and ?f2 = "of_nat (Suc (length xs)) :: u32"
  have u: "unat ?f1 = length xs" "unat ?f2 = Suc (length xs)" using tab(1) by (simp_all add: table_def unat_of_nat del: of_nat_Suc)
  have fs: "u_fds st = xs @ Some (Sysfs, i) # Some (Device, j) # replicate k None" using tab(1) by (simp add: table_def)
  have l: "lookup ?f1 (shared st) = Some (Sysfs, i)" "lookup ?f2 (shared st) = Some (Device, j)"
    by (simp_all add: lookup_def u fs nth_append del: of_nat_Suc)
  have n: "no_device ((shared st)\<lparr>u_fds := (u_fds (shared st))[unat ?f1 := None, unat ?f2 := None]\<rparr>)"
    using tab(2) by (auto simp: no_device_def u fs list_update_append simp del: of_nat_Suc)
  have "good (n + 3) (shared st)" using g by (simp add: good_def)
  from child_prio_ok [OF this l s n] show ?thesis
    by (auto simp: fork_wait_def good_def simp del: of_nat_Suc)
qed

text \<open>The parent reads under the command that the write of its child left it.\<close>

lemma test6_verdict:
  assumes run: "can_run E me prio parent st" "no_device st" "good 7 st" "length (e_argv E) = 1"
    and c: "steady E c cprio cparent" "c \<noteq> me" and w: "spill 1 (Some 0) = Some w"
    and str: "attribute (e_view E me (u_time st + 3)) (current (e_view E me (u_time st + 3))) w = Some str"
  shows "\<exists>st'. test6 D E me (Some c) st = Done (if atoi str = me then Ended Passed 0 else Ended Failed (- 1), st')"
proof -
  obtain xs k where tab: "table xs (Suc (Suc k)) st" using run(1) by (auto simp: can_run_def)
  have s: "steady E me prio parent" and ex: "e_exists E Sysfs" "e_exists E Device" and vw: "views E me"
    using run(1) by (simp_all add: can_run_def steady_def)
  let ?f1 = "of_nat (length xs) :: u32" and ?f2 = "of_nat (Suc (length xs)) :: u32"
  define fin where "fin = (\<lambda>f1 f2 (ret :: u32) st. let st = uclose D f2 (uclose D f1 st) in
    obind (buf_text E st) (\<lambda>buf. verdict D (atoi buf = getpid E me st) st))"
  define par where "par = (\<lambda>f1 f2 (ret :: u32). asserting D (ret = 0) (get_answer D E me f2 (fin f1 f2)))"
  have g: "good (Suc 5 + length [[48 :: u8]]) st" using run(3) by simp
  obtain st1 where st1: "test6 D E me (Some c) st = fork_wait (child_prio D E c ?f1 ?f2) (par ?f1 ?f2) (clear_buf E st1)" "good 5 st1"
    "cmd me (u_drv st1) = Some 0" "table (xs @ [Some (Sysfs, u_ids st), Some (Device, Suc (u_ids st))]) k st1" "u_time st1 = Suc (u_time st)"
    "lookup ?f2 st1 = Some (Device, Suc (u_ids st))"
    using opened_both [OF g tab ex vw _ _ _, of 0 "\<lambda>f1 f2 st. fork_wait (child_prio D E c f1 f2) (par f1 f2) (clear_buf E st)"] run(4)
    unfolding test6_def par_def fin_def by (auto simp: digit_commands Let_def)
  have xs: "\<forall>i. Some (Device, i) \<notin> set xs" using run(2) tab by (auto simp: no_device_def table_def)
  have g1: "good (2 + 3) (clear_buf E st1)" "table (xs @ [Some (Sysfs, u_ids st), Some (Device, Suc (u_ids st))]) k (clear_buf E st1)"
    using st1(2,4) by (simp_all add: good_def table_def)
  obtain st2 where st2: "fork_wait (child_prio D E c ?f1 ?f2) (par ?f1 ?f2) (clear_buf E st1) = par ?f1 ?f2 0 st2" "good 2 st2"
    "cmd me (u_drv st2) = Some w" "u_time st2 = u_time st + 3" "u_fds st2 = u_fds st1"
    using fork_prio [OF g1 xs c(1), of "par ?f1 ?f2"] c(2) st1(3,5) w by auto
  obtain st3 where st3: "get_answer D E me ?f2 (fin ?f1 ?f2) st2 = fin ?f1 ?f2 16 st3" "buf_text E st3 = Done str"
    using answer [OF st2(2) _ vw st2(3), of ?f2 _ str "fin ?f1 ?f2"] st1(6) lookup_cong [OF st2(5)] str st2(4) by auto
  have "fin ?f1 ?f2 16 st3 = finish D (if atoi str = me then Ended Passed 0 else Ended Failed (- 1)) (uclose D ?f2 (uclose D ?f1 st3))"
    using st3(2) by (simp add: fin_def verdict_def steady_gets [OF s] Let_def)
  then show ?thesis using st1(1) st2(1) st3(1) by (simp add: par_def asserting_def finish_def Let_def)
qed

lemma check_parent_ok:
  assumes "good n st" "lookup f st = Some (Device, i)" "steady E me prio parent" "cmd me (u_drv st) = Some 3"
  shows "\<exists>st'. check_parent D E me f rest st = rest st' \<and> u_drv st' = u_drv st \<and> u_fds st' = u_fds st"
proof -
  let ?st = "clear_buf E st"
  define chk where "chk = (\<lambda>(ret :: u32) st. obind (buf_text E st) (\<lambda>buf.
    if atoi buf \<noteq> getppid E me st then finish D (Ended Failed (- 1)) st else rest st))"
  have pre: "good n ?st" "lookup f ?st = Some (Device, i)" "views E me" "cmd me (u_drv ?st) = Some 3"
    using assms lookup_cong [of ?st st] by (simp_all add: good_def steady_def)
  from answer [OF pre steady_gets(7) [OF assms(3)], of chk] obtain st' where "get_answer D E me f chk ?st = chk 16 st'" "u_drv st' = u_drv st"
    "u_fds st' = u_fds st" "buf_text E st' = Done (dec_int (sint parent))" by auto
  then show ?thesis
    by (intro exI [of _ st']) (simp add: check_parent_def chk_def steady_gets [OF assms(3)] atoi_dec_int)
qed

lemma test8_passes:
  assumes run: "can_run E me prio parent st" "no_device st" "good 7 st" "length (e_argv E) = 1"
    and c: "steady E c cprio cparent" "c \<noteq> me" and w: "spill 1 (Some 3) = Some 3"
  shows "\<exists>st'. test8 D E me (Some c) st = Done (Ended Passed 0, st')"
proof -
  obtain xs k where tab: "table xs (Suc (Suc k)) st" using run(1) by (auto simp: can_run_def)
  have s: "steady E me prio parent" and ex: "e_exists E Sysfs" "e_exists E Device" and vw: "views E me"
    using run(1) by (simp_all add: can_run_def steady_def)
  let ?f1 = "of_nat (length xs) :: u32" and ?f2 = "of_nat (Suc (length xs)) :: u32"
  define fin where "fin = (\<lambda>f1 f2 st. finish D (Ended Passed 0) (uclose D f2 (uclose D f1 st)))"
  define par where "par = (\<lambda>f1 f2 (ret :: u32). asserting D (ret = 0) (check_parent D E me f2 (check_parent D E me f2 (fin f1 f2))))"
  have g: "good (Suc 3 + length [[48 :: u8], [49], [51]]) st" using run(3) by simp
  obtain st1 where st1: "test8 D E me (Some c) st = fork_wait (child_prio D E c ?f1 ?f2) (par ?f1 ?f2) st1" "good (0 + 3) st1"
    "cmd me (u_drv st1) = Some 3" "table (xs @ [Some (Sysfs, u_ids st), Some (Device, Suc (u_ids st))]) k st1"
    "lookup ?f2 st1 = Some (Device, Suc (u_ids st))"
    using opened_both [OF g tab ex vw _ _ _, of 3 "\<lambda>f1 f2. fork_wait (child_prio D E c f1 f2) (par f1 f2)"] run(4)
    unfolding test8_def par_def fin_def by (auto simp: digit_commands)
  have xs: "\<forall>i. Some (Device, i) \<notin> set xs" using run(2) tab by (auto simp: no_device_def table_def)
  obtain st2 where st2: "fork_wait (child_prio D E c ?f1 ?f2) (par ?f1 ?f2) st1 = par ?f1 ?f2 0 st2" "good 0 st2"
    "cmd me (u_drv st2) = Some 3" "u_fds st2 = u_fds st1"
    using fork_prio [OF st1(2,4) xs c(1), of "par ?f1 ?f2"] c(2) st1(3) w by auto
  have l2: "lookup ?f2 st2 = Some (Device, Suc (u_ids st))" using st1(5) lookup_cong [OF st2(4)] by simp
  obtain st3 where st3: "check_parent D E me ?f2 (check_parent D E me ?f2 (fin ?f1 ?f2)) st2 = check_parent D E me ?f2 (fin ?f1 ?f2) st3"
    "u_drv st3 = u_drv st2" "u_fds st3 = u_fds st2"
    using check_parent_ok [OF st2(2) l2 s st2(3)] by blast
  have pre: "good 0 st3" "lookup ?f2 st3 = Some (Device, Suc (u_ids st))" "cmd me (u_drv st3) = Some 3"
    using st2(2,3) st3(2) l2 lookup_cong [OF st3(3)] by (simp_all add: good_def)
  obtain st4 where "check_parent D E me ?f2 (fin ?f1 ?f2) st3 = fin ?f1 ?f2 st4"
    using check_parent_ok [OF pre(1,2) s pre(3)] by blast
  then show ?thesis using st1(1) st2(1) st3(1) by (simp add: par_def asserting_def fin_def finish_def Let_def)
qed

end

section \<open>The chain on a driver that keeps commands apart\<close>

text \<open>
  When a process of the chain reads, at time \<open>t\<close>: a process that asks for its name was called by it, and one that asks for its
  context switches is not switched out before it looks at its own counter.
\<close>

definition quiet :: "env \<Rightarrow> u32 \<Rightarrow> nat \<Rightarrow> bool" where
  "quiet E me t \<longleftrightarrow> (me mod 5 = 2 \<longrightarrow> 2 \<le> length (e_argv E ! 0) \<and> drop 2 (e_argv E ! 0) = takeWhile (\<lambda>c. c \<noteq> 0) (comm (self E me t))) \<and>
     (me mod 5 = 4 \<longrightarrow> nvcsw (self E me (Suc t)) = nvcsw (self E me t) \<and> unat (nvcsw (self E me t)) < 2 ^ 31)"

text \<open>From the fork of the first of these processes to the end of all: a write, the shell commands and a read of each.\<close>

fun chain_time :: "(u32 \<Rightarrow> nat) \<Rightarrow> u32 list \<Rightarrow> nat" where
  "chain_time busy [] = 0"
| "chain_time busy (c # cs) = Suc (Suc (busy c + chain_time busy cs))"

fun undisturbed :: "env \<Rightarrow> (u32 \<Rightarrow> nat) \<Rightarrow> u32 \<Rightarrow> u32 list \<Rightarrow> nat \<Rightarrow> bool" where
  "undisturbed E busy me [] t = quiet E me t"
| "undisturbed E busy me (c # cs) t = (undisturbed E busy c cs (Suc (t + busy c)) \<and> quiet E me (t + chain_time busy (c # cs)))"

lemma five_cases: "(x :: u32) mod 5 = 0 \<or> x mod 5 = 1 \<or> x mod 5 = 2 \<or> x mod 5 = 3 \<or> x mod 5 = 4"
proof -
  have "unat (x mod 5) < 5" by (simp add: unat_mod)
  then have "unat (x mod 5) = 0 \<or> unat (x mod 5) = 1 \<or> unat (x mod 5) = 2 \<or> unat (x mod 5) = 3 \<or> unat (x mod 5) = 4" by arith
  then show ?thesis by (simp add: word_unat_eq_iff)
qed

lemma operation_number:
  assumes "steady E me prio parent"
  shows "sscanf_d (operation E me st) = Some (me mod 5)" "length (operation E me st) = 1"
proof -
  have "sscanf_d [48 + ucast r] = Some r" if "r = 0 \<or> r = 1 \<or> r = 2 \<or> r = 3 \<or> r = 4" for r :: u32
    using that by (elim disjE) (simp_all add: digit_commands)
  from this [OF five_cases] show "sscanf_d (operation E me st) = Some (me mod 5)"
    by (simp add: operation_def steady_gets [OF assms])
qed (simp add: operation_def)

text \<open>A table whose only entry for the device is taken out holds none.\<close>

lemma taken_out:
  assumes "fs = xs @ Some (Device, j) # replicate k None" "Some (Device, i) \<notin> set xs"
  shows "Some (Device, i) \<notin> set (fs[a := None, length xs := None])"
proof
  assume "Some (Device, i) \<in> set (fs[a := None, length xs := None])"
  then obtain p where "p < length fs" "fs[a := None, length xs := None] ! p = Some (Device, i)" by (auto simp: in_set_conv_nth)
  moreover from this have "p \<noteq> length xs" by auto
  moreover from calculation have "p \<noteq> a" by auto
  ultimately have "p \<noteq> length xs" "p < length fs" "fs ! p = Some (Device, i)" by auto
  with assms show False by (auto simp: nth_append nth_Cons' split: if_splits) (metis nth_mem)
qed

locale info_isolated = info_device +
  assumes isolated: "spill v c = c"
begin

lemma check_operation_ok:
  assumes s: "steady E me prio parent" and t: "u_time st = Suc t" and q: "quiet E me t" and str: "buf_text E st = Done str"
    "attribute (e_view E me t) (current (e_view E me t)) (me mod 5) = Some str"
  shows "check_operation D E me st = finish D (Ended Quiet 0) st"
proof -
  have n: "ru_nvcsw E me st = nvcsw (self E me (Suc t))" using t by (simp add: ru_nvcsw_def seen_def Let_def)
  show ?thesis unfolding check_operation_def str(1) obind_simps Let_def steady_gets(1) [OF s] n
    using five_cases [of me] q str(2) atoi_nvcsw [of "nvcsw (self E me t)"]
    by (elim disjE) (auto simp: quiet_def steady_gets [OF s] atoi_dec_int str_from_def)
qed

lemma chain_end_ok:
  assumes g: "good (n + 3) st" and tab: "table xs (Suc k) st" and dev: "no_device st" and ex: "e_exists E Device"
    and s: "steady E me prio parent" and c: "cmd me (u_drv st) = Some (me mod 5)" and q: "quiet E me (u_time st)"
  shows "\<exists>st'. chain_end D E me fd_1 0 st = Done (Ended Quiet 0, st') \<and> good n st' \<and> (\<forall>q. cmd q (u_drv st') = cmd q (u_drv st)) \<and>
    u_time st' = Suc (u_time st) \<and> u_exits st' = u_exits st @ [Ended Quiet 0]"
proof -
  let ?f2 = "of_nat (length xs) :: u32" and ?T = "e_view E me (u_time st)"
  have vw: "views E me" using s by (simp add: steady_def)
  define fin where "fin = (\<lambda>f2 (ret :: u32) st. check_operation D E me (uclose D f2 (uclose D fd_1 st)))"
  have g': "good (Suc (Suc (Suc n))) st" using g by (simp add: numeral_3_eq_3)
  obtain st1 where st1: "chain_end D E me fd_1 0 st = get_answer D E me ?f2 (fin ?f2) (clear_buf E st1)" "good (Suc (Suc n)) st1"
    "table (xs @ [Some (Device, u_ids st)]) k st1" "\<forall>q. cmd q (u_drv st1) = cmd q (u_drv st)" "u_time st1 = u_time st" "u_exits st1 = u_exits st"
    using open_device [OF g' tab ex, of "\<lambda>f2 st. get_answer D E me f2 (fin f2) (clear_buf E st)"]
    by (auto simp: chain_end_def WIFEXITED_def WEXITSTATUS_def fin_def)
  obtain str where str: "attribute ?T (current ?T) (me mod 5) = Some str" using five_cases [of me] steady_gets [OF s] by metis
  have pre: "good (Suc (Suc n)) (clear_buf E st1)" "lookup ?f2 (clear_buf E st1) = Some (Device, u_ids st)"
    "cmd me (u_drv (clear_buf E st1)) = Some (me mod 5)"
    using st1 c table_lookup [OF st1(3), of "length xs"] lookup_cong [of "clear_buf E st1" st1] by (simp_all add: good_def)
  obtain st2 where st2: "get_answer D E me ?f2 (fin ?f2) (clear_buf E st1) = fin ?f2 16 st2" "u_drv st2 = u_drv st1" "u_fds st2 = u_fds st1"
    "u_time st2 = Suc (u_time st)" "buf_text E st2 = Done str" "u_exits st2 = u_exits st"
    using answer [OF pre(1,2) vw pre(3), of str "fin ?f2"] str st1(5,6) by auto
  let ?st3 = "uclose D ?f2 (uclose D fd_1 st2)"
  let ?st4 = "(uexit D ?st3)\<lparr>u_exits := u_exits st @ [Ended Quiet 0]\<rparr>"
  have fin: "fin ?f2 16 st2 = Done (Ended Quiet 0, ?st4)"
    using check_operation_ok [OF s, of ?st3 "u_time st" str] q str st2(4-6) by (simp add: fin_def finish_def uexit_rest Let_def)
  have u: "unat ?f2 = length xs" using tab by (simp add: table_def unat_of_nat)
  have fs: "u_fds st2 = xs @ Some (Device, u_ids st) # replicate k None" using st1(3) st2(3) by (simp add: table_def)
  have "Some (Device, i) \<notin> set xs" for i using dev tab by (auto simp: no_device_def table_def)
  from taken_out [OF fs this] have "Some (Device, i) \<notin> set (u_fds ?st3)" for i by (simp add: uclose_fds u)
  then have "u_drv (uexit D ?st3) = u_drv ?st3" by (intro uexit_rest) (simp add: no_device_def)
  moreover have g2: "good (Suc (Suc n)) st2" using st1(2) st2(2) by (simp add: good_def)
  moreover have "good n ?st3" "cmd q (u_drv ?st3) = cmd q (u_drv st)" for q
    using uclose_good [OF uclose_good(1) [OF g2]] uclose_good(2) [OF g2] st1(4) st2(2) by simp_all
  ultimately show ?thesis using st1(1) st2(1,4) fin by (intro exI [of _ ?st4]) (simp add: uexit_rest good_def)
qed

lemma chain_loop_ok:
  assumes "good (m + 4 * length kids + 3) st" "table xs (Suc (k + length kids)) st" "no_device st" "e_exists E Sysfs" "e_exists E Device"
    "\<forall>c \<in> set (me # kids). \<exists>prio parent. steady E c prio parent" "distinct (me # kids)"
    "cmd me (u_drv st) = Some (me mod 5)" "undisturbed E busy me kids (u_time st)"
  shows "\<exists>st'. chain_loop D E busy (length kids) me fd_1 kids st = Done (Ended Quiet 0, st') \<and> good m st' \<and>
    (\<forall>q. q \<notin> set kids \<longrightarrow> cmd q (u_drv st') = cmd q (u_drv st)) \<and> u_time st' = Suc (u_time st + chain_time busy kids) \<and>
    u_exits st' = u_exits st @ replicate (Suc (length kids)) (Ended Quiet 0)"
  using assms
proof (induction kids arbitrary: m me fd_1 st xs)
  case Nil
  obtain prio parent where s: "steady E me prio parent" using Nil by auto
  have "good (m + 3) st" "table xs (Suc k) st" "quiet E me (u_time st)" using Nil by simp_all
  from chain_end_ok [OF this(1,2) Nil(3,5) s Nil(8) this(3)] show ?case by auto
next
  case (Cons c kids)
  obtain prio parent cprio cparent where s: "steady E me prio parent" "steady E c cprio cparent" using Cons.prems(6) by auto
  have vw: "views E c" using s by (simp add: steady_def)
  let ?f = "of_nat (length xs) :: u32"
  define go where "go = (\<lambda>fd_1 st. chain_loop D E busy (length kids) c fd_1 kids (sleeps (busy c) st))"
  have g: "good (Suc (m + 3 + 4 * length kids + 3)) (shared st)" "table xs (Suc (Suc (k + length kids))) (shared st)"
    using Cons.prems(1,2) by (simp_all add: good_def table_def add.commute add.left_commute)
  obtain st1 where st1: "opened D E Sysfs (\<lambda>fd_1. write_operation D E c fd_1 (go fd_1)) (shared st) = write_operation D E c ?f (go ?f) st1"
    "good (Suc (m + 3 + 4 * length kids + 3)) st1" "table (xs @ [Some (Sysfs, u_ids st)]) (Suc (k + length kids)) st1"
    "u_drv st1 = u_drv st" "u_time st1 = u_time st" "u_exits st1 = u_exits st"
    using open_sysfs [OF g Cons.prems(4)] by fastforce
  have f: "lookup ?f st1 = Some (Sysfs, u_ids st)" using table_lookup [OF st1(3), of "length xs"] by simp
  have len: "length (operation E c st1) < 2 ^ 31" by (simp add: operation_def)
  obtain st2 where st2: "write_operation D E c ?f (go ?f) st1 = go ?f st2" "good (m + 3 + 4 * length kids + 3) st2"
    "\<forall>q. cmd q (u_drv st2) = (if q = c then Some (c mod 5) else cmd q (u_drv st))" "u_fds st2 = u_fds st1" "u_time st2 = Suc (u_time st)"
    "u_exits st2 = u_exits st"
    using put_one [OF st1(2) f operation_number(1) [OF s(2)] len vw, of "[]" "go ?f"] st1(4-6) isolated by (auto simp: write_operation_def)
  let ?st3 = "sleeps (busy c) st2"
  have fs: "u_fds st1 = xs @ Some (Sysfs, u_ids st) # replicate (Suc (k + length kids)) None" using st1(3) by (simp add: table_def)
  have "no_device ?st3" using Cons.prems(2,3) by (auto simp: no_device_def table_def st2(4) fs)
  moreover have "table (xs @ [Some (Sysfs, u_ids st)]) (Suc (k + length kids)) ?st3" using st1(3) st2(4) by (simp add: table_def)
  moreover have "good (m + 3 + 4 * length kids + 3) ?st3" using st2(2) by (simp add: good_def)
  ultimately obtain st4 where st4: "go ?f st2 = Done (Ended Quiet 0, st4)" "good (m + 3) st4"
    "\<forall>q. q \<notin> set kids \<longrightarrow> cmd q (u_drv st4) = cmd q (u_drv st2)" "u_time st4 = Suc (Suc (u_time st + busy c + chain_time busy kids))"
    "u_exits st4 = u_exits st @ replicate (Suc (length kids)) (Ended Quiet 0)"
    using Cons.IH [of "m + 3" ?st3 "xs @ [Some (Sysfs, u_ids st)]" c ?f] Cons.prems(4-7,9) st2(3,5,6) unfolding go_def by auto
  let ?st5 = "after_child st st4"
  have loop: "chain_loop D E busy (length (c # kids)) me fd_1 (c # kids) st = chain_end D E me fd_1 0 ?st5"
    using st1(1) st2(1) st4(1) by (simp add: fork_wait_def go_def)
  have pre: "good (m + 3) ?st5" "table xs (Suc (k + length (c # kids))) ?st5" "no_device ?st5" "cmd me (u_drv ?st5) = Some (me mod 5)"
    "quiet E me (u_time ?st5)"
    using st4 st2(3) Cons.prems(2,3,7-9) by (auto simp: good_def table_def no_device_def add.assoc)
  from chain_end_ok [OF pre(1-3) Cons.prems(5) s(1) pre(4,5), of fd_1] show ?case
    unfolding loop using st4(3-5) st2(3) by (auto simp: add.assoc replicate_append_same)
qed

lemma test7_returns:
  assumes g: "good 4000 st" and tab: "table xs (1001 + k) st" and dev: "no_device st" and ex: "e_exists E Sysfs" "e_exists E Device"
    and kids: "length kids = 999" "distinct (me # kids)" "\<forall>c \<in> set (me # kids). \<exists>prio parent. steady E c prio parent"
    and q: "undisturbed E busy me kids (Suc (u_time st))" and a: "length (e_argv E) = 1"
  shows "\<exists>st'. test7 D E busy me kids st = Done (Ended Quiet 0, st') \<and> u_exits st' = u_exits st @ replicate 1000 (Ended Quiet 0)"
proof -
  obtain prio parent where s: "steady E me prio parent" using kids(3) by auto
  have vw: "views E me" using s by (simp add: steady_def)
  let ?f = "of_nat (length xs) :: u32"
  define go where "go = (\<lambda>fd_1. chain_loop D E busy 999 me fd_1 kids)"
  have g': "good (Suc 3999) st" "table xs (Suc (1000 + k)) st" using g tab by simp_all
  obtain st1 where st1: "opened D E Sysfs (\<lambda>fd_1. write_operation D E me fd_1 (go fd_1)) st = write_operation D E me ?f (go ?f) st1"
    "good (Suc 3999) st1" "table (xs @ [Some (Sysfs, u_ids st)]) (1000 + k) st1" "u_time st1 = u_time st"
    "u_exits st1 = u_exits st"
    using open_sysfs [OF g' ex(1)] by fastforce
  have f: "lookup ?f st1 = Some (Sysfs, u_ids st)" using table_lookup [OF st1(3), of "length xs"] by simp
  have len: "length (operation E me st1) < 2 ^ 31" by (simp add: operation_def)
  obtain st2 where st2: "write_operation D E me ?f (go ?f) st1 = go ?f st2" "good 3999 st2" "cmd me (u_drv st2) = Some (me mod 5)"
    "u_fds st2 = u_fds st1" "u_time st2 = Suc (u_time st)" "u_exits st2 = u_exits st"
    using put_one [OF st1(2) f operation_number(1) [OF s] len vw, of "[]" "go ?f"] st1(4,5) by (auto simp: write_operation_def)
  have "u_fds st1 = xs @ Some (Sysfs, u_ids st) # replicate (1000 + k) None" using st1(3) by (simp add: table_def)
  then have "no_device st2" using dev tab st2(4) by (auto simp: no_device_def table_def)
  moreover have "good (0 + 4 * length kids + 3) st2" "table (xs @ [Some (Sysfs, u_ids st)]) (Suc (k + length kids)) st2"
    using st2(2,4) st1(3) kids(1) by (simp_all add: table_def add.commute)
  ultimately obtain st' where "go ?f st2 = Done (Ended Quiet 0, st')"
    "u_exits st' = u_exits st @ replicate (Suc (length kids)) (Ended Quiet 0)"
    using chain_loop_ok [of 0 kids st2 "xs @ [Some (Sysfs, u_ids st)]" k E me busy ?f] ex kids st2(3,5,6) q unfolding go_def by auto
  then have "go ?f st2 = Done (Ended Quiet 0, st')" "u_exits st' = u_exits st @ replicate 1000 (Ended Quiet 0)"
    using kids(1) by simp_all
  then show ?thesis using a st1(1) st2(1) by (simp add: test7_def go_def)
qed

end

interpretation p2_iso: info_isolated "part2_driver k junk" nodes_inv "\<lambda>n s. supplies k n (klog s)" command_of "\<lambda>_ c. c" for k junk
  by unfold_locales simp

interpretation p3_iso: info_isolated "part3_driver k junk junk_tid" nodes_inv "\<lambda>n s. supplies k n (klog s)" command_of "\<lambda>_ c. c" for k junk junk_tid
  by unfold_locales simp

section \<open>Properties\<close>

text \<open>
  C32: The tests with a child.  On the drivers of part 2 and part 3 the sixth and the eighth test pass: a child that writes a
  command of its own reads its own answer, and the parent, which reads after the child has ended, still gets the answer
  to its own last command, once and again.  On the driver of part 1, where all processes share one command, the parent of the
  sixth test reads the answer to the command of its child, and the test fails whenever the priority is not its number.
\<close>

theorem fork_tests:
  assumes "can_run E me prio parent (st :: Part2.drv ustate)" "no_device st" "length (e_argv E) = 1" "steady E c cprio cparent" "c \<noteq> me"
    "nodes_inv (u_drv st)" "supplies k 7 (klog (u_drv st))" "can_run E me prio parent (st1 :: Part1.drv ustate)" "no_device st1" "prio \<noteq> me"
  shows "(\<exists>st'. test6 (part2_driver k junk) E me (Some c) st = Done (Ended Passed 0, st')) \<and>
    (\<exists>st'. test8 (part2_driver k junk) E me (Some c) st = Done (Ended Passed 0, st')) \<and>
    (\<exists>st'. test6 (part3_driver k junk junk_tid) E me (Some c) st = Done (Ended Passed 0, st')) \<and>
    (\<exists>st'. test8 (part3_driver k junk junk_tid) E me (Some c) st = Done (Ended Passed 0, st')) \<and>
    (\<exists>st'. test6 part1_driver E me (Some c) st1 = Done (Ended Failed (- 1), st'))"
proof -
  have s: "steady E me prio parent" using assms(1) by (simp add: can_run_def)
  have g: "p2_info.good k 7 st" "p3_info.good k 7 st" "p1_info.good 7 st1"
    using assms(6,7) by (simp_all add: p2_info.good_def p3_info.good_def p1_info.good_def)
  have me: "atoi (dec_int (sint me)) = me" "atoi (dec_int (sint prio)) \<noteq> me" using assms(10) by (simp_all add: atoi_dec_int)
  show ?thesis
    using p2_info.test6_verdict [OF assms(1,2) g(1) assms(3-5) _ steady_gets(4) [OF s], of junk]
      p2_info.test8_passes [OF assms(1,2) g(1) assms(3-5), of junk]
      p3_info.test6_verdict [OF assms(1,2) g(2) assms(3-5) _ steady_gets(4) [OF s], of junk junk_tid]
      p3_info.test8_passes [OF assms(1,2) g(2) assms(3-5), of junk junk_tid]
      p1_info.test6_verdict [OF assms(8,9) g(3) assms(3-5) _ steady_gets(5) [OF s]] me by simp
qed

text \<open>A machine on which every task is its own process and the first task the parent of all.\<close>

definition family :: "u8 list list \<Rightarrow> env" where
  "family argv = \<lparr>e_exists = (\<lambda>_. True),
     e_view = (\<lambda>p t. \<lparr>current = ucast p,
       task_at = (\<lambda>q. \<lparr>pid = ucast q, static_prio = 120, comm = [115, 104, 0], real_parent = 1, nvcsw = 7, files = None, t_mm = 0\<rparr>),
       pid_task = (\<lambda>q. ucast q), next_thread = (\<lambda>q. q), mm_at = (\<lambda>_. \<lparr>stack_vm = 34\<rparr>)\<rparr>),
     e_tgid = ucast, e_buf = 4096, e_argv = argv\<rparr>"

lemma family_simps [simp]:
  "e_exists (family argv) x" "e_argv (family argv) = argv" "comm (self (family argv) p t) = [115, 104, 0]" "nvcsw (self (family argv) p t) = 7"
  by (simp_all add: family_def)

lemma family_steady: "p \<noteq> 0 \<Longrightarrow> steady (family argv) p 120 1"
proof -
  assume "p \<noteq> 0"
  have "(ucast (ucast p :: u64) :: u32) = p" by (rule bit_word_eqI) (simp add: bit_simps)
  moreover from this \<open>p \<noteq> 0\<close> have "(ucast p :: u64) \<noteq> 0" by auto
  ultimately show ?thesis by (simp add: steady_def views_def family_def tasks_ok_def)
qed

lemma started_table: "n < 2 ^ 30 \<Longrightarrow> table [Some (Std, 0), Some (Std, 1), Some (Std, 2)] n (started d n)" "no_device (started d n)"
  by (auto simp: table_def started_def no_device_def)

lemma family_can_run: "p \<noteq> 0 \<Longrightarrow> can_run (family argv) p 120 1 (started d 1020)"
proof -
  have "table [Some (Std, 0), Some (Std, 1), Some (Std, 2)] (Suc (Suc 1018)) (started d 1020)" using started_table(1) [of 1020 d] by simp
  then have "\<exists>xs k. table xs (Suc (Suc k)) (started d 1020)" by blast
  then show "p \<noteq> 0 \<Longrightarrow> can_run (family argv) p 120 1 (started d 1020)" using family_steady [of p argv] by (simp add: can_run_def)
qed

theorem fork_tests_witness:
  "(\<exists>st'. test6 (part2_driver granting 0) (family [[]]) 100 (Some 101) (started Part2.loaded 1020) = Done (Ended Passed 0, st')) \<and>
   (\<exists>st'. test6 part1_driver (family [[]]) 100 (Some 101) (started Part1.loaded 1020) = Done (Ended Failed (- 1), st'))"
proof -
  have "nodes_inv (u_drv (started Part2.loaded 1020))" "supplies granting 7 (klog (u_drv (started Part2.loaded 1020)))"
    using granting_supplies [of 7] by (simp_all add: started_def) (simp add: Part2.loaded_def)
  from fork_tests [OF family_can_run [of 100] started_table(2) _ family_steady [of 101] _ this family_can_run [of 100] started_table(2), of "[[]]" 0 0 Part1.loaded]
  show ?thesis by simp
qed

text \<open>
  C33: The chain of a thousand processes.  Each of the 999 descendants opens the sysfs file again, writes the command that its
  number selects, forks the next and waits for it before it reads.  On the driver of part 2 every one of the thousand processes
  ends with status 0, which it does only when the answer it read is the one to its own command; the root ends last.  The
  conditions: all numbers are different and each task keeps its parent and priority, there is room for 1001 more
  descriptors and kernel memory for every write; for a process that asks for its name, the program was started by
  a path of two characters and then that name; for one that asks for its context switches, there is none between its read and its
  check, and fewer than 2^31 before.
\<close>

theorem chain_test:
  assumes "nodes_inv (u_drv st)" "supplies k 4000 (klog (u_drv st))" "table xs (1001 + n) st" "no_device st" "e_exists E Sysfs" "e_exists E Device"
    "length kids = 999" "distinct (me # kids)" "\<forall>c \<in> set (me # kids). \<exists>prio parent. steady E c prio parent"
    "undisturbed E busy me kids (Suc (u_time st))" "length (e_argv E) = 1"
  shows "\<exists>st'. test7 (part2_driver k junk) E busy me kids st = Done (Ended Quiet 0, st') \<and>
    u_exits st' = u_exits st @ replicate 1000 (Ended Quiet 0)"
  using assms by (intro p2_iso.test7_returns) (simp_all add: p2_info.good_def)

lemma family_undisturbed: "undisturbed (family [[46, 47, 115, 104]]) busy me kids t"
  by (induction kids arbitrary: me t) (simp_all add: quiet_def)

theorem chain_test_witness:
  "\<exists>st'. test7 (part2_driver granting 0) (family [[46, 47, 115, 104]]) (\<lambda>_. 3) 100 (map of_nat [101..<1100]) (started Part2.loaded 1020) =
     Done (Ended Quiet 0, st') \<and> u_exits st' = u_exits (started Part2.loaded 1020) @ replicate 1000 (Ended Quiet 0)"
proof (rule chain_test)
  let ?st = "started Part2.loaded 1020" and ?kids = "map of_nat [101..<1100] :: u32 list"
  show "nodes_inv (u_drv ?st)" "supplies granting 4000 (klog (u_drv ?st))"
    using granting_supplies [of 4000] by (simp_all add: started_def) (simp add: Part2.loaded_def)
  show "table [Some (Std, 0), Some (Std, 1), Some (Std, 2)] (1001 + 19) ?st" using started_table(1) [of 1020] by simp
  have u: "unat (of_nat j :: u32) = j" if "j < 1100" for j using that by (simp add: unat_of_nat)
  have inj: "inj_on (of_nat :: nat \<Rightarrow> u32) {100..<1100}" by (rule inj_on_inverseI [of _ unat]) (simp add: u)
  have k: "100 # ?kids = map of_nat [100..<1100]" using upt_conv_Cons [of 100 1100] by (simp del: upt_rec_numeral)
  show "distinct (100 # ?kids)" unfolding k using inj by (simp add: distinct_map del: upt_rec_numeral)
  have "p \<noteq> 0" if "p \<in> set (100 # ?kids)" for p :: u32 using that u unfolding k by (force simp: word_unat_eq_iff simp del: upt_rec_numeral)
  then show "\<forall>c \<in> set (100 # ?kids). \<exists>prio parent. steady (family [[46, 47, 115, 104]]) c prio parent"
    using family_steady by blast
qed (simp_all add: started_table family_undisturbed del: upt_rec_numeral)

end
