(* ===== verification/Infoprogs_Threads.thy ===== *)
theory Infoprogs_Threads
  imports Infoprogs
begin

text \<open>
  The test programs of the process-information driver, part three: the programs with threads, \<^verbatim>\<open>test9.c\<close> to \<^verbatim>\<open>test13.c\<close> of
  \<^verbatim>\<open>testcases_A1_CS614_23\<close> and \<^verbatim>\<open>multi1.c\<close> to \<^verbatim>\<open>multi3.c\<close> of \<^verbatim>\<open>Part3/user_progs\<close>.  Which threads come to run and their numbers
  are parameters; the other threads only sleep, and the runs considered end before the sleepers wake.
\<close>

section \<open>Threads\<close>

text \<open>Whether thread \<open>i\<close> was created and sets its flag, and its number.\<close>

record threads =
  th_runs :: "nat \<Rightarrow> bool"
  th_tid :: "nat \<Rightarrow> u32"

definition all_run :: "threads \<Rightarrow> nat \<Rightarrow> bool" where
  "all_run H n = list_all (th_runs H) [0..<n]"

text \<open>
  The main thread polls the flags one after the other.  When one never comes, it polls for ever, unless a thread that
  runs ends the process with \<^verbatim>\<open>exit(-1)\<close> after its sleep (\<open>deadline\<close>).
\<close>

definition wait_threads ::
  "'s info_driver \<Rightarrow> threads \<Rightarrow> nat \<Rightarrow> bool \<Rightarrow> ('s ustate \<Rightarrow> 's run) \<Rightarrow> 's ustate \<Rightarrow> 's run" where
  "wait_threads D H n deadline rest st =
     (if all_run H n then rest st
      else if deadline \<and> list_ex (th_runs H) [0..<n] then finish D (Ended Quiet (- 1)) st
      else Hang)"

section \<open>The number of threads\<close>

definition test9 :: "'s info_driver \<Rightarrow> env \<Rightarrow> threads \<Rightarrow> u32 \<Rightarrow> 's ustate \<Rightarrow> 's run" where
  "test9 D E H me st =
     (if length (e_argv E) \<noteq> 1 then finish D (Ended Quiet (- 1)) st
      else wait_threads D H 10 True (opened D E Sysfs (\<lambda>fd_1. put_commands D E me fd_1 [[53]] (
        opened D E Device (\<lambda>fd_2 st. get_answer D E me fd_2 (\<lambda>ret st.
          let st = uclose D fd_2 (uclose D fd_1 st)
          in obind (buf_text E st) (\<lambda>buf. verdict D (atoi buf = 10 + 1) st)) (clear_buf E st))))) st)"

text \<open>Thread 2 writes and thread 1 reads, once all run and the write is done; otherwise the main thread ends the process.\<close>

definition test10 :: "'s info_driver \<Rightarrow> env \<Rightarrow> threads \<Rightarrow> 's ustate \<Rightarrow> 's run" where
  "test10 D E H st =
     (if length (e_argv E) \<noteq> 1 then finish D (Ended Quiet (- 1)) st
      else if \<not> th_runs H 2 then finish D (Ended Quiet (- 1)) st
      else opened D E Sysfs (\<lambda>fd_1. put_commands D E (th_tid H 2) fd_1 [[53]] (\<lambda>st.
        if \<not> all_run H 10 then finish D (Ended Quiet (- 1)) st
        else opened D E Device (\<lambda>fd_2 st. get_answer D E (th_tid H 1) fd_2 (\<lambda>ret st.
          obind (buf_text E st) (\<lambda>buf. verdict D (atoi buf = 10 + 1) st)) (clear_buf E st)) st)) st)"

definition multi1 :: "'s info_driver \<Rightarrow> env \<Rightarrow> threads \<Rightarrow> u32 \<Rightarrow> 's ustate \<Rightarrow> 's run" where
  "multi1 D E H me st =
     (if length (e_argv E) \<noteq> 2 then finish D (Ended Quiet (- 1)) st
      else wait_threads D H 5 False (opened D E Sysfs (\<lambda>fd_1. put_commands D E me fd_1 [e_argv E ! 1] (
        opened D E Device (\<lambda>fd_2 st.
          if atoi (e_argv E ! 1) = 5 then
            get_answer D E me fd_2 (\<lambda>ret st. obind (buf_text E st) (\<lambda>buf.
              let st = uclose D fd_2 (uclose D fd_1 st)
              in finish D (Ended (if atoi buf = 5 + 1 then Passed else Failed) 0) st)) st
          else finish D (Ended Quiet 0) st)))) st)"

section \<open>The number of open files\<close>

definition test11 :: "'s info_driver \<Rightarrow> env \<Rightarrow> threads \<Rightarrow> 's ustate \<Rightarrow> 's run" where
  "test11 D E H st =
     (if length (e_argv E) \<noteq> 1 \<or> \<not> th_runs H 2 then finish D (Ended Quiet (- 1)) st
      else opened D E Sysfs (\<lambda>fd_1. put_commands D E (th_tid H 2) fd_1 [[54]] (
        opened D E Device (\<lambda>fd_2. opened D E Sysfs (\<lambda>fd_3. get_answer D E (th_tid H 2) fd_2 (\<lambda>ret st.
          obind (buf_text E st) (\<lambda>buf. verdict D (atoi buf = 6) st)))))) st)"

definition test12 :: "'s info_driver \<Rightarrow> env \<Rightarrow> threads \<Rightarrow> 's ustate \<Rightarrow> 's run" where
  "test12 D E H st =
     (if length (e_argv E) \<noteq> 1 \<or> \<not> th_runs H 2 then finish D (Ended Quiet (- 1)) st
      else opened D E Sysfs (\<lambda>fd_1. put_commands D E (th_tid H 2) fd_1 [[54]] (
        opened D E Device (\<lambda>fd_2. opened D E Sysfs (\<lambda>fd_3 st. get_answer D E (th_tid H 2) fd_2 (\<lambda>ret st.
          obind (buf_text E st) (\<lambda>buf. verdict D (atoi buf = 5) st)) (uclose D fd_1 st))))) st)"

text \<open>The main thread joins all threads, and ends with 0 whatever thread 3 found.\<close>

definition multi2 :: "'s info_driver \<Rightarrow> env \<Rightarrow> threads \<Rightarrow> 's ustate \<Rightarrow> 's run" where
  "multi2 D E H st =
     (if length (e_argv E) \<noteq> 2 then finish D (Ended Quiet (- 1)) st
      else if \<not> all_run H 5 then Hang
      else opened D E Sysfs (\<lambda>fd_1. put_commands D E (th_tid H 3) fd_1 [e_argv E ! 1] (
        opened D E Device (\<lambda>fd_2 st.
          if atoi (e_argv E ! 1) = 6 then
            get_answer D E (th_tid H 3) fd_2 (\<lambda>ret st. obind (buf_text E st) (\<lambda>buf.
              finish D (Ended (if atoi buf = 5 then Passed else Failed) 0) st)) st
          else finish D (Ended Quiet 0) st))) st)"

section \<open>The largest stack\<close>

definition test13 :: "'s info_driver \<Rightarrow> env \<Rightarrow> threads \<Rightarrow> u32 \<Rightarrow> 's ustate \<Rightarrow> 's run" where
  "test13 D E H me st =
     (if length (e_argv E) \<noteq> 1 then finish D (Ended Quiet (- 1)) st
      else wait_threads D H 10 True (opened D E Sysfs (\<lambda>fd_1. put_commands D E me fd_1 [[55]] (
        opened D E Device (\<lambda>fd_2. get_answer D E me fd_2 (\<lambda>ret st.
          let st = uclose D fd_2 (uclose D fd_1 st)
          in obind (buf_text E st) (\<lambda>buf. verdict D (scast (atoi buf) = (scast (th_tid H 9) :: u64)) st)))))) st)"

definition multi3 :: "'s info_driver \<Rightarrow> env \<Rightarrow> threads \<Rightarrow> u32 \<Rightarrow> 's ustate \<Rightarrow> 's run" where
  "multi3 D E H me st =
     (if length (e_argv E) \<noteq> 2 then finish D (Ended Quiet (- 1)) st
      else wait_threads D H 5 False (opened D E Sysfs (\<lambda>fd_1. put_commands D E me fd_1 [e_argv E ! 1] (
        opened D E Device (\<lambda>fd_2 st.
          if atoi (e_argv E ! 1) = 7 then
            get_answer D E me fd_2 (\<lambda>ret st. obind (buf_text E st) (\<lambda>buf.
              let st = uclose D fd_2 (uclose D fd_1 st)
              in finish D (Ended (if atoi buf = getpid E me st then Passed else Failed) 0) st)) st
          else finish D (Ended Quiet 0) st)))) st)"

section \<open>Answers of part 3\<close>

text \<open>A task is in the ring of the threads of its process.\<close>

definition ring_of :: "env \<Rightarrow> u32 \<Rightarrow> nat \<Rightarrow> ptr list \<Rightarrow> bool" where
  "ring_of E me t ts \<longleftrightarrow> is_ring (e_view E me t) (current (e_view E me t)) ts \<and> length ts < 2 ^ 31"

definition used :: "'s ustate \<Rightarrow> nat" where
  "used st = length (filter (\<lambda>x. x \<noteq> None) (u_fds st))"

lemma dec_int_nat: "dec_int (int n) = dec_nat n"
  by (simp add: dec_int_def)

lemma sprintf_small: "n < 2 ^ 31 \<Longrightarrow> sprintf_d (of_nat n) = dec_nat n @ [0]"
  by (simp add: sprintf_d_def sint_small dec_int_nat)

lemma card_used: "length fs < 2 ^ 32 \<Longrightarrow>
  card {j. j < unat (max_fds (fdtable_of fs)) \<and> fd (fdtable_of fs) j \<noteq> 0} = length (filter (\<lambda>x. x \<noteq> None) fs)"
proof -
  assume "length fs < 2 ^ 32"
  then have "unat (of_nat (length fs) :: u32) = length fs" by (simp add: unat_of_nat)
  then have "{j. j < unat (max_fds (fdtable_of fs)) \<and> fd (fdtable_of fs) j \<noteq> 0} = {j. j < length fs \<and> fs ! j \<noteq> None}"
    by (auto simp: fdtable_of_def)
  then show ?thesis by (simp add: length_filter_conv_card)
qed

lemma dec_nat_short: "n < 2 ^ 31 \<Longrightarrow> length (dec_nat n) < 2 ^ 64"
  using length_dec_nat_le [of n 10] by simp

lemma read5:
  assumes "nodes_inv s" "command_of (pid (task_at T (current T))) s = Some 5" "is_ring T (current T) ts" "length ts < 2 ^ 31"
  shows "Part3.demo_read T junk junk_tid a 16 m s = Done (16, mem_write a (dec_nat (length ts) @ [0]) m)"
  using thread_commands [OF assms(1) _ assms(3,4,2), of 16] by simp

lemma read6:
  assumes "nodes_inv s" "command_of (pid (task_at T (current T))) s = Some 6" "is_ring T (current T) ts" "length ts < 2 ^ 31"
    "files (task_at T (current T)) = Some fdt" "card {j. j < unat (max_fds fdt) \<and> fd fdt j \<noteq> 0} < 2 ^ 31"
  shows "Part3.demo_read T junk junk_tid a 16 m s =
    Done (16, mem_write a (dec_nat (card {j. j < unat (max_fds fdt) \<and> fd fdt j \<noteq> 0}) @ [0]) m)"
  using thread_commands [OF assms(1) _ assms(3,4,2), of 16] assms(5) sprintf_small [OF assms(6)] by simp

lemma read7:
  assumes "nodes_inv s" "command_of (pid (task_at T (current T))) s = Some 7" "is_ring T (current T) ts"
    "\<forall>p \<in> set ts. thread_stack T p = Some w" "w \<noteq> 0"
  shows "Part3.demo_read T junk junk_tid a 16 m s = Done (16, mem_write a (dec_nat (unat (pid (task_at T (current T)))) @ [0]) m)"
proof -
  have "unat (ucast (pid (task_at T (current T))) :: u64) = unat (pid (task_at T (current T)))"
    using unsigned_less [of "pid (task_at T (current T))", where ?'a = nat] by (simp add: unsigned_ucast_eq take_bit_eq_mod)
  then show ?thesis using stack_is_shared [OF assms(1) _ assms(3,2,4), of 16] assms(5) by (simp add: sprintf_lu_def)
qed

lemma answer3:
  assumes f: "lookup f st = Some (Device, i)" and s: "nodes_inv (u_drv st)" "command_of me (u_drv st) = Some v"
    and vw: "views E me" and ring: "ring_of E me (u_time st) ts"
    and v: "v = 5 \<and> n = length ts \<or> v = 6 \<and> n = used st \<and> length (u_fds st) < 2 ^ 31 \<or>
      v = 7 \<and> n = unat me \<and> n < 2 ^ 31 \<and> (\<exists>w. w \<noteq> 0 \<and> (\<forall>p \<in> set ts. thread_stack (e_view E me (u_time st)) p = Some w))"
  shows "\<exists>st'. get_answer (part3_driver k junk junk_tid) E me f rest st = rest 16 st' \<and> u_drv st' = u_drv st \<and> u_fds st' = u_fds st \<and>
    u_time st' = Suc (u_time st) \<and> u_refs st' = u_refs st \<and> u_ids st' = u_ids st \<and> u_exits st' = u_exits st \<and> buf_text E st' = Done (dec_nat n) \<and>
    n < 2 ^ 31"
proof -
  let ?T = "seen E me st"
  have c: "command_of (pid (task_at ?T (current ?T))) (u_drv st) = Some v" using s(2) vw by (simp add: views_def seen_def)
  have r: "is_ring ?T (current ?T) ts" "length ts < 2 ^ 31" using ring by (simp_all add: ring_of_def seen_def)
  have u: "used st \<le> length (u_fds st)" by (simp add: used_def)
  have n: "n < 2 ^ 31" using v r(2) u by auto
  have "Part3.demo_read ?T junk junk_tid (e_buf E) 16 (u_mem st) (u_drv st) =
      Done (16, mem_write (e_buf E) (dec_nat n @ [0]) (u_mem st))"
    using v
  proof (elim disjE conjE)
    assume "v = 5" "n = length ts"
    then show ?thesis using read5 [OF s(1) _ r] c by simp
  next
    assume "v = 6" and len: "n = used st" "length (u_fds st) < 2 ^ 31"
    then have c6: "command_of (pid (task_at ?T (current ?T))) (u_drv st) = Some 6" using c by simp
    have fs: "files (task_at ?T (current ?T)) = Some (fdtable_of (u_fds st))" by (simp add: seen_def)
    have cu: "card {j. j < unat (max_fds (fdtable_of (u_fds st))) \<and> fd (fdtable_of (u_fds st)) j \<noteq> 0} = n"
      using card_used [of "u_fds st"] len by (simp add: used_def)
    show ?thesis using read6 [OF s(1) c6 r fs, unfolded cu, OF n] by simp
  next
    assume "v = 7" "n = unat me" "\<exists>w. w \<noteq> 0 \<and> (\<forall>p \<in> set ts. thread_stack (e_view E me (u_time st)) p = Some w)"
    then obtain w where w: "w \<noteq> 0" "\<forall>p \<in> set ts. thread_stack ?T p = Some w" by (auto simp: seen_def)
    have "pid (task_at ?T (current ?T)) = me" using vw by (simp add: views_def seen_def)
    then show ?thesis using read7 [OF s(1) _ r(1) w(2,1)] c \<open>v = 7\<close> \<open>n = unat me\<close> by simp
  qed
  then show ?thesis
    using answer_text [OF f dec_nat_no_nul dec_nat_short [OF n], of "part3_driver k junk junk_tid"] n by (simp add: part3_driver_def)
qed

section \<open>Verdicts\<close>

text \<open>A task with room for three more files asks part 3; the numbers of the open files are as they were taken.\<close>

definition can_ask :: "kapi \<Rightarrow> env \<Rightarrow> u32 \<Rightarrow> (ufile \<times> nat) option list \<Rightarrow> Part2.drv ustate \<Rightarrow> bool" where
  "can_ask k E me xs st \<longleftrightarrow> e_exists E Sysfs \<and> e_exists E Device \<and> views E me \<and> nodes_inv (u_drv st) \<and> supplies k 3 (klog (u_drv st)) \<and>
     (\<exists>n. table xs (Suc (Suc (Suc n))) st)"

lemma can_ask_argv [simp]: "can_ask k (E\<lparr>e_argv := a\<rparr>) me xs st = can_ask k E me xs st"
  by (simp add: can_ask_def views_def)

lemma ring_of_argv [simp]: "ring_of (E\<lparr>e_argv := a\<rparr>) me t ts = ring_of E me t ts"
  by (simp add: ring_of_def)

lemma asked:
  assumes "can_ask k E me xs st" "sscanf_d c = Some v" "length c < 2 ^ 31"
  shows "\<exists>st' n. opened (part3_driver k junk junk_tid) E Sysfs (\<lambda>f1. put_commands (part3_driver k junk junk_tid) E me f1 [c]
        (opened (part3_driver k junk junk_tid) E Device (rest f1))) st = rest (of_nat (length xs)) (of_nat (Suc (length xs))) st' \<and>
    nodes_inv (u_drv st') \<and> supplies k 1 (klog (u_drv st')) \<and> command_of me (u_drv st') = Some v \<and>
    table (xs @ [Some (Sysfs, u_ids st), Some (Device, Suc (u_ids st))]) (Suc n) st' \<and> u_time st' = Suc (u_time st) \<and>
    lookup (of_nat (Suc (length xs))) st' = Some (Device, Suc (u_ids st))"
proof -
  obtain n where tab: "table xs (Suc (Suc (Suc n))) st" using assms(1) by (auto simp: can_ask_def)
  have pre: "p3_info.good k (Suc 1 + length [c]) st" "e_exists E Sysfs" "e_exists E Device" "views E me"
    using assms(1) by (simp_all add: can_ask_def p3_info.good_def numeral_3_eq_3)
  have cs: "\<forall>c \<in> set [c]. sscanf_d c \<noteq> None \<and> length c < 2 ^ 31" "[c] \<noteq> []" "sscanf_d (last [c]) = Some v" using assms(2,3) by simp_all
  from p3_info.opened_both [OF pre(1) tab pre(2-4) cs, of junk junk_tid rest] show ?thesis by (auto simp: p3_info.good_def)
qed

lemma atoi_nat_eq: "n < 2 ^ 31 \<Longrightarrow> m < 2 ^ 31 \<Longrightarrow> atoi (dec_nat n) = of_nat m \<longleftrightarrow> n = m"
proof -
  assume n: "n < 2 ^ 31" "m < 2 ^ 31"
  have "n = m" if "(of_nat n :: u32) = of_nat m"
    using arg_cong [OF that, of sint] sint_small [OF n(1)] sint_small [OF n(2)] by linarith
  moreover have "atoi (dec_nat n) = of_nat n" using n(1) by (intro atoi_dec_nat) simp
  ultimately show ?thesis by auto
qed

lemma table_used: "table xs n st \<Longrightarrow> used st = length xs" "table xs n st \<Longrightarrow> length (u_fds st) < 2 ^ 31"
proof -
  assume "table xs n st"
  moreover from this have "filter (\<lambda>x. x \<noteq> None) xs = xs" by (metis (mono_tags, lifting) filter_True table_def)
  ultimately show "used st = length xs" by (simp add: used_def table_def)
qed (simp add: table_def)

lemma test9_verdict:
  assumes "can_ask k E me xs st" "ring_of E me (Suc (u_time st)) ts" "all_run H 10" "length (e_argv E) = 1"
  shows "\<exists>st'. test9 (part3_driver k junk junk_tid) E H me st =
    Done (if length ts = 11 then Ended Passed 0 else Ended Failed (- 1), st')"
proof -
  let ?D = "part3_driver k junk junk_tid"
  define fin where "fin = (\<lambda>f1 f2 (ret :: u32) st. let st = uclose ?D f2 (uclose ?D f1 st) in
    obind (buf_text E st) (\<lambda>buf. verdict ?D (atoi buf = 10 + 1) st))"
  obtain st1 f1 f2 i where st1: "test9 ?D E H me st = get_answer ?D E me f2 (fin f1 f2) (clear_buf E st1)" "nodes_inv (u_drv st1)"
    "command_of me (u_drv st1) = Some 5" "u_time st1 = Suc (u_time st)" "lookup f2 st1 = Some (Device, i)"
    using asked [OF assms(1) digit_commands(6), of junk junk_tid "\<lambda>f1 f2 st. get_answer ?D E me f2 (fin f1 f2) (clear_buf E st)"]
    unfolding test9_def wait_threads_def fin_def using assms(3,4) by auto
  have f2: "lookup f2 (clear_buf E st1) = Some (Device, i)" using st1(5) lookup_cong [of "clear_buf E st1" st1] by simp
  have vw: "views E me" using assms(1) by (simp add: can_ask_def)
  obtain st2 where st2: "get_answer ?D E me f2 (fin f1 f2) (clear_buf E st1) = fin f1 f2 16 st2" "buf_text E st2 = Done (dec_nat (length ts))"
    using answer3 [OF f2, of me 5 E ts "length ts" k junk junk_tid "fin f1 f2"] st1 vw assms(2) by auto
  have "atoi (dec_nat (length ts)) = 10 + 1 \<longleftrightarrow> length ts = 11" using atoi_nat_eq [of "length ts" 11] assms(2) by (simp add: ring_of_def)
  then show ?thesis using st1(1) st2 by (simp add: fin_def verdict_def finish_def Let_def)
qed

lemma multi1_verdict:
  assumes "can_ask k E me xs st" "ring_of E me (Suc (u_time st)) ts" "all_run H 5" "e_argv E = [path, [53]]"
  shows "\<exists>st'. multi1 (part3_driver k junk junk_tid) E H me st = Done (Ended (if length ts = 6 then Passed else Failed) 0, st')"
proof -
  let ?D = "part3_driver k junk junk_tid"
  define fin where "fin = (\<lambda>f1 f2 (ret :: u32) st. obind (buf_text E st) (\<lambda>buf. let st = uclose ?D f2 (uclose ?D f1 st) in
    finish ?D (Ended (if atoi buf = 5 + 1 then Passed else Failed) 0) st))"
  have five: "atoi [53] = 5" by code_simp
  obtain st1 f1 f2 i where st1: "multi1 ?D E H me st = get_answer ?D E me f2 (fin f1 f2) st1" "nodes_inv (u_drv st1)"
    "command_of me (u_drv st1) = Some 5" "u_time st1 = Suc (u_time st)" "lookup f2 st1 = Some (Device, i)"
    using asked [OF assms(1) digit_commands(6), of junk junk_tid "\<lambda>f1 f2 st. get_answer ?D E me f2 (fin f1 f2) st"]
    unfolding multi1_def wait_threads_def fin_def using assms(3,4) by (auto simp: five)
  have vw: "views E me" using assms(1) by (simp add: can_ask_def)
  obtain st2 where st2: "get_answer ?D E me f2 (fin f1 f2) st1 = fin f1 f2 16 st2" "buf_text E st2 = Done (dec_nat (length ts))"
    using answer3 [OF st1(5), of me 5 E ts "length ts" k junk junk_tid "fin f1 f2"] st1 vw assms(2) by auto
  have "atoi (dec_nat (length ts)) = 5 + 1 \<longleftrightarrow> length ts = 6" using atoi_nat_eq [of "length ts" 6] assms(2) by (simp add: ring_of_def)
  then show ?thesis using st1(1) st2 by (simp add: fin_def finish_def Let_def)
qed

text \<open>The programs that count their files.\<close>

lemma test11_verdict:
  assumes "can_ask k E (th_tid H 2) xs st" "ring_of E (th_tid H 2) (Suc (u_time st)) ts" "th_runs H 2" "length (e_argv E) = 1"
  shows "\<exists>st'. test11 (part3_driver k junk junk_tid) E H st = Done (if length xs = 3 then Ended Passed 0 else Ended Failed (- 1), st')"
proof -
  let ?D = "part3_driver k junk junk_tid" and ?me = "th_tid H 2"
  define fin where "fin = (\<lambda>(ret :: u32) st. obind (buf_text E st) (\<lambda>buf. verdict ?D (atoi buf = 6) st))"
  obtain st1 f1 f2 i n ys where st1: "test11 ?D E H st = opened ?D E Sysfs (\<lambda>f3. get_answer ?D E ?me f2 fin) st1" "nodes_inv (u_drv st1)"
    "supplies k 1 (klog (u_drv st1))" "command_of ?me (u_drv st1) = Some 6" "u_time st1 = Suc (u_time st)"
    "table (xs @ [Some (Sysfs, u_ids st), Some (Device, i)]) (Suc n) st1" "f2 = of_nat (Suc (length xs))"
    using asked [OF assms(1) digit_commands(7), of junk junk_tid "\<lambda>f1 f2. opened ?D E Sysfs (\<lambda>f3. get_answer ?D E ?me f2 fin)"]
    unfolding test11_def fin_def using assms(3,4) by auto
  have vw: "views E ?me" and ex: "e_exists E Sysfs" using assms(1) by (simp_all add: can_ask_def)
  let ?ys = "(xs @ [Some (Sysfs, u_ids st), Some (Device, i)]) @ [Some (Sysfs, u_ids st1)]"
  have g: "p3_info.good k 1 st1" using st1(2,3) by (simp add: p3_info.good_def)
  obtain st2 where st2: "opened ?D E Sysfs (\<lambda>f3. get_answer ?D E ?me f2 fin) st1 = get_answer ?D E ?me f2 fin st2" "table ?ys n st2"
    "u_drv st2 = u_drv st1" "u_time st2 = Suc (u_time st)"
    using p3_info.open_sysfs [OF g st1(6) ex] st1(5) by fastforce
  have f2: "lookup f2 st2 = Some (Device, i)" using table_lookup [OF st2(2), of "Suc (length xs)"] st1(7) by (simp add: nth_append)
  have u: "used st2 = length xs + 3" "length (u_fds st2) < 2 ^ 31" using table_used [OF st2(2)] by simp_all
  have xs: "length xs < 2 ^ 31 - 3" using st2(2) by (simp add: table_def)
  obtain st3 where st3: "get_answer ?D E ?me f2 fin st2 = fin 16 st3" "buf_text E st3 = Done (dec_nat (length xs + 3))"
    using answer3 [OF f2, of ?me 6 E ts "used st2" k junk junk_tid fin] st1(2,4) st2(3,4) vw assms(2) u by auto
  have "atoi (dec_nat (length xs + 3)) = 6 \<longleftrightarrow> length xs = 3" using atoi_nat_eq [of "length xs + 3" 6] xs by simp
  then show ?thesis using st1(1) st2(1) st3 by (simp add: fin_def verdict_def finish_def Let_def)
qed

lemma filter_used: "None \<notin> set xs \<Longrightarrow> filter (\<lambda>x. x \<noteq> None) xs = xs"
  by (metis (mono_tags, lifting) filter_True)

lemma test12_verdict:
  assumes "can_ask k E (th_tid H 2) xs st" "ring_of E (th_tid H 2) (Suc (u_time st)) ts" "th_runs H 2" "length (e_argv E) = 1"
  shows "\<exists>st'. test12 (part3_driver k junk junk_tid) E H st = Done (if length xs = 3 then Ended Passed 0 else Ended Failed (- 1), st')"
proof -
  let ?D = "part3_driver k junk junk_tid" and ?me = "th_tid H 2"
  define fin where "fin = (\<lambda>(ret :: u32) st. obind (buf_text E st) (\<lambda>buf. verdict ?D (atoi buf = 5) st))"
  obtain st1 f1 f2 i n where st1: "test12 ?D E H st = opened ?D E Sysfs (\<lambda>f3 st. get_answer ?D E ?me f2 fin (uclose ?D f1 st)) st1"
    "nodes_inv (u_drv st1)" "supplies k 1 (klog (u_drv st1))" "command_of ?me (u_drv st1) = Some 6" "u_time st1 = Suc (u_time st)"
    "table (xs @ [Some (Sysfs, u_ids st), Some (Device, i)]) (Suc n) st1" "f1 = of_nat (length xs)" "f2 = of_nat (Suc (length xs))"
    using asked [OF assms(1) digit_commands(7), of junk junk_tid "\<lambda>f1 f2. opened ?D E Sysfs (\<lambda>f3 st. get_answer ?D E ?me f2 fin (uclose ?D f1 st))"]
    unfolding test12_def fin_def using assms(3,4) by auto
  have vw: "views E ?me" and ex: "e_exists E Sysfs" using assms(1) by (simp_all add: can_ask_def)
  let ?ys = "(xs @ [Some (Sysfs, u_ids st), Some (Device, i)]) @ [Some (Sysfs, u_ids st1)]"
  have g: "p3_info.good k 1 st1" using st1(2,3) by (simp add: p3_info.good_def)
  obtain st2 where st2: "opened ?D E Sysfs (\<lambda>f3 st. get_answer ?D E ?me f2 fin (uclose ?D f1 st)) st1 = get_answer ?D E ?me f2 fin (uclose ?D f1 st2)"
    "table ?ys n st2" "u_drv st2 = u_drv st1" "u_time st2 = Suc (u_time st)"
    using p3_info.open_sysfs [OF g st1(6) ex] st1(5) by fastforce
  let ?st3 = "uclose ?D f1 st2"
  have fs: "u_fds st2 = xs @ Some (Sysfs, u_ids st) # Some (Device, i) # Some (Sysfs, u_ids st1) # replicate n None"
    and xs: "None \<notin> set xs" "length xs + 3 + n < 2 ^ 31" using st2(2) by (simp_all add: table_def)
  from uclose_at [OF fs, of ?D] xs(2) st1(7) have st3: "u_drv ?st3 = u_drv st1" "u_time ?st3 = Suc (u_time st)"
    "u_fds ?st3 = xs @ None # Some (Device, i) # Some (Sysfs, u_ids st1) # replicate n None" using st2(3,4) by (simp_all add: Let_def)
  have u: "used ?st3 = length xs + 2" "length (u_fds ?st3) < 2 ^ 31"
    using xs by (simp_all add: used_def st3(3) filter_used del: not_None_eq)
  have "unat f2 = Suc (length xs)" using st1(8) xs(2) by (simp add: unat_of_nat del: of_nat_Suc)
  then have f2: "lookup f2 ?st3 = Some (Device, i)" by (simp add: lookup_def st3(3) nth_append)
  obtain st4 where st4: "get_answer ?D E ?me f2 fin ?st3 = fin 16 st4" "buf_text E st4 = Done (dec_nat (length xs + 2))"
    using answer3 [OF f2, of ?me 6 E ts "used ?st3" k junk junk_tid fin] st1(2,4) st3(1,2) vw assms(2) u by auto
  have "atoi (dec_nat (length xs + 2)) = 5 \<longleftrightarrow> length xs = 3" using atoi_nat_eq [of "length xs + 2" 5] xs by simp
  then show ?thesis using st1(1) st2(1) st4 by (simp add: fin_def verdict_def finish_def Let_def)
qed

lemma multi2_verdict:
  assumes "can_ask k E (th_tid H 3) xs st" "ring_of E (th_tid H 3) (Suc (u_time st)) ts" "all_run H 5" "e_argv E = [path, [54]]"
  shows "\<exists>st'. multi2 (part3_driver k junk junk_tid) E H st = Done (Ended (if length xs = 3 then Passed else Failed) 0, st')"
proof -
  let ?D = "part3_driver k junk junk_tid" and ?me = "th_tid H 3"
  define fin where "fin = (\<lambda>(ret :: u32) st. obind (buf_text E st) (\<lambda>buf. finish ?D (Ended (if atoi buf = 5 then Passed else Failed) 0) st))"
  have six: "atoi [54] = 6" by code_simp
  obtain st1 f2 i n where st1: "multi2 ?D E H st = get_answer ?D E ?me f2 fin st1" "nodes_inv (u_drv st1)"
    "command_of ?me (u_drv st1) = Some 6" "u_time st1 = Suc (u_time st)" "lookup f2 st1 = Some (Device, i)"
    "table (xs @ [Some (Sysfs, u_ids st), Some (Device, i)]) (Suc n) st1"
    using asked [OF assms(1) digit_commands(7), of junk junk_tid "\<lambda>f1 f2 st. get_answer ?D E ?me f2 fin st"]
    unfolding multi2_def fin_def using assms(3,4) by (auto simp: six)
  have vw: "views E ?me" using assms(1) by (simp add: can_ask_def)
  have u: "used st1 = length xs + 2" "length (u_fds st1) < 2 ^ 31" "length xs + 2 < 2 ^ 31"
    using table_used [OF st1(6)] st1(6) by (simp_all add: table_def)
  obtain st2 where st2: "get_answer ?D E ?me f2 fin st1 = fin 16 st2" "buf_text E st2 = Done (dec_nat (length xs + 2))"
    using answer3 [OF st1(5), of ?me 6 E ts "used st1" k junk junk_tid fin] st1 vw assms(2) u by auto
  have "atoi (dec_nat (length xs + 2)) = 5 \<longleftrightarrow> length xs = 3" using atoi_nat_eq [of "length xs + 2" 5] u(3) by simp
  then show ?thesis using st1(1) st2 by (simp add: fin_def finish_def Let_def)
qed

text \<open>The programs that ask for the largest stack: the answer is the number of the thread that asks.\<close>

definition same_stack :: "env \<Rightarrow> u32 \<Rightarrow> nat \<Rightarrow> ptr list \<Rightarrow> bool" where
  "same_stack E me t ts \<longleftrightarrow> (\<exists>w. w \<noteq> 0 \<and> (\<forall>p \<in> set ts. thread_stack (e_view E me t) p = Some w))"

lemma same_stack_argv [simp]: "same_stack (E\<lparr>e_argv := a\<rparr>) me t ts = same_stack E me t ts"
  by (simp add: same_stack_def)

lemma test13_verdict:
  assumes "can_ask k E me xs st" "ring_of E me (Suc (u_time st)) ts" "same_stack E me (Suc (u_time st)) ts" "unat me < 2 ^ 31"
    "all_run H 10" "length (e_argv E) = 1"
  shows "\<exists>st'. test13 (part3_driver k junk junk_tid) E H me st =
    Done (if th_tid H 9 = me then Ended Passed 0 else Ended Failed (- 1), st')"
proof -
  let ?D = "part3_driver k junk junk_tid"
  define fin where "fin = (\<lambda>f1 f2 (ret :: u32) st. let st = uclose ?D f2 (uclose ?D f1 st) in
    obind (buf_text E st) (\<lambda>buf. verdict ?D (scast (atoi buf) = (scast (th_tid H 9) :: u64)) st))"
  obtain st1 f1 f2 i where st1: "test13 ?D E H me st = get_answer ?D E me f2 (fin f1 f2) st1" "nodes_inv (u_drv st1)"
    "command_of me (u_drv st1) = Some 7" "u_time st1 = Suc (u_time st)" "lookup f2 st1 = Some (Device, i)"
    using asked [OF assms(1) digit_commands(8), of junk junk_tid "\<lambda>f1 f2. get_answer ?D E me f2 (fin f1 f2)"]
    unfolding test13_def wait_threads_def fin_def using assms(5,6) by auto
  have vw: "views E me" using assms(1) by (simp add: can_ask_def)
  obtain st2 where st2: "get_answer ?D E me f2 (fin f1 f2) st1 = fin f1 f2 16 st2" "buf_text E st2 = Done (dec_nat (unat me))"
    using answer3 [OF st1(5), of me 7 E ts "unat me" k junk junk_tid "fin f1 f2"] st1 vw assms(2-4) by (auto simp: same_stack_def)
  have "(scast (atoi (dec_nat (unat me))) = (scast (th_tid H 9) :: u64)) \<longleftrightarrow> th_tid H 9 = me"
  proof -
    have "atoi (dec_nat (unat me)) = me" using atoi_dec_nat [of "unat me"] assms(4) by simp
    moreover have id: "scast (scast x :: u64) = x" for x :: u32
    proof (rule bit_word_eqI)
      fix n
      assume "n < LENGTH(32)"
      then have "min 31 n = n" "n < 32" by simp_all
      then show "bit (scast (scast x :: u64) :: u32) n = bit x n" by (simp add: bit_simps)
    qed
    ultimately show ?thesis using arg_cong [of _ _ "scast :: u64 \<Rightarrow> u32"] id by metis
  qed
  then show ?thesis using st1(1) st2 by (simp add: fin_def verdict_def finish_def Let_def)
qed

lemma multi3_verdict:
  assumes "can_ask k E me xs st" "ring_of E me (Suc (u_time st)) ts" "same_stack E me (Suc (u_time st)) ts" "unat me < 2 ^ 31"
    "all_run H 5" "e_argv E = [path, [55]]" "steady E me prio parent"
  shows "\<exists>st'. multi3 (part3_driver k junk junk_tid) E H me st = Done (Ended Passed 0, st')"
proof -
  let ?D = "part3_driver k junk junk_tid"
  define fin where "fin = (\<lambda>f1 f2 (ret :: u32) st. obind (buf_text E st) (\<lambda>buf. let st = uclose ?D f2 (uclose ?D f1 st) in
    finish ?D (Ended (if atoi buf = getpid E me st then Passed else Failed) 0) st))"
  have seven: "atoi [55] = 7" by code_simp
  obtain st1 f1 f2 i where st1: "multi3 ?D E H me st = get_answer ?D E me f2 (fin f1 f2) st1" "nodes_inv (u_drv st1)"
    "command_of me (u_drv st1) = Some 7" "u_time st1 = Suc (u_time st)" "lookup f2 st1 = Some (Device, i)"
    using asked [OF assms(1) digit_commands(8), of junk junk_tid "\<lambda>f1 f2. get_answer ?D E me f2 (fin f1 f2)"]
    unfolding multi3_def wait_threads_def fin_def using assms(5,6) by (auto simp: seven)
  have vw: "views E me" using assms(1) by (simp add: can_ask_def)
  obtain st2 where st2: "get_answer ?D E me f2 (fin f1 f2) st1 = fin f1 f2 16 st2" "buf_text E st2 = Done (dec_nat (unat me))"
    using answer3 [OF st1(5), of me 7 E ts "unat me" k junk junk_tid "fin f1 f2"] st1 vw assms(2-4) by (auto simp: same_stack_def)
  have "atoi (dec_nat (unat me)) = me" using atoi_dec_nat [of "unat me"] assms(4) by simp
  then show ?thesis using st1(1) st2 by (simp add: fin_def steady_gets [OF assms(7)] finish_def Let_def)
qed

text \<open>A thread reads that never wrote: the command is what the uninitialised variable holds.\<close>

definition check11 :: "'s info_driver \<Rightarrow> env \<Rightarrow> u32 \<Rightarrow> 's ustate \<Rightarrow> 's run" where
  "check11 D E ret st = obind (buf_text E st) (\<lambda>buf. verdict D (atoi buf = 10 + 1) st)"

lemma test10_reads:
  assumes "can_ask k E (th_tid H 2) xs st" "th_tid H 1 \<noteq> th_tid H 2" "command_of (th_tid H 1) (u_drv st) = None"
    "all_run H 10" "length (e_argv E) = 1"
  shows "\<exists>st' f i. test10 (part3_driver k junk junk_tid) E H st =
      get_answer (part3_driver k junk junk_tid) E (th_tid H 1) f (check11 (part3_driver k junk junk_tid) E) st' \<and>
    nodes_inv (u_drv st') \<and> command_of (th_tid H 1) (u_drv st') = None \<and> lookup f st' = Some (Device, i) \<and> u_time st' = Suc (u_time st)"
proof -
  let ?D = "part3_driver k junk junk_tid" and ?me = "th_tid H 1" and ?w = "th_tid H 2"
  define fin where "fin = check11 ?D E"
  define dev where "dev = opened ?D E Device (\<lambda>f2 st. get_answer ?D E ?me f2 fin (clear_buf E st))"
  have run: "th_runs H 2" using assms(4) by (simp add: all_run_def list_all_iff)
  obtain n where tab: "table xs (Suc (Suc (Suc n))) st" using assms(1) by (auto simp: can_ask_def)
  have pre: "p3_info.good k (Suc (Suc 1)) st" "e_exists E Sysfs" "e_exists E Device" "views E ?w"
    using assms(1) by (simp_all add: can_ask_def p3_info.good_def numeral_3_eq_3)
  let ?f1 = "of_nat (length xs) :: u32"
  obtain st1 where st1: "test10 ?D E H st = put_commands ?D E ?w ?f1 [[53]] dev st1" "p3_info.good k (Suc (Suc 1)) st1"
    "table (xs @ [Some (Sysfs, u_ids st)]) (Suc (Suc n)) st1" "u_drv st1 = u_drv st" "u_time st1 = u_time st"
    using p3_info.open_sysfs [OF pre(1) tab pre(2), of junk junk_tid "\<lambda>f1. put_commands ?D E ?w f1 [[53]] dev"] run assms(4,5)
    unfolding test10_def dev_def fin_def check11_def by auto
  have f1: "lookup ?f1 st1 = Some (Sysfs, u_ids st)" using table_lookup [OF st1(3), of "length xs"] by simp
  obtain st2 where st2: "put_commands ?D E ?w ?f1 [[53]] dev st1 = dev st2" "p3_info.good k (Suc 1) st2"
    "\<forall>q. command_of q (u_drv st2) = (if q = ?w then Some 5 else command_of q (u_drv st))" "u_fds st2 = u_fds st1" "u_time st2 = Suc (u_time st)"
    using p3_info.put_one [OF st1(2) f1 digit_commands(6) _ pre(4), of junk junk_tid "[]" dev] st1(4,5) by auto
  have t2: "table (xs @ [Some (Sysfs, u_ids st)]) (Suc (Suc n)) st2" using st1(3) st2(4) by (simp add: table_def)
  let ?f2 = "of_nat (Suc (length xs)) :: u32"
  obtain st3 where st3: "dev st2 = get_answer ?D E ?me ?f2 fin (clear_buf E st3)" "p3_info.good k 1 st3"
    "table ((xs @ [Some (Sysfs, u_ids st)]) @ [Some (Device, u_ids st2)]) (Suc n) st3"
    "command_of ?me (u_drv st3) = None" "u_time st3 = Suc (u_time st)"
    using p3_info.open_device [OF st2(2) t2 pre(3), of junk junk_tid "\<lambda>f2 st. get_answer ?D E ?me f2 fin (clear_buf E st)"] st2(3,5) assms(2,3)
    unfolding dev_def by auto
  have "lookup ?f2 st3 = Some (Device, u_ids st2)" using table_lookup [OF st3(3), of "Suc (length xs)"] by (simp add: nth_append)
  then have "lookup ?f2 (clear_buf E st3) = Some (Device, u_ids st2)" using lookup_cong [of "clear_buf E st3" st3] by simp
  then show ?thesis using st1(1) st2(1) st3
    by (intro exI [of _ "clear_buf E st3"] exI [of _ ?f2] exI [of _ "u_ids st2"]) (simp add: fin_def p3_info.good_def)
qed

lemma test10_verdict:
  assumes "can_ask k E (th_tid H 2) xs st" "views E (th_tid H 1)" "th_tid H 1 \<noteq> th_tid H 2" "command_of (th_tid H 1) (u_drv st) = None"
    "ring_of E (th_tid H 1) (Suc (u_time st)) ts" "all_run H 10" "length (e_argv E) = 1"
  shows "7 < junk \<Longrightarrow> \<exists>st'. test10 (part3_driver k junk junk_tid) E H st = Done (Aborted, st')"
    "junk = 5 \<Longrightarrow> \<exists>st'. test10 (part3_driver k junk junk_tid) E H st = Done (if length ts = 11 then Ended Passed 0 else Ended Failed (- 1), st')"
proof -
  let ?D = "part3_driver k junk junk_tid" and ?me = "th_tid H 1"
  obtain st' f i where eq: "test10 ?D E H st = get_answer ?D E ?me f (check11 ?D E) st'" and st': "nodes_inv (u_drv st')"
    "command_of ?me (u_drv st') = None" "lookup f st' = Some (Device, i)" "u_time st' = Suc (u_time st)"
    using test10_reads [OF assms(1,3,4,6,7), of junk junk_tid] by blast
  let ?T = "seen E ?me st'"
  have me: "pid (task_at ?T (current ?T)) = ?me" using assms(2) by (simp add: views_def seen_def)
  have temp: "find_node ?me (u_drv st') = Done 0"
    using find_node_command [of "u_drv st'" ?me] st'(1,2) unfolding nodes_inv_def by (auto split: if_splits)
  { assume j: "7 < junk"
    then have "junk \<noteq> 0" "junk \<noteq> 1" "junk \<noteq> 2" "junk \<noteq> 3" "junk \<noteq> 4" "junk \<noteq> 5" "junk \<noteq> 6" "junk \<noteq> 7" by auto
    then have "i_read ?D ?T (e_buf E) 16 (u_mem st') (u_drv st') = Done (- 22, u_mem st')"
      using temp st'(1) me by (simp add: part3_driver_def Part3.demo_read_def nodes_inv_def EINVAL_def Let_def)
    moreover have "syscall_ret (- 22) = - 1" by (simp add: syscall_ret_def word_le_nat_alt)
    ultimately have "get_answer ?D E ?me f (check11 ?D E) st' = finish ?D Aborted (tick st')"
      using st'(3) by (simp add: get_answer_def uread_def asserting_def word_sless_alt)
    then show "\<exists>st'. test10 ?D E H st = Done (Aborted, st')" using eq by (simp add: finish_def Let_def) }
  { assume j: "junk = 5"
    have r: "is_ring ?T (current ?T) ts" "length ts < 2 ^ 31" using assms(5) st'(4) by (simp_all add: ring_of_def seen_def)
    then have "i_read ?D ?T (e_buf E) 16 (u_mem st') (u_drv st') = Done (16, mem_write (e_buf E) (dec_nat (length ts) @ [0]) (u_mem st'))"
      using temp st'(1) me j count_threads_ring [OF r(1)] sprintf_small [OF r(2)]
      by (simp add: part3_driver_def Part3.demo_read_def nodes_inv_def Let_def)
    from answer_text [OF st'(3) dec_nat_no_nul dec_nat_short [OF r(2)] this, of "check11 ?D E"] obtain st4
      where st4: "get_answer ?D E ?me f (check11 ?D E) st' = check11 ?D E 16 st4" "buf_text E st4 = Done (dec_nat (length ts))" by auto
    have "atoi (dec_nat (length ts)) = 10 + 1 \<longleftrightarrow> length ts = 11" using atoi_nat_eq [of "length ts" 11] r(2) by simp
    then show "\<exists>st'. test10 ?D E H st = Done (if length ts = 11 then Ended Passed 0 else Ended Failed (- 1), st')"
      using eq st4 by (simp add: check11_def verdict_def finish_def Let_def) }
qed

section \<open>Properties\<close>

text \<open>
  C34: The tests of threads and files on the driver of part 3.  When all threads run, the ninth test and \<^verbatim>\<open>multi1\<close> pass exactly when the
  ring of threads has the size they expect (eleven and six); the eleventh and twelfth test and \<^verbatim>\<open>multi2\<close>, whose reading thread
  opened three files and closed none, opened three and closed one, or opened two, pass exactly when the process had three
  files open at its start.
\<close>

theorem thread_tests:
  assumes "can_ask k E me xs st" "ring_of E me (Suc (u_time st)) ts" "can_ask k E (th_tid H 2) xs st" "ring_of E (th_tid H 2) (Suc (u_time st)) ts2"
    "can_ask k E (th_tid H 3) xs st" "ring_of E (th_tid H 3) (Suc (u_time st)) ts3" "all_run H 10" "length (e_argv E) = 1"
  shows "(\<exists>st'. test9 (part3_driver k junk junk_tid) E H me st = Done (if length ts = 11 then Ended Passed 0 else Ended Failed (- 1), st')) \<and>
    (\<exists>st'. test11 (part3_driver k junk junk_tid) E H st = Done (if length xs = 3 then Ended Passed 0 else Ended Failed (- 1), st')) \<and>
    (\<exists>st'. test12 (part3_driver k junk junk_tid) E H st = Done (if length xs = 3 then Ended Passed 0 else Ended Failed (- 1), st')) \<and>
    (\<exists>st'. multi1 (part3_driver k junk junk_tid) (E\<lparr>e_argv := [path, [53]]\<rparr>) H me st = Done (Ended (if length ts = 6 then Passed else Failed) 0, st')) \<and>
    (\<exists>st'. multi2 (part3_driver k junk junk_tid) (E\<lparr>e_argv := [path, [54]]\<rparr>) H st = Done (Ended (if length xs = 3 then Passed else Failed) 0, st'))"
proof -
  have run: "th_runs H 2" "all_run H 5" using assms(7) by (simp_all add: all_run_def list_all_iff)
  show ?thesis
    using test9_verdict [OF assms(1,2,7,8), of junk junk_tid] test11_verdict [OF assms(3,4) run(1) assms(8), of junk junk_tid]
      test12_verdict [OF assms(3,4) run(1) assms(8), of junk junk_tid]
      multi1_verdict [of k "E\<lparr>e_argv := [path, [53]]\<rparr>" me xs st ts H path junk junk_tid] assms(1,2) run(2)
      multi2_verdict [of k "E\<lparr>e_argv := [path, [54]]\<rparr>" H xs st ts3 path junk junk_tid] assms(5,6)
    by (intro conjI) simp_all
qed

text \<open>A process of eleven threads: the ring of the tasks 100 to 110.\<close>

definition troop :: env where
  "troop = \<lparr>e_exists = (\<lambda>_. True),
     e_view = (\<lambda>p t. \<lparr>current = ucast p,
       task_at = (\<lambda>q. \<lparr>pid = ucast q, static_prio = 120, comm = [115, 104, 0], real_parent = 1, nvcsw = 7, files = None, t_mm = 7\<rparr>),
       pid_task = (\<lambda>q. ucast q), next_thread = (\<lambda>q. if q = 110 then 100 else q + 1), mm_at = (\<lambda>_. \<lparr>stack_vm = 34\<rparr>)\<rparr>),
     e_tgid = (\<lambda>q. if q = 1 then 1 else 100), e_buf = 4096, e_argv = [[]]\<rparr>"

definition troop_threads :: threads where
  "troop_threads = \<lparr>th_runs = (\<lambda>_. True), th_tid = (\<lambda>i. of_nat (101 + i))\<rparr>"

definition ring_from :: "nat \<Rightarrow> ptr list" where
  "ring_from i = (let ts = [100, 101, 102, 103, 104, 105, 106, 107, 108, 109, 110] in drop i ts @ take i ts)"

lemma is_ring_list:
  "is_ring T t ts \<longleftrightarrow> ts \<noteq> [] \<and> hd ts = t \<and> distinct ts \<and>
     list_all (\<lambda>i. next_thread T (ts ! i) = ts ! (Suc i mod length ts)) [0..<length ts]"
  by (auto simp: is_ring_def list_all_iff)

lemma troop_rings: "ring_of troop 100 t (ring_from 0)" "ring_of troop 102 t (ring_from 2)" "ring_of troop 103 t (ring_from 3)"
  "ring_of troop 104 t (ring_from 4)"
  by (simp_all add: ring_of_def is_ring_list ring_from_def troop_def)

lemma troop_views: "p \<noteq> 0 \<Longrightarrow> views troop p"
proof -
  assume "p \<noteq> 0"
  have "(ucast (ucast p :: u64) :: u32) = p" by (rule bit_word_eqI) (simp add: bit_simps)
  moreover from this \<open>p \<noteq> 0\<close> have "(ucast p :: u64) \<noteq> 0" by auto
  ultimately show ?thesis by (simp add: views_def troop_def tasks_ok_def)
qed

lemma troop_tid: "th_tid troop_threads 1 = 102" "th_tid troop_threads 2 = 103" "th_tid troop_threads 3 = 104" "th_tid troop_threads 9 = 110"
  "all_run troop_threads n"
  by (simp_all add: troop_threads_def all_run_def list_all_iff)

lemma troop_can_ask: "p \<noteq> 0 \<Longrightarrow> can_ask granting troop p [Some (Std, 0), Some (Std, 1), Some (Std, 2)] (started Part2.loaded 20)"
proof -
  have "table [Some (Std, 0), Some (Std, 1), Some (Std, 2)] (Suc (Suc (Suc 17))) (started Part2.loaded 20)"
    by (simp add: table_def started_def)
  then have "\<exists>n. table [Some (Std, 0), Some (Std, 1), Some (Std, 2)] (Suc (Suc (Suc n))) (started Part2.loaded 20)" by blast
  moreover have "nodes_inv (u_drv (started Part2.loaded 20))" "supplies granting 3 (klog (u_drv (started Part2.loaded 20)))"
    using granting_supplies [of 3] by (simp_all add: started_def) (simp add: Part2.loaded_def)
  ultimately show "p \<noteq> 0 \<Longrightarrow> ?thesis" unfolding can_ask_def using troop_views [of p] by (simp add: troop_def)
qed

theorem thread_tests_witness:
  "(\<exists>st'. test9 (part3_driver granting 0 0) troop troop_threads 100 (started Part2.loaded 20) = Done (Ended Passed 0, st')) \<and>
   (\<exists>st'. test12 (part3_driver granting 0 0) troop troop_threads (started Part2.loaded 20) = Done (Ended Passed 0, st'))"
proof -
  let ?st = "started Part2.loaded 20"
  have t: "Suc (u_time ?st) = 1" by (simp add: started_def)
  have len: "length (ring_from 0) = 11" "length (e_argv troop) = 1" by (simp_all add: ring_from_def troop_def)
  show ?thesis
    using thread_tests [OF troop_can_ask [of 100], of "ring_from 0" troop_threads "ring_from 3" "ring_from 4"] troop_rings troop_can_ask len
    unfolding t troop_tid by (simp add: troop_tid)
qed

text \<open>
  C35: Part 3 keeps the command per thread and cannot measure the stack of a thread.  In the tenth test one thread writes the command and
  another reads: the reader has no command, so the verdict is that of an uninitialised variable, a failed assertion when
  it holds more than 7 and a pass when it happens to hold 5.  The thirteenth test, which expects the thread with the large stack,
  fails, since the answer is the number of the thread that asks; for the same reason \<^verbatim>\<open>multi3\<close> passes.
\<close>

theorem thread_tests_defeated:
  assumes "can_ask k E me xs st" "ring_of E me (Suc (u_time st)) ts" "same_stack E me (Suc (u_time st)) ts" "unat me < 2 ^ 31" "steady E me prio parent"
    "can_ask k E (th_tid H 2) xs st" "views E (th_tid H 1)" "th_tid H 1 \<noteq> th_tid H 2" "command_of (th_tid H 1) (u_drv st) = None"
    "ring_of E (th_tid H 1) (Suc (u_time st)) ts1" "length ts1 = 11" "th_tid H 9 \<noteq> me" "all_run H 10" "length (e_argv E) = 1"
  shows "(7 < junk \<longrightarrow> (\<exists>st'. test10 (part3_driver k junk junk_tid) E H st = Done (Aborted, st'))) \<and>
    (junk = 5 \<longrightarrow> (\<exists>st'. test10 (part3_driver k junk junk_tid) E H st = Done (Ended Passed 0, st'))) \<and>
    (\<exists>st'. test13 (part3_driver k junk junk_tid) E H me st = Done (Ended Failed (- 1), st')) \<and>
    (\<exists>st'. multi3 (part3_driver k junk junk_tid) (E\<lparr>e_argv := [path, [55]]\<rparr>) H me st = Done (Ended Passed 0, st'))"
proof -
  have run: "all_run H 5" using assms(13) by (simp add: all_run_def list_all_iff)
  have st: "steady (E\<lparr>e_argv := [path, [55]]\<rparr>) me prio parent" using assms(5) by (simp add: steady_def views_def)
  show ?thesis
    using test10_verdict [OF assms(6-10,13,14), of junk junk_tid] test13_verdict [OF assms(1-4,13,14), of junk junk_tid]
      multi3_verdict [of k "E\<lparr>e_argv := [path, [55]]\<rparr>" me xs st ts H path prio parent junk junk_tid] assms(1-4,11,12) run st
    by (intro conjI impI) simp_all
qed

theorem thread_tests_defeated_witness:
  "(\<exists>st'. test10 (part3_driver granting 99 0) troop troop_threads (started Part2.loaded 20) = Done (Aborted, st')) \<and>
   (\<exists>st'. test13 (part3_driver granting 99 0) troop troop_threads 100 (started Part2.loaded 20) = Done (Ended Failed (- 1), st'))"
proof -
  let ?st = "started Part2.loaded 20"
  have t: "Suc (u_time ?st) = 1" by (simp add: started_def)
  have ss: "same_stack troop 100 1 (ring_from 0)" unfolding same_stack_def by (rule exI [of _ 34]) (simp add: troop_def thread_stack_def)
  have sd: "steady troop 100 120 1" using troop_views [of 100] by (simp add: steady_def) (simp add: troop_def)
  have none: "command_of (th_tid troop_threads 1) (u_drv ?st) = None"
    by (simp add: command_of_def find_node_def started_def Part2.loaded_def while_option_False)
  have len: "length (ring_from 2) = 11" "length (e_argv troop) = 1" by (simp_all add: ring_from_def troop_def)
  show ?thesis
    using thread_tests_defeated [OF troop_can_ask [of 100] _ _ _ sd, of "ring_from 0" troop_threads "ring_from 2" 99 0] troop_rings troop_can_ask
      troop_views [of 102] len ss none unfolding t troop_tid by (simp add: troop_tid)
qed

end
