(* ===== verification/Card.thy ===== *)
theory Card
  imports Kernel
begin

text \<open>
  The CryptoCard as the driver sees it.  The device (a model inside a patched QEMU) is not part of
  the repository, so it is a parameter: a record \<open>card\<close> of the accesses a driver can make, over an
  arbitrary type of device states that also holds the DMA memory and the passing of time.  What the
  assignment's device specification (\<^verbatim>\<open>CS614-PA3.pdf\<close>) promises about these accesses is the
  predicate \<open>card_ok\<close>, stated over the registers the specification names (record \<open>regs\<close>).  The
  theory ends with a concrete card that keeps every promise, so that the promises are satisfiable.
\<close>

section \<open>Register offsets\<close>

definition LIVE_OFF :: u64 where "LIVE_OFF = 0x4"
definition KEY_OFF :: u64 where "KEY_OFF = 0x8"
definition MMDATA_LEN_OFF :: u64 where "MMDATA_LEN_OFF = 0xc"
definition MMSTATUS_OFF :: u64 where "MMSTATUS_OFF = 0x20"
definition INT_STATUS_OFF :: u64 where "INT_STATUS_OFF = 0x24"
definition INT_ACK_OFF :: u64 where "INT_ACK_OFF = 0x64"
definition MMADDR_OFF :: u64 where "MMADDR_OFF = 0x80"
definition DMA_ADDR_OFF :: u64 where "DMA_ADDR_OFF = 0x90"
definition DMA_DATA_LEN_OFF :: u64 where "DMA_DATA_LEN_OFF = 0x98"
definition DMA_CMD_OFF :: u64 where "DMA_CMD_OFF = 0xa0"
definition DATA_OFF :: u64 where "DATA_OFF = 0xa8"

lemmas off_defs = LIVE_OFF_def KEY_OFF_def MMDATA_LEN_OFF_def MMSTATUS_OFF_def INT_STATUS_OFF_def
  INT_ACK_OFF_def MMADDR_OFF_def DMA_ADDR_OFF_def DMA_DATA_LEN_OFF_def DMA_CMD_OFF_def DATA_OFF_def

section \<open>Accesses\<close>

record 'd card =
  rd32 :: "u64 \<Rightarrow> 'd \<Rightarrow> u32 \<times> 'd"               \<comment> \<open>\<^verbatim>\<open>ioread32\<close>\<close>
  wr32 :: "u32 \<Rightarrow> u64 \<Rightarrow> 'd \<Rightarrow> 'd"               \<comment> \<open>\<^verbatim>\<open>iowrite32\<close>\<close>
  to_io :: "u64 \<Rightarrow> u8 list \<Rightarrow> 'd \<Rightarrow> 'd"           \<comment> \<open>\<^verbatim>\<open>memcpy_toio\<close>\<close>
  from_io :: "u64 \<Rightarrow> nat \<Rightarrow> 'd \<Rightarrow> u8 list \<times> 'd"   \<comment> \<open>\<^verbatim>\<open>memcpy_fromio\<close>\<close>
  dma_alloc :: "u32 \<Rightarrow> 'd \<Rightarrow> (bool \<times> u64) \<times> 'd"  \<comment> \<open>\<^verbatim>\<open>dma_alloc_coherent\<close>: not null, bus address\<close>
  dma_put :: "u64 \<Rightarrow> u8 list \<Rightarrow> 'd \<Rightarrow> 'd"         \<comment> \<open>\<^verbatim>\<open>memcpy\<close> into a coherent buffer\<close>
  dma_get :: "u64 \<Rightarrow> nat \<Rightarrow> 'd \<Rightarrow> u8 list \<times> 'd"   \<comment> \<open>\<^verbatim>\<open>memcpy\<close> out of a coherent buffer\<close>
  dma_free :: "u64 \<Rightarrow> u32 \<Rightarrow> 'd \<Rightarrow> 'd"
  pass :: "'d \<Rightarrow> 'd"                             \<comment> \<open>time passes while the caller sleeps\<close>
  irq :: "'d \<Rightarrow> bool"                            \<comment> \<open>the device raises its interrupt\<close>
  signal :: "'d \<Rightarrow> bool"                         \<comment> \<open>a signal is pending for the sleeper\<close>

section \<open>The device specification\<close>

text \<open>
  The registers of the specification, with the two operations that can be in progress and the
  bytes they work on: \<open>r_data i\<close> is the byte of BAR 0 at \<open>0xa8 + i\<close>, \<open>r_host\<close> the host memory the
  device reaches by DMA.
\<close>

record regs =
  r_key :: u32
  r_len :: u32
  r_status :: u32
  r_busy :: bool
  r_data :: "nat \<Rightarrow> u8"
  r_dma_addr :: u32
  r_dma_len :: u32
  r_dma_cmd :: u32
  r_dma_busy :: bool
  r_host :: "u64 \<Rightarrow> u8"
  r_isr :: u32
  r_irq :: bool

record 'd spec =
  view :: "'d \<Rightarrow> regs"
  work :: "'d \<Rightarrow> nat"                \<comment> \<open>time left until the running operation ends\<close>
  enc :: "u8 \<Rightarrow> u8 \<Rightarrow> u8 \<Rightarrow> u8"
  dec :: "u8 \<Rightarrow> u8 \<Rightarrow> u8 \<Rightarrow> u8"

text \<open>Key component \<open>a\<close> is byte 1 and \<open>b\<close> byte 0 of the key register.\<close>

definition key_a :: "u32 \<Rightarrow> u8" where "key_a w = ucast (drop_bit 8 w)"
definition key_b :: "u32 \<Rightarrow> u8" where "key_b w = ucast w"

definition cipher :: "'d spec \<Rightarrow> bool \<Rightarrow> u32 \<Rightarrow> u8 \<Rightarrow> u8" where
  "cipher S decrypting k = (if decrypting then dec S else enc S) (key_a k) (key_b k)"

text \<open>The buffer limit of the device: 32 KB.\<close>

definition card_buffer :: nat where "card_buffer = 32768"

text \<open>What completion does: MMIO (status bit 1 selects decryption, bit 7 the interrupt) and DMA
  (command bit 1 and bit 2).\<close>

definition finish_mmio :: "'d spec \<Rightarrow> regs \<Rightarrow> regs" where
  "finish_mmio S r =
     r\<lparr>r_busy := False,
       r_data := (\<lambda>i. if i < unat (r_len r) then cipher S (bit (r_status r) 1) (r_key r) (r_data r i)
                      else r_data r i),
       r_isr := (if bit (r_status r) 7 then 0x001 else r_isr r),
       r_irq := (r_irq r \<or> bit (r_status r) 7)\<rparr>"

definition finish_dma :: "'d spec \<Rightarrow> regs \<Rightarrow> regs" where
  "finish_dma S r =
     r\<lparr>r_dma_busy := False,
       r_host := mem_write (ucast (r_dma_addr r))
         (map (cipher S (bit (r_dma_cmd r) 1) (r_key r))
           (mem_read (ucast (r_dma_addr r)) (unat (r_dma_len r)) (r_host r))) (r_host r),
       r_isr := (if bit (r_dma_cmd r) 2 then 0x100 else r_isr r),
       r_irq := (r_irq r \<or> bit (r_dma_cmd r) 2)\<rparr>"

text \<open>
  Any access that does not itself change a register lets time pass: a running operation goes on
  or completes, an idle card stays as it is.
\<close>

definition progress :: "'d spec \<Rightarrow> 'd \<Rightarrow> 'd \<Rightarrow> bool" where
  "progress S d d' \<longleftrightarrow>
     (if r_busy (view S d) then
        view S d' = view S d \<and> work S d' < work S d \<or> view S d' = finish_mmio S (view S d)
      else if r_dma_busy (view S d) then
        view S d' = view S d \<and> work S d' < work S d \<or> view S d' = finish_dma S (view S d)
      else view S d' = view S d)"

definition quiet :: "regs \<Rightarrow> bool" where
  "quiet r \<longleftrightarrow> \<not> r_busy r \<and> \<not> r_dma_busy r"

text \<open>Register writes, on a card with no operation in progress.\<close>

definition write_laws :: "'d card \<Rightarrow> 'd spec \<Rightarrow> bool" where
  "write_laws C S \<longleftrightarrow> (\<forall>d v. quiet (view S d) \<longrightarrow>
     view S (wr32 C v KEY_OFF d) = (view S d)\<lparr>r_key := v\<rparr> \<and>
     view S (wr32 C v MMDATA_LEN_OFF d) = (view S d)\<lparr>r_len := v\<rparr> \<and>
     view S (wr32 C v MMSTATUS_OFF d) = (view S d)\<lparr>r_status := v AND NOT 1\<rparr> \<and>
     view S (wr32 C v DMA_ADDR_OFF d) = (view S d)\<lparr>r_dma_addr := v\<rparr> \<and>
     view S (wr32 C v DMA_DATA_LEN_OFF d) = (view S d)\<lparr>r_dma_len := v\<rparr> \<and>
     (v = r_isr (view S d) \<longrightarrow>
        view S (wr32 C v INT_ACK_OFF d) = (view S d)\<lparr>r_irq := False, r_isr := 0\<rparr>))"

text \<open>Starting an operation, on at most as many bytes as the device's buffer holds.\<close>

definition start_laws :: "'d card \<Rightarrow> 'd spec \<Rightarrow> bool" where
  "start_laws C S \<longleftrightarrow> (\<forall>d v. quiet (view S d) \<longrightarrow>
     (unat (r_len (view S d)) \<le> card_buffer \<longrightarrow>
        view S (wr32 C 0xa8 MMADDR_OFF d) = (view S d)\<lparr>r_busy := True\<rparr>) \<and>
     (bit v 0 \<and> unat (r_dma_len (view S d)) \<le> card_buffer \<longrightarrow>
        view S (wr32 C v DMA_CMD_OFF d) = (view S d)\<lparr>r_dma_cmd := v, r_dma_busy := True\<rparr>))"

text \<open>Register reads: bit 0 of the status and command registers is the progress indication.\<close>

definition read_laws :: "'d card \<Rightarrow> 'd spec \<Rightarrow> bool" where
  "read_laws C S \<longleftrightarrow> (\<forall>d off.
     progress S d (snd (rd32 C off d)) \<and>
     (bit (fst (rd32 C MMSTATUS_OFF d)) 0 \<longleftrightarrow> r_busy (view S (snd (rd32 C MMSTATUS_OFF d)))) \<and>
     (bit (fst (rd32 C DMA_CMD_OFF d)) 0 \<longleftrightarrow> r_dma_busy (view S (snd (rd32 C DMA_CMD_OFF d)))) \<and>
     fst (rd32 C INT_STATUS_OFF d) = r_isr (view S (snd (rd32 C INT_STATUS_OFF d))))"

text \<open>The data area of BAR 0, one megabyte in all.\<close>

definition area_laws :: "'d card \<Rightarrow> 'd spec \<Rightarrow> bool" where
  "area_laws C S \<longleftrightarrow> (\<forall>d bs n. quiet (view S d) \<longrightarrow>
     (length bs \<le> 0x100000 - 0xa8 \<longrightarrow>
        view S (to_io C DATA_OFF bs d) =
          (view S d)\<lparr>r_data := (\<lambda>i. if i < length bs then bs ! i else r_data (view S d) i)\<rparr>) \<and>
     (n \<le> 0x100000 - 0xa8 \<longrightarrow>
        fst (from_io C DATA_OFF n d) = map (r_data (view S d)) [0..<n] \<and>
        view S (snd (from_io C DATA_OFF n d)) = view S d))"

text \<open>Coherent buffers: addresses fit the default 32-bit DMA mask, and the copies reach the
  memory the device sees.\<close>

definition dma_laws :: "'d card \<Rightarrow> 'd spec \<Rightarrow> bool" where
  "dma_laws C S \<longleftrightarrow> (\<forall>d n h bs. quiet (view S d) \<longrightarrow>
     (fst (fst (dma_alloc C n d)) \<longrightarrow> unat (snd (fst (dma_alloc C n d))) < 2 ^ 32) \<and>
     view S (snd (dma_alloc C n d)) = view S d \<and>
     view S (dma_put C h bs d) = (view S d)\<lparr>r_host := mem_write h bs (r_host (view S d))\<rparr> \<and>
     fst (dma_get C h (unat n) d) = mem_read h (unat n) (r_host (view S d)) \<and>
     view S (snd (dma_get C h (unat n) d)) = view S d \<and>
     view S (dma_free C h n d) = view S d)"

text \<open>Sleeping lets time pass; the interrupt line follows the interrupt state.\<close>

definition irq_laws :: "'d card \<Rightarrow> 'd spec \<Rightarrow> bool" where
  "irq_laws C S \<longleftrightarrow> (\<forall>d. progress S d (pass C d) \<and> (irq C d \<longleftrightarrow> r_irq (view S d)))"

definition card_ok :: "'d card \<Rightarrow> 'd spec \<Rightarrow> bool" where
  "card_ok C S \<longleftrightarrow> write_laws C S \<and> start_laws C S \<and> read_laws C S \<and> area_laws C S \<and>
     dma_laws C S \<and> irq_laws C S"

text \<open>
  Two circumstances under which an operation is promised to succeed: coherent memory is granted,
  and no signal interrupts the sleeper.
\<close>

definition grants :: "'d card \<Rightarrow> bool" where
  "grants C \<longleftrightarrow> (\<forall>n d. fst (fst (dma_alloc C n d)))"

definition undisturbed :: "'d card \<Rightarrow> bool" where
  "undisturbed C \<longleftrightarrow> (\<forall>d. \<not> signal C d)"

lemmas card_law_defs = write_laws_def start_laws_def read_laws_def area_laws_def dma_laws_def irq_laws_def

lemma quiet_progress [simp]: "quiet (view S d) \<Longrightarrow> progress S d d' \<longleftrightarrow> view S d' = view S d"
  by (auto simp: progress_def quiet_def)

text \<open>The laws one by one, as conditional rewrite rules.\<close>

lemma card_write:
  assumes "card_ok C S" "quiet (view S d)"
  shows "view S (wr32 C v KEY_OFF d) = (view S d)\<lparr>r_key := v\<rparr>"
    "view S (wr32 C v MMDATA_LEN_OFF d) = (view S d)\<lparr>r_len := v\<rparr>"
    "view S (wr32 C v MMSTATUS_OFF d) = (view S d)\<lparr>r_status := v AND NOT 1\<rparr>"
    "view S (wr32 C v DMA_ADDR_OFF d) = (view S d)\<lparr>r_dma_addr := v\<rparr>"
    "view S (wr32 C v DMA_DATA_LEN_OFF d) = (view S d)\<lparr>r_dma_len := v\<rparr>"
    "v = r_isr (view S d) \<Longrightarrow>
       view S (wr32 C v INT_ACK_OFF d) = (view S d)\<lparr>r_irq := False, r_isr := 0\<rparr>"
  using assms unfolding card_ok_def write_laws_def by blast+

lemma card_start:
  assumes "card_ok C S" "quiet (view S d)"
  shows "unat (r_len (view S d)) \<le> card_buffer \<Longrightarrow>
       view S (wr32 C 0xa8 MMADDR_OFF d) = (view S d)\<lparr>r_busy := True\<rparr>"
    "bit v 0 \<Longrightarrow> unat (r_dma_len (view S d)) \<le> card_buffer \<Longrightarrow>
       view S (wr32 C v DMA_CMD_OFF d) = (view S d)\<lparr>r_dma_cmd := v, r_dma_busy := True\<rparr>"
  using assms unfolding card_ok_def start_laws_def by blast+

lemma card_read:
  assumes "card_ok C S"
  shows "progress S d (snd (rd32 C off d))"
    "bit (fst (rd32 C MMSTATUS_OFF d)) 0 \<longleftrightarrow> r_busy (view S (snd (rd32 C MMSTATUS_OFF d)))"
    "bit (fst (rd32 C DMA_CMD_OFF d)) 0 \<longleftrightarrow> r_dma_busy (view S (snd (rd32 C DMA_CMD_OFF d)))"
    "fst (rd32 C INT_STATUS_OFF d) = r_isr (view S (snd (rd32 C INT_STATUS_OFF d)))"
  using assms unfolding card_ok_def read_laws_def by blast+

lemma card_read_quiet:
  "card_ok C S \<Longrightarrow> quiet (view S d) \<Longrightarrow> view S (snd (rd32 C off d)) = view S d"
  using card_read(1) [of C S d off] by simp

lemma card_area:
  assumes "card_ok C S" "quiet (view S d)"
  shows "length bs \<le> 0x100000 - 0xa8 \<Longrightarrow> view S (to_io C DATA_OFF bs d) =
       (view S d)\<lparr>r_data := (\<lambda>i. if i < length bs then bs ! i else r_data (view S d) i)\<rparr>"
    "n \<le> 0x100000 - 0xa8 \<Longrightarrow> fst (from_io C DATA_OFF n d) = map (r_data (view S d)) [0..<n]"
    "n \<le> 0x100000 - 0xa8 \<Longrightarrow> view S (snd (from_io C DATA_OFF n d)) = view S d"
  using assms unfolding card_ok_def area_laws_def by blast+

lemma card_dma:
  assumes "card_ok C S" "quiet (view S d)"
  shows "dma_alloc C n d = ((True, h'), d') \<Longrightarrow> unat h' < 2 ^ 32"
    "view S (snd (dma_alloc C n d)) = view S d"
    "view S (dma_put C h bs d) = (view S d)\<lparr>r_host := mem_write h bs (r_host (view S d))\<rparr>"
    "fst (dma_get C h (unat n) d) = mem_read h (unat n) (r_host (view S d))"
    "view S (snd (dma_get C h (unat n) d)) = view S d"
    "view S (dma_free C h n d) = view S d"
  using assms unfolding card_ok_def dma_laws_def by (metis fst_conv snd_conv, blast+)

lemma card_irq:
  assumes "card_ok C S"
  shows "progress S d (pass C d)" "irq C d \<longleftrightarrow> r_irq (view S d)"
  using assms unfolding card_ok_def irq_laws_def by blast+

lemma progress_mmio:
  "progress S d d' \<Longrightarrow> r_busy (view S d) \<Longrightarrow>
   view S d' = view S d \<and> work S d' < work S d \<or> view S d' = finish_mmio S (view S d)"
  by (simp add: progress_def)

lemma progress_dma:
  "progress S d d' \<Longrightarrow> \<not> r_busy (view S d) \<Longrightarrow> r_dma_busy (view S d) \<Longrightarrow>
   view S d' = view S d \<and> work S d' < work S d \<or> view S d' = finish_dma S (view S d)"
  by (simp add: progress_def)

section \<open>A concrete card\<close>

text \<open>
  A card over its registers and a countdown: every operation takes three accesses.  It keeps the
  promises above for whatever cipher it is built with.
\<close>

definition sim_spec :: "(u8 \<Rightarrow> u8 \<Rightarrow> u8 \<Rightarrow> u8) \<Rightarrow> (u8 \<Rightarrow> u8 \<Rightarrow> u8 \<Rightarrow> u8) \<Rightarrow> (regs \<times> nat) spec" where
  "sim_spec e d = \<lparr>view = fst, work = snd, enc = e, dec = d\<rparr>"

definition sim_tick ::
  "(u8 \<Rightarrow> u8 \<Rightarrow> u8 \<Rightarrow> u8) \<Rightarrow> (u8 \<Rightarrow> u8 \<Rightarrow> u8 \<Rightarrow> u8) \<Rightarrow> regs \<times> nat \<Rightarrow> regs \<times> nat" where
  "sim_tick e d = (\<lambda>(r, w).
     if r_busy r then (if w = 0 then (finish_mmio (sim_spec e d) r, 0) else (r, w - 1))
     else if r_dma_busy r then (if w = 0 then (finish_dma (sim_spec e d) r, 0) else (r, w - 1))
     else (r, w))"

definition sim_read :: "u64 \<Rightarrow> regs \<Rightarrow> u32" where
  "sim_read off r =
     (if off = MMSTATUS_OFF then (r_status r AND NOT 1) OR (if r_busy r then 1 else 0)
      else if off = DMA_CMD_OFF then (r_dma_cmd r AND NOT 1) OR (if r_dma_busy r then 1 else 0)
      else if off = INT_STATUS_OFF then r_isr r
      else if off = MMDATA_LEN_OFF then r_len r
      else 0x010C5730)"

definition sim_write :: "u32 \<Rightarrow> u64 \<Rightarrow> regs \<times> nat \<Rightarrow> regs \<times> nat" where
  "sim_write v off = (\<lambda>(r, w).
     if off = KEY_OFF then (r\<lparr>r_key := v\<rparr>, w)
     else if off = MMDATA_LEN_OFF then (r\<lparr>r_len := v\<rparr>, w)
     else if off = MMSTATUS_OFF then (r\<lparr>r_status := v AND NOT 1\<rparr>, w)
     else if off = DMA_ADDR_OFF then (r\<lparr>r_dma_addr := v\<rparr>, w)
     else if off = DMA_DATA_LEN_OFF then (r\<lparr>r_dma_len := v\<rparr>, w)
     else if off = INT_ACK_OFF \<and> v = r_isr r then (r\<lparr>r_irq := False, r_isr := 0\<rparr>, w)
     else if off = MMADDR_OFF then (r\<lparr>r_busy := True\<rparr>, 3)
     else if off = DMA_CMD_OFF \<and> bit v 0 then (r\<lparr>r_dma_cmd := v, r_dma_busy := True\<rparr>, 3)
     else (r, w))"

definition sim_card ::
  "(u8 \<Rightarrow> u8 \<Rightarrow> u8 \<Rightarrow> u8) \<Rightarrow> (u8 \<Rightarrow> u8 \<Rightarrow> u8 \<Rightarrow> u8) \<Rightarrow> (regs \<times> nat) card" where
  "sim_card e d =
     \<lparr>rd32 = (\<lambda>off s. let s = sim_tick e d s in (sim_read off (fst s), s)),
      wr32 = sim_write,
      to_io = (\<lambda>off bs (r, w).
        (r\<lparr>r_data := (\<lambda>i. if i < length bs then bs ! i else r_data r i)\<rparr>, w)),
      from_io = (\<lambda>off n (r, w). (map (r_data r) [0..<n], (r, w))),
      dma_alloc = (\<lambda>n s. ((True, 0x1000), s)),
      dma_put = (\<lambda>h bs (r, w). (r\<lparr>r_host := mem_write h bs (r_host r)\<rparr>, w)),
      dma_get = (\<lambda>h n (r, w). (mem_read h n (r_host r), (r, w))),
      dma_free = (\<lambda>h n s. s),
      pass = sim_tick e d,
      irq = (\<lambda>(r, w). r_irq r),
      signal = (\<lambda>s. False)\<rparr>"

lemma sim_tick_progress: "progress (sim_spec e d) s (sim_tick e d s)"
  by (cases s) (simp add: progress_def sim_tick_def sim_spec_def)

lemma and_not_1_bit [simp]: "\<not> bit (v AND NOT 1 :: 'a::len word) 0"
  by (simp add: bit_simps)

lemma sim_write_laws: "write_laws (sim_card e d) (sim_spec e d)"
  by (auto simp: write_laws_def sim_card_def sim_spec_def sim_write_def off_defs)

lemma sim_start_laws: "start_laws (sim_card e d) (sim_spec e d)"
  by (auto simp: start_laws_def sim_card_def sim_spec_def sim_write_def off_defs)

lemma sim_read_laws: "read_laws (sim_card e d) (sim_spec e d)"
  using sim_tick_progress [of e d]
  by (auto simp: read_laws_def sim_card_def sim_read_def sim_spec_def off_defs Let_def bit_simps)

lemma sim_area_laws: "area_laws (sim_card e d) (sim_spec e d)"
  by (auto simp: area_laws_def sim_card_def sim_spec_def cong: if_cong)

lemma sim_dma_laws: "dma_laws (sim_card e d) (sim_spec e d)"
  by (auto simp: dma_laws_def sim_card_def sim_spec_def)

lemma sim_irq_laws: "irq_laws (sim_card e d) (sim_spec e d)"
  using sim_tick_progress [of e d] by (auto simp: irq_laws_def sim_card_def sim_spec_def)

lemma sim_card_ok: "card_ok (sim_card e d) (sim_spec e d)"
  by (simp add: card_ok_def sim_write_laws sim_start_laws sim_read_laws sim_area_laws sim_dma_laws
      sim_irq_laws)

lemma sim_card_kind: "grants (sim_card e d)" "undisturbed (sim_card e d)"
  by (simp_all add: grants_def undisturbed_def sim_card_def)

text \<open>The card after power-on.\<close>

definition sim_reset :: "regs \<times> nat" where
  "sim_reset =
     (\<lparr>r_key = 0, r_len = 0, r_status = 0, r_busy = False, r_data = (\<lambda>_. 0), r_dma_addr = 0,
       r_dma_len = 0, r_dma_cmd = 0, r_dma_busy = False, r_host = (\<lambda>_. 0), r_isr = 0,
       r_irq = False\<rparr>, 0)"

end
