(* ===== verification/Cryptocard.thy ===== *)
theory Cryptocard
  imports Card
begin

text \<open>
  The PCI driver of the CryptoCard, \<^verbatim>\<open>Assignment_3/drivers/cryptocard.c\<close>: the twelve routines that
  drive one operation of the card (MMIO, DMA or user-mapped memory, polling or interrupt, either
  direction), the interrupt handler, the file operations with the \<^verbatim>\<open>ioctl\<close> dispatch under the
  driver's spinlock, and the set-up and removal of the device.
\<close>

section \<open>Data\<close>

record cc_key =
  key_field_a :: u8
  key_field_b :: u8

record cc_config =
  mode_int_dma :: u8
  cfg_set :: u8

record cc_op =
  op_addr :: u64
  op_length :: u64
  isMapped :: u8

record cryptocard_config =
  conf_a :: u8
  conf_b :: u8
  conf_dma :: u8
  conf_interrupt :: u8
  isKeyset :: u8
  isConfigset :: u8

text \<open>The argument pointer of an \<^verbatim>\<open>ioctl\<close>, as what the handler finds when it reads it as each of
  the three structures.\<close>

record ioctl_arg =
  as_key :: cc_key
  as_config :: cc_config
  as_op :: cc_op

text \<open>The driver's globals; the class and device pointers are the fields of \<open>chrdev\<close>, and \<open>dev\<close> is
  the card behind \<^verbatim>\<open>cc_info.ccbar0\<close>.\<close>

record 'd cryptocard =
  chrdev +
  cc_spinlock :: bool
  wq_flag :: u32
  pdev_present :: bool        \<comment> \<open>\<^verbatim>\<open>cc_info.pdev\<close> is set\<close>
  mmio_start :: u64
  ccbar0 :: ptr
  cc_mmregion :: ptr          \<comment> \<open>the driver data of the PCI device\<close>
  dev :: 'd

definition SET_KEY :: u32 where "SET_KEY = IOW 243 1 2"
definition SET_CONFIG :: u32 where "SET_CONFIG = IOW 243 2 2"
definition ENCRYPT :: u32 where "ENCRYPT = IOW 243 3 8"
definition DECRYPT :: u32 where "DECRYPT = IOW 243 4 8"

lemmas cmd_defs = SET_KEY_def SET_CONFIG_def ENCRYPT_def DECRYPT_def ioc_defs

section \<open>Access to the card\<close>

definition iowrite32 :: "'d card \<Rightarrow> u32 \<Rightarrow> u64 \<Rightarrow> 'd cryptocard \<Rightarrow> 'd cryptocard" where
  "iowrite32 C v off s = s\<lparr>dev := wr32 C v off (dev s)\<rparr>"

definition ioread32 :: "'d card \<Rightarrow> u64 \<Rightarrow> 'd cryptocard \<Rightarrow> u32 \<times> 'd cryptocard" where
  "ioread32 C off s = (let (v, d) = rd32 C off (dev s) in (v, s\<lparr>dev := d\<rparr>))"

definition memcpy_toio :: "'d card \<Rightarrow> u64 \<Rightarrow> u8 list \<Rightarrow> 'd cryptocard \<Rightarrow> 'd cryptocard" where
  "memcpy_toio C off bs s = s\<lparr>dev := to_io C off bs (dev s)\<rparr>"

definition memcpy_fromio :: "'d card \<Rightarrow> u64 \<Rightarrow> nat \<Rightarrow> 'd cryptocard \<Rightarrow> u8 list \<times> 'd cryptocard" where
  "memcpy_fromio C off n s = (let (bs, d) = from_io C off n (dev s) in (bs, s\<lparr>dev := d\<rparr>))"

definition dma_alloc_coherent ::
  "'d card \<Rightarrow> u32 \<Rightarrow> 'd cryptocard \<Rightarrow> (bool \<times> u64) \<times> 'd cryptocard" where
  "dma_alloc_coherent C n s = (let (h, d) = dma_alloc C n (dev s) in (h, s\<lparr>dev := d\<rparr>))"

definition memcpy_todma :: "'d card \<Rightarrow> u64 \<Rightarrow> u8 list \<Rightarrow> 'd cryptocard \<Rightarrow> 'd cryptocard" where
  "memcpy_todma C h bs s = s\<lparr>dev := dma_put C h bs (dev s)\<rparr>"

definition memcpy_fromdma :: "'d card \<Rightarrow> u64 \<Rightarrow> nat \<Rightarrow> 'd cryptocard \<Rightarrow> u8 list \<times> 'd cryptocard" where
  "memcpy_fromdma C h n s = (let (bs, d) = dma_get C h n (dev s) in (bs, s\<lparr>dev := d\<rparr>))"

definition dma_free_coherent :: "'d card \<Rightarrow> u64 \<Rightarrow> u32 \<Rightarrow> 'd cryptocard \<Rightarrow> 'd cryptocard" where
  "dma_free_coherent C h n s = s\<lparr>dev := dma_free C h n (dev s)\<rparr>"

lemmas access_defs = iowrite32_def ioread32_def memcpy_toio_def memcpy_fromio_def
  dma_alloc_coherent_def memcpy_todma_def memcpy_fromdma_def dma_free_coherent_def

text \<open>\<^verbatim>\<open>while (ioread32(ccbar0 + off) & 1);\<close>\<close>

definition poll :: "'d card \<Rightarrow> u64 \<Rightarrow> 'd cryptocard \<Rightarrow> 'd cryptocard outcome" where
  "poll C off s =
     (case while_option (\<lambda>(v, s). v AND 1 \<noteq> 0) (\<lambda>(v, s). ioread32 C off s) (ioread32 C off s) of
        None \<Rightarrow> Hang
      | Some (v, s) \<Rightarrow> Done s)"

definition cryptocard_irq_handle :: "'d card \<Rightarrow> 'd cryptocard \<Rightarrow> 'd cryptocard" where
  "cryptocard_irq_handle C s =
     (let (istatus, s) = ioread32 C INT_STATUS_OFF s;
          s = iowrite32 C istatus INT_ACK_OFF s
      in s\<lparr>wq_flag := 1\<rparr>)"

text \<open>
  \<^verbatim>\<open>wait_event_interruptible(cc_wq, wq_flag != 0)\<close>: the caller sleeps until the flag is set or a
  signal arrives; while it sleeps time passes, and the interrupt handler runs when the card raises
  its interrupt.
\<close>

definition wait_event_interruptible :: "'d card \<Rightarrow> 'd cryptocard \<Rightarrow> 'd cryptocard outcome" where
  "wait_event_interruptible C s =
     (case while_option (\<lambda>s. wq_flag s = 0 \<and> \<not> signal C (dev s))
        (\<lambda>s. let s = s\<lparr>dev := pass C (dev s)\<rparr>
              in if irq C (dev s) then cryptocard_irq_handle C s else s) s of
        None \<Rightarrow> Hang
      | Some s \<Rightarrow> Done s)"

section \<open>The operations of the card\<close>

definition decryption_mmap_polling :: "'d card \<Rightarrow> u64 \<Rightarrow> 'd cryptocard \<Rightarrow> 'd cryptocard outcome" where
  "decryption_mmap_polling C n s =
     (let len = ucast n :: u32;
          s = iowrite32 C 0x2 MMSTATUS_OFF s;
          s = iowrite32 C len MMDATA_LEN_OFF s;
          s = snd (ioread32 C MMDATA_LEN_OFF s)
      in obind (poll C MMSTATUS_OFF s) (\<lambda>s.
           poll C MMSTATUS_OFF (iowrite32 C 0xa8 MMADDR_OFF s)))"

definition encryption_mmap_polling :: "'d card \<Rightarrow> u64 \<Rightarrow> 'd cryptocard \<Rightarrow> 'd cryptocard outcome" where
  "encryption_mmap_polling C n s =
     (let len = ucast n :: u32;
          s = iowrite32 C 0x0 MMSTATUS_OFF s;
          s = iowrite32 C len MMDATA_LEN_OFF s;
          s = snd (ioread32 C MMDATA_LEN_OFF s)
      in obind (poll C MMSTATUS_OFF s) (\<lambda>s.
           poll C MMSTATUS_OFF (iowrite32 C 0xa8 MMADDR_OFF s)))"

definition encryption_mmap_interrupt :: "'d card \<Rightarrow> u64 \<Rightarrow> 'd cryptocard \<Rightarrow> 'd cryptocard outcome" where
  "encryption_mmap_interrupt C n s =
     (let len = ucast n :: u32;
          s = iowrite32 C 0x80 MMSTATUS_OFF s;
          s = iowrite32 C len MMDATA_LEN_OFF s;
          s = snd (ioread32 C MMDATA_LEN_OFF s)
      in obind (poll C MMSTATUS_OFF s) (\<lambda>s.
         obind (wait_event_interruptible C (iowrite32 C 0xa8 MMADDR_OFF s)) (\<lambda>s.
           Done (s\<lparr>wq_flag := 0\<rparr>))))"

definition decryption_mmap_interrupt :: "'d card \<Rightarrow> u64 \<Rightarrow> 'd cryptocard \<Rightarrow> 'd cryptocard outcome" where
  "decryption_mmap_interrupt C n s =
     (let len = ucast n :: u32;
          s = iowrite32 C 0x82 MMSTATUS_OFF s;
          s = iowrite32 C len MMDATA_LEN_OFF s;
          s = snd (ioread32 C MMDATA_LEN_OFF s)
      in obind (poll C MMSTATUS_OFF s) (\<lambda>s.
         obind (wait_event_interruptible C (iowrite32 C 0xa8 MMADDR_OFF s)) (\<lambda>s.
           Done (s\<lparr>wq_flag := 0\<rparr>))))"

definition encryption_mmio_interrupt ::
  "'d card \<Rightarrow> u8 list \<Rightarrow> u64 \<Rightarrow> 'd cryptocard \<Rightarrow> (u8 list \<times> 'd cryptocard) outcome" where
  "encryption_mmio_interrupt C data n s =
     (let len = ucast n :: u32;
          s = iowrite32 C 0x80 MMSTATUS_OFF s;
          s = memcpy_toio C DATA_OFF (take (unat len) data) s;
          s = iowrite32 C len MMDATA_LEN_OFF s;
          s = snd (ioread32 C MMDATA_LEN_OFF s)
      in obind (poll C MMSTATUS_OFF s) (\<lambda>s.
         obind (wait_event_interruptible C (iowrite32 C 0xa8 MMADDR_OFF s)) (\<lambda>s.
           let s = s\<lparr>wq_flag := 0\<rparr>;
               (bs, s) = memcpy_fromio C DATA_OFF (unat len) s
           in Done (bs @ drop (unat len) data, s))))"

definition decryption_mmio_interrupt ::
  "'d card \<Rightarrow> u8 list \<Rightarrow> u64 \<Rightarrow> 'd cryptocard \<Rightarrow> (u8 list \<times> 'd cryptocard) outcome" where
  "decryption_mmio_interrupt C data n s =
     (let len = ucast n :: u32;
          s = iowrite32 C 0x82 MMSTATUS_OFF s;
          s = memcpy_toio C DATA_OFF (take (unat len) data) s;
          s = iowrite32 C len MMDATA_LEN_OFF s;
          s = snd (ioread32 C MMDATA_LEN_OFF s)
      in obind (poll C MMSTATUS_OFF s) (\<lambda>s.
         obind (wait_event_interruptible C (iowrite32 C 0xa8 MMADDR_OFF s)) (\<lambda>s.
           let s = s\<lparr>wq_flag := 0\<rparr>;
               (bs, s) = memcpy_fromio C DATA_OFF (unat len) s
           in Done (bs @ drop (unat len) data, s))))"

definition encryption_dma_interrupt ::
  "'d card \<Rightarrow> u8 list \<Rightarrow> u64 \<Rightarrow> 'd cryptocard \<Rightarrow> (u8 list \<times> 'd cryptocard) outcome" where
  "encryption_dma_interrupt C data n s =
     (let len = ucast n :: u32;
          ((buff, dma_handle), s) = dma_alloc_coherent C len s
      in if \<not> buff \<and> len \<noteq> 0 then Oops
         else
             (let s = memcpy_todma C dma_handle (take (unat len) data) s;
                  s = iowrite32 C len DMA_DATA_LEN_OFF s;
                  s = iowrite32 C (ucast dma_handle) DMA_ADDR_OFF s
              in obind (poll C DMA_CMD_OFF s) (\<lambda>s.
              obind (wait_event_interruptible C (iowrite32 C (0x1 OR 0x4) DMA_CMD_OFF s)) (\<lambda>s.
                let s = s\<lparr>wq_flag := 0\<rparr>;
                    (bs, s) = memcpy_fromdma C dma_handle (unat len) s;
                    s = (if buff then dma_free_coherent C dma_handle len s else s)
                in Done (bs @ drop (unat len) data, s)))))"

definition decryption_dma_interrupt ::
  "'d card \<Rightarrow> u8 list \<Rightarrow> u64 \<Rightarrow> 'd cryptocard \<Rightarrow> (u8 list \<times> 'd cryptocard) outcome" where
  "decryption_dma_interrupt C data n s =
     (let len = ucast n :: u32;
          ((buff, dma_handle), s) = dma_alloc_coherent C len s
      in if \<not> buff \<and> len \<noteq> 0 then Oops
         else
             (let s = memcpy_todma C dma_handle (take (unat len) data) s;
                  s = iowrite32 C len DMA_DATA_LEN_OFF s;
                  s = iowrite32 C (ucast dma_handle) DMA_ADDR_OFF s
              in obind (poll C DMA_CMD_OFF s) (\<lambda>s.
              obind (wait_event_interruptible C (iowrite32 C (0x1 OR 0x2 OR 0x4) DMA_CMD_OFF s)) (\<lambda>s.
                let s = s\<lparr>wq_flag := 0\<rparr>;
                    (bs, s) = memcpy_fromdma C dma_handle (unat len) s;
                    s = (if buff then dma_free_coherent C dma_handle len s else s)
                in Done (bs @ drop (unat len) data, s)))))"

definition encryption_mmio_poll ::
  "'d card \<Rightarrow> u8 list \<Rightarrow> u64 \<Rightarrow> 'd cryptocard \<Rightarrow> (u8 list \<times> 'd cryptocard) outcome" where
  "encryption_mmio_poll C data n s =
     (let len = ucast n :: u32;
          s = iowrite32 C 0x0 MMSTATUS_OFF s;
          s = memcpy_toio C DATA_OFF (take (unat len) data) s;
          s = iowrite32 C len MMDATA_LEN_OFF s;
          s = snd (ioread32 C MMDATA_LEN_OFF s)
      in obind (poll C MMSTATUS_OFF s) (\<lambda>s.
         obind (poll C MMSTATUS_OFF (iowrite32 C 0xa8 MMADDR_OFF s)) (\<lambda>s.
           let (bs, s) = memcpy_fromio C DATA_OFF (unat len) s
           in Done (bs @ drop (unat len) data, s))))"

definition decryption_mmio_poll ::
  "'d card \<Rightarrow> u8 list \<Rightarrow> u64 \<Rightarrow> 'd cryptocard \<Rightarrow> (u8 list \<times> 'd cryptocard) outcome" where
  "decryption_mmio_poll C data n s =
     (let len = ucast n :: u32;
          s = iowrite32 C len MMDATA_LEN_OFF s;
          s = iowrite32 C 0x2 MMSTATUS_OFF s;
          s = memcpy_toio C DATA_OFF (take (unat len) data) s;
          s = snd (ioread32 C MMDATA_LEN_OFF s)
      in obind (poll C MMSTATUS_OFF s) (\<lambda>s.
         obind (poll C MMSTATUS_OFF (iowrite32 C 0xa8 MMADDR_OFF s)) (\<lambda>s.
           let (bs, s) = memcpy_fromio C DATA_OFF (unat len) s
           in Done (bs @ drop (unat len) data, s))))"

definition encryption_dma_poll ::
  "'d card \<Rightarrow> u8 list \<Rightarrow> u64 \<Rightarrow> 'd cryptocard \<Rightarrow> (u8 list \<times> 'd cryptocard) outcome" where
  "encryption_dma_poll C data n s =
     (let len = ucast n :: u32;
          ((buff, dma_handle), s) = dma_alloc_coherent C len s
      in if \<not> buff \<and> len \<noteq> 0 then Oops
         else
             (let s = memcpy_todma C dma_handle (take (unat len) data) s;
                  s = iowrite32 C len DMA_DATA_LEN_OFF s;
                  s = iowrite32 C (ucast dma_handle) DMA_ADDR_OFF s
              in obind (poll C DMA_CMD_OFF s) (\<lambda>s.
              obind (poll C DMA_CMD_OFF (iowrite32 C (0x1) DMA_CMD_OFF s)) (\<lambda>s.
                let (bs, s) = memcpy_fromdma C dma_handle (unat len) s;
                    s = (if buff then dma_free_coherent C dma_handle len s else s)
                in Done (bs @ drop (unat len) data, s)))))"

definition decryption_dma_poll ::
  "'d card \<Rightarrow> u8 list \<Rightarrow> u64 \<Rightarrow> 'd cryptocard \<Rightarrow> (u8 list \<times> 'd cryptocard) outcome" where
  "decryption_dma_poll C data n s =
     (let len = ucast n :: u32;
          ((buff, dma_handle), s) = dma_alloc_coherent C len s
      in if \<not> buff \<and> len \<noteq> 0 then Oops
         else
             (let s = memcpy_todma C dma_handle (take (unat len) data) s;
                  s = iowrite32 C len DMA_DATA_LEN_OFF s;
                  s = iowrite32 C (ucast dma_handle) DMA_ADDR_OFF s
              in obind (poll C DMA_CMD_OFF s) (\<lambda>s.
              obind (poll C DMA_CMD_OFF (iowrite32 C (0x1 OR 0x2) DMA_CMD_OFF s)) (\<lambda>s.
                let (bs, s) = memcpy_fromdma C dma_handle (unat len) s;
                    s = (if buff then dma_free_coherent C dma_handle len s else s)
                in Done (bs @ drop (unat len) data, s)))))"


section \<open>File operations\<close>

text \<open>\<^verbatim>\<open>kmalloc\<close> leaves the two key bytes as it finds them (\<open>ja\<close>, \<open>jb\<close>).\<close>

definition cryptocard_fopen ::
  "kapi \<Rightarrow> u8 \<Rightarrow> u8 \<Rightarrow> 'd cryptocard \<Rightarrow> u32 \<times> (ptr \<times> cryptocard_config) option \<times> 'd cryptocard" where
  "cryptocard_fopen k ja jb s =
     (let s = s\<lparr>device_opened := device_opened s + 1\<rparr>;
          s = kcalled Try_module_get s;
          (p, s) = kalloc k 6 s
      in if p = 0 then (- 1, None, s)
         else (0, Some (p, \<lparr>conf_a = ja, conf_b = jb, conf_dma = 0, conf_interrupt = 0,
                            isKeyset = 0, isConfigset = 0\<rparr>), s))"

definition cryptocard_frelease :: "ptr \<Rightarrow> 'd cryptocard \<Rightarrow> u32 \<times> 'd cryptocard" where
  "cryptocard_frelease private_data s =
     (let s = s\<lparr>device_opened := device_opened s - 1\<rparr>;
          s = kcalled Module_put s
      in (0, kcalled (Kfree private_data) s))"

definition cryptocard_fread :: "u64 \<Rightarrow> u64 \<Rightarrow> ssize_t" where
  "cryptocard_fread buffer n = 0"

text \<open>A write prints the user's buffer as a string: \<^verbatim>\<open>printk\<close> refuses only pointers into the first page and error
  pointers, and follows every other one; \<open>readable\<close> is whether the kernel can read a string there.\<close>

definition cryptocard_fwrite :: "(u64 \<Rightarrow> bool) \<Rightarrow> u64 \<Rightarrow> u64 \<Rightarrow> ssize_t outcome" where
  "cryptocard_fwrite readable buff n =
     (if buff < 4096 \<or> IS_ERR buff \<or> readable buff then Done 0 else Oops)"

text \<open>
  The part of a VMA that \<^verbatim>\<open>mmap\<close> uses, and the mapping it installs: start, first page frame, size.  Once the pages are
  there, the handler reads the first word of the area through its user address: \<open>user_readable\<close> is whether the processor lets the
  kernel do so.  Below \<open>bar_len\<close> the page is one of BAR 0, so the read is one of the card.
\<close>

record mmap_vma =
  mm_start :: u64
  mm_end :: u64
  mm_pgoff :: u64
  mm_noncached :: bool

definition cryptocard_fmmap ::
  "'d card \<Rightarrow> (u64 \<Rightarrow> bool) \<Rightarrow> u64 \<Rightarrow> (u64 \<Rightarrow> u64 \<Rightarrow> u64 \<Rightarrow> u32) \<Rightarrow> mmap_vma \<Rightarrow> 'd cryptocard \<Rightarrow>
     (u32 \<times> mmap_vma \<times> (u64 \<times> u64 \<times> u64) option \<times> 'd cryptocard) outcome" where
  "cryptocard_fmmap C user_readable bar_len io_remap vma s =
     (let offset = push_bit 12 (mm_pgoff vma);
          offset = mmio_start s + offset;
          vma = vma\<lparr>mm_noncached := True\<rparr>;
          pfn = drop_bit 12 offset;
          sz = mm_end vma - mm_start vma;
          err = io_remap (mm_start vma) pfn sz
      in if err \<noteq> 0 then Done (- EAGAIN, vma, None, s)
         else if \<not> user_readable (mm_start vma) then Oops
         else
           (let s = (if offset - mmio_start s < bar_len then snd (ioread32 C (offset - mmio_start s) s) else s)
            in Done (0, vma, Some (mm_start vma, pfn, sz), s)))"

text \<open>\<^verbatim>\<open>case ENCRYPT\<close> and \<^verbatim>\<open>case DECRYPT\<close> of the dispatch: the choice of the routine, and the whole
  case.  The early returns after a failed \<^verbatim>\<open>copy_to_user\<close>, and the branch for mapped memory, leave
  the spinlock held; the result of \<^verbatim>\<open>copy_from_user\<close> is not looked at, and the buffer is not freed.\<close>

definition encrypt_op ::
  "cryptocard_config \<Rightarrow> 'd card \<Rightarrow> u8 list \<Rightarrow> u64 \<Rightarrow> 'd cryptocard \<Rightarrow>
     (u8 list \<times> 'd cryptocard) outcome" where
  "encrypt_op rconfig =
     (if conf_dma rconfig = 0 then
        (if conf_interrupt rconfig = 0 then encryption_mmio_poll else encryption_mmio_interrupt)
      else
        (if conf_interrupt rconfig = 0 then encryption_dma_poll else encryption_dma_interrupt))"

definition encrypt_mapped ::
  "cryptocard_config \<Rightarrow> 'd card \<Rightarrow> u64 \<Rightarrow> 'd cryptocard \<Rightarrow> 'd cryptocard outcome" where
  "encrypt_mapped rconfig =
     (if conf_interrupt rconfig = 0 then encryption_mmap_polling else encryption_mmap_interrupt)"

definition ioctl_encrypt ::
  "'d card \<Rightarrow> kapi \<Rightarrow> uaccess \<Rightarrow> cc_op \<Rightarrow> cryptocard_config \<Rightarrow> mem \<Rightarrow> 'd cryptocard \<Rightarrow>
     (u64 \<times> mem \<times> 'd cryptocard) outcome" where
  "ioctl_encrypt C k U ccop rconfig m s =
     (if cc_spinlock s then Hang
      else
        (let s = s\<lparr>cc_spinlock := True\<rparr>;
             s = iowrite32 C (push_bit 8 (ucast (conf_a rconfig)) OR ucast (conf_b rconfig)) KEY_OFF s
         in if isMapped ccop = 0 then
              (let (p, s) = kalloc k (unat (op_length ccop + 1)) s
               in if p = 0 \<and> op_length ccop \<noteq> 0 then Oops
                  else
                    (let (err, buff) = u_from U (op_addr ccop) (op_length ccop) m
                     in obind (encrypt_op rconfig C buff (op_length ccop) s) (\<lambda>(buff, s).
                          let (left, m) = u_to U (op_addr ccop) buff m
                          in if left \<noteq> 0 then Done (EFAULT, m, s)
                             else Done (0, m, s\<lparr>cc_spinlock := False\<rparr>))))
            else
              obind (encrypt_mapped rconfig C (op_length ccop) s) (\<lambda>s. Done (0, m, s))))"

definition decrypt_op ::
  "cryptocard_config \<Rightarrow> 'd card \<Rightarrow> u8 list \<Rightarrow> u64 \<Rightarrow> 'd cryptocard \<Rightarrow>
     (u8 list \<times> 'd cryptocard) outcome" where
  "decrypt_op rconfig =
     (if conf_dma rconfig = 0 then
        (if conf_interrupt rconfig = 0 then decryption_mmio_poll else decryption_mmio_interrupt)
      else
        (if conf_interrupt rconfig = 0 then decryption_dma_poll else decryption_dma_interrupt))"

definition decrypt_mapped ::
  "cryptocard_config \<Rightarrow> 'd card \<Rightarrow> u64 \<Rightarrow> 'd cryptocard \<Rightarrow> 'd cryptocard outcome" where
  "decrypt_mapped rconfig =
     (if conf_interrupt rconfig = 0 then decryption_mmap_polling else decryption_mmap_interrupt)"

definition ioctl_decrypt ::
  "'d card \<Rightarrow> kapi \<Rightarrow> uaccess \<Rightarrow> cc_op \<Rightarrow> cryptocard_config \<Rightarrow> mem \<Rightarrow> 'd cryptocard \<Rightarrow>
     (u64 \<times> mem \<times> 'd cryptocard) outcome" where
  "ioctl_decrypt C k U ccop rconfig m s =
     (if cc_spinlock s then Hang
      else
        (let s = s\<lparr>cc_spinlock := True\<rparr>;
             s = iowrite32 C (push_bit 8 (ucast (conf_a rconfig)) OR ucast (conf_b rconfig)) KEY_OFF s
         in if isMapped ccop = 0 then
              (let (p, s) = kalloc k (unat (op_length ccop + 1)) s
               in if p = 0 \<and> op_length ccop \<noteq> 0 then Oops
                  else
                    (let (err, buff) = u_from U (op_addr ccop) (op_length ccop) m
                     in obind (decrypt_op rconfig C buff (op_length ccop) s) (\<lambda>(buff, s).
                          let (left, m) = u_to U (op_addr ccop) buff m
                          in if left \<noteq> 0 then Done (EFAULT, m, s)
                             else Done (0, m, s\<lparr>cc_spinlock := False\<rparr>))))
            else
              obind (decrypt_mapped rconfig C (op_length ccop) s) (\<lambda>s. Done (0, m, s))))"

definition cryptocard_ioctl ::
  "'d card \<Rightarrow> kapi \<Rightarrow> uaccess \<Rightarrow> u32 \<Rightarrow> ioctl_arg \<Rightarrow> cryptocard_config \<Rightarrow> mem \<Rightarrow> 'd cryptocard \<Rightarrow>
     (u64 \<times> cryptocard_config \<times> mem \<times> 'd cryptocard) outcome" where
  "cryptocard_ioctl C k U cmd arg rconfig m s =
     (if cmd = SET_KEY then
        (let rconfig = rconfig\<lparr>conf_a := key_field_a (as_key arg), conf_b := key_field_b (as_key arg),
               isKeyset := 1\<rparr>;
             s = snd (ioread32 C 0x0 s)
         in Done (0, rconfig, m, s))
      else if cmd = SET_CONFIG then
        (let rconfig = (if mode_int_dma (as_config arg) = 0
                        then rconfig\<lparr>conf_interrupt := cfg_set (as_config arg)\<rparr>
                        else rconfig\<lparr>conf_dma := cfg_set (as_config arg)\<rparr>);
             rconfig = (if isConfigset rconfig = 0 then rconfig\<lparr>isConfigset := 1\<rparr> else rconfig)
         in Done (0, rconfig, m, s))
      else if cmd = ENCRYPT then
        obind (ioctl_encrypt C k U (as_op arg) rconfig m s) (\<lambda>(r, m, s). Done (r, rconfig, m, s))
      else if cmd = DECRYPT then
        obind (ioctl_decrypt C k U (as_op arg) rconfig m s) (\<lambda>(r, m, s). Done (r, rconfig, m, s))
      else Done (- EINVAL, rconfig, m, s))"

section \<open>Set-up and removal\<close>

definition DRIVER_NAME :: string where "DRIVER_NAME = ''cryptocard''"

definition cryptocard_devnode :: "u32 \<Rightarrow> u16 option \<Rightarrow> 'd cryptocard \<Rightarrow> u16 option" where
  "cryptocard_devnode devt mode s =
     (case mode of None \<Rightarrow> None | Some v \<Rightarrow> if devt = MKDEV (major s) 0 then Some 0x1B6 else Some v)"

definition cryptocard_chardev_setup :: "kapi \<Rightarrow> 'd cryptocard \<Rightarrow> u32 \<times> 'd cryptocard" where
  "cryptocard_chardev_setup k s =
     (let (r, s) = register_chrdev k DRIVER_NAME s;
          s = s\<lparr>major := r\<rparr>
      in if r <s 0 then (r, s)
         else
           (let (c, s) = class_create k DRIVER_NAME s;
                s = s\<lparr>demo_class := c\<rparr>
            in if IS_ERR c then (PTR_ERR c, kcalled (Unregister_chrdev (major s) DRIVER_NAME) s)
               else
                 (let (d, s) = device_create k c (MKDEV (major s) 0) DRIVER_NAME s;
                      s = s\<lparr>demo_device := d\<rparr>
                  in if IS_ERR d then
                       (let s = kcalled (Class_destroy (demo_class s)) s
                        in (PTR_ERR d, kcalled (Unregister_chrdev (major s) DRIVER_NAME) s))
                     else (0, s\<lparr>device_opened := 0\<rparr>))))"

text \<open>The answers of the PCI core; \<open>p_present\<close> says whether a matching device is on the bus when
  the driver registers.\<close>

record pciapi =
  p_register :: u32
  p_present :: bool
  p_enable :: "kcall list \<Rightarrow> u32"
  p_select_bars :: u32
  p_request_region :: "kcall list \<Rightarrow> u32"
  p_resource_start :: u64
  p_resource_len :: u64
  p_ioremap :: "kcall list \<Rightarrow> ptr"
  p_alloc_irq_vectors :: "kcall list \<Rightarrow> u32"
  p_irq_vector :: u32
  p_request_irq :: "kcall list \<Rightarrow> u32"

definition pci_enable_device :: "pciapi \<Rightarrow> 'd cryptocard \<Rightarrow> u32 \<times> 'd cryptocard" where
  "pci_enable_device q s = (let r = p_enable q (klog s) in (r, kcalled (Pci_enable_device r) s))"

definition pci_request_region :: "pciapi \<Rightarrow> u32 \<Rightarrow> 'd cryptocard \<Rightarrow> u32 \<times> 'd cryptocard" where
  "pci_request_region q bar s =
     (let r = p_request_region q (klog s) in (r, kcalled (Pci_request_region bar r) s))"

definition ioremap :: "pciapi \<Rightarrow> u64 \<Rightarrow> u64 \<Rightarrow> 'd cryptocard \<Rightarrow> ptr \<times> 'd cryptocard" where
  "ioremap q start n s = (let r = p_ioremap q (klog s) in (r, kcalled (Ioremap start n r) s))"

definition pci_alloc_irq_vectors :: "pciapi \<Rightarrow> 'd cryptocard \<Rightarrow> u32 \<times> 'd cryptocard" where
  "pci_alloc_irq_vectors q s =
     (let r = p_alloc_irq_vectors q (klog s) in (r, kcalled (Pci_alloc_irq_vectors r) s))"

definition request_threaded_irq :: "pciapi \<Rightarrow> u8 \<Rightarrow> 'd cryptocard \<Rightarrow> u32 \<times> 'd cryptocard" where
  "request_threaded_irq q i s =
     (let r = p_request_irq q (klog s) in (r, kcalled (Request_irq (ucast i) r) s))"

lemmas pci_defs = pci_enable_device_def pci_request_region_def ioremap_def pci_alloc_irq_vectors_def
  request_threaded_irq_def

text \<open>The interrupt line is kept in a \<^verbatim>\<open>u8\<close>; no result of a call is looked at but two pointers that
  are dereferenced.\<close>

definition cryptocard_probe ::
  "'d card \<Rightarrow> kapi \<Rightarrow> pciapi \<Rightarrow> 'd cryptocard \<Rightarrow> (u32 \<times> 'd cryptocard) outcome" where
  "cryptocard_probe C k q s =
     (let live_v = 0xaaaaaaaa;
          (err, s) = pci_enable_device q s;
          bar = p_select_bars q;
          (err, s) = pci_enable_device q s;
          (err, s) = pci_request_region q bar s;
          start = p_resource_start q;
          len = p_resource_len q;
          (region, s) = kalloc k 24 s
      in if region = 0 then Oops
         else
           (let (bar0, s) = ioremap q start len s;
                s = kcalled Pci_set_master s;
                s = (kcalled (Pci_set_drvdata region) s)\<lparr>cc_mmregion := region\<rparr>;
                s = s\<lparr>ccbar0 := bar0, pdev_present := True, mmio_start := start\<rparr>
            in if bar0 = 0 then Oops
               else
                 (let s = iowrite32 C live_v LIVE_OFF s;
                      s = snd (ioread32 C 0x0 s);
                      s = snd (ioread32 C LIVE_OFF s);
                      s = snd (ioread32 C DATA_OFF s);
                      (r, s) = cryptocard_chardev_setup k s;
                      (r, s) = pci_alloc_irq_vectors q s;
                      i = ucast (p_irq_vector q) :: u8;
                      (r, s) = request_threaded_irq q i s
                  in Done (0, s))))"

definition cryptocard_remove :: "pciapi \<Rightarrow> 'd cryptocard \<Rightarrow> 'd cryptocard outcome" where
  "cryptocard_remove q s =
     (let s = kcalled (Device_destroy (demo_class s) (MKDEV (major s) 0)) s;
          s = kcalled (Class_destroy (demo_class s)) s;
          s = kcalled (Unregister_chrdev (major s) DRIVER_NAME) s
      in if cc_mmregion s = 0 then Oops
         else
           (let s = (if ccbar0 s \<noteq> 0 then kcalled (Iounmap (ccbar0 s)) s else s);
                s = kcalled (Kfree (cc_mmregion s)) s;
                i = ucast (p_irq_vector q) :: u8;
                s = kcalled (Free_irq (ucast i)) s;
                s = kcalled Pci_free_irq_vectors s;
                s = kcalled Pci_clear_master s;
                s = kcalled (Pci_release_region (p_select_bars q)) s
            in Done (kcalled Pci_disable_device s)))"

text \<open>Registering the driver probes the device when it is there, unregistering removes it; the PCI
  core reports the result of the registration only.\<close>

definition cryptocard_entry ::
  "'d card \<Rightarrow> kapi \<Rightarrow> pciapi \<Rightarrow> 'd cryptocard \<Rightarrow> (u32 \<times> 'd cryptocard) outcome" where
  "cryptocard_entry C k q s =
     (if p_register q = 0 \<and> p_present q then
        obind (cryptocard_probe C k q s) (\<lambda>(r, s). Done (0, s))
      else Done (p_register q, s))"

definition cryptocard_exit :: "pciapi \<Rightarrow> 'd cryptocard \<Rightarrow> 'd cryptocard outcome" where
  "cryptocard_exit q s = (if p_present q then cryptocard_remove q s else Done s)"

end
