(* ===== verification/Cryptocard_Ops.thy ===== *)
theory Cryptocard_Ops
  imports Cryptocard
begin

text \<open>
  Correctness of the routines that drive the card, \<^verbatim>\<open>encryption_*\<close> and \<^verbatim>\<open>decryption_*\<close> of
  \<^verbatim>\<open>Assignment_3/drivers/cryptocard.c\<close>: busy-waiting and sleeping end, the interrupt handler
  acknowledges what it finds, and on a card that keeps its promises (\<open>card_ok\<close>) each of the eight
  buffer routines replaces the first \<open>len\<close> bytes of its buffer by their encryption or decryption
  under the key in the card.  The contract they share is the locale \<open>card_op\<close>, interpreted on
  the choices \<open>encrypt_op\<close> and \<open>decrypt_op\<close> of the \<^verbatim>\<open>ioctl\<close> handler.
\<close>

section \<open>Waiting for the card\<close>

lemma and_1_bit: "(v AND 1 \<noteq> 0) \<longleftrightarrow> bit (v :: 'a::len word) 0"
  by (simp add: and_one_eq bit_0 odd_iff_mod_2_eq_one)

abbreviation vs :: "'d spec \<Rightarrow> 'd cryptocard \<Rightarrow> regs" where
  "vs S s \<equiv> view S (dev s)"

text \<open>Polling a busy indication \<open>B\<close>: while the registers are \<open>R\<close> each read brings the end nearer.\<close>

lemma poll_until:
  assumes step: "\<And>d. view S d = R \<Longrightarrow>
      view S (snd (rd32 C off d)) = R \<and> work S (snd (rd32 C off d)) < work S d \<or>
      view S (snd (rd32 C off d)) = F"
    and ind: "\<And>d. bit (fst (rd32 C off d)) 0 \<longleftrightarrow> B (view S (snd (rd32 C off d)))"
    and B: "B R" "\<not> B F" and start: "vs S s = R"
  shows "\<exists>d'. poll C off s = Done (s\<lparr>dev := d'\<rparr>) \<and> view S d' = F"
proof -
  define P where "P = (\<lambda>(v :: u32, t). \<exists>d. t = s\<lparr>dev := d\<rparr> \<and>
      (view S d = R \<and> v AND 1 \<noteq> 0 \<or> view S d = F \<and> v AND 1 = 0))"
  have read: "P (ioread32 C off (s\<lparr>dev := d\<rparr>)) \<and>
      (vs S (snd (ioread32 C off (s\<lparr>dev := d\<rparr>))) = R \<longrightarrow>
        work S (dev (snd (ioread32 C off (s\<lparr>dev := d\<rparr>)))) < work S d)" if R: "view S d = R" for d
  proof -
    obtain v d' where rd: "rd32 C off d = (v, d')" by fastforce
    from step [OF R] rd have
      next_d: "view S d' = R \<and> work S d' < work S d \<or> view S d' = F" by simp
    from ind [of d] rd have "(v AND 1 \<noteq> 0) = B (view S d')" by (simp add: and_1_bit)
    with next_d B have "P (v, s\<lparr>dev := d'\<rparr>)" and "view S d' = R \<longrightarrow> work S d' < work S d"
      unfolding P_def by auto
    moreover have "ioread32 C off (s\<lparr>dev := d\<rparr>) = (v, s\<lparr>dev := d'\<rparr>)" by (simp add: ioread32_def rd)
    ultimately show ?thesis by simp
  qed
  have "\<exists>t. while_option (\<lambda>(v, s). v AND 1 \<noteq> 0) (\<lambda>(v, s). ioread32 C off s) (ioread32 C off s) = Some t \<and>
      P t \<and> \<not> (\<lambda>(v, s). v AND 1 \<noteq> 0) t"
  proof (rule while_option_measure [where f = "\<lambda>(v, t). (if view S (dev t) = R then Suc (work S (dev t)) else 0)"])
    show "P (ioread32 C off s)" using read [OF start] by simp
  next
    fix t assume "P t" "(\<lambda>(v, s). v AND 1 \<noteq> (0::u32)) t"
    then obtain v d where t: "t = (v, s\<lparr>dev := d\<rparr>)" "view S d = R" by (auto simp: P_def)
    then have "view S (dev (s\<lparr>dev := d\<rparr>)) = R" by simp
    with read [OF t(2)] t show "P ((\<lambda>(v, s). ioread32 C off s) t) \<and>
        (\<lambda>(v, t). (if view S (dev t) = R then Suc (work S (dev t)) else 0)) ((\<lambda>(v, s). ioread32 C off s) t)
        < (\<lambda>(v, t). (if view S (dev t) = R then Suc (work S (dev t)) else 0)) t"
      by (simp add: case_prod_beta)
  qed
  then show ?thesis by (auto simp: poll_def P_def)
qed


lemma poll_quiet:
  assumes ok: "card_ok C S" and q: "quiet (vs S s)" and off: "off = MMSTATUS_OFF \<or> off = DMA_CMD_OFF"
  shows "\<exists>d'. poll C off s = Done (s\<lparr>dev := d'\<rparr>) \<and> view S d' = vs S s"
proof -
  obtain v d' where rd: "rd32 C off (dev s) = (v, d')" by fastforce
  have d': "view S d' = vs S s"
    using card_read_quiet [OF ok q, of off] rd by simp
  have "\<not> bit v 0"
    using card_read(2,3) [OF ok, of "dev s"] off rd q d' by (auto simp: quiet_def)
  then have "poll C off s = Done (s\<lparr>dev := d'\<rparr>)"
    using and_1_bit [of v] by (simp add: poll_def ioread32_def rd while_option_False)
  with d' show ?thesis by blast
qed

lemma poll_mmio:
  assumes ok: "card_ok C S" and busy: "r_busy (vs S s)"
  shows "\<exists>d'. poll C MMSTATUS_OFF s = Done (s\<lparr>dev := d'\<rparr>) \<and> view S d' = finish_mmio S (vs S s)"
proof (rule poll_until [where B = r_busy and R = "vs S s"])
  fix d assume d: "view S d = vs S s"
  with busy have "r_busy (view S d)" by simp
  from progress_mmio [OF card_read(1) [OF ok] this]
  show "view S (snd (rd32 C MMSTATUS_OFF d)) = vs S s \<and> work S (snd (rd32 C MMSTATUS_OFF d)) < work S d \<or>
      view S (snd (rd32 C MMSTATUS_OFF d)) = finish_mmio S (vs S s)"
    unfolding d .
qed (use busy card_read(2) [OF ok] in \<open>simp_all add: finish_mmio_def\<close>)

lemma poll_dma:
  assumes ok: "card_ok C S" and busy: "r_dma_busy (vs S s)" "\<not> r_busy (vs S s)"
  shows "\<exists>d'. poll C DMA_CMD_OFF s = Done (s\<lparr>dev := d'\<rparr>) \<and> view S d' = finish_dma S (vs S s)"
proof (rule poll_until [where B = r_dma_busy and R = "vs S s"])
  fix d assume d: "view S d = vs S s"
  with busy have "\<not> r_busy (view S d)" "r_dma_busy (view S d)" by simp_all
  from progress_dma [OF card_read(1) [OF ok] this]
  show "view S (snd (rd32 C DMA_CMD_OFF d)) = vs S s \<and> work S (snd (rd32 C DMA_CMD_OFF d)) < work S d \<or>
      view S (snd (rd32 C DMA_CMD_OFF d)) = finish_dma S (vs S s)"
    unfolding d .
qed (use busy card_read(3) [OF ok] in \<open>simp_all add: finish_dma_def\<close>)

text \<open>The interrupt handler acknowledges what it read: the line goes down and the sleeper's flag up.\<close>

lemma irq_handle:
  assumes ok: "card_ok C S" and q: "quiet (vs S s)"
  shows "\<exists>d'. cryptocard_irq_handle C s = s\<lparr>dev := d', wq_flag := 1\<rparr> \<and>
    view S d' = (vs S s)\<lparr>r_irq := False, r_isr := 0\<rparr>"
proof -
  obtain v d where rd: "rd32 C INT_STATUS_OFF (dev s) = (v, d)" by fastforce
  have d: "view S d = vs S s" using card_read_quiet [OF ok q, of INT_STATUS_OFF] rd by simp
  have v: "v = r_isr (view S d)" using card_read(4) [OF ok, of "dev s"] rd by simp
  have "quiet (view S d)" using q d by simp
  from card_write(6) [OF ok this v] have
    "view S (wr32 C v INT_ACK_OFF d) = (vs S s)\<lparr>r_irq := False, r_isr := 0\<rparr>" by (simp only: d)
  moreover have "cryptocard_irq_handle C s = s\<lparr>dev := wr32 C v INT_ACK_OFF d, wq_flag := 1\<rparr>"
    by (simp add: cryptocard_irq_handle_def ioread32_def iowrite32_def rd)
  ultimately show ?thesis by blast
qed

text \<open>Waiting for the interrupt of the running operation, whose completion gives the registers \<open>F\<close>.\<close>

lemma wait_until:
  assumes ok: "card_ok C S" and nosig: "undisturbed C"
    and step: "\<And>d. view S d = R \<Longrightarrow>
      view S (pass C d) = R \<and> work S (pass C d) < work S d \<or> view S (pass C d) = F"
    and R: "\<not> r_irq R" and F: "r_irq F" "quiet F" and start: "vs S s = R" "wq_flag s = 0"
  shows "\<exists>d'. wait_event_interruptible C s = Done (s\<lparr>dev := d', wq_flag := 1\<rparr>) \<and>
    view S d' = F\<lparr>r_irq := False, r_isr := 0\<rparr>"
proof -
  define P where "P = (\<lambda>t. \<exists>d. t = s\<lparr>dev := d\<rparr> \<and> view S d = R \<or>
      t = s\<lparr>dev := d, wq_flag := 1\<rparr> \<and> view S d = F\<lparr>r_irq := False, r_isr := 0\<rparr>)"
  let ?b = "\<lambda>s. wq_flag s = 0 \<and> \<not> signal C (dev s)"
  let ?c = "\<lambda>s. let s = s\<lparr>dev := pass C (dev s)\<rparr> in if irq C (dev s) then cryptocard_irq_handle C s else s"
  have line: "irq C d \<longleftrightarrow> r_irq (view S d)" for d
    by (rule card_irq(2) [OF ok])
  have sleep: "P (?c (s\<lparr>dev := d\<rparr>)) \<and>
      (wq_flag (?c (s\<lparr>dev := d\<rparr>)) = 0 \<longrightarrow> work S (dev (?c (s\<lparr>dev := d\<rparr>))) < work S d)"
    if d: "view S d = R" for d
    using step [OF d]
  proof
    assume a: "view S (pass C d) = R \<and> work S (pass C d) < work S d"
    then have "?c (s\<lparr>dev := d\<rparr>) = s\<lparr>dev := pass C d\<rparr>" using R by (simp add: line)
    with a show ?thesis unfolding P_def by auto
  next
    assume a: "view S (pass C d) = F"
    then have "?c (s\<lparr>dev := d\<rparr>) = cryptocard_irq_handle C (s\<lparr>dev := pass C d\<rparr>)"
      using F by (simp add: line)
    moreover obtain d' where "cryptocard_irq_handle C (s\<lparr>dev := pass C d\<rparr>) = s\<lparr>dev := d', wq_flag := 1\<rparr>"
        "view S d' = F\<lparr>r_irq := False, r_isr := 0\<rparr>"
      using irq_handle [OF ok, of "s\<lparr>dev := pass C d\<rparr>"] F a by auto
    ultimately show ?thesis unfolding P_def by auto
  qed
  have "\<exists>t. while_option ?b ?c s = Some t \<and> P t \<and> \<not> ?b t"
  proof (rule while_option_measure [where f = "\<lambda>t. if wq_flag t = 0 then Suc (work S (dev t)) else 0"])
    show "P s" using start unfolding P_def by (intro exI [of _ "dev s"]) simp
  next
    fix t assume "P t" "?b t"
    then obtain d where t: "t = s\<lparr>dev := d\<rparr>" "view S d = R" using start by (auto simp: P_def)
    from sleep [OF t(2)] start t show "P (?c t) \<and> (if wq_flag (?c t) = 0 then Suc (work S (dev (?c t))) else 0)
        < (if wq_flag t = 0 then Suc (work S (dev t)) else 0)"
      by (simp only: t) simp
  qed
  then show ?thesis using nosig start by (auto simp: wait_event_interruptible_def P_def undisturbed_def)
qed


section \<open>One operation\<close>

text \<open>No operation in progress, no interrupt pending, nobody waiting.\<close>

definition ready :: "'d spec \<Rightarrow> 'd cryptocard \<Rightarrow> bool" where
  "ready S s \<longleftrightarrow> quiet (vs S s) \<and> \<not> r_irq (vs S s) \<and> wq_flag s = 0"

lemma obind_assoc: "obind x (\<lambda>y. obind (f y) g) = obind (obind x f) g"
  by (cases x) simp_all

lemma run_mmio_poll:
  assumes ok: "card_ok C S" and q: "quiet (vs S s)" and len: "unat (r_len (vs S s)) \<le> card_buffer"
  shows "\<exists>d'. obind (poll C MMSTATUS_OFF s) (\<lambda>s. poll C MMSTATUS_OFF (iowrite32 C 0xa8 MMADDR_OFF s)) =
      Done (s\<lparr>dev := d'\<rparr>) \<and> view S d' = finish_mmio S ((vs S s)\<lparr>r_busy := True\<rparr>)"
proof -
  obtain d1 where d1: "poll C MMSTATUS_OFF s = Done (s\<lparr>dev := d1\<rparr>)" "view S d1 = vs S s"
    using poll_quiet [OF ok q] by blast
  let ?s2 = "iowrite32 C 0xa8 MMADDR_OFF (s\<lparr>dev := d1\<rparr>)"
  have v2: "vs S ?s2 = (vs S s)\<lparr>r_busy := True\<rparr>"
    using card_start(1) [OF ok, of d1] q len d1 by (simp add: iowrite32_def)
  then have "r_busy (vs S ?s2)" by simp
  from poll_mmio [OF ok this] v2 d1 show ?thesis by (auto simp: iowrite32_def)
qed

lemma run_mmio_wait:
  assumes ok: "card_ok C S" and nosig: "undisturbed C" and rdy: "ready S s"
    and len: "unat (r_len (vs S s)) \<le> card_buffer" and int: "bit (r_status (vs S s)) 7"
  shows "\<exists>d'. obind (poll C MMSTATUS_OFF s) (\<lambda>s. wait_event_interruptible C (iowrite32 C 0xa8 MMADDR_OFF s)) =
      Done (s\<lparr>dev := d', wq_flag := 1\<rparr>) \<and>
      view S d' = (finish_mmio S ((vs S s)\<lparr>r_busy := True\<rparr>))\<lparr>r_irq := False, r_isr := 0\<rparr>"
proof -
  have q: "quiet (vs S s)" using rdy by (simp add: ready_def)
  obtain d1 where d1: "poll C MMSTATUS_OFF s = Done (s\<lparr>dev := d1\<rparr>)" "view S d1 = vs S s"
    using poll_quiet [OF ok q] by blast
  let ?s2 = "iowrite32 C 0xa8 MMADDR_OFF (s\<lparr>dev := d1\<rparr>)"
  let ?R = "(vs S s)\<lparr>r_busy := True\<rparr>"
  have v2: "vs S ?s2 = ?R"
    using card_start(1) [OF ok, of d1] q len d1 by (simp add: iowrite32_def)
  have "\<exists>d'. wait_event_interruptible C ?s2 = Done (?s2\<lparr>dev := d', wq_flag := 1\<rparr>) \<and>
      view S d' = (finish_mmio S ?R)\<lparr>r_irq := False, r_isr := 0\<rparr>"
  proof (rule wait_until [OF ok nosig _ _ _ _ v2])
    fix d assume d: "view S d = ?R"
    then have "r_busy (view S d)" by simp
    from progress_mmio [OF card_irq(1) [OF ok] this]
    show "view S (pass C d) = ?R \<and> work S (pass C d) < work S d \<or> view S (pass C d) = finish_mmio S ?R"
      unfolding d .
  qed (use rdy int in \<open>simp_all add: ready_def finish_mmio_def quiet_def iowrite32_def\<close>)
  with d1 show ?thesis by (auto simp: iowrite32_def)
qed

lemma run_dma_poll:
  assumes ok: "card_ok C S" and q: "quiet (vs S s)" and len: "unat (r_dma_len (vs S s)) \<le> card_buffer"
    and cmd: "bit cmd 0"
  shows "\<exists>d'. obind (poll C DMA_CMD_OFF s) (\<lambda>s. poll C DMA_CMD_OFF (iowrite32 C cmd DMA_CMD_OFF s)) =
      Done (s\<lparr>dev := d'\<rparr>) \<and> view S d' = finish_dma S ((vs S s)\<lparr>r_dma_cmd := cmd, r_dma_busy := True\<rparr>)"
proof -
  obtain d1 where d1: "poll C DMA_CMD_OFF s = Done (s\<lparr>dev := d1\<rparr>)" "view S d1 = vs S s"
    using poll_quiet [OF ok q] by blast
  let ?s2 = "iowrite32 C cmd DMA_CMD_OFF (s\<lparr>dev := d1\<rparr>)"
  have v2: "vs S ?s2 = (vs S s)\<lparr>r_dma_cmd := cmd, r_dma_busy := True\<rparr>"
    using card_start(2) [OF ok, of d1 cmd] q len d1 cmd by (simp add: iowrite32_def)
  then have "r_dma_busy (vs S ?s2)" "\<not> r_busy (vs S ?s2)" using q by (simp_all add: quiet_def)
  from poll_dma [OF ok this] v2 d1 show ?thesis by (auto simp: iowrite32_def)
qed

lemma run_dma_wait:
  assumes ok: "card_ok C S" and nosig: "undisturbed C" and rdy: "ready S s"
    and len: "unat (r_dma_len (vs S s)) \<le> card_buffer" and cmd: "bit cmd 0" and int: "bit cmd 2"
  shows "\<exists>d'. obind (poll C DMA_CMD_OFF s) (\<lambda>s. wait_event_interruptible C (iowrite32 C cmd DMA_CMD_OFF s)) =
      Done (s\<lparr>dev := d', wq_flag := 1\<rparr>) \<and>
      view S d' = (finish_dma S ((vs S s)\<lparr>r_dma_cmd := cmd, r_dma_busy := True\<rparr>))\<lparr>r_irq := False, r_isr := 0\<rparr>"
proof -
  have q: "quiet (vs S s)" using rdy by (simp add: ready_def)
  obtain d1 where d1: "poll C DMA_CMD_OFF s = Done (s\<lparr>dev := d1\<rparr>)" "view S d1 = vs S s"
    using poll_quiet [OF ok q] by blast
  let ?s2 = "iowrite32 C cmd DMA_CMD_OFF (s\<lparr>dev := d1\<rparr>)"
  let ?R = "(vs S s)\<lparr>r_dma_cmd := cmd, r_dma_busy := True\<rparr>"
  have v2: "vs S ?s2 = ?R"
    using card_start(2) [OF ok, of d1 cmd] q len d1 cmd by (simp add: iowrite32_def)
  have "\<exists>d'. wait_event_interruptible C ?s2 = Done (?s2\<lparr>dev := d', wq_flag := 1\<rparr>) \<and>
      view S d' = (finish_dma S ?R)\<lparr>r_irq := False, r_isr := 0\<rparr>"
  proof (rule wait_until [OF ok nosig _ _ _ _ v2])
    fix d assume d: "view S d = ?R"
    then have "\<not> r_busy (view S d)" "r_dma_busy (view S d)" using q by (simp_all add: quiet_def)
    from progress_dma [OF card_irq(1) [OF ok] this]
    show "view S (pass C d) = ?R \<and> work S (pass C d) < work S d \<or> view S (pass C d) = finish_dma S ?R"
      unfolding d .
  qed (use rdy int in \<open>simp_all add: ready_def finish_dma_def quiet_def iowrite32_def\<close>)
  with d1 show ?thesis by (auto simp: iowrite32_def)
qed


section \<open>The buffer routines\<close>

text \<open>From the filled data area to the result in the caller's buffer, with polling.\<close>

lemma mmio_read_back:
  assumes ok: "card_ok C S" and V: "quiet V" "r_len V = len" "unat len \<le> card_buffer"
    and data: "\<And>i. i < unat len \<Longrightarrow> r_data V i = data ! i" "unat len \<le> length data"
    and d: "quiet (view S d)" "r_data (view S d) = r_data (finish_mmio S (V\<lparr>r_busy := True\<rparr>))"
  shows "fst (from_io C DATA_OFF (unat len) d) =
      map (cipher S (bit (r_status V) 1) (r_key V)) (take (unat len) data)"
    "view S (snd (from_io C DATA_OFF (unat len) d)) = view S d"
proof -
  have n: "unat len \<le> 0x100000 - 0xa8" using V by (simp add: card_buffer_def)
  show "view S (snd (from_io C DATA_OFF (unat len) d)) = view S d"
    by (rule card_area(3) [OF ok d(1) n])
  have "map (r_data (view S d)) [0..<unat len] =
      map (cipher S (bit (r_status V) 1) (r_key V)) (take (unat len) data)"
    by (rule nth_equalityI) (use V data in \<open>simp_all add: d(2) finish_mmio_def\<close>)
  then show "fst (from_io C DATA_OFF (unat len) d) =
      map (cipher S (bit (r_status V) 1) (r_key V)) (take (unat len) data)"
    by (simp add: card_area(2) [OF ok d(1) n])
qed

lemma mmio_poll_op:
  assumes ok: "card_ok C S" and V: "quiet (vs S t)" "r_len (vs S t) = len" "unat len \<le> card_buffer"
    and data: "\<And>i. i < unat len \<Longrightarrow> r_data (vs S t) i = data ! i" "unat len \<le> length data"
    and status: "\<not> r_irq (vs S t)" "\<not> bit (r_status (vs S t)) 7" "bit (r_status (vs S t)) 1 = decr"
  shows "\<exists>d'. obind (poll C MMSTATUS_OFF t) (\<lambda>s.
         obind (poll C MMSTATUS_OFF (iowrite32 C 0xa8 MMADDR_OFF s)) (\<lambda>s.
           let (bs, s) = memcpy_fromio C DATA_OFF (unat len) s
           in Done (bs @ drop (unat len) data, s))) =
      Done (map (cipher S decr (r_key (vs S t))) (take (unat len) data) @ drop (unat len) data,
        t\<lparr>dev := d'\<rparr>) \<and>
      quiet (view S d') \<and> \<not> r_irq (view S d') \<and> r_key (view S d') = r_key (vs S t)"
proof -
  obtain d where d: "obind (poll C MMSTATUS_OFF t) (\<lambda>s. poll C MMSTATUS_OFF (iowrite32 C 0xa8 MMADDR_OFF s)) =
      Done (t\<lparr>dev := d\<rparr>)" and v: "view S d = finish_mmio S ((vs S t)\<lparr>r_busy := True\<rparr>)"
    using run_mmio_poll [OF ok V(1)] V by blast
  have q: "quiet (view S d)" "\<not> r_irq (view S d)" "r_key (view S d) = r_key (vs S t)"
    using V status by (simp_all add: v finish_mmio_def quiet_def)
  have "r_data (view S d) = r_data (finish_mmio S ((vs S t)\<lparr>r_busy := True\<rparr>))" by (simp add: v)
  note b = mmio_read_back [OF ok V data q(1) this]
  show ?thesis
    unfolding obind_assoc d using q b status(3)
    by (auto simp: memcpy_fromio_def case_prod_beta Let_def)
qed

lemma mmio_interrupt_op:
  assumes ok: "card_ok C S" "undisturbed C" and V: "quiet (vs S t)" "r_len (vs S t) = len" "unat len \<le> card_buffer"
    and data: "\<And>i. i < unat len \<Longrightarrow> r_data (vs S t) i = data ! i" "unat len \<le> length data"
    and status: "\<not> r_irq (vs S t)" "bit (r_status (vs S t)) 7" "bit (r_status (vs S t)) 1 = decr"
    and flag: "wq_flag t = 0"
  shows "\<exists>d'. obind (poll C MMSTATUS_OFF t) (\<lambda>s.
         obind (wait_event_interruptible C (iowrite32 C 0xa8 MMADDR_OFF s)) (\<lambda>s.
           let s = s\<lparr>wq_flag := 0\<rparr>;
               (bs, s) = memcpy_fromio C DATA_OFF (unat len) s
           in Done (bs @ drop (unat len) data, s))) =
      Done (map (cipher S decr (r_key (vs S t))) (take (unat len) data) @ drop (unat len) data,
        t\<lparr>dev := d'\<rparr>) \<and>
      quiet (view S d') \<and> \<not> r_irq (view S d') \<and> r_key (view S d') = r_key (vs S t)"
proof -
  have rdy: "ready S t" using V status flag by (simp add: ready_def)
  obtain d where d: "obind (poll C MMSTATUS_OFF t) (\<lambda>s. wait_event_interruptible C (iowrite32 C 0xa8 MMADDR_OFF s)) =
      Done (t\<lparr>dev := d, wq_flag := 1\<rparr>)" and v: "view S d = (finish_mmio S ((vs S t)\<lparr>r_busy := True\<rparr>))\<lparr>r_irq := False, r_isr := 0\<rparr>"
    using run_mmio_wait [OF ok rdy] V status by blast
  have q: "quiet (view S d)" "\<not> r_irq (view S d)" "r_key (view S d) = r_key (vs S t)"
    using V status by (simp_all add: v finish_mmio_def quiet_def)
  have "r_data (view S d) = r_data (finish_mmio S ((vs S t)\<lparr>r_busy := True\<rparr>))" by (simp add: v)
  note b = mmio_read_back [OF ok(1) V data q(1) this]
  have w: "t\<lparr>dev := x, wq_flag := 0\<rparr> = t\<lparr>dev := x\<rparr>" for x using flag by (cases t) simp
  show ?thesis
    unfolding obind_assoc d using q b status(3)
    by (auto simp: memcpy_fromio_def case_prod_beta Let_def w)
qed

text \<open>The same through a coherent buffer at bus address \<open>h\<close>.\<close>

lemma dma_read_back:
  assumes ok: "card_ok C S" and V: "r_dma_len V = len" "ucast (r_dma_addr V) = h"
    and data: "mem_read h (unat len) (r_host V) = take (unat len) data" "unat len \<le> length data"
    and d: "quiet (view S d)" "r_host (view S d) = r_host (finish_dma S V)"
  shows "fst (dma_get C h (unat len) d) = map (cipher S (bit (r_dma_cmd V) 1) (r_key V)) (take (unat len) data)"
    "view S (snd (dma_get C h (unat len) d)) = view S d"
proof -
  show "view S (snd (dma_get C h (unat len) d)) = view S d"
    by (rule card_dma(5) [OF ok d(1)])
  let ?bs = "map (cipher S (bit (r_dma_cmd V) 1) (r_key V)) (take (unat len) data)"
  have len: "length ?bs = unat len" using data by simp
  have "unat len < 2 ^ 32" using unsigned_less [of len, where ?'a = nat] by simp
  with len have "length ?bs \<le> 2 ^ 64" by simp
  from mem_read_write_same [OF this, of h "r_host V"] len
  have "mem_read h (unat len) (mem_write h ?bs (r_host V)) = ?bs" by simp
  moreover have "r_host (view S d) = mem_write h ?bs (r_host V)"
    using V data by (simp add: d(2) finish_dma_def)
  ultimately show "fst (dma_get C h (unat len) d) = ?bs"
    by (simp add: card_dma(4) [OF ok d(1)])
qed

lemma dma_poll_op:
  assumes ok: "card_ok C S" and V: "quiet (vs S t)" "r_dma_len (vs S t) = len" "unat len \<le> card_buffer"
      "ucast (r_dma_addr (vs S t)) = h"
    and data: "mem_read h (unat len) (r_host (vs S t)) = take (unat len) data" "unat len \<le> length data"
    and cmd: "\<not> r_irq (vs S t)" "bit cmd 0" "\<not> bit cmd 2" "bit cmd 1 = decr" and buff: "buff"
  shows "\<exists>d'. obind (poll C DMA_CMD_OFF t) (\<lambda>s.
         obind (poll C DMA_CMD_OFF (iowrite32 C cmd DMA_CMD_OFF s)) (\<lambda>s.
           let (bs, s) = memcpy_fromdma C h (unat len) s;
               s = (if buff then dma_free_coherent C h len s else s)
           in Done (bs @ drop (unat len) data, s))) =
      Done (map (cipher S decr (r_key (vs S t))) (take (unat len) data) @ drop (unat len) data,
        t\<lparr>dev := d'\<rparr>) \<and>
      quiet (view S d') \<and> \<not> r_irq (view S d') \<and> r_key (view S d') = r_key (vs S t)"
proof -
  let ?V = "(vs S t)\<lparr>r_dma_cmd := cmd, r_dma_busy := True\<rparr>"
  obtain d where d: "obind (poll C DMA_CMD_OFF t) (\<lambda>s. poll C DMA_CMD_OFF (iowrite32 C cmd DMA_CMD_OFF s)) =
      Done (t\<lparr>dev := d\<rparr>)" and v: "view S d = finish_dma S ?V"
    using run_dma_poll [OF ok V(1)] V cmd by blast
  have q: "quiet (view S d)" "\<not> r_irq (view S d)" "r_key (view S d) = r_key (vs S t)"
    using V cmd by (simp_all add: v finish_dma_def quiet_def)
  have "r_host (view S d) = r_host (finish_dma S ?V)" by (simp add: v)
  note b = dma_read_back [OF ok _ _ _ data(2) q(1) this]
  have q2: "quiet (view S (snd (dma_get C h (unat len) d)))" using b V data q by simp
  show ?thesis
    unfolding obind_assoc d using q b V data cmd card_dma(6) [OF ok q2, of h len] buff
    by (auto simp: memcpy_fromdma_def dma_free_coherent_def case_prod_beta Let_def)
qed

lemma dma_interrupt_op:
  assumes ok: "card_ok C S" "undisturbed C"
    and V: "quiet (vs S t)" "r_dma_len (vs S t) = len" "unat len \<le> card_buffer"
      "ucast (r_dma_addr (vs S t)) = h"
    and data: "mem_read h (unat len) (r_host (vs S t)) = take (unat len) data" "unat len \<le> length data"
    and cmd: "\<not> r_irq (vs S t)" "bit cmd 0" "bit cmd 2" "bit cmd 1 = decr"
    and flag: "wq_flag t = 0" and buff: "buff"
  shows "\<exists>d'. obind (poll C DMA_CMD_OFF t) (\<lambda>s.
         obind (wait_event_interruptible C (iowrite32 C cmd DMA_CMD_OFF s)) (\<lambda>s.
           let s = s\<lparr>wq_flag := 0\<rparr>;
               (bs, s) = memcpy_fromdma C h (unat len) s;
               s = (if buff then dma_free_coherent C h len s else s)
           in Done (bs @ drop (unat len) data, s))) =
      Done (map (cipher S decr (r_key (vs S t))) (take (unat len) data) @ drop (unat len) data,
        t\<lparr>dev := d'\<rparr>) \<and>
      quiet (view S d') \<and> \<not> r_irq (view S d') \<and> r_key (view S d') = r_key (vs S t)"
proof -
  have rdy: "ready S t" using V cmd flag by (simp add: ready_def)
  let ?V = "(vs S t)\<lparr>r_dma_cmd := cmd, r_dma_busy := True\<rparr>"
  obtain d where d: "obind (poll C DMA_CMD_OFF t) (\<lambda>s. wait_event_interruptible C (iowrite32 C cmd DMA_CMD_OFF s)) =
      Done (t\<lparr>dev := d, wq_flag := 1\<rparr>)" and v: "view S d = (finish_dma S ?V)\<lparr>r_irq := False, r_isr := 0\<rparr>"
    using run_dma_wait [OF ok rdy] V cmd by blast
  have q: "quiet (view S d)" "\<not> r_irq (view S d)" "r_key (view S d) = r_key (vs S t)"
    using V cmd by (simp_all add: v finish_dma_def quiet_def)
  have "r_host (view S d) = r_host (finish_dma S ?V)" by (simp add: v)
  note b = dma_read_back [OF ok(1) _ _ _ data(2) q(1) this]
  have q2: "quiet (view S (snd (dma_get C h (unat len) d)))" using b V data q by simp
  have w: "t\<lparr>dev := x, wq_flag := 0\<rparr> = t\<lparr>dev := x\<rparr>" for x using flag by (cases t) simp
  show ?thesis
    unfolding obind_assoc d using q b V data cmd card_dma(6) [OF ok(1) q2, of h len] buff
    by (auto simp: memcpy_fromdma_def dma_free_coherent_def case_prod_beta Let_def w)
qed

section \<open>The contract of a buffer routine\<close>

text \<open>
  The number of bytes a routine works on, and what it owes its caller: on an idle card with the key
  loaded it returns, with those bytes of the buffer en- or decrypted and the rest unchanged, leaving
  the card idle, the key in place and the driver's variables as they were.
\<close>

definition op_len :: "u64 \<Rightarrow> nat" where
  "op_len n = unat (ucast n :: u32)"

definition op_result :: "'d spec \<Rightarrow> bool \<Rightarrow> u8 list \<Rightarrow> u64 \<Rightarrow> 'd cryptocard \<Rightarrow> u8 list" where
  "op_result S decr data n s =
     map (cipher S decr (r_key (vs S s))) (take (op_len n) data) @ drop (op_len n) data"

lemma length_op_result [simp]: "length (op_result S decr data n s) = length data"
  by (simp add: op_result_def)

locale card_op =
  fixes oper :: "'d card \<Rightarrow> u8 list \<Rightarrow> u64 \<Rightarrow> 'd cryptocard \<Rightarrow> (u8 list \<times> 'd cryptocard) outcome"
    and decr :: bool
  assumes oper_correct:
    "card_ok C S \<Longrightarrow> grants C \<Longrightarrow> undisturbed C \<Longrightarrow> ready S s \<Longrightarrow>
     op_len n \<le> card_buffer \<Longrightarrow> op_len n \<le> length data \<Longrightarrow>
     \<exists>d'. oper C data n s = Done (op_result S decr data n s, s\<lparr>dev := d'\<rparr>) \<and>
       ready S (s\<lparr>dev := d'\<rparr>) \<and> r_key (view S d') = r_key (vs S s)"
begin

text \<open>The caller's part: a buffer copied in, transformed, copied out, and the lock given back.\<close>

lemma copied_through:
  assumes "card_ok C S" "grants C" "undisturbed C" "ready S s"
    and n: "unat n \<le> card_buffer" and user: "user_ok U a n"
  shows "\<exists>d'. obind (oper C (mem_read a (unat n) m) n s) (\<lambda>(buff, s).
        let (left, m) = u_to U a buff m
        in if left \<noteq> 0 then Done (EFAULT :: u64, m, s) else Done (0, m, s\<lparr>cc_spinlock := False\<rparr>)) =
      Done (0, mem_write a (map (cipher S decr (r_key (vs S s))) (mem_read a (unat n) m)) m,
        s\<lparr>dev := d', cc_spinlock := False\<rparr>) \<and>
      ready S (s\<lparr>dev := d'\<rparr>)"
proof -
  have len: "op_len n = unat n"
    using n by (simp add: op_len_def card_buffer_def unsigned_ucast_eq take_bit_eq_mod)
  then obtain d' where d': "oper C (mem_read a (unat n) m) n s =
      Done (op_result S decr (mem_read a (unat n) m) n s, s\<lparr>dev := d'\<rparr>)" "ready S (s\<lparr>dev := d'\<rparr>)"
    using oper_correct [of C S s n "mem_read a (unat n) m"] assms by auto
  have "u_to U a (op_result S decr (mem_read a (unat n) m) n s) m =
      (0, mem_write a (op_result S decr (mem_read a (unat n) m) n s) m)"
    using user by (simp add: user_ok_def)
  then show ?thesis using d' len by (auto simp: op_result_def)
qed

text \<open>A copy back that fails returns in the middle, the lock still held.\<close>

lemma copy_back_fails:
  assumes "card_ok C S" "grants C" "undisturbed C" "ready S s"
    and n: "op_len n \<le> card_buffer" "op_len n \<le> length buff"
    and fail: "\<And>bs. fst (u_to U a bs m) \<noteq> 0"
  shows "\<exists>m' d'. obind (oper C buff n s) (\<lambda>(buff, s).
        let (left, m) = u_to U a buff m
        in if left \<noteq> 0 then Done (EFAULT :: u64, m, s) else Done (0, m, s\<lparr>cc_spinlock := False\<rparr>)) =
      Done (EFAULT, m', s\<lparr>dev := d'\<rparr>)"
proof -
  obtain d' where "oper C buff n s = Done (op_result S decr buff n s, s\<lparr>dev := d'\<rparr>)"
    using oper_correct [of C S s n buff] assms by auto
  with fail show ?thesis by (auto simp: case_prod_beta Let_def)
qed

end

text \<open>An encrypting and a decrypting routine together, on a cipher whose decryption inverts its
  encryption: what one does to a buffer the other undoes, whichever routines they are.\<close>

locale card_pair =
  e: card_op enc_oper False + d: card_op dec_oper True 
  for enc_oper dec_oper :: "'d card \<Rightarrow> u8 list \<Rightarrow> u64 \<Rightarrow> 'd cryptocard \<Rightarrow> (u8 list \<times> 'd cryptocard) outcome"
begin

lemma undone:
  assumes C: "card_ok C S" "grants C" "undisturbed C" and s: "ready S s"
    and n: "op_len n \<le> card_buffer" "op_len n \<le> length data"
    and inv: "\<And>x. cipher S True (r_key (vs S s)) (cipher S False (r_key (vs S s)) x) = x"
  shows "\<exists>d'. obind (enc_oper C data n s) (\<lambda>(data, s). dec_oper C data n s) = Done (data, s\<lparr>dev := d'\<rparr>) \<and>
    ready S (s\<lparr>dev := d'\<rparr>)"
proof -
  obtain d where d: "enc_oper C data n s = Done (op_result S False data n s, s\<lparr>dev := d\<rparr>)"
      "ready S (s\<lparr>dev := d\<rparr>)" "r_key (view S d) = r_key (vs S s)"
    using e.oper_correct [OF C s n] by blast
  obtain d' where "dec_oper C (op_result S False data n s) n (s\<lparr>dev := d\<rparr>) =
      Done (op_result S True (op_result S False data n s) n (s\<lparr>dev := d\<rparr>), s\<lparr>dev := d'\<rparr>)"
      "ready S (s\<lparr>dev := d'\<rparr>)"
    using d.oper_correct [OF C d(2), of n "op_result S False data n s"] n by auto
  moreover have "op_result S True (op_result S False data n s) n (s\<lparr>dev := d\<rparr>) = data"
    using d(3) inv n by (simp add: op_result_def take_map comp_def)
  ultimately show ?thesis using d by auto
qed

end

lemma ready_dev: "ready S (s\<lparr>dev := d\<rparr>) \<longleftrightarrow> quiet (view S d) \<and> \<not> r_irq (view S d) \<and> wq_flag s = 0"
  by (simp add: ready_def)

section \<open>The eight routines keep the contract\<close>

text \<open>Loading the status, length and data registers, in the two orders the routines use.\<close>

definition loaded :: "'d spec \<Rightarrow> 'd cryptocard \<Rightarrow> u64 \<Rightarrow> u8 list \<Rightarrow> u32 \<Rightarrow> 'd \<Rightarrow> bool" where
  "loaded S s n data st d \<longleftrightarrow>
     quiet (view S d) \<and> r_len (view S d) = ucast n \<and>
     (\<forall>i<op_len n. r_data (view S d) i = data ! i) \<and> \<not> r_irq (view S d) \<and>
     r_status (view S d) = st AND NOT 1 \<and> r_key (view S d) = r_key (vs S s)"

lemma mmio_setup:
  assumes ok: "card_ok C S" and rdy: "ready S s" and n: "op_len n \<le> card_buffer" "op_len n \<le> length data"
  shows "\<exists>d. snd (ioread32 C MMDATA_LEN_OFF (iowrite32 C (ucast n) MMDATA_LEN_OFF
       (memcpy_toio C DATA_OFF (take (op_len n) data) (iowrite32 C st MMSTATUS_OFF s)))) = s\<lparr>dev := d\<rparr> \<and>
     loaded S s n data st d"
proof -
  let ?bs = "take (op_len n) data"
  have bs: "length ?bs \<le> 0x100000 - 0xa8" using n by (simp add: card_buffer_def)
  have q: "quiet (vs S s)" using rdy by (simp add: ready_def)
  let ?d1 = "wr32 C st MMSTATUS_OFF (dev s)"
  let ?d2 = "to_io C DATA_OFF ?bs ?d1"
  let ?d3 = "wr32 C (ucast n) MMDATA_LEN_OFF ?d2"
  let ?d4 = "snd (rd32 C MMDATA_LEN_OFF ?d3)"
  have v1: "view S ?d1 = (vs S s)\<lparr>r_status := st AND NOT 1\<rparr>" by (rule card_write(3) [OF ok q])
  then have q1: "quiet (view S ?d1)" using q by (simp add: quiet_def)
  note v2 = card_area(1) [OF ok q1 bs]
  have q2: "quiet (view S ?d2)" using q1 by (simp add: v2 quiet_def)
  note v3 = card_write(2) [OF ok q2, of "ucast n"]
  have q3: "quiet (view S ?d3)" using q2 by (simp add: v3 quiet_def)
  note v4 = card_read_quiet [OF ok q3, of MMDATA_LEN_OFF]
  have "loaded S s n data st ?d4"
    using q3 rdy n unfolding loaded_def v4 by (simp add: v3 v2 v1 ready_def)
  then show ?thesis by (auto simp: access_defs case_prod_beta Let_def)
qed

lemma mmio_setup_len_first:
  assumes ok: "card_ok C S" and rdy: "ready S s" and n: "op_len n \<le> card_buffer" "op_len n \<le> length data"
  shows "\<exists>d. snd (ioread32 C MMDATA_LEN_OFF (memcpy_toio C DATA_OFF (take (op_len n) data)
       (iowrite32 C st MMSTATUS_OFF (iowrite32 C (ucast n) MMDATA_LEN_OFF s)))) = s\<lparr>dev := d\<rparr> \<and>
     loaded S s n data st d"
proof -
  let ?bs = "take (op_len n) data"
  have bs: "length ?bs \<le> 0x100000 - 0xa8" using n by (simp add: card_buffer_def)
  have q: "quiet (vs S s)" using rdy by (simp add: ready_def)
  let ?d1 = "wr32 C (ucast n) MMDATA_LEN_OFF (dev s)"
  let ?d2 = "wr32 C st MMSTATUS_OFF ?d1"
  let ?d3 = "to_io C DATA_OFF ?bs ?d2"
  let ?d4 = "snd (rd32 C MMDATA_LEN_OFF ?d3)"
  have v1: "view S ?d1 = (vs S s)\<lparr>r_len := ucast n\<rparr>" by (rule card_write(2) [OF ok q])
  then have q1: "quiet (view S ?d1)" using q by (simp add: quiet_def)
  note v2 = card_write(3) [OF ok q1, of st]
  have q2: "quiet (view S ?d2)" using q1 by (simp add: v2 quiet_def)
  note v3 = card_area(1) [OF ok q2 bs]
  have q3: "quiet (view S ?d3)" using q2 by (simp add: v3 quiet_def)
  note v4 = card_read_quiet [OF ok q3, of MMDATA_LEN_OFF]
  have "loaded S s n data st ?d4"
    using q3 rdy n unfolding loaded_def v4 by (simp add: v3 v2 v1 ready_def)
  then show ?thesis by (auto simp: access_defs case_prod_beta Let_def)
qed

lemma mmap_setup:
  assumes ok: "card_ok C S" and q: "quiet (vs S s)"
  shows "\<exists>d. snd (ioread32 C MMDATA_LEN_OFF (iowrite32 C len MMDATA_LEN_OFF
       (iowrite32 C st MMSTATUS_OFF s))) = s\<lparr>dev := d\<rparr> \<and>
     view S d = (vs S s)\<lparr>r_status := st AND NOT 1, r_len := len\<rparr>"
proof -
  let ?d1 = "wr32 C st MMSTATUS_OFF (dev s)"
  let ?d2 = "wr32 C len MMDATA_LEN_OFF ?d1"
  have v1: "view S ?d1 = (vs S s)\<lparr>r_status := st AND NOT 1\<rparr>" by (rule card_write(3) [OF ok q])
  then have q1: "quiet (view S ?d1)" using q by (simp add: quiet_def)
  note v2 = card_write(2) [OF ok q1, of len]
  have q2: "quiet (view S ?d2)" using q1 by (simp add: v2 quiet_def)
  from card_read_quiet [OF ok q2, of MMDATA_LEN_OFF] v1 v2 show ?thesis
    by (auto simp: access_defs case_prod_beta Let_def)
qed

text \<open>Taking a coherent buffer, filling it, and loading the DMA registers.\<close>

lemma dma_setup:
  assumes ok: "card_ok C S" "grants C" and q: "quiet (vs S s)" and bs: "length bs = unat len"
  shows "\<exists>h d0 d. dma_alloc_coherent C len s = ((True, h), s\<lparr>dev := d0\<rparr>) \<and>
     iowrite32 C (ucast h) DMA_ADDR_OFF (iowrite32 C len DMA_DATA_LEN_OFF
       (memcpy_todma C h bs (s\<lparr>dev := d0\<rparr>))) = s\<lparr>dev := d\<rparr> \<and>
     quiet (view S d) \<and> r_dma_len (view S d) = len \<and> ucast (r_dma_addr (view S d)) = h \<and>
     mem_read h (unat len) (r_host (view S d)) = bs \<and>
     r_irq (view S d) = r_irq (vs S s) \<and> r_key (view S d) = r_key (vs S s)"
proof -
  obtain h d0 where alloc: "dma_alloc C len (dev s) = ((True, h), d0)"
    using ok(2) unfolding grants_def by (metis prod.collapse)
  have h: "unat h < 2 ^ 32" by (rule card_dma(1) [OF ok(1) q alloc])
  have v0: "view S d0 = vs S s" using card_dma(2) [OF ok(1) q, of len] alloc by simp
  let ?d1 = "dma_put C h bs d0"
  let ?d2 = "wr32 C len DMA_DATA_LEN_OFF ?d1"
  let ?d3 = "wr32 C (ucast h) DMA_ADDR_OFF ?d2"
  have q0: "quiet (view S d0)" using q by (simp add: v0)
  note v1 = card_dma(3) [OF ok(1) q0, of h bs]
  have q1: "quiet (view S ?d1)" using q0 by (simp add: v1 quiet_def)
  note v2 = card_write(5) [OF ok(1) q1, of len]
  have q2: "quiet (view S ?d2)" using q1 by (simp add: v2 quiet_def)
  note v3 = card_write(4) [OF ok(1) q2, of "ucast h"]
  have q3: "quiet (view S ?d3)" using q2 by (simp add: v3 quiet_def)
  have hh: "ucast (ucast h :: u32) = h"
    using h by (simp add: word_unat_eq_iff unsigned_ucast_eq take_bit_eq_mod unat_mod_distrib)
  have "unat len < 2 ^ 32" using unsigned_less [of len, where ?'a = nat] by simp
  with bs have "length bs \<le> 2 ^ 64" by simp
  from mem_read_write_same [OF this, of h "r_host (view S d0)"] bs
  have "mem_read h (unat len) (mem_write h bs (r_host (vs S s))) = bs" by (simp add: v0)
  then have "view S ?d3 = view S ?d3 \<and> quiet (view S ?d3) \<and> r_dma_len (view S ?d3) = len \<and>
      ucast (r_dma_addr (view S ?d3)) = h \<and> mem_read h (unat len) (r_host (view S ?d3)) = bs \<and>
      r_irq (view S ?d3) = r_irq (vs S s) \<and> r_key (view S ?d3) = r_key (vs S s)"
    using q3 by (simp add: v3 v2 v1 v0 hh)
  then show ?thesis using alloc by (auto simp: access_defs)
qed

text \<open>From a loaded card to the result, for either way of waiting.\<close>

lemma loaded_poll:
  assumes ok: "card_ok C S" and rdy: "ready S s" and n: "op_len n \<le> card_buffer" "op_len n \<le> length data"
    and d: "t = s\<lparr>dev := d\<rparr>" "loaded S s n data st d" and st: "\<not> bit st 7" "bit st 1 = decr"
  shows "\<exists>d'. obind (poll C MMSTATUS_OFF t) (\<lambda>s.
         obind (poll C MMSTATUS_OFF (iowrite32 C 0xa8 MMADDR_OFF s)) (\<lambda>s.
           let (bs, s) = memcpy_fromio C DATA_OFF (unat (ucast n :: u32)) s
           in Done (bs @ drop (unat (ucast n :: u32)) data, s))) =
      Done (op_result S decr data n s, s\<lparr>dev := d'\<rparr>) \<and>
      ready S (s\<lparr>dev := d'\<rparr>) \<and> r_key (view S d') = r_key (vs S s)"
proof -
  have v: "quiet (vs S t)" "r_len (vs S t) = ucast n" "\<not> r_irq (vs S t)" "r_key (vs S t) = r_key (vs S s)"
    "\<not> bit (r_status (vs S t)) 7" "bit (r_status (vs S t)) 1 = decr"
    "\<And>i. i < unat (ucast n :: u32) \<Longrightarrow> r_data (vs S t) i = data ! i"
    using d st by (simp_all add: loaded_def op_len_def bit_simps)
  from mmio_poll_op [OF ok v(1,2) _ v(7) _ v(3,5,6)] n rdy v(4) show ?thesis
    by (auto simp: op_result_def op_len_def ready_def d(1))
qed

lemma loaded_interrupt:
  assumes ok: "card_ok C S" "undisturbed C" and rdy: "ready S s"
    and n: "op_len n \<le> card_buffer" "op_len n \<le> length data"
    and d: "t = s\<lparr>dev := d\<rparr>" "loaded S s n data st d" and st: "bit st 7" "bit st 1 = decr"
  shows "\<exists>d'. obind (poll C MMSTATUS_OFF t) (\<lambda>s.
         obind (wait_event_interruptible C (iowrite32 C 0xa8 MMADDR_OFF s)) (\<lambda>s.
           let s = s\<lparr>wq_flag := 0\<rparr>;
               (bs, s) = memcpy_fromio C DATA_OFF (unat (ucast n :: u32)) s
           in Done (bs @ drop (unat (ucast n :: u32)) data, s))) =
      Done (op_result S decr data n s, s\<lparr>dev := d'\<rparr>) \<and>
      ready S (s\<lparr>dev := d'\<rparr>) \<and> r_key (view S d') = r_key (vs S s)"
proof -
  have v: "quiet (vs S t)" "r_len (vs S t) = ucast n" "\<not> r_irq (vs S t)" "r_key (vs S t) = r_key (vs S s)"
    "bit (r_status (vs S t)) 7" "bit (r_status (vs S t)) 1 = decr" "wq_flag t = 0"
    "\<And>i. i < unat (ucast n :: u32) \<Longrightarrow> r_data (vs S t) i = data ! i"
    using d st rdy by (simp_all add: loaded_def op_len_def bit_simps ready_def)
  from mmio_interrupt_op [OF ok v(1,2) _ v(8) _ v(3,5,6,7)] n rdy v(4) show ?thesis
    by (auto simp: op_result_def op_len_def ready_def d(1))
qed

lemma encryption_mmio_poll_op: "card_op encryption_mmio_poll False"
proof
  fix C :: "'d card" and S s and n :: u64 and data :: "u8 list"
  assume ok: "card_ok C S" "undisturbed C" and rdy: "ready S s"
    and n: "op_len n \<le> card_buffer" "op_len n \<le> length data"
  obtain d where d: "snd (ioread32 C MMDATA_LEN_OFF (iowrite32 C (ucast n) MMDATA_LEN_OFF
       (memcpy_toio C DATA_OFF (take (op_len n) data) (iowrite32 C 0x0 MMSTATUS_OFF s)))) = s\<lparr>dev := d\<rparr>" "loaded S s n data 0x0 d"
    using mmio_setup [OF ok(1) rdy n] by blast
  show "\<exists>d'. encryption_mmio_poll C data n s = Done (op_result S False data n s, s\<lparr>dev := d'\<rparr>) \<and>
      ready S (s\<lparr>dev := d'\<rparr>) \<and> r_key (view S d') = r_key (vs S s)"
    unfolding encryption_mmio_poll_def Let_def
    by (rule loaded_poll [OF ok(1) rdy n d [unfolded op_len_def], unfolded Let_def]) simp_all
qed

lemma decryption_mmio_poll_op: "card_op decryption_mmio_poll True"
proof
  fix C :: "'d card" and S s and n :: u64 and data :: "u8 list"
  assume ok: "card_ok C S" "undisturbed C" and rdy: "ready S s"
    and n: "op_len n \<le> card_buffer" "op_len n \<le> length data"
  obtain d where d: "snd (ioread32 C MMDATA_LEN_OFF (memcpy_toio C DATA_OFF (take (op_len n) data)
       (iowrite32 C 0x2 MMSTATUS_OFF (iowrite32 C (ucast n) MMDATA_LEN_OFF s)))) = s\<lparr>dev := d\<rparr>" "loaded S s n data 0x2 d"
    using mmio_setup_len_first [OF ok(1) rdy n] by blast
  show "\<exists>d'. decryption_mmio_poll C data n s = Done (op_result S True data n s, s\<lparr>dev := d'\<rparr>) \<and>
      ready S (s\<lparr>dev := d'\<rparr>) \<and> r_key (view S d') = r_key (vs S s)"
    unfolding decryption_mmio_poll_def Let_def
    by (rule loaded_poll [OF ok(1) rdy n d [unfolded op_len_def], unfolded Let_def]) simp_all
qed

lemma encryption_mmio_interrupt_op: "card_op encryption_mmio_interrupt False"
proof
  fix C :: "'d card" and S s and n :: u64 and data :: "u8 list"
  assume ok: "card_ok C S" "undisturbed C" and rdy: "ready S s"
    and n: "op_len n \<le> card_buffer" "op_len n \<le> length data"
  obtain d where d: "snd (ioread32 C MMDATA_LEN_OFF (iowrite32 C (ucast n) MMDATA_LEN_OFF
       (memcpy_toio C DATA_OFF (take (op_len n) data) (iowrite32 C 0x80 MMSTATUS_OFF s)))) = s\<lparr>dev := d\<rparr>" "loaded S s n data 0x80 d"
    using mmio_setup [OF ok(1) rdy n] by blast
  show "\<exists>d'. encryption_mmio_interrupt C data n s = Done (op_result S False data n s, s\<lparr>dev := d'\<rparr>) \<and>
      ready S (s\<lparr>dev := d'\<rparr>) \<and> r_key (view S d') = r_key (vs S s)"
    unfolding encryption_mmio_interrupt_def Let_def
    by (rule loaded_interrupt [OF ok rdy n d [unfolded op_len_def], unfolded Let_def]) simp_all
qed

lemma decryption_mmio_interrupt_op: "card_op decryption_mmio_interrupt True"
proof
  fix C :: "'d card" and S s and n :: u64 and data :: "u8 list"
  assume ok: "card_ok C S" "undisturbed C" and rdy: "ready S s"
    and n: "op_len n \<le> card_buffer" "op_len n \<le> length data"
  obtain d where d: "snd (ioread32 C MMDATA_LEN_OFF (iowrite32 C (ucast n) MMDATA_LEN_OFF
       (memcpy_toio C DATA_OFF (take (op_len n) data) (iowrite32 C 0x82 MMSTATUS_OFF s)))) = s\<lparr>dev := d\<rparr>" "loaded S s n data 0x82 d"
    using mmio_setup [OF ok(1) rdy n] by blast
  show "\<exists>d'. decryption_mmio_interrupt C data n s = Done (op_result S True data n s, s\<lparr>dev := d'\<rparr>) \<and>
      ready S (s\<lparr>dev := d'\<rparr>) \<and> r_key (view S d') = r_key (vs S s)"
    unfolding decryption_mmio_interrupt_def Let_def
    by (rule loaded_interrupt [OF ok rdy n d [unfolded op_len_def], unfolded Let_def]) simp_all
qed

lemma ready_quiet: "ready S s \<Longrightarrow> quiet (vs S s)"
  by (simp add: ready_def)

lemma length_take_op_len: "op_len n \<le> length data \<Longrightarrow> length (take (op_len n) data) = unat (ucast n :: u32)"
  by (simp add: op_len_def)

lemma dma_loaded_poll:
  assumes ok: "card_ok C S" and rdy: "ready S s"
    and n: "op_len n \<le> card_buffer" "op_len n \<le> length data"
    and v: "quiet (view S d)" "r_dma_len (view S d) = ucast n" "ucast (r_dma_addr (view S d)) = h"
      "mem_read h (unat (ucast n :: u32)) (r_host (view S d)) = take (op_len n) data"
      "r_irq (view S d) = r_irq (vs S s)" "r_key (view S d) = r_key (vs S s)"
    and cmd: "bit cmd 0" "\<not> bit cmd 2" "bit cmd 1 = decr"
  shows "\<exists>d'. obind (poll C DMA_CMD_OFF (s\<lparr>dev := d\<rparr>)) (\<lambda>s.
         obind (poll C DMA_CMD_OFF (iowrite32 C cmd DMA_CMD_OFF s)) (\<lambda>s.
           let (bs, s) = memcpy_fromdma C h (unat (ucast n :: u32)) s;
               s = (if True then dma_free_coherent C h (ucast n) s else s)
           in Done (bs @ drop (unat (ucast n :: u32)) data, s))) =
      Done (op_result S decr data n s, s\<lparr>dev := d'\<rparr>) \<and>
      quiet (view S d') \<and> \<not> r_irq (view S d') \<and> r_key (view S d') = r_key (vs S s)"
proof -
  have q: "quiet (vs S (s\<lparr>dev := d\<rparr>))" "r_dma_len (vs S (s\<lparr>dev := d\<rparr>)) = ucast n"
    "unat (ucast n :: u32) \<le> card_buffer" "ucast (r_dma_addr (vs S (s\<lparr>dev := d\<rparr>))) = h"
    "mem_read h (unat (ucast n :: u32)) (r_host (vs S (s\<lparr>dev := d\<rparr>))) = take (unat (ucast n :: u32)) data"
    "unat (ucast n :: u32) \<le> length data" "\<not> r_irq (vs S (s\<lparr>dev := d\<rparr>))" "wq_flag (s\<lparr>dev := d\<rparr>) = 0"
    using v n rdy by (simp_all add: op_len_def ready_def)
  from dma_poll_op [OF ok q(1-7) cmd TrueI] show ?thesis
    unfolding op_result_def op_len_def v(6) [symmetric] by simp
qed

lemma dma_loaded_interrupt:
  assumes ok: "card_ok C S" "undisturbed C" and rdy: "ready S s"
    and n: "op_len n \<le> card_buffer" "op_len n \<le> length data"
    and v: "quiet (view S d)" "r_dma_len (view S d) = ucast n" "ucast (r_dma_addr (view S d)) = h"
      "mem_read h (unat (ucast n :: u32)) (r_host (view S d)) = take (op_len n) data"
      "r_irq (view S d) = r_irq (vs S s)" "r_key (view S d) = r_key (vs S s)"
    and cmd: "bit cmd 0" "bit cmd 2" "bit cmd 1 = decr"
  shows "\<exists>d'. obind (poll C DMA_CMD_OFF (s\<lparr>dev := d\<rparr>)) (\<lambda>s.
         obind (wait_event_interruptible C (iowrite32 C cmd DMA_CMD_OFF s)) (\<lambda>s.
           let s = s\<lparr>wq_flag := 0\<rparr>;
               (bs, s) = memcpy_fromdma C h (unat (ucast n :: u32)) s;
               s = (if True then dma_free_coherent C h (ucast n) s else s)
           in Done (bs @ drop (unat (ucast n :: u32)) data, s))) =
      Done (op_result S decr data n s, s\<lparr>dev := d'\<rparr>) \<and>
      quiet (view S d') \<and> \<not> r_irq (view S d') \<and> r_key (view S d') = r_key (vs S s)"
proof -
  have q: "quiet (vs S (s\<lparr>dev := d\<rparr>))" "r_dma_len (vs S (s\<lparr>dev := d\<rparr>)) = ucast n"
    "unat (ucast n :: u32) \<le> card_buffer" "ucast (r_dma_addr (vs S (s\<lparr>dev := d\<rparr>))) = h"
    "mem_read h (unat (ucast n :: u32)) (r_host (vs S (s\<lparr>dev := d\<rparr>))) = take (unat (ucast n :: u32)) data"
    "unat (ucast n :: u32) \<le> length data" "\<not> r_irq (vs S (s\<lparr>dev := d\<rparr>))" "wq_flag (s\<lparr>dev := d\<rparr>) = 0"
    using v n rdy by (simp_all add: op_len_def ready_def)
  from dma_interrupt_op [OF ok q(1-7) cmd q(8) TrueI] show ?thesis
    unfolding op_result_def op_len_def v(6) [symmetric] by simp
qed

lemma if_not_True: "(if \<not> True \<and> b then x else y) = y"
  by simp

lemma encryption_dma_poll_op: "card_op encryption_dma_poll False"
proof
  fix C :: "'d card" and S s and n :: u64 and data :: "u8 list"
  assume ok: "card_ok C S" "undisturbed C" and g: "grants C" and rdy: "ready S s"
    and n: "op_len n \<le> card_buffer" "op_len n \<le> length data"
  note ds = dma_setup [OF ok(1) g ready_quiet [OF rdy] length_take_op_len [OF n(2)]]
  obtain h d0 d where alloc: "dma_alloc_coherent C (ucast n) s = ((True, h), s\<lparr>dev := d0\<rparr>)"
    and d: "iowrite32 C (ucast h) DMA_ADDR_OFF (iowrite32 C (ucast n) DMA_DATA_LEN_OFF
       (memcpy_todma C h (take (op_len n) data) (s\<lparr>dev := d0\<rparr>))) = s\<lparr>dev := d\<rparr>"
    and v: "quiet (view S d)" "r_dma_len (view S d) = ucast n" "ucast (r_dma_addr (view S d)) = h"
      "mem_read h (unat (ucast n :: u32)) (r_host (view S d)) = take (op_len n) data"
      "r_irq (view S d) = r_irq (vs S s)" "r_key (view S d) = r_key (vs S s)"
    using ds by blast
  have "\<exists>d'. encryption_dma_poll C data n s = Done (op_result S False data n s, s\<lparr>dev := d'\<rparr>) \<and>
      quiet (view S d') \<and> \<not> r_irq (view S d') \<and> r_key (view S d') = r_key (vs S s)"
    unfolding encryption_dma_poll_def Let_def alloc prod.case d [unfolded op_len_def] if_not_True
    by (rule dma_loaded_poll [OF ok(1) rdy n v, unfolded Let_def]) simp_all
  then show "\<exists>d'. encryption_dma_poll C data n s = Done (op_result S False data n s, s\<lparr>dev := d'\<rparr>) \<and>
      ready S (s\<lparr>dev := d'\<rparr>) \<and> r_key (view S d') = r_key (vs S s)"
    using rdy by (auto simp: ready_def)
qed

lemma decryption_dma_poll_op: "card_op decryption_dma_poll True"
proof
  fix C :: "'d card" and S s and n :: u64 and data :: "u8 list"
  assume ok: "card_ok C S" "undisturbed C" and g: "grants C" and rdy: "ready S s"
    and n: "op_len n \<le> card_buffer" "op_len n \<le> length data"
  note ds = dma_setup [OF ok(1) g ready_quiet [OF rdy] length_take_op_len [OF n(2)]]
  obtain h d0 d where alloc: "dma_alloc_coherent C (ucast n) s = ((True, h), s\<lparr>dev := d0\<rparr>)"
    and d: "iowrite32 C (ucast h) DMA_ADDR_OFF (iowrite32 C (ucast n) DMA_DATA_LEN_OFF
       (memcpy_todma C h (take (op_len n) data) (s\<lparr>dev := d0\<rparr>))) = s\<lparr>dev := d\<rparr>"
    and v: "quiet (view S d)" "r_dma_len (view S d) = ucast n" "ucast (r_dma_addr (view S d)) = h"
      "mem_read h (unat (ucast n :: u32)) (r_host (view S d)) = take (op_len n) data"
      "r_irq (view S d) = r_irq (vs S s)" "r_key (view S d) = r_key (vs S s)"
    using ds by blast
  have "\<exists>d'. decryption_dma_poll C data n s = Done (op_result S True data n s, s\<lparr>dev := d'\<rparr>) \<and>
      quiet (view S d') \<and> \<not> r_irq (view S d') \<and> r_key (view S d') = r_key (vs S s)"
    unfolding decryption_dma_poll_def Let_def alloc prod.case d [unfolded op_len_def] if_not_True
    by (rule dma_loaded_poll [OF ok(1) rdy n v, unfolded Let_def]) simp_all
  then show "\<exists>d'. decryption_dma_poll C data n s = Done (op_result S True data n s, s\<lparr>dev := d'\<rparr>) \<and>
      ready S (s\<lparr>dev := d'\<rparr>) \<and> r_key (view S d') = r_key (vs S s)"
    using rdy by (auto simp: ready_def)
qed

lemma encryption_dma_interrupt_op: "card_op encryption_dma_interrupt False"
proof
  fix C :: "'d card" and S s and n :: u64 and data :: "u8 list"
  assume ok: "card_ok C S" "undisturbed C" and g: "grants C" and rdy: "ready S s"
    and n: "op_len n \<le> card_buffer" "op_len n \<le> length data"
  note ds = dma_setup [OF ok(1) g ready_quiet [OF rdy] length_take_op_len [OF n(2)]]
  obtain h d0 d where alloc: "dma_alloc_coherent C (ucast n) s = ((True, h), s\<lparr>dev := d0\<rparr>)"
    and d: "iowrite32 C (ucast h) DMA_ADDR_OFF (iowrite32 C (ucast n) DMA_DATA_LEN_OFF
       (memcpy_todma C h (take (op_len n) data) (s\<lparr>dev := d0\<rparr>))) = s\<lparr>dev := d\<rparr>"
    and v: "quiet (view S d)" "r_dma_len (view S d) = ucast n" "ucast (r_dma_addr (view S d)) = h"
      "mem_read h (unat (ucast n :: u32)) (r_host (view S d)) = take (op_len n) data"
      "r_irq (view S d) = r_irq (vs S s)" "r_key (view S d) = r_key (vs S s)"
    using ds by blast
  have "\<exists>d'. encryption_dma_interrupt C data n s = Done (op_result S False data n s, s\<lparr>dev := d'\<rparr>) \<and>
      quiet (view S d') \<and> \<not> r_irq (view S d') \<and> r_key (view S d') = r_key (vs S s)"
    unfolding encryption_dma_interrupt_def Let_def alloc prod.case d [unfolded op_len_def] if_not_True
    by (rule dma_loaded_interrupt [OF ok rdy n v, unfolded Let_def]) simp_all
  then show "\<exists>d'. encryption_dma_interrupt C data n s = Done (op_result S False data n s, s\<lparr>dev := d'\<rparr>) \<and>
      ready S (s\<lparr>dev := d'\<rparr>) \<and> r_key (view S d') = r_key (vs S s)"
    using rdy by (auto simp: ready_def)
qed

lemma decryption_dma_interrupt_op: "card_op decryption_dma_interrupt True"
proof
  fix C :: "'d card" and S s and n :: u64 and data :: "u8 list"
  assume ok: "card_ok C S" "undisturbed C" and g: "grants C" and rdy: "ready S s"
    and n: "op_len n \<le> card_buffer" "op_len n \<le> length data"
  note ds = dma_setup [OF ok(1) g ready_quiet [OF rdy] length_take_op_len [OF n(2)]]
  obtain h d0 d where alloc: "dma_alloc_coherent C (ucast n) s = ((True, h), s\<lparr>dev := d0\<rparr>)"
    and d: "iowrite32 C (ucast h) DMA_ADDR_OFF (iowrite32 C (ucast n) DMA_DATA_LEN_OFF
       (memcpy_todma C h (take (op_len n) data) (s\<lparr>dev := d0\<rparr>))) = s\<lparr>dev := d\<rparr>"
    and v: "quiet (view S d)" "r_dma_len (view S d) = ucast n" "ucast (r_dma_addr (view S d)) = h"
      "mem_read h (unat (ucast n :: u32)) (r_host (view S d)) = take (op_len n) data"
      "r_irq (view S d) = r_irq (vs S s)" "r_key (view S d) = r_key (vs S s)"
    using ds by blast
  have "\<exists>d'. decryption_dma_interrupt C data n s = Done (op_result S True data n s, s\<lparr>dev := d'\<rparr>) \<and>
      quiet (view S d') \<and> \<not> r_irq (view S d') \<and> r_key (view S d') = r_key (vs S s)"
    unfolding decryption_dma_interrupt_def Let_def alloc prod.case d [unfolded op_len_def] if_not_True
    by (rule dma_loaded_interrupt [OF ok rdy n v, unfolded Let_def]) simp_all
  then show "\<exists>d'. decryption_dma_interrupt C data n s = Done (op_result S True data n s, s\<lparr>dev := d'\<rparr>) \<and>
      ready S (s\<lparr>dev := d'\<rparr>) \<and> r_key (view S d') = r_key (vs S s)"
    using rdy by (auto simp: ready_def)
qed

text \<open>So the routine the handler picks keeps the contract, whatever the file's configuration.\<close>

interpretation encrypt: card_op "encrypt_op cfg" False for cfg
  by (simp add: encrypt_op_def encryption_mmio_poll_op encryption_mmio_interrupt_op
      encryption_dma_poll_op encryption_dma_interrupt_op)

interpretation decrypt: card_op "decrypt_op cfg" True for cfg
  by (simp add: decrypt_op_def decryption_mmio_poll_op decryption_mmio_interrupt_op
      decryption_dma_poll_op decryption_dma_interrupt_op)

interpretation both: card_pair "encrypt_op cfg" "decrypt_op cfg'" for cfg cfg'
  by unfold_locales

section \<open>Operations on mapped memory\<close>

text \<open>With the data area mapped into the caller, the first \<open>len\<close> bytes of it are transformed in place.\<close>

definition area_result :: "'d spec \<Rightarrow> bool \<Rightarrow> u64 \<Rightarrow> 'd cryptocard \<Rightarrow> nat \<Rightarrow> u8" where
  "area_result S decr n s i =
     (if i < op_len n then cipher S decr (r_key (vs S s)) (r_data (vs S s) i) else r_data (vs S s) i)"

locale card_mapped_op =
  fixes oper :: "'d card \<Rightarrow> u64 \<Rightarrow> 'd cryptocard \<Rightarrow> 'd cryptocard outcome"
    and decr :: bool
  assumes oper_correct:
    "card_ok C S \<Longrightarrow> undisturbed C \<Longrightarrow> ready S s \<Longrightarrow> op_len n \<le> card_buffer \<Longrightarrow>
     \<exists>d'. oper C n s = Done (s\<lparr>dev := d'\<rparr>) \<and> ready S (s\<lparr>dev := d'\<rparr>) \<and>
       r_key (view S d') = r_key (vs S s) \<and> r_data (view S d') = area_result S decr n s"

lemma mapped_poll:
  assumes ok: "card_ok C S" and rdy: "ready S s" and n: "op_len n \<le> card_buffer"
    and st: "\<not> bit st 7" "bit st 1 = decr"
    and t: "t = snd (ioread32 C MMDATA_LEN_OFF (iowrite32 C (ucast n) MMDATA_LEN_OFF (iowrite32 C st MMSTATUS_OFF s)))"
  shows "\<exists>d'. obind (poll C MMSTATUS_OFF t) (\<lambda>s. poll C MMSTATUS_OFF (iowrite32 C 0xa8 MMADDR_OFF s)) =
      Done (s\<lparr>dev := d'\<rparr>) \<and> ready S (s\<lparr>dev := d'\<rparr>) \<and>
      r_key (view S d') = r_key (vs S s) \<and> r_data (view S d') = area_result S decr n s"
proof -
  obtain d where d: "t = s\<lparr>dev := d\<rparr>" and v: "view S d = (vs S s)\<lparr>r_status := st AND NOT 1, r_len := ucast n\<rparr>"
    using mmap_setup [OF ok ready_quiet [OF rdy]] unfolding t by blast
  have "quiet (vs S t)" "unat (r_len (vs S t)) \<le> card_buffer"
    using rdy n by (simp_all add: d v ready_def quiet_def op_len_def)
  from run_mmio_poll [OF ok this] obtain d' where
    run: "obind (poll C MMSTATUS_OFF t) (\<lambda>s. poll C MMSTATUS_OFF (iowrite32 C 0xa8 MMADDR_OFF s)) = Done (s\<lparr>dev := d'\<rparr>)"
    and v': "view S d' = finish_mmio S ((vs S t)\<lparr>r_busy := True\<rparr>)"
    by (auto simp: d)
  have "ready S (s\<lparr>dev := d'\<rparr>)" "r_key (view S d') = r_key (vs S s)" "r_data (view S d') = area_result S decr n s"
    using rdy st by (auto simp: v' d v ready_def quiet_def finish_mmio_def area_result_def op_len_def bit_simps fun_eq_iff)
  with run show ?thesis by blast
qed

lemma mapped_wait:
  assumes ok: "card_ok C S" "undisturbed C" and rdy: "ready S s" and n: "op_len n \<le> card_buffer"
    and st: "bit st 7" "bit st 1 = decr"
    and t: "t = snd (ioread32 C MMDATA_LEN_OFF (iowrite32 C (ucast n) MMDATA_LEN_OFF (iowrite32 C st MMSTATUS_OFF s)))"
  shows "\<exists>d'. obind (poll C MMSTATUS_OFF t) (\<lambda>s. obind (wait_event_interruptible C (iowrite32 C 0xa8 MMADDR_OFF s))
        (\<lambda>s. Done (s\<lparr>wq_flag := 0\<rparr>))) =
      Done (s\<lparr>dev := d'\<rparr>) \<and> ready S (s\<lparr>dev := d'\<rparr>) \<and>
      r_key (view S d') = r_key (vs S s) \<and> r_data (view S d') = area_result S decr n s"
proof -
  obtain d where d: "t = s\<lparr>dev := d\<rparr>" and v: "view S d = (vs S s)\<lparr>r_status := st AND NOT 1, r_len := ucast n\<rparr>"
    using mmap_setup [OF ok(1) ready_quiet [OF rdy]] unfolding t by blast
  have "ready S t" "unat (r_len (vs S t)) \<le> card_buffer" "bit (r_status (vs S t)) 7"
    using rdy n st by (simp_all add: d v ready_def quiet_def op_len_def bit_simps)
  from run_mmio_wait [OF ok this] obtain d' where
    run: "obind (poll C MMSTATUS_OFF t) (\<lambda>s. wait_event_interruptible C (iowrite32 C 0xa8 MMADDR_OFF s)) =
      Done (s\<lparr>dev := d', wq_flag := 1\<rparr>)"
    and v': "view S d' = (finish_mmio S ((vs S t)\<lparr>r_busy := True\<rparr>))\<lparr>r_irq := False, r_isr := 0\<rparr>"
    by (auto simp: d)
  have "s\<lparr>dev := d', wq_flag := 0\<rparr> = s\<lparr>dev := d'\<rparr>" using rdy by (cases s) (simp add: ready_def)
  moreover have "ready S (s\<lparr>dev := d'\<rparr>)" "r_key (view S d') = r_key (vs S s)" "r_data (view S d') = area_result S decr n s"
    using rdy st by (auto simp: v' d v ready_def quiet_def finish_mmio_def area_result_def op_len_def bit_simps fun_eq_iff)
  ultimately show ?thesis unfolding obind_assoc run by auto
qed

lemma encryption_mmap_polling_op: "card_mapped_op encryption_mmap_polling False"
proof
  fix C :: "'d card" and S s and n :: u64
  assume ok: "card_ok C S" "undisturbed C" and rdy: "ready S s" and n: "op_len n \<le> card_buffer"
  show "\<exists>d'. encryption_mmap_polling C n s = Done (s\<lparr>dev := d'\<rparr>) \<and> ready S (s\<lparr>dev := d'\<rparr>) \<and>
      r_key (view S d') = r_key (vs S s) \<and> r_data (view S d') = area_result S False n s"
    unfolding encryption_mmap_polling_def Let_def
    by (rule mapped_poll [OF ok(1) rdy n _ _ refl]) simp_all
qed

lemma decryption_mmap_polling_op: "card_mapped_op decryption_mmap_polling True"
proof
  fix C :: "'d card" and S s and n :: u64
  assume ok: "card_ok C S" "undisturbed C" and rdy: "ready S s" and n: "op_len n \<le> card_buffer"
  show "\<exists>d'. decryption_mmap_polling C n s = Done (s\<lparr>dev := d'\<rparr>) \<and> ready S (s\<lparr>dev := d'\<rparr>) \<and>
      r_key (view S d') = r_key (vs S s) \<and> r_data (view S d') = area_result S True n s"
    unfolding decryption_mmap_polling_def Let_def
    by (rule mapped_poll [OF ok(1) rdy n _ _ refl]) simp_all
qed

lemma encryption_mmap_interrupt_op: "card_mapped_op encryption_mmap_interrupt False"
proof
  fix C :: "'d card" and S s and n :: u64
  assume ok: "card_ok C S" "undisturbed C" and rdy: "ready S s" and n: "op_len n \<le> card_buffer"
  show "\<exists>d'. encryption_mmap_interrupt C n s = Done (s\<lparr>dev := d'\<rparr>) \<and> ready S (s\<lparr>dev := d'\<rparr>) \<and>
      r_key (view S d') = r_key (vs S s) \<and> r_data (view S d') = area_result S False n s"
    unfolding encryption_mmap_interrupt_def Let_def
    by (rule mapped_wait [OF ok rdy n _ _ refl]) simp_all
qed

lemma decryption_mmap_interrupt_op: "card_mapped_op decryption_mmap_interrupt True"
proof
  fix C :: "'d card" and S s and n :: u64
  assume ok: "card_ok C S" "undisturbed C" and rdy: "ready S s" and n: "op_len n \<le> card_buffer"
  show "\<exists>d'. decryption_mmap_interrupt C n s = Done (s\<lparr>dev := d'\<rparr>) \<and> ready S (s\<lparr>dev := d'\<rparr>) \<and>
      r_key (view S d') = r_key (vs S s) \<and> r_data (view S d') = area_result S True n s"
    unfolding decryption_mmap_interrupt_def Let_def
    by (rule mapped_wait [OF ok rdy n _ _ refl]) simp_all
qed

interpretation encrypt_mapped: card_mapped_op "encrypt_mapped cfg" False for cfg
  by (simp add: encrypt_mapped_def encryption_mmap_polling_op encryption_mmap_interrupt_op)

interpretation decrypt_mapped: card_mapped_op "decrypt_mapped cfg" True for cfg
  by (simp add: decrypt_mapped_def decryption_mmap_polling_op decryption_mmap_interrupt_op)

end
