(* ===== verification/Cryptocard_Files.thy ===== *)
theory Cryptocard_Files
  imports Cryptocard_Ops
begin

text \<open>
  Correctness of the file operations of \<^verbatim>\<open>Assignment_3/drivers/cryptocard.c\<close>: what an \<^verbatim>\<open>ioctl\<close>
  returns and leaves behind on every branch, the service a sequence of requests on several open
  files gets (an abstract specification and a refinement), the spinlock that two branches never give
  back, and the life of the device from probe to removal.
\<close>

section \<open>One request\<close>

text \<open>The key register as the handler writes it, and the key the card reads from it.\<close>

definition key_word :: "cryptocard_config \<Rightarrow> u32" where
  "key_word cfg = push_bit 8 (ucast (conf_a cfg)) OR ucast (conf_b cfg)"

lemma key_word_parts [simp]: "key_a (key_word cfg) = conf_a cfg" "key_b (key_word cfg) = conf_b cfg"
  by (simp_all add: key_word_def key_a_def key_b_def bit_eq_iff bit_simps)
    (auto simp: bit_simps dest: bit_imp_le_length)

definition crypt :: "'d spec \<Rightarrow> bool \<Rightarrow> cryptocard_config \<Rightarrow> u8 \<Rightarrow> u8" where
  "crypt S decr cfg = (if decr then dec S else enc S) (conf_a cfg) (conf_b cfg)"

lemma cipher_key_word: "cipher S decr (key_word cfg) = crypt S decr cfg"
  by (simp add: cipher_def crypt_def fun_eq_iff)

text \<open>The state in which the chosen routine runs: lock taken, key loaded.\<close>

lemma locked_ready:
  assumes "card_ok C S" "ready S s"
  shows "ready S (iowrite32 C w KEY_OFF (s\<lparr>cc_spinlock := True\<rparr>))"
    "r_key (vs S (iowrite32 C w KEY_OFF (s\<lparr>cc_spinlock := True\<rparr>))) = w"
    "r_data (vs S (iowrite32 C w KEY_OFF (s\<lparr>cc_spinlock := True\<rparr>))) = r_data (vs S s)"
  using card_write(1) [OF assms(1), of "dev s" w] assms(2)
  by (simp_all add: ready_def iowrite32_def quiet_def)

lemma ready_kcalled [simp]: "ready S (kcalled c s) = ready S s" "vs S (kcalled c s) = vs S s"
  by (simp_all add: ready_def kcalled_def)

lemma ioctl_encrypt_copied:
  assumes C: "card_ok C S" "grants C" "undisturbed C" and s: "ready S s" "\<not> cc_spinlock s"
    and op: "isMapped ccop = 0" "unat (op_length ccop) \<le> card_buffer" "user_ok U (op_addr ccop) (op_length ccop)"
    and k: "k_alloc k (klog s) \<noteq> 0"
  shows "\<exists>d'. ioctl_encrypt C k U ccop cfg m s =
      Done (0, mem_write (op_addr ccop)
          (map (crypt S False cfg) (mem_read (op_addr ccop) (unat (op_length ccop)) m)) m,
        s\<lparr>klog := Kalloc (unat (op_length ccop + 1)) (k_alloc k (klog s)) # klog s, dev := d'\<rparr>) \<and>
      ready S (s\<lparr>dev := d'\<rparr>)"
proof -
  let ?s1 = "iowrite32 C (key_word cfg) KEY_OFF (s\<lparr>cc_spinlock := True\<rparr>)"
  let ?s2 = "kcalled (Kalloc (unat (op_length ccop + 1)) (k_alloc k (klog s))) ?s1"
  have s2: "ready S ?s2" "r_key (vs S ?s2) = key_word cfg"
    using locked_ready [OF C(1) s(1)] by simp_all
  have "fst (u_from U (op_addr ccop) (op_length ccop) m) = 0"
    "snd (u_from U (op_addr ccop) (op_length ccop) m) = mem_read (op_addr ccop) (unat (op_length ccop)) m"
    using op(3) by (simp_all add: user_ok_def)
  moreover have "?s2\<lparr>dev := d, cc_spinlock := False\<rparr> =
      s\<lparr>klog := Kalloc (unat (op_length ccop + 1)) (k_alloc k (klog s)) # klog s, dev := d\<rparr>" for d
    using s(2) by (cases s) (simp add: kcalled_def iowrite32_def)
  moreover have "klog ?s1 = klog s" by (simp add: iowrite32_def)
  moreover have "ready S (?s2\<lparr>dev := d\<rparr>) = ready S (s\<lparr>dev := d\<rparr>)" for d
    by (simp add: ready_dev kcalled_def iowrite32_def)
  ultimately show ?thesis
    using encrypt.copied_through [OF C s2(1) op(2,3), of cfg m] s op k
    unfolding ioctl_encrypt_def s2 cipher_key_word
    by (simp add: key_word_def kalloc_def case_prod_beta Let_def)
qed

lemma ioctl_decrypt_copied:
  assumes C: "card_ok C S" "grants C" "undisturbed C" and s: "ready S s" "\<not> cc_spinlock s"
    and op: "isMapped ccop = 0" "unat (op_length ccop) \<le> card_buffer" "user_ok U (op_addr ccop) (op_length ccop)"
    and k: "k_alloc k (klog s) \<noteq> 0"
  shows "\<exists>d'. ioctl_decrypt C k U ccop cfg m s =
      Done (0, mem_write (op_addr ccop)
          (map (crypt S True cfg) (mem_read (op_addr ccop) (unat (op_length ccop)) m)) m,
        s\<lparr>klog := Kalloc (unat (op_length ccop + 1)) (k_alloc k (klog s)) # klog s, dev := d'\<rparr>) \<and>
      ready S (s\<lparr>dev := d'\<rparr>)"
proof -
  let ?s1 = "iowrite32 C (key_word cfg) KEY_OFF (s\<lparr>cc_spinlock := True\<rparr>)"
  let ?s2 = "kcalled (Kalloc (unat (op_length ccop + 1)) (k_alloc k (klog s))) ?s1"
  have s2: "ready S ?s2" "r_key (vs S ?s2) = key_word cfg"
    using locked_ready [OF C(1) s(1)] by simp_all
  have "fst (u_from U (op_addr ccop) (op_length ccop) m) = 0"
    "snd (u_from U (op_addr ccop) (op_length ccop) m) = mem_read (op_addr ccop) (unat (op_length ccop)) m"
    using op(3) by (simp_all add: user_ok_def)
  moreover have "?s2\<lparr>dev := d, cc_spinlock := False\<rparr> =
      s\<lparr>klog := Kalloc (unat (op_length ccop + 1)) (k_alloc k (klog s)) # klog s, dev := d\<rparr>" for d
    using s(2) by (cases s) (simp add: kcalled_def iowrite32_def)
  moreover have "klog ?s1 = klog s" by (simp add: iowrite32_def)
  moreover have "ready S (?s2\<lparr>dev := d\<rparr>) = ready S (s\<lparr>dev := d\<rparr>)" for d
    by (simp add: ready_dev kcalled_def iowrite32_def)
  ultimately show ?thesis
    using decrypt.copied_through [OF C s2(1) op(2,3), of cfg m] s op k
    unfolding ioctl_decrypt_def s2 cipher_key_word
    by (simp add: key_word_def kalloc_def case_prod_beta Let_def)
qed

definition crypt_cmd :: "bool \<Rightarrow> u32" where
  "crypt_cmd decr = (if decr then DECRYPT else ENCRYPT)"

lemma cmds_distinct [simp]:
  "SET_KEY \<noteq> SET_CONFIG" "SET_KEY \<noteq> ENCRYPT" "SET_KEY \<noteq> DECRYPT" "SET_CONFIG \<noteq> ENCRYPT"
  "SET_CONFIG \<noteq> DECRYPT" "ENCRYPT \<noteq> DECRYPT" "SET_CONFIG \<noteq> SET_KEY" "ENCRYPT \<noteq> SET_KEY"
  "DECRYPT \<noteq> SET_KEY" "ENCRYPT \<noteq> SET_CONFIG" "DECRYPT \<noteq> SET_CONFIG" "DECRYPT \<noteq> ENCRYPT"
  by (simp_all add: cmd_defs)

lemma ioctl_crypt_cmd:
  "cryptocard_ioctl C k U (crypt_cmd decr) arg cfg m s =
     obind ((if decr then ioctl_decrypt else ioctl_encrypt) C k U (as_op arg) cfg m s)
       (\<lambda>(r, m, s). Done (r, cfg, m, s))"
  by (simp add: cryptocard_ioctl_def crypt_cmd_def)

lemma ioctl_copied:
  assumes "card_ok C S" "grants C" "undisturbed C" "ready S s" "\<not> cc_spinlock s"
    "isMapped (as_op arg) = 0" "unat (op_length (as_op arg)) \<le> card_buffer"
    "user_ok U (op_addr (as_op arg)) (op_length (as_op arg))" "k_alloc k (klog s) \<noteq> 0"
  shows "\<exists>d'. cryptocard_ioctl C k U (crypt_cmd decr) arg cfg m s =
      Done (0, cfg, mem_write (op_addr (as_op arg))
          (map (crypt S decr cfg) (mem_read (op_addr (as_op arg)) (unat (op_length (as_op arg))) m)) m,
        s\<lparr>klog := Kalloc (unat (op_length (as_op arg) + 1)) (k_alloc k (klog s)) # klog s, dev := d'\<rparr>) \<and>
      ready S (s\<lparr>dev := d'\<rparr>)"
proof (cases decr)
  case True
  from ioctl_decrypt_copied [OF assms, of cfg m] True show ?thesis
    unfolding ioctl_crypt_cmd by fastforce
next
  case False
  from ioctl_encrypt_copied [OF assms, of cfg m] False show ?thesis
    unfolding ioctl_crypt_cmd by fastforce
qed

text \<open>A card and a driver for examples: the cipher adds the first key byte.\<close>

definition ex_card :: "(regs \<times> nat) card" where
  "ex_card = sim_card (\<lambda>a b x. x + a) (\<lambda>a b x. x - a)"

definition ex_spec :: "(regs \<times> nat) spec" where
  "ex_spec = sim_spec (\<lambda>a b x. x + a) (\<lambda>a b x. x - a)"

definition ex_driver :: "(regs \<times> nat) cryptocard" where
  "ex_driver = \<lparr>major = 240, device_opened = 1, demo_class = 4096, demo_device = 8192, klog = [],
     cc_spinlock = False, wq_flag = 0, pdev_present = True, mmio_start = 0xfea00000, ccbar0 = 0x7000,
     cc_mmregion = 0x6000, dev = sim_reset\<rparr>"

definition ex_config :: "u8 \<Rightarrow> u8 \<Rightarrow> cryptocard_config" where
  "ex_config dma intr = \<lparr>conf_a = 3, conf_b = 5, conf_dma = dma, conf_interrupt = intr, isKeyset = 1, isConfigset = 1\<rparr>"

definition ex_arg :: "u8 \<Rightarrow> ioctl_arg" where
  "ex_arg mapped = \<lparr>as_key = \<lparr>key_field_a = 3, key_field_b = 5\<rparr>, as_config = \<lparr>mode_int_dma = 0, cfg_set = 1\<rparr>,
     as_op = \<lparr>op_addr = 0x4000, op_length = 2, isMapped = mapped\<rparr>\<rparr>"

lemma ex_card_ok [simp]: "card_ok ex_card ex_spec" "grants ex_card" "undisturbed ex_card"
  by (simp_all add: ex_card_def ex_spec_def sim_card_ok sim_card_kind)

lemma ex_ready [simp]: "ready ex_spec ex_driver" "\<not> cc_spinlock ex_driver" "klog ex_driver = []"
  by (simp_all add: ready_def ex_spec_def ex_driver_def sim_spec_def sim_reset_def quiet_def)

lemma ex_arg_ok [simp]:
  "isMapped (as_op (ex_arg b)) = b" "op_addr (as_op (ex_arg b)) = 0x4000" "op_length (as_op (ex_arg b)) = 2"
  "unat (op_length (as_op (ex_arg b))) \<le> card_buffer" "k_alloc granting [] = 16384"
  by (simp_all add: ex_arg_def card_buffer_def granting_def)

lemma ex_crypt [simp]: "crypt ex_spec decr (ex_config i j) x = (if decr then x - 3 else x + 3)"
  by (simp add: crypt_def ex_spec_def sim_spec_def ex_config_def)

lemma mem_read_two: "mem_read a 2 m = [m a, m (a + 1)]"
  by (simp add: mem_read_def numeral_2_eq_2)

text \<open>
  C4: An ENCRYPT or DECRYPT request on a user buffer of at most 32 KB that is mapped in the caller, on an
  idle card that keeps its documented behaviour and with memory granted, returns 0 with exactly the
  buffer replaced by the bytes the card's cipher gives under the key of that file, whichever of MMIO
  or DMA, polling or interrupt the file is configured for; the card is idle again, the spinlock
  free, and the kernel buffer of the request stays allocated.
\<close>

theorem ioctl_crypts_buffer:
  assumes "card_ok C S" "grants C" "undisturbed C" "ready S s" "\<not> cc_spinlock s"
    "isMapped (as_op arg) = 0" "unat (op_length (as_op arg)) \<le> card_buffer"
    "user_ok U (op_addr (as_op arg)) (op_length (as_op arg))" "k_alloc k (klog s) \<noteq> 0"
  shows "\<exists>s'. cryptocard_ioctl C k U (crypt_cmd decr) arg cfg m s =
      Done (0, cfg, mem_write (op_addr (as_op arg))
          (map (crypt S decr cfg) (mem_read (op_addr (as_op arg)) (unat (op_length (as_op arg))) m)) m, s') \<and>
      ready S s' \<and> \<not> cc_spinlock s' \<and> R_mem (k_alloc k (klog s)) \<in> live (klog s')"
proof -
  obtain d' where "cryptocard_ioctl C k U (crypt_cmd decr) arg cfg m s =
      Done (0, cfg, mem_write (op_addr (as_op arg))
          (map (crypt S decr cfg) (mem_read (op_addr (as_op arg)) (unat (op_length (as_op arg))) m)) m,
        s\<lparr>klog := Kalloc (unat (op_length (as_op arg) + 1)) (k_alloc k (klog s)) # klog s, dev := d'\<rparr>)"
    and "ready S (s\<lparr>dev := d'\<rparr>)"
    using ioctl_copied [OF assms] by blast
  then show ?thesis using assms(5,9) by (simp add: ready_def)
qed

theorem ioctl_crypts_buffer_witness:
  "\<exists>s'. cryptocard_ioctl ex_card granting flat_user DECRYPT (ex_arg 0) (ex_config 1 1) (\<lambda>_. 7) ex_driver =
      Done (0, ex_config 1 1, mem_write 0x4000 [4, 4] (\<lambda>_. 7), s') \<and> R_mem 16384 \<in> live (klog s')"
  using ioctl_crypts_buffer [of ex_card ex_spec ex_driver "ex_arg 0" flat_user granting True "ex_config 1 1" "\<lambda>_. 7"]
  by (simp add: crypt_cmd_def mem_read_two card_buffer_def) blast

section \<open>Requests on several files\<close>

record request =
  rq_file :: nat
  rq_cmd :: u32
  rq_arg :: ioctl_arg

text \<open>The driver serves the requests of its open files in the order in which they take the lock;
  each file has the configuration its \<^verbatim>\<open>open\<close> allocated.\<close>

fun serve ::
  "'d card \<Rightarrow> kapi \<Rightarrow> uaccess \<Rightarrow> request list \<Rightarrow> (nat \<Rightarrow> cryptocard_config) \<Rightarrow> mem \<Rightarrow> 'd cryptocard \<Rightarrow>
     (u64 list \<times> (nat \<Rightarrow> cryptocard_config) \<times> mem \<times> 'd cryptocard) outcome" where
  "serve C k U [] fs m s = Done ([], fs, m, s)"
| "serve C k U (r # rs) fs m s =
     obind (cryptocard_ioctl C k U (rq_cmd r) (rq_arg r) (fs (rq_file r)) m s) (\<lambda>(v, cfg, m, s).
     obind (serve C k U rs (fs(rq_file r := cfg)) m s) (\<lambda>(vs, t). Done (v # vs, t)))"

text \<open>
  What a user of the device relies on: every file has a key, SET_KEY changes that of its own file,
  ENCRYPT and DECRYPT transform the buffer under it, configuring the transfer mode is invisible, and
  other commands are refused.
\<close>

definition spec_step ::
  "'d spec \<Rightarrow> request \<Rightarrow> (nat \<Rightarrow> u8 \<times> u8) \<Rightarrow> mem \<Rightarrow> u64 \<times> (nat \<Rightarrow> u8 \<times> u8) \<times> mem" where
  "spec_step S r keys m =
     (let arg = rq_arg r; (a, b) = keys (rq_file r);
          apply_key = (\<lambda>f. mem_write (op_addr (as_op arg))
            (map (f a b) (mem_read (op_addr (as_op arg)) (unat (op_length (as_op arg))) m)) m)
      in if rq_cmd r = SET_KEY then
           (0, keys(rq_file r := (key_field_a (as_key arg), key_field_b (as_key arg))), m)
         else if rq_cmd r = SET_CONFIG then (0, keys, m)
         else if rq_cmd r = ENCRYPT then (0, keys, apply_key (enc S))
         else if rq_cmd r = DECRYPT then (0, keys, apply_key (dec S))
         else (- EINVAL, keys, m))"

fun spec_run ::
  "'d spec \<Rightarrow> request list \<Rightarrow> (nat \<Rightarrow> u8 \<times> u8) \<Rightarrow> mem \<Rightarrow> u64 list \<times> (nat \<Rightarrow> u8 \<times> u8) \<times> mem" where
  "spec_run S [] keys m = ([], keys, m)"
| "spec_run S (r # rs) keys m =
     (let (v, keys, m) = spec_step S r keys m; (vs, t) = spec_run S rs keys m in (v # vs, t))"

definition keys_of :: "(nat \<Rightarrow> cryptocard_config) \<Rightarrow> nat \<Rightarrow> u8 \<times> u8" where
  "keys_of fs = (\<lambda>f. (conf_a (fs f), conf_b (fs f)))"

text \<open>A request the contract covers: a mapped buffer of at most 32 KB, copied by the driver.\<close>

definition acceptable :: "uaccess \<Rightarrow> request \<Rightarrow> bool" where
  "acceptable U r \<longleftrightarrow> rq_cmd r \<noteq> ENCRYPT \<and> rq_cmd r \<noteq> DECRYPT \<or>
     isMapped (as_op (rq_arg r)) = 0 \<and> unat (op_length (as_op (rq_arg r))) \<le> card_buffer \<and>
     user_ok U (op_addr (as_op (rq_arg r))) (op_length (as_op (rq_arg r)))"

lemma ready_read: "card_ok C S \<Longrightarrow> ready S s \<Longrightarrow> ready S (snd (ioread32 C off s))"
  using card_read_quiet [of C S "dev s" off] by (simp add: ready_def ioread32_def case_prod_beta Let_def)

lemma ioread32_lock [simp]: "cc_spinlock (snd (ioread32 C off s)) = cc_spinlock s"
  by (simp add: ioread32_def case_prod_beta Let_def)

text \<open>One request: the driver's step and the specification's step agree.\<close>

lemma ioctl_refines:
  assumes C: "card_ok C S" "grants C" "undisturbed C" and s: "ready S s" "\<not> cc_spinlock s"
    and k: "\<And>l. k_alloc k l \<noteq> 0" and r: "acceptable U r"
  shows "\<exists>v cfg m' s'. cryptocard_ioctl C k U (rq_cmd r) (rq_arg r) (fs (rq_file r)) m s = Done (v, cfg, m', s') \<and>
      spec_step S r (keys_of fs) m = (v, keys_of (fs(rq_file r := cfg)), m') \<and> ready S s' \<and> \<not> cc_spinlock s'"
proof (cases "rq_cmd r = ENCRYPT \<or> rq_cmd r = DECRYPT")
  case True
  then obtain decr where cmd: "rq_cmd r = crypt_cmd decr" by (metis crypt_cmd_def)
  have a: "isMapped (as_op (rq_arg r)) = 0" "unat (op_length (as_op (rq_arg r))) \<le> card_buffer"
    "user_ok U (op_addr (as_op (rq_arg r))) (op_length (as_op (rq_arg r)))"
    using r True unfolding acceptable_def by auto
  from ioctl_copied [OF C s a k, of decr "fs (rq_file r)" m] s(2) show ?thesis
    unfolding cmd by (auto simp: spec_step_def keys_of_def crypt_def crypt_cmd_def cmd ready_def Let_def fun_eq_iff)
next
  case False
  then show ?thesis using s ready_read [OF C(1) s(1), of 0]
    by (auto simp: cryptocard_ioctl_def spec_step_def keys_of_def Let_def fun_eq_iff)
qed

text \<open>
  C1: The driver refines the service it is meant to give: for any interleaving of requests from
  any number of open files, as long as the card keeps its promises and every buffer is mapped and of
  at most 32 KB, all requests return, with the results and the user memory that the
  specification gives, in which a file's key is set by that file only, the transfer mode chosen is
  invisible, and unknown commands are refused with EINVAL.
\<close>

theorem serve_refines_spec:
  assumes C: "card_ok C S" "grants C" "undisturbed C" and s: "ready S s" "\<not> cc_spinlock s"
    and k: "\<And>l. k_alloc k l \<noteq> 0" and r: "list_all (acceptable U) rs"
  shows "\<exists>vs fs' m' s'. serve C k U rs fs m s = Done (vs, fs', m', s') \<and>
      spec_run S rs (keys_of fs) m = (vs, keys_of fs', m') \<and> ready S s' \<and> \<not> cc_spinlock s'"
  using s r
proof (induction rs arbitrary: fs m s)
  case Nil
  then show ?case by simp
next
  case (Cons r rs)
  then obtain v cfg m1 s1 where
    step: "cryptocard_ioctl C k U (rq_cmd r) (rq_arg r) (fs (rq_file r)) m s = Done (v, cfg, m1, s1)"
      "spec_step S r (keys_of fs) m = (v, keys_of (fs(rq_file r := cfg)), m1)"
    and s1: "ready S s1" "\<not> cc_spinlock s1"
    using ioctl_refines [OF C Cons.prems(1,2) k, of U r fs m] Cons.prems(3) by auto
  have rs: "list_all (acceptable U) rs" using Cons.prems(3) by simp
  from Cons.IH [OF s1 rs, of "fs(rq_file r := cfg)" m1] obtain vs fs' m' s' where
    "serve C k U rs (fs(rq_file r := cfg)) m1 s1 = Done (vs, fs', m', s')"
    "spec_run S rs (keys_of (fs(rq_file r := cfg))) m1 = (vs, keys_of fs', m')" "ready S s'" "\<not> cc_spinlock s'"
    by blast
  with step show ?case by simp
qed

theorem serve_refines_spec_witness:
  "\<exists>fs' s'. serve ex_card (granting\<lparr>k_alloc := \<lambda>_. 16384\<rparr>) flat_user
       [\<lparr>rq_file = 1, rq_cmd = SET_KEY, rq_arg = ex_arg 0\<rparr>, \<lparr>rq_file = 1, rq_cmd = ENCRYPT, rq_arg = ex_arg 0\<rparr>,
        \<lparr>rq_file = 2, rq_cmd = DECRYPT, rq_arg = ex_arg 0\<rparr>, \<lparr>rq_file = 2, rq_cmd = 0, rq_arg = ex_arg 0\<rparr>]
       (\<lambda>_. (ex_config 0 1)\<lparr>conf_a := 1\<rparr>) (\<lambda>_. 7) ex_driver =
     Done ([0, 0, 0, - EINVAL], fs', (\<lambda>_. 7)(0x4000 := 9, 0x4001 := 9), s')"
proof -
  let ?rs = "[\<lparr>rq_file = 1, rq_cmd = SET_KEY, rq_arg = ex_arg 0\<rparr>, \<lparr>rq_file = 1, rq_cmd = ENCRYPT, rq_arg = ex_arg 0\<rparr>,
    \<lparr>rq_file = 2, rq_cmd = DECRYPT, rq_arg = ex_arg 0\<rparr>, \<lparr>rq_file = 2, rq_cmd = 0, rq_arg = ex_arg 0\<rparr>]"
  let ?fs = "\<lambda>_. (ex_config 0 1)\<lparr>conf_a := 1\<rparr>"
  have ok: "list_all (acceptable flat_user) ?rs" by (simp add: acceptable_def card_buffer_def)
  have other: "0 \<noteq> SET_KEY" "0 \<noteq> SET_CONFIG" "0 \<noteq> ENCRYPT" "0 \<noteq> DECRYPT" by (simp_all add: cmd_defs)
  have "fst (spec_run ex_spec ?rs (keys_of ?fs) (\<lambda>_. 7)) = [0, 0, 0, - EINVAL] \<and>
      snd (snd (spec_run ex_spec ?rs (keys_of ?fs) (\<lambda>_. 7))) = (\<lambda>_. 7)(0x4000 := 9, 0x4001 := 9)"
    using other by (simp add: spec_step_def keys_of_def ex_config_def ex_spec_def sim_spec_def ex_arg_def mem_read_two)
  with serve_refines_spec [OF ex_card_ok ex_ready(1,2) _ ok, of "granting\<lparr>k_alloc := \<lambda>_. 16384\<rparr>" ?fs "\<lambda>_. 7"]
  show ?thesis by fastforce
qed

section \<open>The spinlock\<close>

lemma ioctl_encrypt_mapped:
  assumes C: "card_ok C S" "undisturbed C" and s: "ready S s" "\<not> cc_spinlock s"
    and op: "isMapped ccop \<noteq> 0" "op_len (op_length ccop) \<le> card_buffer"
  shows "\<exists>s'. ioctl_encrypt C k U ccop cfg m s = Done (0, m, s') \<and> cc_spinlock s' \<and> ready S s' \<and>
      r_data (vs S s') = (\<lambda>i. if i < op_len (op_length ccop) then crypt S False cfg (r_data (vs S s) i)
        else r_data (vs S s) i)"
proof -
  let ?s1 = "iowrite32 C (key_word cfg) KEY_OFF (s\<lparr>cc_spinlock := True\<rparr>)"
  note s1 = locked_ready [OF C(1) s(1), of "key_word cfg"]
  obtain d' where "encrypt_mapped cfg C (op_length ccop) ?s1 = Done (?s1\<lparr>dev := d'\<rparr>)" "ready S (?s1\<lparr>dev := d'\<rparr>)"
    "r_data (view S d') = area_result S False (op_length ccop) ?s1"
    using encrypt_mapped.oper_correct [OF C s1(1) op(2), of cfg] by blast
  moreover have "area_result S False (op_length ccop) ?s1 = (\<lambda>i. if i < op_len (op_length ccop)
      then crypt S False cfg (r_data (vs S s) i) else r_data (vs S s) i)"
    by (simp add: area_result_def s1 cipher_key_word fun_eq_iff)
  moreover have "cc_spinlock (?s1\<lparr>dev := d'\<rparr>)" by (simp add: iowrite32_def)
  ultimately show ?thesis using s op
    by (simp add: ioctl_encrypt_def key_word_def [symmetric])
qed

lemma ioctl_encrypt_fault:
  assumes C: "card_ok C S" "grants C" "undisturbed C" and s: "ready S s" "\<not> cc_spinlock s"
    and op: "isMapped ccop = 0" "op_len (op_length ccop) \<le> card_buffer"
      "op_len (op_length ccop) \<le> length (snd (u_from U (op_addr ccop) (op_length ccop) m))"
    and fail: "\<And>bs. fst (u_to U (op_addr ccop) bs m) \<noteq> 0" and k: "k_alloc k (klog s) \<noteq> 0"
  shows "\<exists>m' s'. ioctl_encrypt C k U ccop cfg m s = Done (EFAULT, m', s') \<and> cc_spinlock s'"
proof -
  let ?s1 = "iowrite32 C (key_word cfg) KEY_OFF (s\<lparr>cc_spinlock := True\<rparr>)"
  let ?s2 = "kcalled (Kalloc (unat (op_length ccop + 1)) (k_alloc k (klog s))) ?s1"
  have s2: "ready S ?s2" using locked_ready [OF C(1) s(1)] by simp
  show ?thesis using encrypt.copy_back_fails [OF C s2 op(2,3) fail, of cfg] s op(1) k
    by (auto simp: ioctl_encrypt_def key_word_def [symmetric] kalloc_def case_prod_beta Let_def kcalled_def iowrite32_def)
qed

lemma ioctl_decrypt_mapped:
  assumes C: "card_ok C S" "undisturbed C" and s: "ready S s" "\<not> cc_spinlock s"
    and op: "isMapped ccop \<noteq> 0" "op_len (op_length ccop) \<le> card_buffer"
  shows "\<exists>s'. ioctl_decrypt C k U ccop cfg m s = Done (0, m, s') \<and> cc_spinlock s' \<and> ready S s' \<and>
      r_data (vs S s') = (\<lambda>i. if i < op_len (op_length ccop) then crypt S True cfg (r_data (vs S s) i)
        else r_data (vs S s) i)"
proof -
  let ?s1 = "iowrite32 C (key_word cfg) KEY_OFF (s\<lparr>cc_spinlock := True\<rparr>)"
  note s1 = locked_ready [OF C(1) s(1), of "key_word cfg"]
  obtain d' where "decrypt_mapped cfg C (op_length ccop) ?s1 = Done (?s1\<lparr>dev := d'\<rparr>)" "ready S (?s1\<lparr>dev := d'\<rparr>)"
    "r_data (view S d') = area_result S True (op_length ccop) ?s1"
    using decrypt_mapped.oper_correct [OF C s1(1) op(2), of cfg] by blast
  moreover have "area_result S True (op_length ccop) ?s1 = (\<lambda>i. if i < op_len (op_length ccop)
      then crypt S True cfg (r_data (vs S s) i) else r_data (vs S s) i)"
    by (simp add: area_result_def s1 cipher_key_word fun_eq_iff)
  moreover have "cc_spinlock (?s1\<lparr>dev := d'\<rparr>)" by (simp add: iowrite32_def)
  ultimately show ?thesis using s op
    by (simp add: ioctl_decrypt_def key_word_def [symmetric])
qed

lemma ioctl_decrypt_fault:
  assumes C: "card_ok C S" "grants C" "undisturbed C" and s: "ready S s" "\<not> cc_spinlock s"
    and op: "isMapped ccop = 0" "op_len (op_length ccop) \<le> card_buffer"
      "op_len (op_length ccop) \<le> length (snd (u_from U (op_addr ccop) (op_length ccop) m))"
    and fail: "\<And>bs. fst (u_to U (op_addr ccop) bs m) \<noteq> 0" and k: "k_alloc k (klog s) \<noteq> 0"
  shows "\<exists>m' s'. ioctl_decrypt C k U ccop cfg m s = Done (EFAULT, m', s') \<and> cc_spinlock s'"
proof -
  let ?s1 = "iowrite32 C (key_word cfg) KEY_OFF (s\<lparr>cc_spinlock := True\<rparr>)"
  let ?s2 = "kcalled (Kalloc (unat (op_length ccop + 1)) (k_alloc k (klog s))) ?s1"
  have s2: "ready S ?s2" using locked_ready [OF C(1) s(1)] by simp
  show ?thesis using decrypt.copy_back_fails [OF C s2 op(2,3) fail, of cfg] s op(1) k
    by (auto simp: ioctl_decrypt_def key_word_def [symmetric] kalloc_def case_prod_beta Let_def kcalled_def iowrite32_def)
qed

lemma locked_hangs: "cc_spinlock s \<Longrightarrow> cryptocard_ioctl C k U (crypt_cmd decr) arg cfg m s = Hang"
  by (simp add: ioctl_crypt_cmd ioctl_encrypt_def ioctl_decrypt_def)

text \<open>
  A request on mapped memory (isMapped set) transforms the first bytes of the card's data area
  in place and returns 0, but never gives the spinlock back: every later ENCRYPT or DECRYPT request,
  of any file and any kind, never returns.
\<close>

lemma mapped_request_keeps_lock:
  assumes "card_ok C S" "undisturbed C" "ready S s" "\<not> cc_spinlock s"
    "isMapped (as_op arg) \<noteq> 0" "op_len (op_length (as_op arg)) \<le> card_buffer"
  shows "\<exists>s'. cryptocard_ioctl C k U (crypt_cmd decr) arg cfg m s = Done (0, cfg, m, s') \<and>
      r_data (vs S s') = (\<lambda>i. if i < op_len (op_length (as_op arg)) then crypt S decr cfg (r_data (vs S s) i)
        else r_data (vs S s) i) \<and>
      (\<forall>k' U' decr' arg' cfg' m'. cryptocard_ioctl C k' U' (crypt_cmd decr') arg' cfg' m' s' = Hang)"
proof -
  have "\<exists>s'. (if decr then ioctl_decrypt else ioctl_encrypt) C k U (as_op arg) cfg m s = Done (0, m, s') \<and>
      cc_spinlock s' \<and> r_data (vs S s') = (\<lambda>i. if i < op_len (op_length (as_op arg))
        then crypt S decr cfg (r_data (vs S s) i) else r_data (vs S s) i)"
    using ioctl_encrypt_mapped [OF assms, of k U cfg m] ioctl_decrypt_mapped [OF assms, of k U cfg m]
    by (cases decr) (auto cong: if_cong)
  then obtain s' where s': "cryptocard_ioctl C k U (crypt_cmd decr) arg cfg m s = Done (0, cfg, m, s')"
    "cc_spinlock s'" "r_data (vs S s') = (\<lambda>i. if i < op_len (op_length (as_op arg))
        then crypt S decr cfg (r_data (vs S s) i) else r_data (vs S s) i)"
    unfolding ioctl_crypt_cmd by auto
  with locked_hangs [OF s'(2)] show ?thesis by blast
qed

text \<open>
  C25: When copying the result back to the user fails, the handler returns the positive number EFAULT (14)
  with the spinlock held, and every later ENCRYPT or DECRYPT request never returns.
\<close>

theorem failed_copy_keeps_lock:
  assumes "card_ok C S" "grants C" "undisturbed C" "ready S s" "\<not> cc_spinlock s"
    "isMapped (as_op arg) = 0" "op_len (op_length (as_op arg)) \<le> card_buffer"
    "op_len (op_length (as_op arg)) \<le> length (snd (u_from U (op_addr (as_op arg)) (op_length (as_op arg)) m))"
    "\<And>bs. fst (u_to U (op_addr (as_op arg)) bs m) \<noteq> 0" "k_alloc k (klog s) \<noteq> 0"
  shows "\<exists>m' s'. cryptocard_ioctl C k U (crypt_cmd decr) arg cfg m s = Done (14, cfg, m', s') \<and>
      (\<forall>k' U' decr' arg' cfg' m'. cryptocard_ioctl C k' U' (crypt_cmd decr') arg' cfg' m' s' = Hang)"
proof -
  have "\<exists>m' s'. (if decr then ioctl_decrypt else ioctl_encrypt) C k U (as_op arg) cfg m s =
      Done (EFAULT, m', s') \<and> cc_spinlock s'"
    using ioctl_encrypt_fault [OF assms, of cfg] ioctl_decrypt_fault [OF assms, of cfg]
    by (cases decr) auto
  then obtain m' s' where s': "cryptocard_ioctl C k U (crypt_cmd decr) arg cfg m s = Done (14, cfg, m', s')"
    "cc_spinlock s'"
    unfolding ioctl_crypt_cmd by (auto simp: EFAULT_def)
  with locked_hangs [OF s'(2)] show ?thesis by blast
qed

theorem failed_copy_keeps_lock_witness:
  "\<exists>m' s'. cryptocard_ioctl ex_card granting (flat_user\<lparr>u_to := \<lambda>a bs m. (1, m)\<rparr>) ENCRYPT (ex_arg 0)
       (ex_config 1 0) (\<lambda>_. 7) ex_driver = Done (14, ex_config 1 0, m', s') \<and>
     cryptocard_ioctl ex_card granting flat_user ENCRYPT (ex_arg 0) (ex_config 1 0) m' s' = Hang"
proof -
  have len: "op_len 2 = 2" by (simp add: op_len_def)
  from failed_copy_keeps_lock [OF ex_card_ok ex_ready(1,2), of "ex_arg 0" "flat_user\<lparr>u_to := \<lambda>a bs m. (1, m)\<rparr>"
      "\<lambda>_. 7" granting False "ex_config 1 0"]
  obtain m' s' where "cryptocard_ioctl ex_card granting (flat_user\<lparr>u_to := \<lambda>a bs m. (1, m)\<rparr>) (crypt_cmd False)
      (ex_arg 0) (ex_config 1 0) (\<lambda>_. 7) ex_driver = Done (14, ex_config 1 0, m', s')"
    "cryptocard_ioctl ex_card granting flat_user (crypt_cmd False) (ex_arg 0) (ex_config 1 0) m' s' = Hang"
    by (auto simp: len card_buffer_def flat_user_def)
  then show ?thesis unfolding crypt_cmd_def by auto
qed

text \<open>
  Encrypting a buffer through one file and decrypting it through another that holds the same key,
  each in whatever transfer mode it is configured for, gives the caller's memory back unchanged, provided
  the card's decryption inverts its encryption under that key.
\<close>

lemma ioctl_round_trip:
  assumes C: "card_ok C S" "grants C" "undisturbed C" and s: "ready S s" "\<not> cc_spinlock s"
    and a: "isMapped (as_op arg) = 0" "unat (op_length (as_op arg)) \<le> card_buffer"
    "user_ok U (op_addr (as_op arg)) (op_length (as_op arg))" and k: "\<And>l. k_alloc k l \<noteq> 0"
    and key: "conf_a cfg = conf_a cfg'" "conf_b cfg = conf_b cfg'"
    and inv: "\<And>x. dec S (conf_a cfg) (conf_b cfg) (enc S (conf_a cfg) (conf_b cfg) x) = x"
  shows "\<exists>s'. obind (cryptocard_ioctl C k U ENCRYPT arg cfg m s) (\<lambda>(r, cfg, m, s).
      cryptocard_ioctl C k U DECRYPT arg cfg' m s) = Done (0, cfg', m, s') \<and> ready S s' \<and> \<not> cc_spinlock s'"
proof -
  let ?a = "op_addr (as_op arg)" and ?n = "unat (op_length (as_op arg))"
  let ?m1 = "mem_write ?a (map (crypt S False cfg) (mem_read ?a ?n m)) m"
  have "?n < 2 ^ 64" by (rule unat_u64)
  then have n: "?n \<le> 2 ^ 64" by simp
  obtain s1 where s1: "cryptocard_ioctl C k U (crypt_cmd False) arg cfg m s = Done (0, cfg, ?m1, s1)"
      "ready S s1" "\<not> cc_spinlock s1"
    using ioctl_copied [OF C s a k, of False cfg m] s(2) by (auto simp: ready_def)
  obtain s2 where s2: "cryptocard_ioctl C k U (crypt_cmd True) arg cfg' ?m1 s1 =
      Done (0, cfg', mem_write ?a (map (crypt S True cfg') (mem_read ?a ?n ?m1)) ?m1, s2)"
      "ready S s2" "\<not> cc_spinlock s2"
    using ioctl_copied [OF C s1(2,3) a k, of True cfg' ?m1] s1(3) by (auto simp: ready_def)
  have "mem_read ?a ?n ?m1 = map (crypt S False cfg) (mem_read ?a ?n m)"
    using mem_read_write_same [of "map (crypt S False cfg) (mem_read ?a ?n m)" ?a m] n by simp
  moreover have "map (crypt S True cfg') (map (crypt S False cfg) (mem_read ?a ?n m)) = mem_read ?a ?n m"
    using key inv by (simp add: crypt_def comp_def)
  ultimately have "mem_write ?a (map (crypt S True cfg') (mem_read ?a ?n ?m1)) ?m1 = m"
    using n by (simp add: mem_write_twice mem_write_read del: map_map)
  with s1 s2 show ?thesis unfolding crypt_cmd_def by auto
qed

section \<open>Settings\<close>

text \<open>
  SET_KEY stores both key bytes in the file's configuration and reads the card's identification;
  SET_CONFIG sets the interrupt mode (mode 0) or the DMA mode (any other mode) of the file to
  whatever byte is given and marks the file configured; any command but the four known ones is refused
  with EINVAL; none of them changes user memory, takes the lock or makes the card busy.
\<close>

lemma ioctl_settings:
  assumes "card_ok C S" "ready S s"
  shows "(\<exists>s'. cryptocard_ioctl C k U SET_KEY arg cfg m s =
        Done (0, cfg\<lparr>conf_a := key_field_a (as_key arg), conf_b := key_field_b (as_key arg), isKeyset := 1\<rparr>, m, s') \<and>
        ready S s' \<and> cc_spinlock s' = cc_spinlock s) \<and>
    (\<exists>cfg'. cryptocard_ioctl C k U SET_CONFIG arg cfg m s = Done (0, cfg', m, s) \<and>
        isConfigset cfg' \<noteq> 0 \<and> conf_a cfg' = conf_a cfg \<and> conf_b cfg' = conf_b cfg \<and>
        conf_interrupt cfg' = (if mode_int_dma (as_config arg) = 0 then cfg_set (as_config arg) else conf_interrupt cfg) \<and>
        conf_dma cfg' = (if mode_int_dma (as_config arg) = 0 then conf_dma cfg else cfg_set (as_config arg))) \<and>
    (cmd \<notin> {SET_KEY, SET_CONFIG, ENCRYPT, DECRYPT} \<longrightarrow>
        cryptocard_ioctl C k U cmd arg cfg m s = Done (- EINVAL, cfg, m, s))"
  using ready_read [OF assms, of 0] by (auto simp: cryptocard_ioctl_def Let_def)

section \<open>Opening and closing\<close>

text \<open>
  Opening the device gives the file its own configuration, with no key, no DMA and no interrupt, and
  closing it takes back the memory, the counter and the module reference; but an open that fails for
  lack of memory leaves the counter and the module reference one too high, with no file left to close.
\<close>

lemma open_and_close:
  assumes p: "p = k_alloc k (Try_module_get # klog s)" and fresh: "R_mem p \<notin> live (klog s)"
  shows "(p \<noteq> 0 \<longrightarrow> (\<exists>cfg s1 s2. cryptocard_fopen k ja jb s = (0, Some (p, cfg), s1) \<and>
        conf_dma cfg = 0 \<and> conf_interrupt cfg = 0 \<and> isKeyset cfg = 0 \<and> isConfigset cfg = 0 \<and>
        device_opened s1 = device_opened s + 1 \<and> cryptocard_frelease p s1 = (0, s2) \<and>
        device_opened s2 = device_opened s \<and> module_refs (klog s2) = module_refs (klog s) \<and>
        live (klog s2) = live (klog s))) \<and>
    (p = 0 \<longrightarrow> (\<exists>s1. cryptocard_fopen k ja jb s = (- 1, None, s1) \<and>
        device_opened s1 = device_opened s + 1 \<and> module_refs (klog s1) = module_refs (klog s) + 1))"
  using fresh unfolding p
  by (auto simp: cryptocard_fopen_def cryptocard_frelease_def kernel_defs module_refs_def Let_def)

text \<open>
  Mapping the device installs, uncached, exactly the pages from the start of BAR 0 plus the page offset
  the caller gives, for exactly the size of the caller's area; the driver compares neither with the length of the BAR, so
  an area may reach past the end of the card's registers.  When the kernel refuses, EAGAIN is returned and nothing is mapped;
  when the processor keeps the kernel from user pages, the read of the new mapping is a fault.
\<close>

lemma mmap_maps_bar:
  assumes aligned: "4096 dvd unat (mmio_start s)"
    and fits: "unat (mmio_start s) + unat (mm_pgoff vma) * 4096 < 2 ^ 64"
  shows "\<exists>pfn s'. unat pfn = unat (mmio_start s) div 4096 + unat (mm_pgoff vma) \<and>
    cryptocard_fmmap C user_readable bar_len io_remap vma s =
      (if io_remap (mm_start vma) pfn (mm_end vma - mm_start vma) \<noteq> 0 then Done (- EAGAIN, vma\<lparr>mm_noncached := True\<rparr>, None, s)
       else if \<not> user_readable (mm_start vma) then Oops
       else Done (0, vma\<lparr>mm_noncached := True\<rparr>, Some (mm_start vma, pfn, mm_end vma - mm_start vma), s'))"
proof -
  have "unat (push_bit 12 (mm_pgoff vma)) = unat (mm_pgoff vma) * 4096"
    using fits by (simp add: push_bit_eq_mult unat_mult_lem [THEN iffD1])
  then have "unat (mmio_start s + push_bit 12 (mm_pgoff vma)) = unat (mmio_start s) + unat (mm_pgoff vma) * 4096"
    using fits by (simp add: unat_add_lem [THEN iffD1])
  then have "unat (drop_bit 12 (mmio_start s + push_bit 12 (mm_pgoff vma))) =
      unat (mmio_start s) div 4096 + unat (mm_pgoff vma)"
    using aligned by (simp add: drop_bit_eq_div unat_div_distrib)
  then show ?thesis by (auto simp: cryptocard_fmmap_def Let_def)
qed

section \<open>Probe and removal\<close>

text \<open>A kernel that grants everything a probe asks for.\<close>

definition probe_granted :: "kapi \<Rightarrow> pciapi \<Rightarrow> bool" where
  "probe_granted k q \<longleftrightarrow> (\<forall>l. p_enable q l = 0 \<and> p_request_region q l = 0 \<and> p_ioremap q l \<noteq> 0 \<and>
     \<not> p_alloc_irq_vectors q l <s 0 \<and> p_request_irq q l = 0 \<and> k_alloc k l \<noteq> 0 \<and>
     \<not> k_register_chrdev k l <s 0 \<and> \<not> IS_ERR (k_class_create k l) \<and> \<not> IS_ERR (k_device_create k l))"

lemma probe_log:
  assumes "probe_granted k q"
  shows "\<exists>s1 d v. cryptocard_probe C k q s = Done (0, s1) \<and> cc_mmregion s1 \<noteq> 0 \<and> ccbar0 s1 \<noteq> 0 \<and>
    \<not> major s1 <s 0 \<and> \<not> IS_ERR (demo_class s1) \<and> \<not> IS_ERR d \<and> \<not> v <s 0 \<and>
    klog s1 = [Request_irq (ucast (ucast (p_irq_vector q) :: u8)) 0, Pci_alloc_irq_vectors v,
      Device_create (demo_class s1) (MKDEV (major s1) 0) DRIVER_NAME d, Class_create DRIVER_NAME (demo_class s1),
      Register_chrdev DRIVER_NAME (major s1), Pci_set_drvdata (cc_mmregion s1), Pci_set_master,
      Ioremap (p_resource_start q) (p_resource_len q) (ccbar0 s1), Kalloc 24 (cc_mmregion s1),
      Pci_request_region (p_select_bars q) 0, Pci_enable_device 0, Pci_enable_device 0] @ klog s"
  using assms unfolding probe_granted_def
  by (simp add: cryptocard_probe_def cryptocard_chardev_setup_def pci_defs kernel_defs iowrite32_def
      ioread32_def case_prod_beta Let_def)

definition pci_granting :: pciapi where
  "pci_granting = \<lparr>p_register = 0, p_present = True, p_enable = \<lambda>_. 0, p_select_bars = 1,
     p_request_region = \<lambda>_. 0, p_resource_start = 0xfea00000, p_resource_len = 0x100000,
     p_ioremap = \<lambda>_. 0x7000, p_alloc_irq_vectors = \<lambda>_. 1, p_irq_vector = 0x121, p_request_irq = \<lambda>_. 0\<rparr>"

lemma pci_granting_ok: "probe_granted (granting\<lparr>k_alloc := \<lambda>_. 0x6000\<rparr>) pci_granting"
  by (simp add: probe_granted_def pci_granting_def granting_def IS_ERR_def word_sless_alt)

lemma probe_remove_clean:
  assumes "probe_granted k q" "live (klog s) = {}" "well_used (klog s)"
  shows "\<exists>s1 s2. cryptocard_probe C k q s = Done (0, s1) \<and> cryptocard_remove q s1 = Done s2 \<and>
    live (klog s2) = {} \<and> well_used (klog s2) \<and> pci_enables (klog s2) = pci_enables (klog s) + 1 \<and>
    (\<exists>later l. klog s2 = later @ l \<and> R_irq (ucast (ucast (p_irq_vector q) :: u8)) \<in> live l \<and>
       R_iomap (ccbar0 s1) \<notin> live l \<and> R_mem (cc_mmregion s1) \<notin> live l)"
proof -
  let ?i = "ucast (ucast (p_irq_vector q) :: u8)"
  obtain s1 d v where s1: "cryptocard_probe C k q s = Done (0, s1)" "cc_mmregion s1 \<noteq> 0" "ccbar0 s1 \<noteq> 0"
    "\<not> major s1 <s 0" "\<not> IS_ERR (demo_class s1)" "\<not> IS_ERR d" "\<not> v <s 0"
    and log: "klog s1 = [Request_irq ?i 0, Pci_alloc_irq_vectors v,
      Device_create (demo_class s1) (MKDEV (major s1) 0) DRIVER_NAME d, Class_create DRIVER_NAME (demo_class s1),
      Register_chrdev DRIVER_NAME (major s1), Pci_set_drvdata (cc_mmregion s1), Pci_set_master,
      Ioremap (p_resource_start q) (p_resource_len q) (ccbar0 s1), Kalloc 24 (cc_mmregion s1),
      Pci_request_region (p_select_bars q) 0, Pci_enable_device 0, Pci_enable_device 0] @ klog s"
    using probe_log [OF assms(1), of C s] by (elim exE conjE)
  let ?l = "[Kfree (cc_mmregion s1), Iounmap (ccbar0 s1), Unregister_chrdev (major s1) DRIVER_NAME,
    Class_destroy (demo_class s1), Device_destroy (demo_class s1) (MKDEV (major s1) 0)] @ klog s1"
  let ?later = "[Pci_disable_device, Pci_release_region (p_select_bars q), Pci_clear_master, Pci_free_irq_vectors,
    Free_irq ?i]"
  let ?s2 = "s1\<lparr>klog := ?later @ ?l\<rparr>"
  have rem: "cryptocard_remove q s1 = Done ?s2"
    using s1 by (simp add: cryptocard_remove_def kcalled_def Let_def)
  have "live (klog ?s2) = {}" using s1 assms(2) by (simp add: log insert_Diff_if)
  moreover have "well_used (klog ?s2)" "pci_enables (klog ?s2) = pci_enables (klog s) + 1"
    "R_irq ?i \<in> live ?l" "R_iomap (ccbar0 s1) \<notin> live ?l" "R_mem (cc_mmregion s1) \<notin> live ?l"
    using s1 assms(2,3) by (simp_all add: log)
  moreover have "klog ?s2 = ?later @ ?l" by simp
  ultimately show ?thesis using s1(1) rem by blast
qed

text \<open>
  C40: When the kernel grants everything, probing succeeds and the removal gives back every object and releases none
  twice; but the device was enabled twice and is disabled once, so it stays enabled; and between the
  unmapping of the registers and the freeing of the interrupt the handler is still installed while
  the registers it reads are unmapped and the structure it takes their address from is freed.
\<close>

theorem probe_and_remove:
  assumes "probe_granted k q" "live (klog s) = {}" "well_used (klog s)"
  shows "\<exists>s1 s2. cryptocard_probe C k q s = Done (0, s1) \<and> cryptocard_remove q s1 = Done s2 \<and>
    live (klog s2) = {} \<and> well_used (klog s2) \<and> pci_enables (klog s2) = pci_enables (klog s) + 1 \<and>
    (\<exists>later l. klog s2 = later @ l \<and> R_irq (ucast (ucast (p_irq_vector q) :: u8)) \<in> live l \<and>
       R_iomap (ccbar0 s1) \<notin> live l \<and> R_mem (cc_mmregion s1) \<notin> live l)"
  by (rule probe_remove_clean [OF assms])

theorem probe_and_remove_witness:
  "\<exists>s1 s2. cryptocard_probe ex_card (granting\<lparr>k_alloc := \<lambda>_. 0x6000\<rparr>) pci_granting ex_driver = Done (0, s1) \<and>
    cryptocard_remove pci_granting s1 = Done s2 \<and> live (klog s2) = {} \<and> pci_enables (klog s2) = 1"
  using probe_and_remove [OF pci_granting_ok, of ex_driver ex_card] by auto

text \<open>
  The probe does not look at the result of its calls: without memory or without a mapping of the
  registers it dereferences a null pointer; when the character device cannot be registered it still
  reports success, and the removal then gives back a class and a device that were never created.
\<close>

lemma probe_ignores_errors:
  assumes "probe_granted k q" "live (klog s) = {}" "r <s 0"
  shows "cryptocard_probe C (k\<lparr>k_alloc := \<lambda>_. 0\<rparr>) q s = Oops \<and>
    cryptocard_probe C k (q\<lparr>p_ioremap := \<lambda>_. 0\<rparr>) s = Oops \<and>
    (\<exists>s1 s2. cryptocard_probe C (k\<lparr>k_register_chrdev := \<lambda>_. r\<rparr>) q s = Done (0, s1) \<and>
      cryptocard_remove q s1 = Done s2 \<and> \<not> well_used (klog s2))"
  using assms unfolding probe_granted_def
  by (simp add: cryptocard_probe_def cryptocard_remove_def cryptocard_chardev_setup_def pci_defs kernel_defs
      iowrite32_def ioread32_def case_prod_beta Let_def)

text \<open>Loading and unloading by way of the PCI core, as often as one likes.\<close>

interpretation cc_module: chrdev_module
  "\<lambda>k s. case cryptocard_entry C k q s of Done r \<Rightarrow> r | _ \<Rightarrow> (- 1, s)"
  "\<lambda>s. case cryptocard_exit q s of Done s \<Rightarrow> s | _ \<Rightarrow> s"
  klog "\<lambda>k s. probe_granted k q \<and> p_register q = 0" for C q
proof
  fix k and s s' :: "'a cryptocard"
  assume ini: "(case cryptocard_entry C k q s of Done r \<Rightarrow> r | _ \<Rightarrow> (- 1, s)) = (0, s')"
    and ok: "probe_granted k q \<and> p_register q = 0" and s: "live (klog s) = {}" "well_used (klog s)"
  obtain s1 s2 where "cryptocard_probe C k q s = Done (0, s1)" "cryptocard_remove q s1 = Done s2"
    "live (klog s2) = {}" "well_used (klog s2)"
    using probe_remove_clean [OF conjunct1 [OF ok] s, of C] by blast
  with ini ok s show "live (klog (case cryptocard_exit q s' of Done s \<Rightarrow> s | _ \<Rightarrow> s')) = {} \<and>
      well_used (klog (case cryptocard_exit q s' of Done s \<Rightarrow> s | _ \<Rightarrow> s'))"
    by (auto simp: cryptocard_entry_def cryptocard_exit_def split: if_splits)
qed

end
