(* ===== verification/Processes.thy ===== *)
theory Processes
  imports Cryptocard_Files
begin

text \<open>
  Several processes on the CryptoCard driver at once.  The handler of an ENCRYPT or DECRYPT request
  (\<^verbatim>\<open>cryptocard_ioctl\<close>) is cut at the places where another processor can see the difference: the spinning on the
  lock, the section that reads the file's settings, loads the key and copies the buffer in, the transfer, the
  copy out, and the release of the lock.  A step of the system is one such piece by one process, a request that takes no
  lock, or a store of a program to its own memory; every process has a memory of its own.
\<close>

section \<open>The pieces of the handler\<close>

definition the_op :: "request \<Rightarrow> cc_op" where
  "the_op r = as_op (rq_arg r)"

definition decrypts :: "request \<Rightarrow> bool" where
  "decrypts r \<longleftrightarrow> rq_cmd r = DECRYPT"

text \<open>Load the key.\<close>

definition load_key :: "'d card \<Rightarrow> cryptocard_config \<Rightarrow> 'd cryptocard \<Rightarrow> 'd cryptocard" where
  "load_key C rconfig s = iowrite32 C (push_bit 8 (ucast (conf_a rconfig)) OR ucast (conf_b rconfig)) KEY_OFF s"

text \<open>Allocate the kernel buffer and fill it.\<close>

definition copy_in ::
  "kapi \<Rightarrow> uaccess \<Rightarrow> cc_op \<Rightarrow> mem \<Rightarrow> 'd cryptocard \<Rightarrow> (u8 list \<times> 'd cryptocard) outcome" where
  "copy_in k U ccop m s =
     (let (p, s) = kalloc k (unat (op_length ccop + 1)) s
      in if p = 0 \<and> op_length ccop \<noteq> 0 then Oops
         else Done (snd (u_from U (op_addr ccop) (op_length ccop) m), s))"

definition transfer ::
  "bool \<Rightarrow> cryptocard_config \<Rightarrow> 'd card \<Rightarrow> u8 list \<Rightarrow> u64 \<Rightarrow> 'd cryptocard \<Rightarrow> (u8 list \<times> 'd cryptocard) outcome" where
  "transfer decr rconfig = (if decr then decrypt_op rconfig else encrypt_op rconfig)"

definition mapped_transfer :: "bool \<Rightarrow> cryptocard_config \<Rightarrow> 'd card \<Rightarrow> u64 \<Rightarrow> 'd cryptocard \<Rightarrow> 'd cryptocard outcome" where
  "mapped_transfer decr rconfig = (if decr then decrypt_mapped rconfig else encrypt_mapped rconfig)"

text \<open>Run one after the other they are the handler.\<close>

lemma pieces_are_handler:
  "(if decr then ioctl_decrypt else ioctl_encrypt) C k U ccop cfg m s =
     (if cc_spinlock s then Hang
      else
        (let s = load_key C cfg (s\<lparr>cc_spinlock := True\<rparr>)
         in if isMapped ccop = 0 then
              obind (copy_in k U ccop m s) (\<lambda>(buff, s).
              obind (transfer decr cfg C buff (op_length ccop) s) (\<lambda>(buff, s).
                let (left, m) = u_to U (op_addr ccop) buff m
                in if left \<noteq> 0 then Done (EFAULT, m, s) else Done (0, m, s\<lparr>cc_spinlock := False\<rparr>)))
            else obind (mapped_transfer decr cfg C (op_length ccop) s) (\<lambda>s. Done (0, m, s))))"
  by (simp add: ioctl_encrypt_def ioctl_decrypt_def load_key_def copy_in_def transfer_def mapped_transfer_def
      case_prod_beta Let_def)

section \<open>The system\<close>

text \<open>Where a process is: in its program, spinning, or holding the lock with the settings it read, its memory at that time
  and the kernel buffer.\<close>

datatype phase =
  Program
| Spinning request
| Entered request
| Working request cryptocard_config mem "u8 list"
| Finished request cryptocard_config mem "u8 list"
| Leaving request cryptocard_config mem

text \<open>A request that was served: who, what, under which settings, and the memory before and after.\<close>

record event =
  ev_pid :: nat
  ev_req :: request
  ev_conf :: cryptocard_config
  ev_before :: mem
  ev_after :: mem

record 'd world =
  w_drv :: "'d cryptocard"
  w_conf :: "nat \<Rightarrow> cryptocard_config"
  w_mem :: "nat \<Rightarrow> mem"
  w_phase :: "nat \<Rightarrow> phase"
  w_past :: "event list"

definition moves :: "nat \<Rightarrow> phase \<Rightarrow> 'd world \<Rightarrow> 'd world" where
  "moves p ph w = w\<lparr>w_phase := (w_phase w)(p := ph)\<rparr>"

inductive step :: "'d card \<Rightarrow> kapi \<Rightarrow> uaccess \<Rightarrow> (request \<Rightarrow> bool) \<Rightarrow> 'd world \<Rightarrow> 'd world \<Rightarrow> bool"
  for C :: "'d card" and k :: kapi and U :: uaccess and ok :: "request \<Rightarrow> bool" where
  compute: "w_phase w p = Program \<Longrightarrow> step C k U ok w (w\<lparr>w_mem := (w_mem w)(p := m)\<rparr>)"
| settings: "w_phase w p = Program \<Longrightarrow> ok r \<Longrightarrow> rq_cmd r \<noteq> ENCRYPT \<Longrightarrow> rq_cmd r \<noteq> DECRYPT \<Longrightarrow>
    cryptocard_ioctl C k U (rq_cmd r) (rq_arg r) (w_conf w (rq_file r)) (w_mem w p) (w_drv w) = Done (v, cfg, m, s) \<Longrightarrow>
    step C k U ok w (w\<lparr>w_drv := s, w_conf := (w_conf w)(rq_file r := cfg), w_mem := (w_mem w)(p := m)\<rparr>)"
| call: "w_phase w p = Program \<Longrightarrow> ok r \<Longrightarrow> rq_cmd r = ENCRYPT \<or> rq_cmd r = DECRYPT \<Longrightarrow>
    step C k U ok w (moves p (Spinning r) w)"
| acquire: "w_phase w p = Spinning r \<Longrightarrow> \<not> cc_spinlock (w_drv w) \<Longrightarrow>
    step C k U ok w (moves p (Entered r) (w\<lparr>w_drv := (w_drv w)\<lparr>cc_spinlock := True\<rparr>\<rparr>))"
| begin_copied: "w_phase w p = Entered r \<Longrightarrow> isMapped (the_op r) = 0 \<Longrightarrow>
    copy_in k U (the_op r) (w_mem w p) (load_key C (w_conf w (rq_file r)) (w_drv w)) = Done (buff, s) \<Longrightarrow>
    step C k U ok w (moves p (Working r (w_conf w (rq_file r)) (w_mem w p) buff) (w\<lparr>w_drv := s\<rparr>))"
| run_mapped: "w_phase w p = Entered r \<Longrightarrow> isMapped (the_op r) \<noteq> 0 \<Longrightarrow>
    mapped_transfer (decrypts r) (w_conf w (rq_file r)) C (op_length (the_op r))
      (load_key C (w_conf w (rq_file r)) (w_drv w)) = Done s \<Longrightarrow>
    step C k U ok w (moves p Program (w\<lparr>w_drv := s\<rparr>))"
| run_transfer: "w_phase w p = Working r cfg m0 buff \<Longrightarrow>
    transfer (decrypts r) cfg C buff (op_length (the_op r)) (w_drv w) = Done (buff', s) \<Longrightarrow>
    step C k U ok w (moves p (Finished r cfg m0 buff') (w\<lparr>w_drv := s\<rparr>))"
| copy_out: "w_phase w p = Finished r cfg m0 buff \<Longrightarrow> u_to U (op_addr (the_op r)) buff (w_mem w p) = (0, m) \<Longrightarrow>
    step C k U ok w (moves p (Leaving r cfg m0) (w\<lparr>w_mem := (w_mem w)(p := m)\<rparr>))"
| copy_fails: "w_phase w p = Finished r cfg m0 buff \<Longrightarrow> u_to U (op_addr (the_op r)) buff (w_mem w p) = (left, m) \<Longrightarrow> left \<noteq> 0 \<Longrightarrow>
    step C k U ok w (moves p Program (w\<lparr>w_mem := (w_mem w)(p := m)\<rparr>))"
| release: "w_phase w p = Leaving r cfg m0 \<Longrightarrow>
    step C k U ok w (moves p Program (w\<lparr>w_drv := (w_drv w)\<lparr>cc_spinlock := False\<rparr>,
      w_past := \<lparr>ev_pid = p, ev_req = r, ev_conf = cfg, ev_before = m0, ev_after = w_mem w p\<rparr> # w_past w\<rparr>))"

inductive reachable_from :: "'d card \<Rightarrow> kapi \<Rightarrow> uaccess \<Rightarrow> (request \<Rightarrow> bool) \<Rightarrow> 'd world \<Rightarrow> 'd world \<Rightarrow> bool"
  for C :: "'d card" and k :: kapi and U :: uaccess and ok :: "request \<Rightarrow> bool" and w0 :: "'d world" where
  start: "reachable_from C k U ok w0 w0"
| further: "reachable_from C k U ok w0 w \<Longrightarrow> step C k U ok w w' \<Longrightarrow> reachable_from C k U ok w0 w'"

lemma moves_simps [simp]:
  "w_drv (moves p ph w) = w_drv w" "w_conf (moves p ph w) = w_conf w" "w_mem (moves p ph w) = w_mem w"
  "w_past (moves p ph w) = w_past w" "w_phase (moves p ph w) q = (if q = p then ph else w_phase w q)"
  by (simp_all add: moves_def)

section \<open>What each piece does\<close>

definition effect :: "'d spec \<Rightarrow> request \<Rightarrow> cryptocard_config \<Rightarrow> mem \<Rightarrow> mem" where
  "effect S r cfg m = mem_write (op_addr (the_op r))
     (map (crypt S (decrypts r) cfg) (mem_read (op_addr (the_op r)) (unat (op_length (the_op r))) m)) m"

definition copied :: "uaccess \<Rightarrow> request \<Rightarrow> bool" where
  "copied U r \<longleftrightarrow> isMapped (the_op r) = 0 \<and> unat (op_length (the_op r)) \<le> card_buffer \<and>
     user_ok U (op_addr (the_op r)) (op_length (the_op r))"

lemma acceptable_copied: "acceptable U r \<Longrightarrow> rq_cmd r = ENCRYPT \<or> rq_cmd r = DECRYPT \<Longrightarrow> copied U r"
  by (auto simp: acceptable_def copied_def the_op_def)

lemma settings_effect:
  assumes "cryptocard_ioctl C k U cmd arg cfg m s = Done (v, cfg', m', s')" "cmd \<noteq> ENCRYPT" "cmd \<noteq> DECRYPT"
    "card_ok C S" "ready S s"
  shows "m' = m \<and> vs S s' = vs S s \<and> cc_spinlock s' = cc_spinlock s \<and> ready S s'"
proof -
  have "vs S (snd (ioread32 C 0 s)) = vs S s"
    using card_read_quiet [OF assms(4), of "dev s" 0] assms(5) by (simp add: ready_def ioread32_def case_prod_beta Let_def)
  then show ?thesis using assms ready_read [OF assms(4,5), of 0]
    by (auto simp: cryptocard_ioctl_def Let_def split: if_splits)
qed

lemma load_key_ready:
  assumes "card_ok C S" "ready S s"
  shows "ready S (load_key C cfg s)" "r_key (vs S (load_key C cfg s)) = key_word cfg" "cc_spinlock (load_key C cfg s) = cc_spinlock s"
  using card_write(1) [OF assms(1), of "dev s" "key_word cfg"] assms(2)
  by (simp_all add: load_key_def key_word_def [symmetric] ready_def iowrite32_def quiet_def)

lemma copy_in_effect:
  assumes "copy_in k U (the_op r) m s = Done (buff, s')" "copied U r"
  shows "buff = mem_read (op_addr (the_op r)) (unat (op_length (the_op r))) m \<and> vs S s' = vs S s \<and>
    cc_spinlock s' = cc_spinlock s \<and> ready S s' = ready S s"
  using assms by (auto simp: copy_in_def kalloc_def kcalled_def copied_def user_ok_def ready_def Let_def split: if_splits)

lemma transfer_effect:
  assumes C: "card_ok C S" "grants C" "undisturbed C" and s: "ready S s" "r_key (vs S s) = key_word cfg"
    and n: "unat n \<le> card_buffer" "length buff = unat n"
  shows "\<exists>s'. transfer decr cfg C buff n s = Done (map (crypt S decr cfg) buff, s') \<and> ready S s' \<and> cc_spinlock s' = cc_spinlock s"
proof -
  have len: "op_len n = unat n" using n(1) by (simp add: op_len_def card_buffer_def unsigned_ucast_eq take_bit_eq_mod)
  have "\<exists>d'. transfer decr cfg C buff n s = Done (op_result S decr buff n s, s\<lparr>dev := d'\<rparr>) \<and> ready S (s\<lparr>dev := d'\<rparr>)"
    using encrypt.oper_correct [OF C s(1), of n buff cfg] decrypt.oper_correct [OF C s(1), of n buff cfg] n len
    by (cases decr) (auto simp: transfer_def)
  moreover have "op_result S decr buff n s = map (crypt S decr cfg) buff"
    using n(2) len s(2) by (simp add: op_result_def cipher_key_word)
  ultimately show ?thesis by force
qed

section \<open>The invariant\<close>

fun inside :: "phase \<Rightarrow> bool" where
  "inside Program = False"
| "inside (Spinning r) = False"
| "inside _ = True"

text \<open>What holds of a process, given the driver and its memory.\<close>

fun phase_ok :: "'d spec \<Rightarrow> uaccess \<Rightarrow> 'd cryptocard \<Rightarrow> mem \<Rightarrow> phase \<Rightarrow> bool" where
  "phase_ok S U s m Program = True"
| "phase_ok S U s m (Spinning r) = copied U r"
| "phase_ok S U s m (Entered r) = copied U r"
| "phase_ok S U s m (Working r cfg m0 buff) = (copied U r \<and> m0 = m \<and> r_key (vs S s) = key_word cfg \<and>
     buff = mem_read (op_addr (the_op r)) (unat (op_length (the_op r))) m)"
| "phase_ok S U s m (Finished r cfg m0 buff) = (copied U r \<and> m0 = m \<and>
     buff = map (crypt S (decrypts r) cfg) (mem_read (op_addr (the_op r)) (unat (op_length (the_op r))) m))"
| "phase_ok S U s m (Leaving r cfg m0) = (m = effect S r cfg m0)"

definition exclusive :: "'d world \<Rightarrow> bool" where
  "exclusive w \<longleftrightarrow> (cc_spinlock (w_drv w) \<longleftrightarrow> (\<exists>p. inside (w_phase w p))) \<and>
     (\<forall>p q. inside (w_phase w p) \<and> inside (w_phase w q) \<longrightarrow> p = q)"

definition served :: "'d spec \<Rightarrow> 'd world \<Rightarrow> bool" where
  "served S w \<longleftrightarrow> (\<forall>e \<in> set (w_past w). ev_after e = effect S (ev_req e) (ev_conf e) (ev_before e))"

definition world_inv :: "'d spec \<Rightarrow> uaccess \<Rightarrow> 'd world \<Rightarrow> bool" where
  "world_inv S U w \<longleftrightarrow> ready S (w_drv w) \<and> exclusive w \<and> served S w \<and> (\<forall>p. phase_ok S U (w_drv w) (w_mem w p) (w_phase w p))"

text \<open>A process outside does not depend on the card, and the key only matters to the one inside.\<close>

lemma phase_ok_cong:
  "phase_ok S U s m ph \<Longrightarrow> r_key (vs S s') = r_key (vs S s) \<or> \<not> inside ph \<Longrightarrow> phase_ok S U s' m ph"
  by (cases ph) simp_all

text \<open>A step of the process inside: the others are outside, so only its own phase and the driver matter.\<close>

lemma inv_inside:
  assumes "world_inv S U w" "inside (w_phase w p)" "ready S s" "cc_spinlock s" "inside ph" "phase_ok S U s m ph"
  shows "world_inv S U (moves p ph (w\<lparr>w_drv := s, w_mem := (w_mem w)(p := m)\<rparr>))"
proof -
  have out: "\<not> inside (w_phase w q)" if "q \<noteq> p" for q
    using assms(1,2) that unfolding world_inv_def exclusive_def by blast
  have others: "phase_ok S U s (w_mem w q) (w_phase w q)" if "q \<noteq> p" for q
  proof (rule phase_ok_cong)
    show "phase_ok S U (w_drv w) (w_mem w q) (w_phase w q)" using assms(1) by (simp add: world_inv_def)
  qed (simp add: out [OF that])
  let ?w = "moves p ph (w\<lparr>w_drv := s, w_mem := (w_mem w)(p := m)\<rparr>)"
  have ex: "exclusive ?w"
  proof -
    have "inside (w_phase ?w q) \<longleftrightarrow> q = p" for q using out [of q] assms(5) by simp
    then show ?thesis using assms(4) by (simp add: exclusive_def)
  qed
  moreover have "phase_ok S U (w_drv ?w) (w_mem ?w q) (w_phase ?w q)" for q
    using others [of q] assms(6) by (cases "q = p") simp_all
  moreover have "served S ?w" using assms(1) by (simp add: world_inv_def served_def)
  ultimately show ?thesis using assms(3) by (simp add: world_inv_def)
qed

text \<open>A step of a process outside that leaves the lock and the key alone.\<close>

lemma inv_outside:
  assumes "world_inv S U w" "\<not> inside (w_phase w p)" "ready S s" "cc_spinlock s = cc_spinlock (w_drv w)" "vs S s = vs S (w_drv w)"
    "\<not> inside ph" "phase_ok S U s m ph"
  shows "world_inv S U (moves p ph (w\<lparr>w_drv := s, w_conf := c, w_mem := (w_mem w)(p := m)\<rparr>))"
proof -
  let ?w = "moves p ph (w\<lparr>w_drv := s, w_conf := c, w_mem := (w_mem w)(p := m)\<rparr>)"
  have ins: "inside (w_phase ?w q) = inside (w_phase w q)" for q using assms(2,6) by simp
  have "exclusive w" using assms(1) by (simp add: world_inv_def)
  then have "exclusive ?w" unfolding exclusive_def ins using assms(4) by simp
  moreover have "phase_ok S U (w_drv ?w) (w_mem ?w q) (w_phase ?w q)" for q
  proof (cases "q = p")
    case True
    then show ?thesis using assms(7) by simp
  next
    case False
    have "phase_ok S U (w_drv w) (w_mem w q) (w_phase w q)" using assms(1) by (simp add: world_inv_def)
    then have "phase_ok S U s (w_mem w q) (w_phase w q)" by (rule phase_ok_cong) (simp add: assms(5))
    with False show ?thesis by simp
  qed
  moreover have "served S ?w" using assms(1) by (simp add: world_inv_def served_def)
  ultimately show ?thesis using assms(3) by (simp add: world_inv_def)
qed

text \<open>Taking the lock, when nobody is inside, and giving it back.\<close>

lemma inv_acquire:
  assumes "world_inv S U w" "w_phase w p = Spinning r" "\<not> cc_spinlock (w_drv w)"
  shows "world_inv S U (moves p (Entered r) (w\<lparr>w_drv := (w_drv w)\<lparr>cc_spinlock := True\<rparr>\<rparr>))"
proof -
  let ?w = "moves p (Entered r) (w\<lparr>w_drv := (w_drv w)\<lparr>cc_spinlock := True\<rparr>\<rparr>)"
  have out: "\<not> inside (w_phase w q)" for q using assms(1,3) unfolding world_inv_def exclusive_def by blast
  then have "inside (w_phase ?w q) \<longleftrightarrow> q = p" for q by simp
  then have "exclusive ?w" by (simp add: exclusive_def)
  moreover have ph: "phase_ok S U (w_drv w) (w_mem w q) (w_phase w q)" for q using assms(1) by (simp add: world_inv_def)
  have "phase_ok S U (w_drv ?w) (w_mem ?w q) (w_phase ?w q)" for q
  proof (cases "q = p")
    case True
    then show ?thesis using ph [of p] assms(2) by simp
  next
    case False
    have "phase_ok S U ((w_drv w)\<lparr>cc_spinlock := True\<rparr>) (w_mem w q) (w_phase w q)" by (rule phase_ok_cong [OF ph]) simp
    with False show ?thesis by simp
  qed
  moreover have "served S ?w" "ready S (w_drv ?w)" using assms(1) by (simp_all add: world_inv_def served_def ready_def)
  ultimately show ?thesis by (simp add: world_inv_def)
qed

lemma inv_release:
  assumes "world_inv S U w" "w_phase w p = Leaving r cfg m0"
  shows "world_inv S U (moves p Program (w\<lparr>w_drv := (w_drv w)\<lparr>cc_spinlock := False\<rparr>,
    w_past := \<lparr>ev_pid = p, ev_req = r, ev_conf = cfg, ev_before = m0, ev_after = w_mem w p\<rparr> # w_past w\<rparr>))" (is "world_inv S U ?w")
proof -
  have "inside (w_phase w p)" using assms(2) by simp
  then have out: "\<not> inside (w_phase w q)" if "q \<noteq> p" for q
    using assms(1) that unfolding world_inv_def exclusive_def by blast
  then have "\<not> inside (w_phase ?w q)" for q by simp
  then have "exclusive ?w" by (simp add: exclusive_def)
  moreover have ph: "phase_ok S U (w_drv w) (w_mem w q) (w_phase w q)" for q using assms(1) by (simp add: world_inv_def)
  have "phase_ok S U (w_drv ?w) (w_mem ?w q) (w_phase ?w q)" for q
  proof (cases "q = p")
    case False
    have "phase_ok S U ((w_drv w)\<lparr>cc_spinlock := False\<rparr>) (w_mem w q) (w_phase w q)" by (rule phase_ok_cong [OF ph]) simp
    with False show ?thesis by simp
  qed simp
  moreover have "served S ?w" using assms(1) ph [of p] assms(2) by (simp add: world_inv_def served_def)
  moreover have "ready S (w_drv ?w)" using assms(1) by (simp add: world_inv_def ready_def)
  ultimately show ?thesis by (simp add: world_inv_def)
qed

lemma moves_same: "w_phase w p = ph \<Longrightarrow> moves p ph w = w"
  by (cases w) (auto simp: moves_def)

lemma inv_step:
  assumes C: "card_ok C S" "grants C" "undisturbed C" and st: "step C k U (acceptable U) w w'" and inv: "world_inv S U w"
  shows "world_inv S U w'"
proof -
  have rdy: "ready S (w_drv w)" and ph: "phase_ok S U (w_drv w) (w_mem w q) (w_phase w q)" for q using inv by (simp_all add: world_inv_def)
  have lock: "cc_spinlock (w_drv w)" if "inside (w_phase w p)" for p using inv that unfolding world_inv_def exclusive_def by blast
  have same: "(w_mem w)(p := w_mem w p) = w_mem w" for p by simp
  note step_in = inv_inside [OF inv] and step_out = inv_outside [OF inv]
  from st show ?thesis
  proof (cases rule: step.cases)
    case (compute p m)
    then show ?thesis using step_out [of p "w_drv w" Program m "w_conf w"] rdy by (simp add: moves_same)
  next
    case (settings p r v cfg m s)
    then have e: "m = w_mem w p" "vs S s = vs S (w_drv w)" "cc_spinlock s = cc_spinlock (w_drv w)" "ready S s"
      using settings_effect [OF settings(6,4,5) C(1) rdy] by simp_all
    show ?thesis using step_out [of p s Program m "(w_conf w)(rq_file r := cfg)"] settings(1,2) e by (simp add: moves_same)
  next
    case (call p r)
    then have "copied U r" by (intro acceptable_copied)
    then show ?thesis using step_out [of p "w_drv w" "Spinning r" "w_mem w p" "w_conf w"] call(1,2) rdy by (simp add: same)
  next
    case (acquire p r)
    then show ?thesis using inv_acquire [OF inv] by simp
  next
    case (begin_copied p r buff s)
    let ?cfg = "w_conf w (rq_file r)"
    have cp: "copied U r" using ph [of p] begin_copied(2) by simp
    note key = load_key_ready [OF C(1) rdy, of ?cfg] and e = copy_in_effect [OF begin_copied(4) cp, of S]
    have l: "cc_spinlock (w_drv w)" using lock [of p] begin_copied(2) by simp
    show ?thesis using step_in [of p s "Working r ?cfg (w_mem w p) buff" "w_mem w p"] begin_copied(1,2) key e l cp by (simp add: same)
  next
    case (run_mapped p r s)
    then show ?thesis using ph [of p] by (simp add: copied_def)
  next
    case (run_transfer p r cfg m0 buff buff' s)
    have p: "copied U r" "m0 = w_mem w p" "r_key (vs S (w_drv w)) = key_word cfg"
      "buff = mem_read (op_addr (the_op r)) (unat (op_length (the_op r))) (w_mem w p)" using ph [of p] run_transfer(2) by simp_all
    have l: "cc_spinlock (w_drv w)" using lock [of p] run_transfer(2) by simp
    have n: "unat (op_length (the_op r)) \<le> card_buffer" "length buff = unat (op_length (the_op r))" using p by (simp_all add: copied_def)
    from transfer_effect [OF C rdy p(3) n, of "decrypts r"] run_transfer(3)
    have "buff' = map (crypt S (decrypts r) cfg) buff" "ready S s" "cc_spinlock s" using l by auto
    then show ?thesis using step_in [of p s "Finished r cfg m0 buff'" "w_mem w p"] run_transfer(1,2) p l by (simp add: same)
  next
    case (copy_out p r cfg m0 buff m)
    have p: "copied U r" "m0 = w_mem w p"
      "buff = map (crypt S (decrypts r) cfg) (mem_read (op_addr (the_op r)) (unat (op_length (the_op r))) (w_mem w p))"
      using ph [of p] copy_out(2) by simp_all
    have l: "cc_spinlock (w_drv w)" using lock [of p] copy_out(2) by simp
    have "m = effect S r cfg m0" using copy_out(3) p by (simp add: copied_def user_ok_def effect_def)
    then show ?thesis using step_in [of p "w_drv w" "Leaving r cfg m0" m] copy_out(1,2) rdy l by simp
  next
    case (copy_fails p r cfg m0 buff left m)
    then show ?thesis using ph [of p] by (auto simp: copied_def user_ok_def)
  next
    case (release p r cfg m0)
    then show ?thesis using inv_release [OF inv] by simp
  qed
qed

section \<open>What holds in every reachable state\<close>

definition idle_world :: "'d spec \<Rightarrow> 'd world \<Rightarrow> bool" where
  "idle_world S w \<longleftrightarrow> ready S (w_drv w) \<and> \<not> cc_spinlock (w_drv w) \<and> w_phase w = (\<lambda>_. Program) \<and> w_past w = []"

lemma inv_idle: "idle_world S w \<Longrightarrow> world_inv S U w"
  by (simp add: idle_world_def world_inv_def exclusive_def served_def)

lemma inv_reachable:
  assumes "reachable_from C k U (acceptable U) w0 w" "card_ok C S" "grants C" "undisturbed C" "world_inv S U w0"
  shows "world_inv S U w"
  using assms by (induction rule: reachable_from.induct) (auto intro: inv_step)

text \<open>
  C2: Processes that use the driver at the same time.  In every state that any interleaving of any number of
  processes can reach, with buffers that the driver can copy and at most 32 KB each, at most one process is between taking
  and releasing the lock, the lock is held exactly when one is, and every request served so far has turned the memory
  of its process into the memory with the buffer en- or decrypted under the settings of its file, whatever the others did.
\<close>

theorem processes_are_isolated:
  assumes "reachable_from C k U (acceptable U) w0 w" "idle_world S w0" "card_ok C S" "grants C" "undisturbed C"
  shows "(\<forall>p q. inside (w_phase w p) \<and> inside (w_phase w q) \<longrightarrow> p = q) \<and>
    (cc_spinlock (w_drv w) \<longleftrightarrow> (\<exists>p. inside (w_phase w p))) \<and>
    (\<forall>e \<in> set (w_past w). ev_after e = effect S (ev_req e) (ev_conf e) (ev_before e))"
proof -
  have "world_inv S U w" using inv_reachable assms inv_idle by blast
  then show ?thesis by (simp add: world_inv_def exclusive_def served_def)
qed

section \<open>Nobody stays inside\<close>

lemma leaving_leaves:
  assumes "w_phase w p = Leaving r cfg m0"
  shows "\<exists>w'. step C k U ok w w' \<and> w_phase w' p = Program \<and> \<not> cc_spinlock (w_drv w') \<and> length (w_past w') = Suc (length (w_past w))"
  using step.release [OF assms, of C k U ok] by (intro exI conjI) (assumption, simp_all)

lemma finished_leaves:
  assumes "w_phase w p = Finished r cfg m0 buff" "world_inv S U w"
  shows "\<exists>w'. step C k U ok w w' \<and> (\<exists>cfg m0. w_phase w' p = Leaving r cfg m0) \<and> w_past w' = w_past w"
proof -
  have "phase_ok S U (w_drv w) (w_mem w p) (w_phase w p)" using assms(2) by (simp add: world_inv_def)
  then have "u_to U (op_addr (the_op r)) buff (w_mem w p) = (0, mem_write (op_addr (the_op r)) buff (w_mem w p))"
    using assms(1) by (simp add: copied_def user_ok_def)
  from step.copy_out [OF assms(1) this, of C k ok] show ?thesis by (intro exI conjI) (assumption, simp_all)
qed

lemma working_leaves:
  assumes C: "card_ok C S" "grants C" "undisturbed C" and w: "w_phase w p = Working r cfg m0 buff" "world_inv S U w"
  shows "\<exists>w'. step C k U ok w w' \<and> (\<exists>cfg m0 buff. w_phase w' p = Finished r cfg m0 buff) \<and> w_past w' = w_past w"
proof -
  have ph: "phase_ok S U (w_drv w) (w_mem w p) (w_phase w p)" and rdy: "ready S (w_drv w)" using w(2) by (simp_all add: world_inv_def)
  have n: "r_key (vs S (w_drv w)) = key_word cfg" "unat (op_length (the_op r)) \<le> card_buffer" "length buff = unat (op_length (the_op r))"
    using ph w(1) by (simp_all add: copied_def)
  obtain s where "transfer (decrypts r) cfg C buff (op_length (the_op r)) (w_drv w) = Done (map (crypt S (decrypts r) cfg) buff, s)"
    using transfer_effect [OF C rdy n] by blast
  from step.run_transfer [OF w(1) this, of k U ok] show ?thesis by (intro exI conjI) (assumption, simp_all)
qed

lemma entered_leaves:
  assumes w: "w_phase w p = Entered r" "world_inv S U w" and k: "\<And>l. k_alloc k l \<noteq> 0"
  shows "\<exists>w'. step C k U ok w w' \<and> (\<exists>cfg m0 buff. w_phase w' p = Working r cfg m0 buff) \<and> w_past w' = w_past w"
proof -
  have "phase_ok S U (w_drv w) (w_mem w p) (w_phase w p)" using w(2) by (simp add: world_inv_def)
  then have m: "isMapped (the_op r) = 0" using w(1) by (simp add: copied_def)
  obtain buff s where "copy_in k U (the_op r) (w_mem w p) (load_key C (w_conf w (rq_file r)) (w_drv w)) = Done (buff, s)"
    using k by (simp add: copy_in_def kalloc_def Let_def)
  from step.begin_copied [OF w(1) m this, of ok] show ?thesis by (intro exI conjI) (assumption, simp_all)
qed

text \<open>The steps a process inside still has to make.\<close>

fun steps_left :: "phase \<Rightarrow> nat" where
  "steps_left (Entered r) = 4"
| "steps_left (Working r cfg m buff) = 3"
| "steps_left (Finished r cfg m buff) = 2"
| "steps_left (Leaving r cfg m) = 1"
| "steps_left _ = 0"

lemma inside_leaves:
  assumes C: "card_ok C S" "grants C" "undisturbed C" and k: "\<And>l. k_alloc k l \<noteq> 0"
    and w: "world_inv S U w" "inside (w_phase w p)"
  shows "\<exists>w'. (step C k U (acceptable U) ^^ steps_left (w_phase w p)) w w' \<and> w_phase w' p = Program \<and>
    \<not> cc_spinlock (w_drv w') \<and> length (w_past w') = Suc (length (w_past w))"
  using w
proof (induction "steps_left (w_phase w p)" arbitrary: w rule: less_induct)
  case less
  let ?R = "step C k U (acceptable U)"
  have next_step: ?case
    if nx: "?R w w1" "inside (w_phase w1 p)" "steps_left (w_phase w p) = Suc (steps_left (w_phase w1 p))" "w_past w1 = w_past w" for w1
  proof -
    have "world_inv S U w1" using inv_step [OF C nx(1) less.prems(1)] .
    then obtain w' where "(?R ^^ steps_left (w_phase w1 p)) w1 w'" "w_phase w' p = Program"
      "\<not> cc_spinlock (w_drv w')" "length (w_past w') = Suc (length (w_past w1))"
      using less.hyps [of w1] nx(2,3) by auto
    moreover from this(1) have "(?R ^^ steps_left (w_phase w p)) w w'" unfolding nx(3) by (rule relpowp_Suc_I2 [where P = ?R, OF nx(1)])
    ultimately show ?thesis using nx(4) by auto
  qed
  show ?case
  proof (cases "w_phase w p")
    case (Entered r)
    then show ?thesis using entered_leaves [OF Entered less.prems(1) k, where C = C and ok = "acceptable U"] next_step by auto
  next
    case (Working r cfg m0 buff)
    then show ?thesis using working_leaves [OF C Working less.prems(1), of k "acceptable U"] next_step by auto
  next
    case (Finished r cfg m0 buff)
    then show ?thesis using finished_leaves [OF Finished less.prems(1), of C k "acceptable U"] next_step by auto
  next
    case (Leaving r cfg m0)
    then show ?thesis using leaving_leaves [OF Leaving, of C k U "acceptable U"] by auto
  qed (use less.prems in auto)
qed

text \<open>
  C17: Nobody keeps the others out.  In every state the processes can reach, a process that holds the lock is at most four of its
  own steps away from having its request served and the lock free again, and then every process
  that spins can go in.
\<close>

theorem lock_is_given_back:
  assumes "reachable_from C k U (acceptable U) w0 w" "idle_world S w0" "card_ok C S" "grants C" "undisturbed C"
    and k: "\<And>l. k_alloc k l \<noteq> 0" and p: "inside (w_phase w p)"
  shows "\<exists>w' n. n \<le> 4 \<and> (step C k U (acceptable U) ^^ n) w w' \<and> w_phase w' p = Program \<and> length (w_past w') = Suc (length (w_past w)) \<and>
    (\<forall>q r. w_phase w' q = Spinning r \<longrightarrow> (\<exists>w''. step C k U (acceptable U) w' w'' \<and> w_phase w'' q = Entered r))"
proof -
  have inv: "world_inv S U w" using inv_reachable assms(1-5) inv_idle by blast
  obtain w' where w': "(step C k U (acceptable U) ^^ steps_left (w_phase w p)) w w'" "w_phase w' p = Program"
    "\<not> cc_spinlock (w_drv w')" "length (w_past w') = Suc (length (w_past w))"
    using inside_leaves [OF assms(3-5) k inv p] by blast
  moreover have "steps_left (w_phase w p) \<le> 4" by (cases "w_phase w p") simp_all
  moreover have "\<exists>w''. step C k U (acceptable U) w' w'' \<and> w_phase w'' q = Entered r" if "w_phase w' q = Spinning r" for q r
    using step.acquire [OF that w'(3), of C k U "acceptable U"] by (intro exI conjI) (assumption, simp)
  ultimately show ?thesis by blast
qed

section \<open>A mapped request shuts everybody out\<close>

definition orphaned :: "'d world \<Rightarrow> bool" where
  "orphaned w \<longleftrightarrow> cc_spinlock (w_drv w) \<and> (\<forall>p. \<not> inside (w_phase w p))"

lemma settings_lock:
  "cryptocard_ioctl C k U cmd arg cfg m s = Done (v, cfg', m', s') \<Longrightarrow> cmd \<noteq> ENCRYPT \<Longrightarrow> cmd \<noteq> DECRYPT \<Longrightarrow>
   cc_spinlock s' = cc_spinlock s"
  by (auto simp: cryptocard_ioctl_def Let_def split: if_splits)

lemma orphaned_step:
  assumes "step C k U ok w w'" "orphaned w"
  shows "orphaned w' \<and> (\<forall>p r. w_phase w p = Spinning r \<longrightarrow> w_phase w' p = Spinning r)"
proof -
  have out: "\<not> inside (w_phase w p)" "cc_spinlock (w_drv w)" for p using assms(2) by (simp_all add: orphaned_def)
  from assms(1) show ?thesis
  proof (cases rule: step.cases)
    case (compute p m)
    then show ?thesis using out by (simp add: orphaned_def)
  next
    case (settings p r v cfg m s)
    then show ?thesis using out settings_lock [OF settings(6,4,5)] by (simp add: orphaned_def)
  next
    case (call p r)
    then show ?thesis using out by (auto simp: orphaned_def)
  next
    case (acquire p r)
    then show ?thesis using out by simp
  next
    case (begin_copied p r buff s)
    then show ?thesis using out(1) [of p] by simp
  next
    case (run_mapped p r s)
    then show ?thesis using out(1) [of p] by simp
  next
    case (run_transfer p r cfg m0 buff buff' s)
    then show ?thesis using out(1) [of p] by simp
  next
    case (copy_out p r cfg m0 buff m)
    then show ?thesis using out(1) [of p] by simp
  next
    case (copy_fails p r cfg m0 buff left m)
    then show ?thesis using out(1) [of p] by simp
  next
    case (release p r cfg m0)
    then show ?thesis using out(1) [of p] by simp
  qed
qed

lemma orphaned_for_ever:
  assumes "reachable_from C k U ok w w'" "orphaned w"
  shows "orphaned w' \<and> (\<forall>p r. w_phase w p = Spinning r \<longrightarrow> w_phase w' p = Spinning r)"
  using assms by (induction rule: reachable_from.induct) (auto dest: orphaned_step)

lemma mapped_transfer_runs:
  assumes "card_ok C S" "undisturbed C" "ready S s" "op_len n \<le> card_buffer"
  shows "\<exists>d. mapped_transfer decr cfg C n s = Done (s\<lparr>dev := d\<rparr>)"
  using encrypt_mapped.oper_correct [OF assms, of cfg] decrypt_mapped.oper_correct [OF assms, of cfg]
  by (cases decr) (auto simp: mapped_transfer_def)

text \<open>
  C18: One mapped request is the end of the service.  When a process that is alone inside runs a request on mapped memory, it
  returns to its program with the lock held, and from then on, whatever all the processes do, nobody ever gets
  inside again and every process that spins spins for ever.
\<close>

theorem mapped_request_ends_service:
  assumes w: "w_phase w p = Entered r" "exclusive w" "ready S (w_drv w)"
    and r: "isMapped (the_op r) \<noteq> 0" "op_len (op_length (the_op r)) \<le> card_buffer" and C: "card_ok C S" "undisturbed C"
  shows "\<exists>w1. step C k U ok w w1 \<and> w_phase w1 p = Program \<and>
    (\<forall>w2. reachable_from C k U ok w1 w2 \<longrightarrow>
      (\<forall>q. \<not> inside (w_phase w2 q) \<and> (\<forall>r'. w_phase w1 q = Spinning r' \<longrightarrow> w_phase w2 q = Spinning r')))"
proof -
  let ?cfg = "w_conf w (rq_file r)"
  note key = load_key_ready [OF C(1) w(3), of ?cfg]
  obtain d where d: "mapped_transfer (decrypts r) ?cfg C (op_length (the_op r)) (load_key C ?cfg (w_drv w)) =
      Done ((load_key C ?cfg (w_drv w))\<lparr>dev := d\<rparr>)"
    using mapped_transfer_runs [OF C key(1) r(2)] by blast
  let ?w1 = "moves p Program (w\<lparr>w_drv := (load_key C ?cfg (w_drv w))\<lparr>dev := d\<rparr>\<rparr>)"
  have "inside (w_phase w p)" using w(1) by simp
  then have "cc_spinlock (w_drv w)" "\<not> inside (w_phase w q)" if "q \<noteq> p" for q
    using w(2) that unfolding exclusive_def by blast+
  moreover have "cc_spinlock (w_drv w)" using w(2) \<open>inside (w_phase w p)\<close> unfolding exclusive_def by blast
  ultimately have o: "orphaned ?w1" using key(3) by (simp add: orphaned_def)
  have "step C k U ok w ?w1" by (rule step.run_mapped [OF w(1) r(1) d])
  moreover have "\<not> inside (w_phase w2 q) \<and> (\<forall>r'. w_phase ?w1 q = Spinning r' \<longrightarrow> w_phase w2 q = Spinning r')"
    if "reachable_from C k U ok ?w1 w2" for w2 q
    using orphaned_for_ever [OF that o] by (simp add: orphaned_def)
  ultimately show ?thesis by (intro exI [of _ ?w1]) simp
qed

section \<open>An example\<close>

text \<open>Two processes on the simulated card: one has entered, the other spins.\<close>

definition ex_request :: "u8 \<Rightarrow> request" where
  "ex_request mapped = \<lparr>rq_file = 1, rq_cmd = ENCRYPT, rq_arg = ex_arg mapped\<rparr>"

definition ex_world :: "(regs \<times> nat) world" where
  "ex_world = \<lparr>w_drv = ex_driver, w_conf = (\<lambda>_. ex_config 0 1), w_mem = (\<lambda>_ _. 7), w_phase = (\<lambda>_. Program), w_past = []\<rparr>"

definition ex_entered :: "u8 \<Rightarrow> (regs \<times> nat) world" where
  "ex_entered mapped = moves 0 (Entered (ex_request mapped)) ((moves 1 (Spinning (ex_request 0))
     (moves 0 (Spinning (ex_request mapped)) ex_world))\<lparr>w_drv := ex_driver\<lparr>cc_spinlock := True\<rparr>\<rparr>)"

definition ex_alloc :: kapi where
  "ex_alloc = granting\<lparr>k_alloc := \<lambda>_. 16384\<rparr>"

lemma ex_world_idle [simp]: "idle_world ex_spec ex_world"
  by (simp add: idle_world_def ex_world_def ex_ready)

lemma ex_entered_reachable: "reachable_from ex_card ex_alloc flat_user (acceptable flat_user) ex_world (ex_entered 0)"
proof -
  let ?R = "step ex_card ex_alloc flat_user (acceptable flat_user)"
  have ok: "acceptable flat_user (ex_request 0)" "rq_cmd (ex_request 0) = ENCRYPT \<or> rq_cmd (ex_request 0) = DECRYPT"
    by (simp_all add: acceptable_def ex_request_def card_buffer_def)
  let ?w1 = "moves 0 (Spinning (ex_request 0)) ex_world" let ?w2 = "moves 1 (Spinning (ex_request 0)) ?w1"
  have "?R ex_world ?w1" using ok by (intro step.call) (simp_all add: ex_world_def)
  moreover have "?R ?w1 ?w2" using ok by (intro step.call) (simp_all add: ex_world_def)
  moreover have "?R ?w2 (ex_entered 0)"
    using step.acquire [of ?w2 0 "ex_request 0" ex_card ex_alloc flat_user "acceptable flat_user"] ex_ready
    by (simp add: ex_entered_def ex_world_def)
  ultimately show ?thesis by (meson reachable_from.intros)
qed

lemma reachable_more:
  assumes "(step C k U ok ^^ n) w w'" "reachable_from C k U ok w0 w"
  shows "reachable_from C k U ok w0 w'"
  using assms by (induction n arbitrary: w') (auto intro: reachable_from.further)

theorem processes_are_isolated_witness:
  "\<exists>w. reachable_from ex_card ex_alloc flat_user (acceptable flat_user) ex_world w \<and> length (w_past w) = 1 \<and>
    (\<forall>e \<in> set (w_past w). ev_after e = effect ex_spec (ev_req e) (ev_conf e) (ev_before e))"
proof -
  have k: "k_alloc ex_alloc l \<noteq> 0" for l by (simp add: ex_alloc_def)
  have "world_inv ex_spec flat_user (ex_entered 0)" using inv_reachable [OF ex_entered_reachable ex_card_ok] inv_idle [OF ex_world_idle] by blast
  moreover have "inside (w_phase (ex_entered 0) 0)" "w_past (ex_entered 0) = []" by (simp_all add: ex_entered_def ex_world_def)
  ultimately obtain w n where "(step ex_card ex_alloc flat_user (acceptable flat_user) ^^ n) (ex_entered 0) w" "length (w_past w) = 1"
    using inside_leaves [OF ex_card_ok k, of flat_user "ex_entered 0" 0] by auto
  then have "reachable_from ex_card ex_alloc flat_user (acceptable flat_user) ex_world w" "length (w_past w) = 1"
    using reachable_more ex_entered_reachable by blast+
  with processes_are_isolated [OF this(1) ex_world_idle ex_card_ok] show ?thesis by blast
qed

theorem lock_is_given_back_witness:
  "\<exists>w' w''. w_phase w' 0 = Program \<and> step ex_card ex_alloc flat_user (acceptable flat_user) w' w'' \<and>
    length (w_past w') = 1"
proof -
  have k: "k_alloc ex_alloc l \<noteq> 0" for l by (simp add: ex_alloc_def)
  have i: "inside (w_phase (ex_entered 0) 0)" "w_past (ex_entered 0) = []" by (simp_all add: ex_entered_def ex_world_def)
  obtain w' :: "(regs \<times> nat) world" where w': "w_phase w' 0 = Program" "length (w_past w') = 1"
    using lock_is_given_back [OF ex_entered_reachable ex_world_idle ex_card_ok k i(1)] i(2) by auto
  then show ?thesis using step.compute [OF w'(1), of ex_card ex_alloc flat_user "acceptable flat_user"] by blast
qed

theorem mapped_request_ends_service_witness:
  "\<exists>w1. step ex_card ex_alloc flat_user (\<lambda>_. True) (ex_entered 1) w1 \<and> w_phase w1 0 = Program \<and>
    (\<forall>w2. reachable_from ex_card ex_alloc flat_user (\<lambda>_. True) w1 w2 \<longrightarrow> (\<forall>q. \<not> inside (w_phase w2 q)))"
proof -
  have w: "w_phase (ex_entered 1) 0 = Entered (ex_request 1)" by (simp add: ex_entered_def)
  have "inside (w_phase (ex_entered 1) q) \<longleftrightarrow> q = 0" for q by (simp add: ex_entered_def ex_world_def)
  then have ex: "exclusive (ex_entered 1)" by (simp add: exclusive_def) (simp add: ex_entered_def)
  have rdy: "ready ex_spec (w_drv (ex_entered 1))" using ex_ready(1) by (simp add: ex_entered_def ready_def)
  have r: "isMapped (the_op (ex_request 1)) \<noteq> 0" "op_len (op_length (the_op (ex_request 1))) \<le> card_buffer"
    by (simp_all add: ex_request_def the_op_def ex_arg_def op_len_def card_buffer_def)
  from mapped_request_ends_service [OF w ex rdy r ex_card_ok(1,3), of ex_alloc flat_user "\<lambda>_. True"] show ?thesis by blast
qed

end
