(* ===== verification/Cipher.thy ===== *)
theory Cipher
  imports Prelude "HOL-Library.Signed_Division"
begin

text \<open>
  The reference cipher of the CryptoCard test bench,
  \<^verbatim>\<open>eval-test/common/gen.c\<close>: a two-key Caesar shift of the letters.  \<^verbatim>\<open>char\<close> is signed, the
  arithmetic is C \<^verbatim>\<open>int\<close> arithmetic with truncating remainder (\<open>smod\<close>), and every assignment to a
  \<^verbatim>\<open>char\<close> wraps modulo 256.  Buffers are byte lists; an access past their end, undefined in C, is
  \<open>None\<close>.  The locale \<open>stream_cipher\<close> is the interface the card and the library rely on.
\<close>

section \<open>The definitions of gen.c\<close>

definition encryptChar :: "int \<Rightarrow> int \<Rightarrow> u8 \<Rightarrow> u8" where
  "encryptChar a b p =
     (let c = word_of_int ((sint p + a) smod 26) :: u8;
          c = word_of_int ((sint c + b) smod 26) :: u8
      in c)"

definition decryptChar :: "int \<Rightarrow> int \<Rightarrow> u8 \<Rightarrow> u8" where
  "decryptChar a b c =
     (let p = word_of_int (sint c - b) :: u8;
          p = (if sint p < 0 then word_of_int (sint p + 26) else p);
          p = word_of_int ((sint p - a) smod 26) :: u8;
          p = (if sint p < 0 then word_of_int (sint p + 26) else p)
      in p)"

text \<open>The body of the loop of \<^verbatim>\<open>encryptMessage\<close>, on the byte at \<^verbatim>\<open>pos\<close>.\<close>

definition encrypt_byte :: "u8 \<Rightarrow> u8 \<Rightarrow> u8 \<Rightarrow> u8" where
  "encrypt_byte a b x =
     (if 65 \<le> sint x \<and> sint x \<le> 90 then encryptChar (uint a) (uint b) (x - 65) + 65
      else if 97 \<le> sint x \<and> sint x \<le> 122 then encryptChar (uint a) (uint b) (x - 97) + 97
      else x)"

definition decrypt_byte :: "u8 \<Rightarrow> u8 \<Rightarrow> u8 \<Rightarrow> u8" where
  "decrypt_byte a b x =
     (if 65 \<le> sint x \<and> sint x \<le> 90 then decryptChar (uint a) (uint b) (x - 65) + 65
      else if 97 \<le> sint x \<and> sint x \<le> 122 then decryptChar (uint a) (uint b) (x - 97) + 97
      else x)"

text \<open>\<^verbatim>\<open>for (pos = 0; pos < length; pos++) buf[pos] = f(buf[pos]);\<close>\<close>

function for_bytes :: "(u8 \<Rightarrow> u8) \<Rightarrow> nat \<Rightarrow> u8 list \<Rightarrow> nat \<Rightarrow> u8 list option" where
  "for_bytes f pos buf n =
     (if pos < n then
        (if pos < length buf then for_bytes f (Suc pos) (buf[pos := f (buf ! pos)]) n else None)
      else Some buf)"
  by pat_completeness auto
termination
  by (relation "measure (\<lambda>(f, pos, buf, n). n - pos)") auto

declare for_bytes.simps [simp del]

definition encryptMessage :: "u8 list \<Rightarrow> nat \<Rightarrow> u8 \<Rightarrow> u8 \<Rightarrow> u8 list option" where
  "encryptMessage buf n a b = for_bytes (encrypt_byte a b) 0 buf n"

definition decryptMessage :: "u8 list \<Rightarrow> nat \<Rightarrow> u8 \<Rightarrow> u8 \<Rightarrow> u8 list option" where
  "decryptMessage buf n a b = for_bytes (decrypt_byte a b) 0 buf n"

text \<open>\<^verbatim>\<open>malloc(size)\<close>, \<^verbatim>\<open>strncpy\<close>, \<^verbatim>\<open>encryptMessage\<close>; a failed allocation is not checked by the code.\<close>

definition create_encrpyted_buffer :: "u8 list \<Rightarrow> u8 \<Rightarrow> u8 \<Rightarrow> nat \<Rightarrow> u8 list option" where
  "create_encrpyted_buffer msg a b n = encryptMessage (strncpy msg n) n a b"

function isValid_from :: "nat \<Rightarrow> u8 list \<Rightarrow> u8 list \<Rightarrow> nat \<Rightarrow> nat option" where
  "isValid_from index buff1 buff2 n =
     (if index < n then
        (if index < length buff1 \<and> index < length buff2 then
           (if buff1 ! index = buff2 ! index then isValid_from (Suc index) buff1 buff2 n
            else Some index)
         else None)
      else Some index)"
  by pat_completeness auto
termination
  by (relation "measure (\<lambda>(index, buff1, buff2, n). n - index)") auto

declare isValid_from.simps [simp del]

text \<open>\<^verbatim>\<open>TRUE\<close> is 1 and \<^verbatim>\<open>FALSE\<close> is 0.\<close>

definition isValid :: "u8 list \<Rightarrow> u8 list \<Rightarrow> nat \<Rightarrow> u32 option" where
  "isValid buff1 buff2 n =
     map_option (\<lambda>index. if index = n then 1 else 0) (isValid_from 0 buff1 buff2 n)"

section \<open>One letter\<close>

lemma sint_small_u8: "- 128 \<le> i \<Longrightarrow> i < 128 \<Longrightarrow> sint (word_of_int i :: u8) = i"
  by (simp add: signed_take_bit_int_eq_self_iff sint_sbintrunc')

lemma word_of_int_small_inj:
  assumes "0 \<le> i" "i < 128" "0 \<le> j" "j < 128" and eq: "word_of_int i = (word_of_int j :: u8)"
  shows "i = j"
proof -
  have "i = sint (word_of_int i :: u8)" using assms by (intro sint_small_u8 [symmetric]) auto
  also have "\<dots> = sint (word_of_int j :: u8)" by (simp only: eq)
  also have "\<dots> = j" using assms by (intro sint_small_u8) auto
  finally show ?thesis .
qed

lemma smod_nonneg: "0 \<le> i \<Longrightarrow> 0 < k \<Longrightarrow> i smod k = i mod (k::int)"
  by (simp add: signed_modulo_int_def signed_divide_int_def sgn_if minus_div_mult_eq_mod
      abs_if)

lemma encryptChar_eq:
  assumes "0 \<le> i" "i < 26" "0 \<le> a" "0 \<le> b"
  shows "encryptChar a b (word_of_int i) = word_of_int ((i + a + b) mod 26)"
proof -
  have i: "sint (word_of_int i :: u8) = i" using assms by (intro sint_small_u8) auto
  let ?c = "(i + a) mod 26"
  have "0 \<le> ?c" "?c < 26" by simp_all
  then have c: "sint (word_of_int ?c :: u8) = ?c" by (intro sint_small_u8) auto
  show ?thesis using assms
    by (simp add: encryptChar_def i c smod_nonneg mod_simps)
qed

lemma smod_neg: "i < 0 \<Longrightarrow> 0 < k \<Longrightarrow> i smod k = - ((- i) mod (k::int))"
  by (simp add: signed_modulo_int_def signed_divide_int_def sgn_if abs_if minus_div_mult_eq_mod
      flip: minus_div_mult_eq_mod)

text \<open>The C idiom \<^verbatim>\<open>r = x % k; if (r < 0) r += k;\<close> is the mathematical remainder.\<close>

lemma smod_fix:
  assumes "0 < (k::int)"
  shows "(if x smod k < 0 then x smod k + k else x smod k) = x mod k"
proof (cases "x < 0")
  case False
  then show ?thesis using assms by (simp add: smod_nonneg not_less)
next
  case True
  have "0 \<le> (- x) mod k" "(- x) mod k < k" using assms by simp_all
  moreover have "k \<noteq> x mod k" using pos_mod_bound [OF assms, of x] by linarith
  ultimately show ?thesis using True assms
    by (auto simp: smod_neg zmod_zminus1_eq_if split: if_splits)
qed

lemma smod_range: "0 < (k::int) \<Longrightarrow> - k < x smod k \<and> x smod k < k"
proof -
  assume k: "0 < k"
  have "0 \<le> x mod k" "x mod k < k" "0 \<le> (- x) mod k" "(- x) mod k < k" using k by simp_all
  then have "- k < x mod k" "- ((- x) mod k) < k" using k by linarith+
  then show ?thesis using k by (cases "x < 0") (simp_all add: smod_neg smod_nonneg)
qed

text \<open>
  The subtraction of \<open>b\<close> is stored in a \<^verbatim>\<open>char\<close>: \<open>decryptChar\<close> subtracts both keys modulo 26 as
  long as that difference is at least \<open>-128\<close>.
\<close>

lemma decryptChar_eq:
  assumes "0 \<le> c" "c < 26" "0 \<le> a" "a < 256" "0 \<le> b" "b \<le> c + 128"
  shows "decryptChar a b (word_of_int c) = word_of_int ((c - b - a) mod 26)"
proof -
  have c: "sint (word_of_int c :: u8) = c" using assms by (intro sint_small_u8) auto
  have p0: "sint (word_of_int (c - b) :: u8) = c - b" using assms by (intro sint_small_u8) auto
  define p1 where "p1 = (if c - b < 0 then c - b + 26 else c - b)"
  have p1: "(if sint (word_of_int (c - b) :: u8) < 0 then word_of_int (sint (word_of_int (c - b) :: u8) + 26)
      else word_of_int (c - b)) = (word_of_int p1 :: u8)"
    unfolding p0 p1_def by simp
  have s1: "sint (word_of_int p1 :: u8) = p1" using assms by (intro sint_small_u8) (auto simp: p1_def)
  define r where "r = (p1 - a) smod 26"
  have s2: "sint (word_of_int r :: u8) = r"
    using smod_range [of 26 "p1 - a"] by (intro sint_small_u8) (auto simp: r_def)
  have fix_r: "(if r < 0 then r + 26 else r) = (p1 - a) mod 26"
    unfolding r_def by (rule smod_fix) simp
  have "(p1 - a) mod 26 = (c - b - a) mod 26"
  proof (cases "c - b < 0")
    case True
    have "p1 - a = (c - b - a) + 26" using True by (simp add: p1_def)
    then show ?thesis by (metis mod_add_self2)
  next
    case False
    then show ?thesis by (simp add: p1_def)
  qed
  moreover have "decryptChar a b (word_of_int c) =
      (if r < 0 then word_of_int (r + 26) else word_of_int r)"
    unfolding decryptChar_def Let_def c p1 s1 r_def [symmetric] s2 ..
  moreover have "(if r < 0 then word_of_int (r + 26) else word_of_int r) =
      (word_of_int (if r < 0 then r + 26 else r) :: u8)" by simp
  ultimately show ?thesis by (simp only: fix_r)
qed

section \<open>One byte\<close>

text \<open>
  A byte is a letter \<open>base + i\<close> of one of the two alphabets, or neither loop body touches it.
\<close>

definition letter :: "int \<Rightarrow> int \<Rightarrow> u8" where
  "letter base i = word_of_int (base + i)"

definition is_letter :: "u8 \<Rightarrow> bool" where
  "is_letter x \<longleftrightarrow> 65 \<le> sint x \<and> sint x \<le> 90 \<or> 97 \<le> sint x \<and> sint x \<le> 122"

lemma sint_letter:
  "base \<in> {65, 97} \<Longrightarrow> 0 \<le> i \<Longrightarrow> i < 26 \<Longrightarrow> sint (letter base i) = base + i"
  unfolding letter_def by (intro sint_small_u8) auto

lemma letter_minus: "letter base i - word_of_int base = word_of_int i"
  by (simp add: letter_def)

lemma letterE:
  assumes "is_letter x"
  obtains base i where "x = letter base i" "base \<in> {65, 97}" "0 \<le> i" "i < 26"
proof -
  have x: "x = letter base (sint x - base)" for base
    by (simp add: letter_def)
  show ?thesis
    using assms that [OF x, of 65] that [OF x, of 97] by (auto simp: is_letter_def)
qed

lemma encrypt_letter:
  assumes "base \<in> {65, 97}" "0 \<le> i" "i < 26"
  shows "encrypt_byte a b (letter base i) = letter base ((i + uint a + uint b) mod 26)"
  using assms sint_letter [OF assms] letter_minus [of base i]
  by (auto simp: encrypt_byte_def encryptChar_eq letter_def add.commute)

lemma decrypt_letter:
  assumes "base \<in> {65, 97}" "0 \<le> i" "i < 26" "uint b \<le> i + 128"
  shows "decrypt_byte a b (letter base i) = letter base ((i - uint b - uint a) mod 26)"
  using assms sint_letter [OF assms(1-3)] letter_minus [of base i] uint_lt2p [of a]
  by (auto simp: decrypt_byte_def decryptChar_eq letter_def add.commute)

lemma not_letter_id [simp]:
  "\<not> is_letter x \<Longrightarrow> encrypt_byte a b x = x" "\<not> is_letter x \<Longrightarrow> decrypt_byte a b x = x"
  by (auto simp: is_letter_def encrypt_byte_def decrypt_byte_def)

lemma decrypt_encrypt_byte:
  assumes "uint b \<le> 128"
  shows "decrypt_byte a b (encrypt_byte a b x) = x"
proof (cases "is_letter x")
  case True
  then obtain base i where x: "x = letter base i" "base \<in> {65, 97}" "0 \<le> i" "i < 26"
    by (rule letterE)
  let ?c = "(i + uint a + uint b) mod 26"
  have "0 \<le> ?c" "?c < 26" by simp_all
  then have "decrypt_byte a b (letter base ?c) = letter base ((?c - uint b - uint a) mod 26)"
    using x assms by (intro decrypt_letter) auto
  moreover have "(?c - uint b - uint a) mod 26 = i"
  proof -
    have "(?c - uint b - uint a) mod 26 = (i + uint a + uint b - uint b - uint a) mod 26"
      by (simp only: diff_diff_eq mod_diff_left_eq)
    then show ?thesis using x by simp
  qed
  ultimately show ?thesis using x by (simp add: encrypt_letter)
next
  case False
  then show ?thesis by simp
qed

text \<open>A key byte above 128 breaks the reference decryption already at one letter.\<close>

lemma decrypt_wraps:
  fixes a b :: u8
  assumes "128 < uint b"
  shows "decryptChar (uint a) (uint b) 0 \<noteq> word_of_int ((- uint b - uint a) mod 26)"
proof -
  have b: "uint b < 256" by (rule uint_u8)
  have "word_of_int (- uint b) = (word_of_int (256 - uint b) :: u8)"
    by (simp add: word_of_int_eq_iff take_bit_eq_mod)
  moreover have "sint (word_of_int (256 - uint b) :: u8) = 256 - uint b"
    using assms b by (intro sint_small_u8) auto
  ultimately have "sint (word_of_int (- uint b) :: u8) = 256 - uint b" by (simp only:)
  then have p0: "sint (- b) = 256 - uint b" by simp
  define r where "r = (256 - uint b - uint a) smod 26"
  have r: "- 26 < r" "r < 26"
    using smod_range [of 26 "256 - uint b - uint a"] by (auto simp: r_def)
  then have s2: "sint (word_of_int r :: u8) = r" by (intro sint_small_u8) auto
  have fix_r: "(if r < 0 then r + 26 else r) = (256 - uint b - uint a) mod 26"
    unfolding r_def by (rule smod_fix) simp
  have "decryptChar (uint a) (uint b) 0 = word_of_int (if r < 0 then r + 26 else r)"
    using b p0 s2 unfolding r_def by (auto simp: decryptChar_def)
  then have D: "decryptChar (uint a) (uint b) 0 = word_of_int ((256 - uint b - uint a) mod 26)"
    by (simp only: fix_r)
  have ne: "(256 - uint b - uint a) mod 26 \<noteq> (- uint b - uint a) mod 26"
    by (simp add: mod_eq_dvd_iff)
  have lo: "0 \<le> z mod 26" for z :: int by simp
  have hi: "z mod 26 < 128" for z :: int using pos_mod_bound [of 26 z] by linarith
  show ?thesis
  proof
    assume "decryptChar (uint a) (uint b) 0 = word_of_int ((- uint b - uint a) mod 26)"
    then have "word_of_int ((256 - uint b - uint a) mod 26) =
        (word_of_int ((- uint b - uint a) mod 26) :: u8)"
      by (simp only: D)
    from word_of_int_small_inj [OF lo hi lo hi this] ne show False by blast
  qed
qed

section \<open>Whole messages\<close>

lemma for_bytes_eq:
  "pos \<le> n \<Longrightarrow> n \<le> length buf \<Longrightarrow>
   for_bytes f pos buf n = Some (take pos buf @ map f (drop pos (take n buf)) @ drop n buf)"
proof (induction f pos buf n rule: for_bytes.induct)
  case (1 f pos buf n)
  show ?case
  proof (cases "pos < n")
    case True
    have split: "drop pos (take n buf) = buf ! pos # drop (Suc pos) (take n buf)"
      using True "1.prems" by (subst Cons_nth_drop_Suc [symmetric]) auto
    have "for_bytes f pos buf n = for_bytes f (Suc pos) (buf[pos := f (buf ! pos)]) n"
      using True "1.prems" by (subst for_bytes.simps) simp
    also have "\<dots> = Some (take (Suc pos) (buf[pos := f (buf ! pos)]) @
        map f (drop (Suc pos) (take n buf)) @ drop n buf)"
      using "1.IH" True "1.prems" by (simp add: take_update_swap drop_update_cancel)
    also have "take (Suc pos) (buf[pos := f (buf ! pos)]) = take pos buf @ [f (buf ! pos)]"
      using True "1.prems" by (simp add: take_Suc_conv_app_nth)
    finally show ?thesis by (simp add: split)
  next
    case False
    with "1.prems" show ?thesis by (subst for_bytes.simps) simp
  qed
qed

text \<open>The loops overwrite the first \<open>n\<close> bytes one by one and touch nothing after them.\<close>

lemma encryptMessage_map:
  "n \<le> length buf \<Longrightarrow>
   encryptMessage buf n a b = Some (map (encrypt_byte a b) (take n buf) @ drop n buf)"
  by (simp add: encryptMessage_def for_bytes_eq)

lemma decryptMessage_map:
  "n \<le> length buf \<Longrightarrow>
   decryptMessage buf n a b = Some (map (decrypt_byte a b) (take n buf) @ drop n buf)"
  by (simp add: decryptMessage_def for_bytes_eq)

lemma isValid_from_eq:
  "index \<le> n \<Longrightarrow> n \<le> length xs \<Longrightarrow> n \<le> length ys \<Longrightarrow>
   \<exists>k. isValid_from index xs ys n = Some k \<and> k \<le> n \<and>
     (k = n \<longleftrightarrow> (\<forall>i. index \<le> i \<and> i < n \<longrightarrow> xs ! i = ys ! i))"
proof (induction index xs ys n rule: isValid_from.induct)
  case (1 index xs ys n)
  show ?case
  proof (cases "index < n \<and> xs ! index = ys ! index")
    case True
    with 1 obtain k where k: "isValid_from (Suc index) xs ys n = Some k" "k \<le> n"
      "k = n \<longleftrightarrow> (\<forall>i. Suc index \<le> i \<and> i < n \<longrightarrow> xs ! i = ys ! i)" by auto
    have "(\<forall>i. Suc index \<le> i \<and> i < n \<longrightarrow> xs ! i = ys ! i) \<longleftrightarrow>
        (\<forall>i. index \<le> i \<and> i < n \<longrightarrow> xs ! i = ys ! i)"
      using True by (metis Suc_leD Suc_leI nat_less_le)
    with k True "1.prems" show ?thesis by (subst isValid_from.simps) auto
  next
    case False
    with "1.prems" show ?thesis by (subst isValid_from.simps) auto
  qed
qed

text \<open>\<open>isValid\<close> compares the first \<open>n\<close> bytes, and never reads past a buffer that holds them.\<close>

lemma isValid_eq:
  assumes "n \<le> length xs" "n \<le> length ys"
  shows "isValid xs ys n = Some (if take n xs = take n ys then 1 else 0)"
proof -
  obtain k where k: "isValid_from 0 xs ys n = Some k"
    "k = n \<longleftrightarrow> (\<forall>i. 0 \<le> i \<and> i < n \<longrightarrow> xs ! i = ys ! i)"
    using isValid_from_eq [of 0 n xs ys] assms by auto
  have "take n xs = take n ys \<longleftrightarrow> (\<forall>i. 0 \<le> i \<and> i < n \<longrightarrow> xs ! i = ys ! i)"
    using assms by (auto simp: list_eq_iff_nth_eq)
  with k show ?thesis by (simp add: isValid_def)
qed

section \<open>The interface of a byte cipher\<close>

text \<open>
  What the card, the driver and the library need of the cipher: per key, one map on bytes for
  each direction, the second undoing the first for the keys that are fit for use.
\<close>

locale stream_cipher =
  fixes enc dec :: "'k \<Rightarrow> u8 \<Rightarrow> u8" and good :: "'k \<Rightarrow> bool"
  assumes dec_enc: "good k \<Longrightarrow> dec k (enc k x) = x"
begin

lemma map_dec_enc: "good k \<Longrightarrow> map (dec k) (map (enc k) xs) = xs"
  by (induction xs) (auto simp: dec_enc)

lemma enc_inj: "good k \<Longrightarrow> inj (enc k)"
  by (metis dec_enc injI)

lemma map_enc_eq_iff: "good k \<Longrightarrow> map (enc k) xs = map (enc k) ys \<longleftrightarrow> xs = ys"
  by (metis map_dec_enc)

text \<open>A byte map on \<open>UNIV\<close> that is injective is onto, so encryption also undoes decryption.\<close>

lemma enc_dec: "good k \<Longrightarrow> enc k (dec k y) = y"
proof -
  assume k: "good k"
  then have "surj (enc k)" by (intro finite_UNIV_inj_surj) (auto intro: enc_inj)
  then obtain x where "y = enc k x" by (rule surjE)
  with k show ?thesis by (simp add: dec_enc)
qed

end

interpretation gen: stream_cipher
  "\<lambda>(a, b). encrypt_byte a b" "\<lambda>(a, b). decrypt_byte a b" "\<lambda>(a, b). uint b \<le> 128"
  by unfold_locales (auto simp: decrypt_encrypt_byte)

section \<open>Properties\<close>

text \<open>
  C38: on a buffer that holds \<open>n\<close> bytes, \<open>encryptMessage\<close> succeeds and \<open>decryptMessage\<close> with the same
  key gives the original buffer back, for every first key byte and every second key byte up to
  128; the bytes after the first \<open>n\<close> are untouched throughout.
\<close>

theorem decryptMessage_encryptMessage:
  assumes "n \<le> length buf" and "uint b \<le> 128"
  shows "\<exists>cbuf. encryptMessage buf n a b = Some cbuf \<and> length cbuf = length buf \<and>
    drop n cbuf = drop n buf \<and> decryptMessage cbuf n a b = Some buf"
proof -
  let ?c = "map (encrypt_byte a b) (take n buf) @ drop n buf"
  have "decryptMessage ?c n a b = Some buf"
    using assms gen.map_dec_enc [of "(a, b)" "take n buf"] by (simp add: decryptMessage_map)
  with assms show ?thesis by (intro exI [of _ ?c]) (auto simp: encryptMessage_map)
qed

theorem decryptMessage_encryptMessage_witness:
  "\<exists>cbuf. encryptMessage [72, 105, 33, 122] 3 30 17 = Some cbuf \<and> length cbuf = Suc (Suc (Suc (Suc 0))) \<and>
    drop 3 cbuf = [122] \<and> decryptMessage cbuf 3 30 17 = Some [72, 105, 33, 122]"
  using decryptMessage_encryptMessage [of 3 "[72, 105, 33, 122]" 17 30] by simp

text \<open>
  the bound 128 is exact.  The reference decryption undoes the reference encryption on every
  byte if and only if the second key byte is at most 128; above it the \<^verbatim>\<open>char\<close> in \<open>decryptChar\<close>
  wraps and some letter comes back changed.
\<close>

lemma reference_key_bound:
  "(\<forall>x. decrypt_byte a b (encrypt_byte a b x) = x) \<longleftrightarrow> uint b \<le> 128"
proof
  assume all: "\<forall>x. decrypt_byte a b (encrypt_byte a b x) = x"
  show "uint b \<le> 128"
  proof (rule ccontr)
    assume big: "\<not> uint b \<le> 128"
    let ?i = "(- uint b - uint a) mod 26"
    have i: "0 \<le> ?i" "?i < 26" by simp_all
    have "(?i + uint a + uint b) mod 26 = (- uint b - uint a + (uint a + uint b)) mod 26"
      by (simp only: add.assoc mod_add_left_eq)
    then have "encrypt_byte a b (letter 65 ?i) = letter 65 0"
      using i by (simp add: encrypt_letter)
    moreover have "decrypt_byte a b (letter 65 0) = decryptChar (uint a) (uint b) 0 + 65"
      by (simp add: decrypt_byte_def letter_def)
    ultimately have "decryptChar (uint a) (uint b) 0 + 65 = letter 65 ?i"
      using all by metis
    then have "decryptChar (uint a) (uint b) 0 = word_of_int ?i"
      by (simp add: letter_def add.commute)
    with decrypt_wraps [of b a] big show False by simp
  qed
qed (simp add: decrypt_encrypt_byte)

end
