(* ===== verification/Crypter.thy ===== *)
theory Crypter
  imports Cryptocard_Files
begin

text \<open>
  The user library, \<^verbatim>\<open>Assignment_3/src/crypter.c\<close> with \<^verbatim>\<open>include/crypter.h\<close>, and its variant
  \<^verbatim>\<open>crypter1.c\<close>.  The system calls it makes are a record \<open>sysapi\<close> over the state of the system.
  The contract between library and driver is the locale \<open>crypto_device\<close>: the library's functions
  are proved against it, and it is interpreted on the driver of \<open>Cryptocard\<close>.
\<close>

section \<open>Constants of the header\<close>

definition SET :: u8 where "SET = 1"
definition UNSET :: u8 where "UNSET = 0"
definition TRUE :: u8 where "TRUE = 1"
definition FALSE :: u8 where "FALSE = 0"
definition ERROR :: u32 where "ERROR = - 1"

datatype config_t = INTERRUPT | DMA

fun config_num :: "config_t \<Rightarrow> u8" where
  "config_num INTERRUPT = 0"
| "config_num DMA = 1"

definition lib_SET_KEY :: u32 where "lib_SET_KEY = IOW 243 1 2"
definition lib_SET_CONFIG :: u32 where "lib_SET_CONFIG = IOW 243 2 2"
definition lib_ENCRYPT :: u32 where "lib_ENCRYPT = IOW 243 3 8"
definition lib_DECRYPT :: u32 where "lib_DECRYPT = IOW 243 4 8"

section \<open>System calls\<close>

text \<open>
  \<^verbatim>\<open>open\<close>, \<^verbatim>\<open>close\<close>, \<^verbatim>\<open>ioctl\<close>, \<^verbatim>\<open>mmap\<close> (length, file) and \<^verbatim>\<open>munmap\<close>.  A call may block for ever
  or kill the caller in the kernel; \<^verbatim>\<open>ioctl\<close> gives the caller \<open>-1\<close> for a negative error of the
  handler and the handler's value otherwise (\<open>syscall_ret\<close>).
\<close>

record 's sysapi =
  sys_open :: "string \<Rightarrow> 's \<Rightarrow> u32 \<times> 's"
  sys_close :: "u32 \<Rightarrow> 's \<Rightarrow> 's"
  sys_ioctl :: "u32 \<Rightarrow> u32 \<Rightarrow> ioctl_arg \<Rightarrow> 's \<Rightarrow> (u32 \<times> 's) outcome"
  sys_mmap :: "u64 \<Rightarrow> u32 \<Rightarrow> 's \<Rightarrow> u64 \<times> 's"
  sys_munmap :: "u64 \<Rightarrow> u64 \<Rightarrow> 's \<Rightarrow> u32 \<times> 's"

text \<open>The library's one static variable, with the state of the system.\<close>

record 's crypter =
  map_size :: u64
  os :: 's

text \<open>The structures the library passes by pointer; the handler looks at the one its command is about.\<close>

definition no_arg :: ioctl_arg where
  "no_arg = \<lparr>as_key = \<lparr>key_field_a = 0, key_field_b = 0\<rparr>, as_config = \<lparr>mode_int_dma = 0, cfg_set = 0\<rparr>,
     as_op = \<lparr>op_addr = 0, op_length = 0, isMapped = 0\<rparr>\<rparr>"

definition arg_op :: "u64 \<Rightarrow> u64 \<Rightarrow> u8 \<Rightarrow> ioctl_arg" where
  "arg_op a n mapped = no_arg\<lparr>as_op := \<lparr>op_addr = a, op_length = n, isMapped = mapped\<rparr>\<rparr>"

definition ioctl :: "'s sysapi \<Rightarrow> u32 \<Rightarrow> u32 \<Rightarrow> ioctl_arg \<Rightarrow> 's crypter \<Rightarrow> (u32 \<times> 's crypter) outcome" where
  "ioctl A cdev cmd arg s = obind (sys_ioctl A cdev cmd arg (os s)) (\<lambda>(r, t). Done (r, s\<lparr>os := t\<rparr>))"

section \<open>The library\<close>

definition create_handle :: "'s sysapi \<Rightarrow> 's crypter \<Rightarrow> u32 \<times> 's crypter" where
  "create_handle A s =
     (let (f, t) = sys_open A ''/dev/cryptocard'' (os s); s = s\<lparr>os := t\<rparr>
      in if f <s 0 then (ERROR, s) else (f, s))"

definition close_handle :: "'s sysapi \<Rightarrow> u32 \<Rightarrow> 's crypter \<Rightarrow> 's crypter" where
  "close_handle A cdev s = s\<lparr>os := sys_close A cdev (os s)\<rparr>"

text \<open>The loop over full chunks: \<open>Inl\<close> is the early return, \<open>Inr\<close> the next address and the last result.\<close>

fun chunk_loop ::
  "'s sysapi \<Rightarrow> u32 \<Rightarrow> u32 \<Rightarrow> u64 \<Rightarrow> u8 \<Rightarrow> nat \<Rightarrow> u64 \<Rightarrow> u32 \<Rightarrow> 's crypter \<Rightarrow>
     ((u32 + u64 \<times> u32) \<times> 's crypter) outcome" where
  "chunk_loop A cdev cmd chunk mapped 0 new err s = Done (Inr (new, err), s)"
| "chunk_loop A cdev cmd chunk mapped (Suc i) new err s =
     obind (ioctl A cdev cmd (arg_op new chunk mapped) s) (\<lambda>(err, s).
       if err = - 1 then Done (Inl ERROR, s)
       else chunk_loop A cdev cmd chunk mapped i (new + chunk) err s)"

text \<open>
  \<^verbatim>\<open>count\<close> and \<^verbatim>\<open>residual\<close> are \<^verbatim>\<open>int\<close>s; \<^verbatim>\<open>err\<close> has no initial value (\<open>junk\<close>), which is what is returned
  when there is no chunk and no residual.
\<close>

definition encrypt ::
  "'s sysapi \<Rightarrow> u32 \<Rightarrow> u32 \<Rightarrow> u64 \<Rightarrow> u64 \<Rightarrow> u8 \<Rightarrow> 's crypter \<Rightarrow> (u32 \<times> 's crypter) outcome" where
  "encrypt A junk cdev addr len mapped s =
     (if len \<le> 32000 then
        obind (ioctl A cdev lib_ENCRYPT (arg_op addr len mapped) s) (\<lambda>(err, s).
          if err = - 1 then Done (ERROR, s) else Done (err, s))
      else
        (let chunk = 32000 :: u64;
             count = ucast (len div chunk) :: u32;
             residual = ucast (len mod chunk) :: u32
         in obind (chunk_loop A cdev lib_ENCRYPT chunk mapped (nat (sint count)) addr junk s) (\<lambda>(r, s).
              case r of
                Inl e \<Rightarrow> Done (e, s)
              | Inr (new, err) \<Rightarrow>
                  (if residual \<noteq> 0 then
                     obind (ioctl A cdev lib_ENCRYPT (arg_op new (scast residual) mapped) s) (\<lambda>(err, s).
                       if err = - 1 then Done (ERROR, s) else Done (err, s))
                   else Done (err, s)))))"

definition decrypt ::
  "'s sysapi \<Rightarrow> u32 \<Rightarrow> u32 \<Rightarrow> u64 \<Rightarrow> u64 \<Rightarrow> u8 \<Rightarrow> 's crypter \<Rightarrow> (u32 \<times> 's crypter) outcome" where
  "decrypt A junk cdev addr len mapped s =
     (if len \<le> 32768 then
        obind (ioctl A cdev lib_DECRYPT (arg_op addr len mapped) s) (\<lambda>(err, s).
          if err = - 1 then Done (ERROR, s) else Done (err, s))
      else
        (let chunk = 32768 :: u64;
             count = ucast (len div chunk) :: u32;
             residual = ucast (len mod chunk) :: u32
         in obind (chunk_loop A cdev lib_ENCRYPT chunk mapped (nat (sint count)) addr junk s) (\<lambda>(r, s).
              case r of
                Inl e \<Rightarrow> Done (e, s)
              | Inr (new, err) \<Rightarrow>
                  (if residual \<noteq> 0 then
                     obind (ioctl A cdev lib_ENCRYPT (arg_op new (scast residual) mapped) s) (\<lambda>(err, s).
                       if err = - 1 then Done (ERROR, s) else Done (err, s))
                   else Done (err, s)))))"

definition set_key :: "'s sysapi \<Rightarrow> u32 \<Rightarrow> u8 \<Rightarrow> u8 \<Rightarrow> 's crypter \<Rightarrow> (u32 \<times> 's crypter) outcome" where
  "set_key A cdev a b s =
     obind (ioctl A cdev lib_SET_KEY (no_arg\<lparr>as_key := \<lparr>key_field_a = a, key_field_b = b\<rparr>\<rparr>) s) (\<lambda>(err, s).
       if err = - 1 then Done (ERROR, s) else Done (err, s))"

definition set_config :: "'s sysapi \<Rightarrow> u32 \<Rightarrow> config_t \<Rightarrow> u8 \<Rightarrow> 's crypter \<Rightarrow> (u32 \<times> 's crypter) outcome" where
  "set_config A cdev ty val s =
     obind (ioctl A cdev lib_SET_CONFIG (no_arg\<lparr>as_config := \<lparr>mode_int_dma = config_num ty, cfg_set = val\<rparr>\<rparr>) s) (\<lambda>(err, s).
       if err = - 1 then Done (ERROR, s) else Done (err, s))"

definition MAP_FAILED :: u64 where "MAP_FAILED = - 1"

definition map_card :: "'s sysapi \<Rightarrow> u32 \<Rightarrow> u64 \<Rightarrow> 's crypter \<Rightarrow> u64 \<times> 's crypter" where
  "map_card A cdev sz s =
     (if sz \<le> 0x100000 - 0xa8 then
        (let (addr, t) = sys_mmap A (sz + 0xa8) cdev (os s); s = s\<lparr>os := t\<rparr>
         in if addr = MAP_FAILED then (0, s) else (addr + 0xa8, s\<lparr>map_size := sz\<rparr>))
      else (0, s))"

definition unmap_card :: "'s sysapi \<Rightarrow> u32 \<Rightarrow> u64 \<Rightarrow> 's crypter \<Rightarrow> 's crypter" where
  "unmap_card A cdev addr s =
     (let addr = addr - 0xa8; (r, t) = sys_munmap A addr (map_size s) (os s) in s\<lparr>os := t\<rparr>)"

section \<open>The variant crypter1.c\<close>

text \<open>The splitting into chunks is commented out: every request is passed on whole.\<close>

definition encrypt1 ::
  "'s sysapi \<Rightarrow> u32 \<Rightarrow> u64 \<Rightarrow> u64 \<Rightarrow> u8 \<Rightarrow> 's crypter \<Rightarrow> (u32 \<times> 's crypter) outcome" where
  "encrypt1 A cdev addr len mapped s =
     obind (ioctl A cdev lib_ENCRYPT (arg_op addr len mapped) s) (\<lambda>(err, s).
       if err = - 1 then Done (ERROR, s) else Done (err, s))"

definition decrypt1 ::
  "'s sysapi \<Rightarrow> u32 \<Rightarrow> u64 \<Rightarrow> u64 \<Rightarrow> u8 \<Rightarrow> 's crypter \<Rightarrow> (u32 \<times> 's crypter) outcome" where
  "decrypt1 A cdev addr len mapped s =
     obind (ioctl A cdev lib_DECRYPT (arg_op addr len mapped) s) (\<lambda>(err, s).
       if err = - 1 then Done (ERROR, s) else Done (err, s))"

section \<open>The contract with the driver\<close>

text \<open>A stretch of memory with a function applied to each byte.\<close>

definition mem_map :: "(u8 \<Rightarrow> u8) \<Rightarrow> u64 \<Rightarrow> nat \<Rightarrow> mem \<Rightarrow> mem" where
  "mem_map F a n m = mem_write a (map F (mem_read a n m)) m"

lemma mem_map_apply: "n \<le> 2 ^ 64 \<Longrightarrow> mem_map F a n m x = (if unat (x - a) < n then F (m x) else m x)"
  by (simp add: mem_map_def mem_write_apply)

lemma mem_read_map: "mem_read a (unat (n :: u64)) (mem_map F a (unat n) m) = map F (mem_read a (unat n) m)"
  using mem_read_write_same [of "map F (mem_read a (unat n) m)" a m] unat_u64 [of n] by (simp add: mem_map_def)

lemma mem_map_0 [simp]: "mem_map F a 0 m = m"
  by (simp add: mem_map_def mem_read_def)

lemma mem_map_append:
  assumes "n + k < 2 ^ 64"
  shows "mem_map F (a + of_nat n) k (mem_map F a n m) = mem_map F a (n + k) m"
proof
  fix x
  define y where "y = x - a"
  have eq: "x - (a + of_nat n) = y - of_nat n" by (simp add: y_def)
  have n: "unat (of_nat n :: u64) = n" using assms by (intro unat_of_nat_u64) simp
  have y: "unat y < 2 ^ 64" by (rule unat_u64)
  show "mem_map F (a + of_nat n) k (mem_map F a n m) x = mem_map F a (n + k) m x"
  proof (cases "unat y < n")
    case True
    then have "unat (y - of_nat n) = unat y + 2 ^ 64 - n"
      using n by (simp add: unat_sub_if_size word_size)
    then have "\<not> unat (y - of_nat n) < k" using assms by linarith
    then show ?thesis using True assms by (simp add: mem_map_apply eq y_def [symmetric])
  next
    case False
    then have "unat (y - of_nat n) = unat y - n"
      using n by (simp add: unat_sub_if_size word_size)
    then show ?thesis using False assms by (auto simp: mem_map_apply eq y_def [symmetric])
  qed
qed

text \<open>A value below \<open>2^31\<close> survives the \<^verbatim>\<open>int\<close> variables.\<close>

lemma int_of_u64:
  assumes "unat (w :: u64) < 2 ^ 31"
  shows "sint (ucast w :: u32) = int (unat w)" "nat (sint (ucast w :: u32)) = unat w"
    "scast (ucast w :: u32) = w" "ucast w = (0 :: u32) \<longleftrightarrow> w = 0"
proof -
  have u: "unat (ucast w :: u32) = unat w"
    using assms by (simp add: unsigned_ucast_eq take_bit_eq_mod)
  have "uint (ucast w :: u32) = int (unat w)" using u by (metis int_nat_eq of_nat_unat uint_nat)
  moreover have "int k < 2 ^ 31" if "k < 2 ^ 31" for k using that by simp
  then have "int (unat w) < 2 ^ 31" using assms by blast
  moreover have "- (2 ^ 31) \<le> int (unat w)" by (rule order_trans [of _ 0]) simp_all
  ultimately show s: "sint (ucast w :: u32) = int (unat w)"
    unfolding sint_uint using signed_take_bit_int_eq_self [of 31 "int (unat w)"] by simp
  then show "nat (sint (ucast w :: u32)) = unat w" by simp
  show "scast (ucast w :: u32) = w" using s by (simp add: signed_scast_eq scast_eq)
  show "ucast w = (0 :: u32) \<longleftrightarrow> w = 0" using u by (metis unat_eq_zero)
qed

text \<open>
  What the library relies on: in a good state an ENCRYPT or DECRYPT request on a reachable buffer of at
  most 32 KB returns 0, applies the file's function to the buffer, and leaves the state good and the
  functions of all files as they were.
\<close>

definition same_fn :: "(bool \<Rightarrow> u32 \<Rightarrow> 's \<Rightarrow> u8 \<Rightarrow> u8) \<Rightarrow> 's \<Rightarrow> 's \<Rightarrow> bool" where
  "same_fn fn t t' \<longleftrightarrow> (\<forall>d g. fn d g t' = fn d g t)"

locale crypto_device =
  fixes A :: "'s sysapi" and good :: "'s \<Rightarrow> bool" and memory :: "'s \<Rightarrow> mem"
    and fn :: "bool \<Rightarrow> u32 \<Rightarrow> 's \<Rightarrow> u8 \<Rightarrow> u8" and reach :: "u64 \<Rightarrow> u64 \<Rightarrow> bool"
  assumes request: "good t \<Longrightarrow> unat n \<le> card_buffer \<Longrightarrow> reach a n \<Longrightarrow>
    \<exists>t'. sys_ioctl A f (crypt_cmd decr) (arg_op a n 0) t = Done (0, t') \<and> good t' \<and>
      memory t' = mem_map (fn decr f t) a (unat n) (memory t) \<and> same_fn fn t t'"
begin

lemma ioctl_request:
  assumes "good (os s)" "unat n \<le> card_buffer" "reach a n"
  shows "\<exists>t'. ioctl A f (crypt_cmd decr) (arg_op a n 0) s = Done (0, s\<lparr>os := t'\<rparr>) \<and> good t' \<and>
    memory t' = mem_map (fn decr f (os s)) a (unat n) (memory (os s)) \<and> same_fn fn (os s) t'"
  using request [OF assms, of f decr] by (auto simp: ioctl_def)

lemma chunk_loop_run:
  assumes "good (os s)" "unat chunk \<le> card_buffer" "\<And>j. j < i \<Longrightarrow> reach (new + of_nat j * chunk) chunk"
    "i * unat chunk < 2 ^ 64"
  shows "\<exists>t'. chunk_loop A f (crypt_cmd decr) chunk 0 i new err s =
      Done (Inr (new + of_nat i * chunk, if i = 0 then err else 0), s\<lparr>os := t'\<rparr>) \<and> good t' \<and>
    memory t' = mem_map (fn decr f (os s)) new (i * unat chunk) (memory (os s)) \<and> same_fn fn (os s) t'"
  using assms
proof (induction i arbitrary: new err s)
  case 0
  then show ?case by (intro exI [of _ "os s"]) (simp add: same_fn_def)
next
  case (Suc i)
  have "reach new chunk" using Suc.prems(3) [of 0] by simp
  then obtain t1 where t1: "ioctl A f (crypt_cmd decr) (arg_op new chunk 0) s = Done (0, s\<lparr>os := t1\<rparr>)" "good t1"
    "memory t1 = mem_map (fn decr f (os s)) new (unat chunk) (memory (os s))" "same_fn fn (os s) t1"
    using ioctl_request [OF Suc.prems(1,2)] by blast
  have g: "good (os (s\<lparr>os := t1\<rparr>))" using t1 by simp
  have r: "reach (new + chunk + of_nat j * chunk) chunk" if "j < i" for j
    using Suc.prems(3) [of "Suc j"] that by (simp add: algebra_simps)
  have n: "i * unat chunk < 2 ^ 64" using Suc.prems(4) by simp
  obtain t2 where t2: "chunk_loop A f (crypt_cmd decr) chunk 0 i (new + chunk) 0 (s\<lparr>os := t1\<rparr>) =
      Done (Inr (new + chunk + of_nat i * chunk, 0), s\<lparr>os := t2\<rparr>)" "good t2"
    "memory t2 = mem_map (fn decr f t1) (new + chunk) (i * unat chunk) (memory t1)" "same_fn fn t1 t2"
    using Suc.IH [OF g Suc.prems(2) r n, where err = 0] by auto
  have "memory t2 = mem_map (fn decr f (os s)) new (Suc i * unat chunk) (memory (os s))"
    using mem_map_append [of "unat chunk" "i * unat chunk" "fn decr f (os s)" new "memory (os s)"] Suc.prems(4) t1 t2
    by (simp add: same_fn_def)
  with t1 t2 show ?case by (auto simp: same_fn_def algebra_simps)
qed

end

context crypto_device
begin

text \<open>A request of any size, cut into chunks: the whole buffer is transformed, once.\<close>

lemma split_run:
  assumes good: "good (os s)" and chunk: "0 < unat chunk" "unat chunk \<le> card_buffer"
    and len: "unat chunk \<le> unat len" "unat len div unat chunk < 2 ^ 31"
    and reach: "\<And>i c. unat i + unat c \<le> unat len \<Longrightarrow> reach (addr + i) c"
  shows "\<exists>t'. obind (chunk_loop A f (crypt_cmd decr) chunk 0 (nat (sint (ucast (len div chunk) :: u32))) addr junk s)
      (\<lambda>(r, s). case r of
         Inl e \<Rightarrow> Done (e, s)
       | Inr (new, err) \<Rightarrow>
           (if (ucast (len mod chunk) :: u32) \<noteq> 0 then
              obind (ioctl A f (crypt_cmd decr) (arg_op new (scast (ucast (len mod chunk) :: u32)) 0) s) (\<lambda>(err, s).
                if err = - 1 then Done (ERROR, s) else Done (err, s))
            else Done (err, s))) = Done (0, s\<lparr>os := t'\<rparr>) \<and>
    good t' \<and> memory t' = mem_map (fn decr f (os s)) addr (unat len) (memory (os s)) \<and> same_fn fn (os s) t'"
proof -
  define q r where "q = unat len div unat chunk" and "r = len mod chunk"
  have split: "q * unat chunk + unat r = unat len" by (simp add: q_def r_def unat_mod_distrib)
  have max: "unat len < 2 ^ 64" by (rule unat_u64)
  have q: "nat (sint (ucast (len div chunk) :: u32)) = q"
    using int_of_u64(2) [of "len div chunk"] len by (simp add: q_def unat_div_distrib)
  have "unat r < unat chunk" using chunk by (simp add: r_def unat_mod_distrib)
  then have r: "unat r \<le> card_buffer" "unat r < 2 ^ 31" using chunk by (simp_all add: card_buffer_def)
  have mult: "unat (of_nat j * chunk) = j * unat chunk" if "j \<le> q" for j
  proof -
    have "j * unat chunk \<le> q * unat chunk" using that by simp
    then have "j * unat chunk < 2 ^ 64" using split max by linarith
    then have "unat (of_nat (j * unat chunk) :: u64) = j * unat chunk" by (rule unat_of_nat_u64)
    then show ?thesis by simp
  qed
  have "reach (addr + of_nat j * chunk) chunk" if "j < q" for j
  proof (rule reach)
    have "Suc j * unat chunk \<le> q * unat chunk" using that by (intro mult_le_mono) simp_all
    then show "unat (of_nat j * chunk) + unat chunk \<le> unat len" using that split mult [of j] by simp
  qed
  moreover have "q * unat chunk < 2 ^ 64" using split max by linarith
  ultimately obtain t1 where t1: "chunk_loop A f (crypt_cmd decr) chunk 0 q addr junk s =
      Done (Inr (addr + of_nat q * chunk, if q = 0 then junk else 0), s\<lparr>os := t1\<rparr>)" "good t1"
    "memory t1 = mem_map (fn decr f (os s)) addr (q * unat chunk) (memory (os s))" "same_fn fn (os s) t1"
    using chunk_loop_run [OF good chunk(2), of q addr f decr junk] by blast
  have "q \<noteq> 0" using len chunk by (simp add: q_def div_eq_0_iff)
  show ?thesis
  proof (cases "r = 0")
    case True
    then show ?thesis using t1 \<open>q \<noteq> 0\<close> split unfolding q r_def [symmetric] by auto
  next
    case False
    have "reach (addr + of_nat q * chunk) r" using mult [of q] split by (intro reach) simp
    then obtain t2 where t2: "ioctl A f (crypt_cmd decr) (arg_op (addr + of_nat q * chunk) r 0) (s\<lparr>os := t1\<rparr>) =
        Done (0, s\<lparr>os := t2\<rparr>)" "good t2"
      "memory t2 = mem_map (fn decr f t1) (addr + of_nat q * chunk) (unat r) (memory t1)" "same_fn fn t1 t2"
      using ioctl_request [of "s\<lparr>os := t1\<rparr>" r "addr + of_nat q * chunk" f decr] t1(2) r(1) by auto
    have "memory t2 = mem_map (fn decr f (os s)) addr (unat len) (memory (os s))"
      using mem_map_append [of "q * unat chunk" "unat r" "fn decr f (os s)" addr "memory (os s)"] t1 t2 split max
      by (simp add: same_fn_def)
    moreover have "same_fn fn (os s) t2" using t1 t2 by (simp add: same_fn_def)
    moreover have "ucast r \<noteq> (0 :: u32)" using False int_of_u64(4) [OF r(2)] by simp
    ultimately show ?thesis
      using t1 t2 int_of_u64(3) [OF r(2)] unfolding q r_def [symmetric] by auto
  qed
qed

end

lemma lib_cmds: "lib_ENCRYPT = crypt_cmd False" "lib_DECRYPT = crypt_cmd True"
  "lib_SET_KEY = SET_KEY" "lib_SET_CONFIG = SET_CONFIG"
  by (simp_all add: lib_ENCRYPT_def lib_DECRYPT_def lib_SET_KEY_def lib_SET_CONFIG_def crypt_cmd_def
      ENCRYPT_def DECRYPT_def SET_KEY_def SET_CONFIG_def)

context crypto_device
begin

lemma one_request:
  assumes "good (os s)" "unat len \<le> card_buffer" "reach addr len"
  shows "\<exists>t'. obind (ioctl A f (crypt_cmd decr) (arg_op addr len 0) s) (\<lambda>(err, s).
        if err = - 1 then Done (ERROR, s) else Done (err, s)) = Done (0, s\<lparr>os := t'\<rparr>) \<and>
    good t' \<and> memory t' = mem_map (fn decr f (os s)) addr (unat len) (memory (os s)) \<and> same_fn fn (os s) t'"
  using ioctl_request [OF assms, of f decr] by auto

lemma encrypt_any_length:
  assumes good: "good (os s)" and len: "unat len < 32000 * 2 ^ 31"
    and reach: "\<And>i c. unat i + unat c \<le> unat len \<Longrightarrow> reach (addr + i) c"
  shows "\<exists>t'. encrypt A junk f addr len 0 s = Done (0, s\<lparr>os := t'\<rparr>) \<and> good t' \<and>
    memory t' = mem_map (fn False f (os s)) addr (unat len) (memory (os s)) \<and> same_fn fn (os s) t'"
proof (cases "len \<le> 32000")
  case True
  then have "unat len \<le> card_buffer" by (simp add: word_le_nat_alt card_buffer_def)
  moreover have "reach addr len" using reach [of 0 len] by simp
  ultimately show ?thesis using one_request [OF good, of len addr f False] True
    by (simp add: encrypt_def lib_cmds)
next
  case False
  then have "32000 \<le> unat len" by (simp add: word_le_nat_alt)
  then show ?thesis using split_run [OF good, of 32000 len addr f False junk] len reach False
    unfolding encrypt_def lib_cmds Let_def by (simp add: card_buffer_def)
qed

lemma decrypt_small:
  assumes good: "good (os s)" and len: "unat len \<le> 32768" and reach: "reach addr len"
  shows "\<exists>t'. decrypt A junk f addr len 0 s = Done (0, s\<lparr>os := t'\<rparr>) \<and> good t' \<and>
    memory t' = mem_map (fn True f (os s)) addr (unat len) (memory (os s)) \<and> same_fn fn (os s) t'"
proof -
  have "len \<le> 32768" "unat len \<le> card_buffer" using len by (simp_all add: word_le_nat_alt card_buffer_def)
  then show ?thesis using one_request [OF good _ reach, of f True]
    by (simp add: decrypt_def lib_cmds)
qed

lemma decrypt_large:
  assumes good: "good (os s)" and len: "32768 < unat len" "unat len < 32768 * 2 ^ 31"
    and reach: "\<And>i c. unat i + unat c \<le> unat len \<Longrightarrow> reach (addr + i) c"
  shows "\<exists>t'. decrypt A junk f addr len 0 s = Done (0, s\<lparr>os := t'\<rparr>) \<and> good t' \<and>
    memory t' = mem_map (fn False f (os s)) addr (unat len) (memory (os s)) \<and> same_fn fn (os s) t'"
proof -
  have "\<not> len \<le> 32768" using len by (simp add: word_le_nat_alt)
  then show ?thesis using split_run [OF good, of 32768 len addr f False junk] len reach
    unfolding decrypt_def lib_cmds Let_def by (simp add: card_buffer_def)
qed

end

section \<open>The driver keeps the contract\<close>

text \<open>
  The system seen from the library: the open files with their configurations and the objects behind
  them, the caller's memory and the driver.  The mapping of memory is left to the parameters.
\<close>

record 'd system =
  next_fd :: u32
  fconf :: "u32 \<Rightarrow> cryptocard_config"
  fpriv :: "u32 \<Rightarrow> ptr"
  umem :: mem
  drv :: "'d cryptocard"

definition driver_open :: "kapi \<Rightarrow> u8 \<Rightarrow> u8 \<Rightarrow> string \<Rightarrow> ('d, 'x) system_scheme \<Rightarrow> u32 \<times> ('d, 'x) system_scheme" where
  "driver_open k ja jb path t =
     (case cryptocard_fopen k ja jb (drv t) of
        (r, None, s) \<Rightarrow> (- 1, t\<lparr>drv := s\<rparr>)
      | (r, Some (p, cfg), s) \<Rightarrow>
          (next_fd t, t\<lparr>next_fd := next_fd t + 1, fconf := (fconf t)(next_fd t := cfg),
             fpriv := (fpriv t)(next_fd t := p), drv := s\<rparr>))"

definition driver_ioctl ::
  "'d card \<Rightarrow> kapi \<Rightarrow> uaccess \<Rightarrow> u32 \<Rightarrow> u32 \<Rightarrow> ioctl_arg \<Rightarrow> ('d, 'x) system_scheme \<Rightarrow> (u32 \<times> ('d, 'x) system_scheme) outcome" where
  "driver_ioctl C k U f cmd arg t =
     obind (cryptocard_ioctl C k U cmd arg (fconf t f) (umem t) (drv t)) (\<lambda>(v, cfg, m, s).
       Done (syscall_ret v, t\<lparr>fconf := (fconf t)(f := cfg), umem := m, drv := s\<rparr>))"

definition driver_sys ::
  "'d card \<Rightarrow> kapi \<Rightarrow> uaccess \<Rightarrow> u8 \<Rightarrow> u8 \<Rightarrow> (u64 \<Rightarrow> u32 \<Rightarrow> ('d, 'x) system_scheme \<Rightarrow> u64 \<times> ('d, 'x) system_scheme) \<Rightarrow>
     (u64 \<Rightarrow> u64 \<Rightarrow> ('d, 'x) system_scheme \<Rightarrow> u32 \<times> ('d, 'x) system_scheme) \<Rightarrow> ('d, 'x) system_scheme sysapi" where
  "driver_sys C k U ja jb mmap munmap =
     \<lparr>sys_open = driver_open k ja jb,
      sys_close = (\<lambda>f t. t\<lparr>drv := snd (cryptocard_frelease (fpriv t f) (drv t))\<rparr>),
      sys_ioctl = driver_ioctl C k U, sys_mmap = mmap, sys_munmap = munmap\<rparr>"

definition driver_good :: "'d card \<Rightarrow> 'd spec \<Rightarrow> kapi \<Rightarrow> ('d, 'x) system_scheme \<Rightarrow> bool" where
  "driver_good C S k t \<longleftrightarrow> card_ok C S \<and> grants C \<and> undisturbed C \<and> (\<forall>l. k_alloc k l \<noteq> 0) \<and>
     ready S (drv t) \<and> \<not> cc_spinlock (drv t)"

definition file_fn :: "'d spec \<Rightarrow> bool \<Rightarrow> u32 \<Rightarrow> ('d, 'x) system_scheme \<Rightarrow> u8 \<Rightarrow> u8" where
  "file_fn S decr f t = crypt S decr (fconf t f)"

interpretation driver: crypto_device "driver_sys C k U ja jb mmap munmap" "driver_good C S k" umem "file_fn S" "user_ok U"
  for C S k U ja jb mmap munmap
proof
  fix t :: "('a, 'b) system_scheme" and n a f decr
  assume good: "driver_good C S k t" and n: "unat n \<le> card_buffer" and user: "user_ok U a n"
  from good have C: "card_ok C S" "grants C" "undisturbed C" and k: "\<And>l. k_alloc k l \<noteq> 0"
    and s: "ready S (drv t)" "\<not> cc_spinlock (drv t)" by (auto simp: driver_good_def)
  let ?arg = "arg_op a n 0"
  have arg: "isMapped (as_op ?arg) = 0" "unat (op_length (as_op ?arg)) \<le> card_buffer"
    "user_ok U (op_addr (as_op ?arg)) (op_length (as_op ?arg))" using n user by (simp_all add: arg_op_def)
  obtain s' where s': "cryptocard_ioctl C k U (crypt_cmd decr) ?arg (fconf t f) (umem t) (drv t) =
      Done (0, fconf t f, mem_map (crypt S decr (fconf t f)) a (unat n) (umem t), s')"
      "ready S s'" "\<not> cc_spinlock s'"
    using ioctl_copied [OF C s arg k, of decr "fconf t f" "umem t"] s(2)
    by (auto simp: mem_map_def arg_op_def ready_def)
  let ?t' = "t\<lparr>fconf := (fconf t)(f := fconf t f), umem := mem_map (crypt S decr (fconf t f)) a (unat n) (umem t), drv := s'\<rparr>"
  have "sys_ioctl (driver_sys C k U ja jb mmap munmap) f (crypt_cmd decr) ?arg t = Done (0, ?t')"
    using s' by (simp add: driver_sys_def driver_ioctl_def syscall_ret_def word_le_nat_alt)
  moreover have "driver_good C S k ?t'" "umem ?t' = mem_map (file_fn S decr f t) a (unat n) (umem t)"
    "same_fn (file_fn S) t ?t'"
    using C k s' by (simp_all add: driver_good_def file_fn_def same_fn_def)
  ultimately show "\<exists>t'. sys_ioctl (driver_sys C k U ja jb mmap munmap) f (crypt_cmd decr) ?arg t = Done (0, t') \<and>
      driver_good C S k t' \<and> umem t' = mem_map (file_fn S decr f t) a (unat n) (umem t) \<and> same_fn (file_fn S) t t'"
    by blast
qed

section \<open>What the library gives its users\<close>

definition ex_system :: "(regs \<times> nat) system" where
  "ex_system = \<lparr>next_fd = 4, fconf = (\<lambda>_. ex_config 0 1), fpriv = (\<lambda>_. 0), umem = (\<lambda>_. 7), drv = ex_driver\<rparr>"

definition ex_kernel :: kapi where
  "ex_kernel = granting\<lparr>k_alloc := \<lambda>_. 16384\<rparr>"

definition ex_sys :: "(regs \<times> nat) system sysapi" where
  "ex_sys = driver_sys ex_card ex_kernel flat_user 0 0 (\<lambda>n f t. (MAP_FAILED, t)) (\<lambda>a n t. (- 1, t))"

lemma ex_system_good [simp]: "driver_good ex_card ex_spec ex_kernel ex_system"
  by (simp add: driver_good_def ex_system_def ex_kernel_def)

lemma ex_system_umem [simp]: "umem ex_system = (\<lambda>_. 7)"
  by (simp add: ex_system_def)

lemma ex_file_fn [simp]: "file_fn ex_spec decr f ex_system = (\<lambda>x. if decr then x - 3 else x + 3)"
  by (simp add: file_fn_def ex_system_def fun_eq_iff)

text \<open>
  C5: Encrypting a buffer of any length up to 32000 * 2^31 bytes through the library transforms
  every byte of it exactly once, and nothing else, under the file's key: the chunks of 32000 bytes and
  the rest cover the buffer without gap or overlap, each within the card's 32 KB limit.
\<close>

theorem library_encrypts:
  assumes "driver_good C S k (os s)" "unat len < 32000 * 2 ^ 31"
    and "\<And>i c. unat i + unat c \<le> unat len \<Longrightarrow> user_ok U (addr + i) c"
  shows "\<exists>t'. encrypt (driver_sys C k U ja jb mmap munmap) junk f addr len 0 s = Done (0, s\<lparr>os := t'\<rparr>) \<and>
    driver_good C S k t' \<and>
    umem t' = mem_map (file_fn S False f (os s)) addr (unat len) (umem (os s)) \<and> same_fn (file_fn S) (os s) t'"
  by (rule driver.encrypt_any_length [OF assms])

theorem library_encrypts_witness:
  "\<exists>t'. encrypt ex_sys 99 4 0x4000 64001 0 \<lparr>map_size = 0, os = ex_system\<rparr> =
      Done (0, \<lparr>map_size = 0, os = t'\<rparr>) \<and> umem t' = mem_map (\<lambda>x. x + 3) 0x4000 64001 (\<lambda>_. 7)"
  using library_encrypts [of ex_card ex_spec ex_kernel "\<lparr>map_size = 0, os = ex_system\<rparr>" 64001 flat_user "0x4000"
      0 0 "\<lambda>n f t. (MAP_FAILED, t)" "\<lambda>a n t. (- 1, t)" 99 4]
  unfolding ex_sys_def by auto

text \<open>
  Encrypting and then decrypting a buffer of at most 32768 bytes through the library leaves
  the caller's memory as it was, provided the card's decryption inverts its encryption under the file's key.
\<close>

lemma library_round_trip:
  assumes good: "driver_good C S k (os s)" and len: "unat len \<le> 32768"
    and user: "\<And>i c. unat i + unat c \<le> unat len \<Longrightarrow> user_ok U (addr + i) c"
    and inv: "\<And>x. file_fn S True f (os s) (file_fn S False f (os s) x) = x"
  shows "\<exists>t'. obind (encrypt (driver_sys C k U ja jb mmap munmap) junk f addr len 0 s) (\<lambda>(r, s).
      decrypt (driver_sys C k U ja jb mmap munmap) junk' f addr len 0 s) = Done (0, s\<lparr>os := t'\<rparr>) \<and>
    driver_good C S k t' \<and> umem t' = umem (os s)"
proof -
  have "unat len < 32000 * 2 ^ 31" using len by simp
  then obtain t1 where t1: "encrypt (driver_sys C k U ja jb mmap munmap) junk f addr len 0 s = Done (0, s\<lparr>os := t1\<rparr>)"
    "driver_good C S k t1" "umem t1 = mem_map (file_fn S False f (os s)) addr (unat len) (umem (os s))"
    "same_fn (file_fn S) (os s) t1"
    using driver.encrypt_any_length [OF good _ user] by blast
  have u: "user_ok U addr len" using user [of 0 len] by simp
  have g: "driver_good C S k (os (s\<lparr>os := t1\<rparr>))" using t1 by simp
  obtain t2 where t2: "decrypt (driver_sys C k U ja jb mmap munmap) junk' f addr len 0 (s\<lparr>os := t1\<rparr>) =
      Done (0, s\<lparr>os := t2\<rparr>)" "driver_good C S k t2"
    "umem t2 = mem_map (file_fn S True f t1) addr (unat len) (umem t1)"
    using driver.decrypt_small [OF g len u, of ja jb mmap munmap junk' f] by auto
  have "umem t2 = umem (os s)"
    using t1 t2 inv len by (auto simp: fun_eq_iff mem_map_apply same_fn_def)
  with t1 t2 show ?thesis by auto
qed

text \<open>
  C24: Decrypting a buffer of more than 32768 bytes through the library encrypts it: the code that splits a
  large request issues ENCRYPT commands in both functions, and still returns 0.
\<close>

theorem library_large_decrypt_encrypts:
  assumes "driver_good C S k (os s)" "32768 < unat len" "unat len < 32768 * 2 ^ 31"
    and "\<And>i c. unat i + unat c \<le> unat len \<Longrightarrow> user_ok U (addr + i) c"
  shows "\<exists>t'. decrypt (driver_sys C k U ja jb mmap munmap) junk f addr len 0 s = Done (0, s\<lparr>os := t'\<rparr>) \<and>
    umem t' = mem_map (file_fn S False f (os s)) addr (unat len) (umem (os s))"
  using driver.decrypt_large [OF assms, of ja jb mmap munmap junk f] by blast

theorem library_large_decrypt_encrypts_witness:
  "\<exists>t'. decrypt ex_sys 99 4 0x4000 32769 0 \<lparr>map_size = 0, os = ex_system\<rparr> =
      Done (0, \<lparr>map_size = 0, os = t'\<rparr>) \<and> umem t' = mem_map (\<lambda>x. x + 3) 0x4000 32769 (\<lambda>_. 7)"
  using library_large_decrypt_encrypts [of ex_card ex_spec ex_kernel "\<lparr>map_size = 0, os = ex_system\<rparr>" 32769 flat_user "0x4000"
      0 0 "\<lambda>n f t. (MAP_FAILED, t)" "\<lambda>a n t. (- 1, t)" 99 4]
  unfolding ex_sys_def by auto

text \<open>
  For a request that fits one chunk the library and its variant crypter1.c do the same; a larger request
  is passed on whole by the variant, in one ioctl.
\<close>

lemma variant_agrees_on_one_chunk:
  "(len \<le> 32000 \<longrightarrow> encrypt A junk f addr len mapped s = encrypt1 A f addr len mapped s) \<and>
   (len \<le> 32768 \<longrightarrow> decrypt A junk f addr len mapped s = decrypt1 A f addr len mapped s) \<and>
   (sys_ioctl A f ENCRYPT (arg_op addr len mapped) (os s) = Done (0, t) \<longrightarrow>
      encrypt1 A f addr len mapped s = Done (0, s\<lparr>os := t\<rparr>))"
  by (auto simp: encrypt_def encrypt1_def decrypt_def decrypt1_def ioctl_def lib_cmds crypt_cmd_def)

section \<open>Mapping the card\<close>

text \<open>
  The documented behaviour of \<^verbatim>\<open>mmap\<close> and \<^verbatim>\<open>munmap\<close> on the pages mapped in the caller: a mapping starts on a
  page boundary, covers whole pages that were free, and does not wrap; unmapping removes every page
  that the range touches and refuses an empty range.
\<close>

definition page_range :: "u64 \<Rightarrow> u64 \<Rightarrow> nat set" where
  "page_range a n = {unat a div 4096 ..< (unat a + unat n + 4095) div 4096}"

definition mmap_ok :: "'s sysapi \<Rightarrow> ('s \<Rightarrow> nat set) \<Rightarrow> bool" where
  "mmap_ok A pages \<longleftrightarrow> (\<forall>n f t a t'. sys_mmap A n f t = (a, t') \<longrightarrow>
     a = MAP_FAILED \<and> pages t' = pages t \<or>
     a \<noteq> MAP_FAILED \<and> 4096 dvd unat a \<and> unat a + unat n < 2 ^ 64 \<and>
       page_range a n \<inter> pages t = {} \<and> pages t' = pages t \<union> page_range a n)"

definition munmap_ok :: "'s sysapi \<Rightarrow> ('s \<Rightarrow> nat set) \<Rightarrow> bool" where
  "munmap_ok A pages \<longleftrightarrow> (\<forall>a n t. 4096 dvd unat a \<longrightarrow>
     pages (snd (sys_munmap A a n t)) = (if n = 0 then pages t else pages t - page_range a n))"

text \<open>
  Mapping more than 0xfff58 bytes is refused without a system call; a successful map_card followed by
  unmap_card leaves the caller's address space as it was unless the 0xa8 bytes in front of the data reach
  into one more page than the size alone (as they do for size 0): then a page of the card stays mapped.
\<close>

lemma map_then_unmap:
  assumes mm: "mmap_ok A pages" "munmap_ok A pages"
    and mapped: "map_card A f sz s = (addr, s1)" "addr \<noteq> 0"
  shows "sz \<le> 0xfff58 \<and>
    (pages (os (unmap_card A f addr s1)) = pages (os s) \<longleftrightarrow>
      (unat sz + 0xa8 + 4095) div 4096 = (unat sz + 4095) div 4096)"
proof -
  have sz_le: "sz \<le> 0xfff58" using mapped by (auto simp: map_card_def split: if_splits)
  obtain a t where a: "sys_mmap A (sz + 0xa8) f (os s) = (a, t)" by fastforce
  have ok: "a \<noteq> MAP_FAILED" "addr = a + 0xa8" "s1 = s\<lparr>os := t, map_size := sz\<rparr>"
    using mapped sz_le a by (auto simp: map_card_def Let_def split: if_splits)
  have pg: "4096 dvd unat a" "page_range a (sz + 0xa8) \<inter> pages (os s) = {}"
    "pages t = pages (os s) \<union> page_range a (sz + 0xa8)"
    using mm(1) a ok unfolding mmap_ok_def by blast+
  obtain p where p: "unat a = 4096 * p" using pg(1) by (auto elim: dvdE)
  have "unat sz \<le> 0xfff58" using sz_le by (simp add: word_le_nat_alt)
  then have sum: "unat (sz + 0xa8) = unat sz + 0xa8" by (simp add: unat_add_lem [THEN iffD1])
  define x y where "x = (unat sz + 4095) div 4096" and "y = (unat sz + 0xa8 + 4095) div 4096"
  have r: "page_range a sz = {p ..< p + x}" "page_range a (sz + 0xa8) = {p ..< p + y}"
    by (simp_all add: page_range_def p sum x_def y_def add.assoc)
  have "x \<le> y" by (simp add: x_def y_def div_le_mono)
  then have free: "\<not> (p \<le> z \<and> z < p + x \<and> z \<in> pages (os s))" for z using pg(2) unfolding r by fastforce
  have "pages (os (unmap_card A f addr s1)) = pages t - page_range a sz"
    using mm(2) pg(1) ok unfolding munmap_ok_def unmap_card_def
    by (auto simp: case_prod_beta Let_def page_range_def p)
  also have "\<dots> = pages (os s) \<union> {p + x ..< p + y}"
    using free pg(3) \<open>x \<le> y\<close> unfolding r by auto
  finally have "pages (os (unmap_card A f addr s1)) = pages (os s) \<union> {p + x ..< p + y}" .
  moreover have "{p + x ..< p + y} \<subseteq> {p ..< p + y}" by auto
  then have "{p + x ..< p + y} \<inter> pages (os s) = {}" using pg(2) unfolding r by blast
  ultimately have "pages (os (unmap_card A f addr s1)) = pages (os s) \<longleftrightarrow> {p + x ..< p + y} = {}" by blast
  also have "\<dots> \<longleftrightarrow> y = x" using \<open>x \<le> y\<close> by auto
  finally show ?thesis using sz_le by (simp add: x_def y_def)
qed

definition ex_vm :: "nat set sysapi" where
  "ex_vm = \<lparr>sys_open = (\<lambda>p t. (3, t)), sys_close = (\<lambda>f t. t), sys_ioctl = (\<lambda>f c a t. Done (0, t)),
     sys_mmap = (\<lambda>n f t. if page_range 0x10000 n \<inter> t = {} \<and> unat n \<le> 0x100000
       then (0x10000, t \<union> page_range 0x10000 n) else (MAP_FAILED, t)),
     sys_munmap = (\<lambda>a n t. (0, if n = 0 then t else t - page_range a n))\<rparr>"

end
