(* ===== verification/Harness.thy ===== *)
theory Harness
  imports Cipher Crypter
begin

text \<open>
  The part of the test bench that talks to the card: \<^verbatim>\<open>create_device_handle\<close> of
  \<^verbatim>\<open>eval-test/common/gen.c\<close>, which opens the device and configures it through the library.  An
  \<^verbatim>\<open>exit\<close> of the program is \<open>None\<close>.
\<close>

definition create_device_handle ::
  "'s sysapi \<Rightarrow> u8 \<Rightarrow> u8 \<Rightarrow> u8 \<Rightarrow> u8 \<Rightarrow> 's crypter \<Rightarrow> (u32 option \<times> 's crypter) outcome" where
  "create_device_handle A isDMA isInterrupt a b s =
     (let (cdev, s) = create_handle A s
      in if cdev = ERROR then Done (None, s)
         else
           obind (set_config A cdev DMA isDMA s) (\<lambda>(r, s).
             if r = ERROR then Done (None, s)
             else
               obind (set_config A cdev INTERRUPT isInterrupt s) (\<lambda>(r, s).
                 if r = ERROR then Done (None, s)
                 else
                   obind (set_key A cdev a b s) (\<lambda>(r, s).
                     if r = ERROR then Done (None, s) else Done (Some cdev, s)))))"

section \<open>The contract of a configurable card\<close>

text \<open>
  What the programs rely on beside the requests: opening gives the next descriptor, the settings go to the file they
  are made on, and closing disturbs nothing.
\<close>

locale handle_device =
  fixes A :: "('d, 'x) system_scheme sysapi" and good :: "('d, 'x) system_scheme \<Rightarrow> bool"
  assumes opens: "good t \<Longrightarrow> \<not> next_fd t <s 0 \<Longrightarrow> \<exists>t'. sys_open A ''/dev/cryptocard'' t = (next_fd t, t') \<and> good t' \<and>
      umem t' = umem t \<and> next_fd t' = next_fd t + 1"
    and configures: "good t \<Longrightarrow> \<exists>t'. sys_ioctl A f SET_CONFIG
        (no_arg\<lparr>as_config := \<lparr>mode_int_dma = config_num ty, cfg_set = val\<rparr>\<rparr>) t = Done (0, t') \<and> good t' \<and>
      umem t' = umem t \<and> next_fd t' = next_fd t \<and>
      conf_interrupt (fconf t' f) = (if ty = INTERRUPT then val else conf_interrupt (fconf t f)) \<and>
      conf_dma (fconf t' f) = (if ty = DMA then val else conf_dma (fconf t f))"
    and keys: "good t \<Longrightarrow> \<exists>t'. sys_ioctl A f SET_KEY
        (no_arg\<lparr>as_key := \<lparr>key_field_a = a, key_field_b = b\<rparr>\<rparr>) t = Done (0, t') \<and> good t' \<and>
      umem t' = umem t \<and> next_fd t' = next_fd t \<and> conf_a (fconf t' f) = a \<and> conf_b (fconf t' f) = b \<and>
      conf_interrupt (fconf t' f) = conf_interrupt (fconf t f) \<and> conf_dma (fconf t' f) = conf_dma (fconf t f)"
    and closes: "good t \<Longrightarrow> good (sys_close A f t) \<and> umem (sys_close A f t) = umem t \<and> next_fd (sys_close A f t) = next_fd t"
begin

lemma set_config_run:
  assumes "good (os s)"
  shows "\<exists>t. set_config A f ty val s = Done (0, s\<lparr>os := t\<rparr>) \<and> good t \<and>
    umem t = umem (os s) \<and> next_fd t = next_fd (os s) \<and>
    conf_interrupt (fconf t f) = (if ty = INTERRUPT then val else conf_interrupt (fconf (os s) f)) \<and>
    conf_dma (fconf t f) = (if ty = DMA then val else conf_dma (fconf (os s) f))"
  using configures [OF assms, of f ty val] by (auto simp: set_config_def ioctl_def lib_cmds)

lemma set_key_run:
  assumes "good (os s)"
  shows "\<exists>t. set_key A f a b s = Done (0, s\<lparr>os := t\<rparr>) \<and> good t \<and>
    umem t = umem (os s) \<and> next_fd t = next_fd (os s) \<and> conf_a (fconf t f) = a \<and> conf_b (fconf t f) = b \<and>
    conf_interrupt (fconf t f) = conf_interrupt (fconf (os s) f) \<and> conf_dma (fconf t f) = conf_dma (fconf (os s) f)"
  using keys [OF assms, of f a b] by (auto simp: set_key_def ioctl_def lib_cmds)

lemma create_handle_run:
  assumes "good (os s)" "\<not> next_fd (os s) <s 0"
  shows "\<exists>t. create_handle A s = (next_fd (os s), s\<lparr>os := t\<rparr>) \<and> good t \<and> umem t = umem (os s) \<and> next_fd t = next_fd (os s) + 1"
  using opens [OF assms] assms(2) by (auto simp: create_handle_def)

lemma create_device_handle_run:
  assumes good: "good (os s)" and f: "\<not> next_fd (os s) <s 0"
  shows "\<exists>t. create_device_handle A isDMA isInterrupt a b s =
      Done (Some (next_fd (os s)), s\<lparr>os := t\<rparr>) \<and> good t \<and> umem t = umem (os s) \<and> next_fd t = next_fd (os s) + 1 \<and>
    (let cfg = fconf t (next_fd (os s)) in conf_a cfg = a \<and> conf_b cfg = b \<and> conf_dma cfg = isDMA \<and> conf_interrupt cfg = isInterrupt)"
proof -
  let ?f = "next_fd (os s)"
  have ne: "?f \<noteq> ERROR" using f by (auto simp: ERROR_def word_sless_alt)
  obtain t0 where t0: "create_handle A s = (?f, s\<lparr>os := t0\<rparr>)" "good t0" "umem t0 = umem (os s)"
    "next_fd t0 = next_fd (os s) + 1"
    using create_handle_run [OF assms] by blast
  then obtain t1 where t1: "set_config A ?f DMA isDMA (s\<lparr>os := t0\<rparr>) = Done (0, s\<lparr>os := t1\<rparr>)" "good t1"
    "umem t1 = umem t0" "next_fd t1 = next_fd t0" "conf_dma (fconf t1 ?f) = isDMA"
    using set_config_run [of "s\<lparr>os := t0\<rparr>" ?f DMA isDMA] by auto
  then obtain t2 where t2: "set_config A ?f INTERRUPT isInterrupt (s\<lparr>os := t1\<rparr>) = Done (0, s\<lparr>os := t2\<rparr>)" "good t2"
    "umem t2 = umem t1" "next_fd t2 = next_fd t1" "conf_dma (fconf t2 ?f) = conf_dma (fconf t1 ?f)" "conf_interrupt (fconf t2 ?f) = isInterrupt"
    using set_config_run [of "s\<lparr>os := t1\<rparr>" ?f INTERRUPT isInterrupt] by auto
  then obtain t3 where t3: "set_key A ?f a b (s\<lparr>os := t2\<rparr>) = Done (0, s\<lparr>os := t3\<rparr>)" "good t3"
    "umem t3 = umem t2" "next_fd t3 = next_fd t2" "conf_a (fconf t3 ?f) = a" "conf_b (fconf t3 ?f) = b"
    "conf_interrupt (fconf t3 ?f) = conf_interrupt (fconf t2 ?f)" "conf_dma (fconf t3 ?f) = conf_dma (fconf t2 ?f)"
    using set_key_run [of "s\<lparr>os := t2\<rparr>" ?f a b] by auto
  show ?thesis
    using t0 t1 t2 t3 ne by (intro exI [of _ t3]) (simp add: create_device_handle_def ERROR_def)
qed

lemma close_handle_run:
  assumes "good (os s)"
  shows "\<exists>t. close_handle A f s = s\<lparr>os := t\<rparr> \<and> good t \<and> umem t = umem (os s) \<and> next_fd t = next_fd (os s)"
  using closes [OF assms, of f] by (auto simp: close_handle_def)

end

text \<open>With the requests as well.\<close>

locale bench_device = handle_device A good + crypto_device A good umem "file_fn S" "user_ok U"
  for A :: "('d, 'x) system_scheme sysapi" and good and S :: "'d spec" and U

section \<open>The driver keeps it\<close>

lemma ready_cong: "wq_flag s = wq_flag s' \<Longrightarrow> dev s = dev s' \<Longrightarrow> ready S s = ready S s'"
  by (simp add: ready_def)

lemma driver_opens:
  assumes "driver_good C S k t"
  shows "\<exists>t'. driver_open k ja jb p t = (next_fd t, t') \<and> driver_good C S k t' \<and> umem t' = umem t \<and> next_fd t' = next_fd t + 1"
  using assms by (auto simp: driver_open_def cryptocard_fopen_def kernel_defs driver_good_def Let_def cong: ready_cong)

lemma driver_configures:
  assumes "driver_good C S k t"
  shows "\<exists>t'. driver_ioctl C k U f SET_CONFIG (no_arg\<lparr>as_config := \<lparr>mode_int_dma = config_num ty, cfg_set = val\<rparr>\<rparr>) t = Done (0, t') \<and>
    driver_good C S k t' \<and> umem t' = umem t \<and> next_fd t' = next_fd t \<and>
    conf_interrupt (fconf t' f) = (if ty = INTERRUPT then val else conf_interrupt (fconf t f)) \<and>
    conf_dma (fconf t' f) = (if ty = DMA then val else conf_dma (fconf t f))"
  using assms by (cases ty) (auto simp: driver_ioctl_def no_arg_def cryptocard_ioctl_def driver_good_def Let_def)

lemma driver_keys:
  assumes "driver_good C S k t"
  shows "\<exists>t'. driver_ioctl C k U f SET_KEY (no_arg\<lparr>as_key := \<lparr>key_field_a = a, key_field_b = b\<rparr>\<rparr>) t = Done (0, t') \<and>
    driver_good C S k t' \<and> umem t' = umem t \<and> next_fd t' = next_fd t \<and> conf_a (fconf t' f) = a \<and> conf_b (fconf t' f) = b \<and>
    conf_interrupt (fconf t' f) = conf_interrupt (fconf t f) \<and> conf_dma (fconf t' f) = conf_dma (fconf t f)"
  using assms ready_read [of C S "drv t" 0]
  by (auto simp: driver_ioctl_def no_arg_def cryptocard_ioctl_def driver_good_def Let_def)

lemma frelease_good:
  "driver_good C S k t \<Longrightarrow> driver_good C S k (t\<lparr>drv := snd (cryptocard_frelease p (drv t))\<rparr>)"
  by (auto simp: cryptocard_frelease_def driver_good_def kcalled_def Let_def cong: ready_cong)

interpretation bench: bench_device "driver_sys C k U ja jb mmap munmap" "driver_good C S k" S U
  for C S k U ja jb mmap munmap
  by unfold_locales (unfold driver_sys_def sysapi.simps,
    (rule driver_opens driver_configures driver_keys | intro conjI frelease_good | simp | assumption)+)

lemmas create_handle_driver = bench.create_handle_run
lemmas set_config_driver = bench.set_config_run
lemmas set_key_driver = bench.set_key_run
lemmas create_device_handle_driver = bench.create_device_handle_run

text \<open>A system with a card that computes the reference cipher, for examples.\<close>

definition bench_system :: "(regs \<times> nat) system" where
  "bench_system = ex_system\<lparr>umem := \<lambda>_. 72\<rparr>"

definition bench_sys :: "(regs \<times> nat) system sysapi" where
  "bench_sys = driver_sys (sim_card encrypt_byte decrypt_byte) ex_kernel flat_user 0 0
     (\<lambda>n f t. (MAP_FAILED, t)) (\<lambda>a n t. (- 1, t))"

lemma sim_spec_cipher [simp]: "enc (sim_spec e d) = e" "dec (sim_spec e d) = d"
  by (simp_all add: sim_spec_def)

lemma bench_ready: "ready (sim_spec e d) ex_driver"
  by (simp add: ready_def sim_spec_def ex_driver_def sim_reset_def quiet_def)

lemma bench_system_simps [simp]:
  "driver_good (sim_card encrypt_byte decrypt_byte) (sim_spec encrypt_byte decrypt_byte) ex_kernel bench_system"
  "next_fd bench_system = 4" "umem bench_system = (\<lambda>_. 72)"
  by (simp_all add: driver_good_def bench_system_def ex_system_def ex_kernel_def sim_card_ok sim_card_kind bench_ready)

end
