(* ===== verification/Suite.thy ===== *)
theory Suite
  imports Harness
begin

text \<open>
  The acceptance tests of the CryptoCard (\<^verbatim>\<open>eval-test/src\<close>: the programs for MMIO and DMA, with and without
  interrupts) and its benchmarks (\<^verbatim>\<open>benchmark-test\<close>): programs over the library of \<open>Crypter\<close> that run on the
  system of \<open>Crypter.driver_sys\<close>.  Buffers that the card works on lie in the caller's memory; buffers
  that only the program uses are byte lists.  The programs of one kind differ in the settings of the
  card and in sizes, so each is an instance of a common definition.
\<close>

section \<open>Helpers of the programs\<close>

text \<open>What \<^verbatim>\<open>map_file\<close> uses of the system: \<^verbatim>\<open>open\<close>, \<^verbatim>\<open>fstat\<close>, \<^verbatim>\<open>mmap\<close>, \<^verbatim>\<open>munmap\<close>, \<^verbatim>\<open>close\<close>.\<close>

record 's fileapi =
  f_open :: "string \<Rightarrow> 's \<Rightarrow> u32 \<times> 's"
  f_size :: "u32 \<Rightarrow> 's \<Rightarrow> u64"
  f_mmap :: "u64 \<Rightarrow> u32 \<Rightarrow> 's \<Rightarrow> u64 \<times> 's"
  f_munmap :: "u64 \<Rightarrow> u32 \<Rightarrow> 's \<Rightarrow> 's"
  f_close :: "u32 \<Rightarrow> 's \<Rightarrow> 's"

text \<open>The address, the descriptor and the size as an \<^verbatim>\<open>int\<close>; \<open>None\<close> when the program exits.  The test of the
  mapped address compares a pointer with 0.\<close>

definition map_file :: "'s fileapi \<Rightarrow> 's crypter \<Rightarrow> (u64 \<times> u32 \<times> u32) option \<times> 's crypter" where
  "map_file F s =
     (let (f, t) = f_open F ''/dev/shm/in_memory.txt'' (os s)
      in if f <s 0 then (None, s\<lparr>os := t\<rparr>)
         else
           (let st_size = f_size F f t;
                (buff_address, t) = f_mmap F st_size f t
            in if buff_address \<le> 0 then (None, s\<lparr>os := t\<rparr>)
               else (Some (buff_address, f, ucast st_size), s\<lparr>os := t\<rparr>)))"

datatype verdict = Passed | Failed | Exited

text \<open>A read past the end of a program's own buffer is a crash.\<close>

definition need :: "'a option \<Rightarrow> 'a outcome" where
  "need x = (case x of None \<Rightarrow> Oops | Some y \<Rightarrow> Done y)"

lemma need_Some [simp]: "need (Some y) = Done y"
  by (simp add: need_def)

definition peek :: "u64 \<Rightarrow> nat \<Rightarrow> ('d, 'x) system_scheme crypter \<Rightarrow> u8 list" where
  "peek addr n s = mem_read addr n (umem (os s))"

definition poke :: "u64 \<Rightarrow> u8 list \<Rightarrow> ('d, 'x) system_scheme crypter \<Rightarrow> ('d, 'x) system_scheme crypter" where
  "poke addr bs s = s\<lparr>os := (os s)\<lparr>umem := mem_write addr bs (umem (os s))\<rparr>\<rparr>"

text \<open>\<^verbatim>\<open>"Hello CS730!\n"\<close>\<close>

definition hello :: "u8 list" where
  "hello = [72, 101, 108, 108, 111, 32, 67, 83, 55, 51, 48, 33, 10]"

section \<open>One message\<close>

text \<open>Encrypt, compare with the reference, decrypt, compare with the original; \<open>True\<close> when both agree.\<close>

definition there_and_back ::
  "('d, 'x) system_scheme sysapi \<Rightarrow> u32 \<Rightarrow> u32 \<Rightarrow> u64 \<Rightarrow> u8 list \<Rightarrow> u8 list \<Rightarrow> ('d, 'x) system_scheme crypter \<Rightarrow> (bool \<times> ('d, 'x) system_scheme crypter) outcome" where
  "there_and_back A junk cdev op_text msg check s =
     obind (encrypt A junk cdev op_text (of_nat (length msg)) 0 s) (\<lambda>(r, s).
       obind (need (isValid check (peek op_text (length msg) s) (length msg))) (\<lambda>v.
         if v = 0 then Done (False, s)
         else
           obind (decrypt A junk cdev op_text (of_nat (length msg)) 0 s) (\<lambda>(r, s).
             obind (need (isValid msg (peek op_text (length msg) s) (length msg))) (\<lambda>v.
               Done (v \<noteq> 0, s)))))"

definition message_test ::
  "('d, 'x) system_scheme sysapi \<Rightarrow> u32 \<Rightarrow> u64 \<Rightarrow> u8 \<Rightarrow> u8 \<Rightarrow> ('d, 'x) system_scheme crypter \<Rightarrow> (verdict \<times> ('d, 'x) system_scheme crypter) outcome" where
  "message_test A junk op_text isDMA isInterrupt s =
     (let s = poke op_text (hello @ [0]) s
      in obind (need (create_encrpyted_buffer hello 30 17 (length hello))) (\<lambda>encrypt_check_buff.
           obind (create_device_handle A isDMA isInterrupt 30 17 s) (\<lambda>(cdev, s).
             case cdev of
               None \<Rightarrow> Done (Exited, s)
             | Some cdev \<Rightarrow>
                 obind (there_and_back A junk cdev op_text hello encrypt_check_buff s) (\<lambda>(ok, s).
                   if \<not> ok then Done (Failed, s) else Done (Passed, close_handle A cdev s)))))"

section \<open>Two handles\<close>

definition handles_test ::
  "('d, 'x) system_scheme sysapi \<Rightarrow> u32 \<Rightarrow> u64 \<Rightarrow> u8 \<Rightarrow> u8 \<Rightarrow> ('d, 'x) system_scheme crypter \<Rightarrow> (verdict \<times> ('d, 'x) system_scheme crypter) outcome" where
  "handles_test A junk op_text isDMA isInterrupt s =
     (let s = poke op_text (hello @ [0]) s
      in obind (need (create_encrpyted_buffer hello 30 17 (length hello))) (\<lambda>encrypt_check_buff1.
         obind (need (create_encrpyted_buffer hello 45 60 (length hello))) (\<lambda>encrypt_check_buff2.
         obind (create_device_handle A isDMA isInterrupt 30 17 s) (\<lambda>(cdev1, s).
           case cdev1 of
             None \<Rightarrow> Done (Exited, s)
           | Some cdev1 \<Rightarrow>
             (let s = close_handle A cdev1 s
              in obind (create_device_handle A isDMA isInterrupt 45 60 s) (\<lambda>(cdev2, s).
                case cdev2 of
                  None \<Rightarrow> Done (Exited, s)
                | Some cdev2 \<Rightarrow>
                  obind (there_and_back A junk cdev2 op_text hello encrypt_check_buff2 s) (\<lambda>(ok, s).
                    if \<not> ok then Done (Failed, s)
                    else
                      (let s = close_handle A cdev2 s
                       in obind (create_device_handle A isDMA isInterrupt 30 17 s) (\<lambda>(cdev1, s).
                         case cdev1 of
                           None \<Rightarrow> Done (Exited, s)
                         | Some cdev1 \<Rightarrow>
                           obind (there_and_back A junk cdev1 op_text hello encrypt_check_buff1 s) (\<lambda>(ok, s).
                             if \<not> ok then Done (Failed, s) else Done (Passed, close_handle A cdev1 s)))))))))))"

section \<open>A file in chunks\<close>

text \<open>The loop, with the number of rounds left; \<open>False\<close> when a comparison fails.\<close>

fun chunk_rounds ::
  "('d, 'x) system_scheme sysapi \<Rightarrow> u32 \<Rightarrow> u32 \<Rightarrow> u64 \<Rightarrow> u32 \<Rightarrow> nat \<Rightarrow> u32 \<Rightarrow> ('d, 'x) system_scheme crypter \<Rightarrow> (bool \<times> ('d, 'x) system_scheme crypter) outcome" where
  "chunk_rounds A junk cdev buffer chunk_size 0 chunk s = Done (True, s)"
| "chunk_rounds A junk cdev buffer chunk_size (Suc i) chunk s =
     (let offset = chunk * chunk_size;
          buffer_address = buffer + ucast offset
      in obind (need (create_encrpyted_buffer (peek buffer_address (unat chunk_size) s) 30 17 (unat chunk_size))) (\<lambda>encrypt_buff.
         obind (encrypt A junk cdev buffer_address (ucast chunk_size) 0 s) (\<lambda>(r, s).
         obind (need (isValid encrypt_buff (peek buffer_address (unat chunk_size) s) (unat chunk_size))) (\<lambda>v.
           if v = 0 then Done (False, s)
           else
             obind (decrypt A junk cdev buffer_address (ucast chunk_size) 0 s) (\<lambda>(r, s).
             obind (need (decryptMessage encrypt_buff (unat chunk_size) 30 17)) (\<lambda>encrypt_buff.
             obind (need (isValid encrypt_buff (peek buffer_address (unat chunk_size) s) (unat chunk_size))) (\<lambda>v.
               if v = 0 then Done (False, s)
               else chunk_rounds A junk cdev buffer chunk_size i (chunk + 1) s)))))))"

declare chunk_rounds.simps(2) [simp del]

definition chunk_test ::
  "('d, 'x) system_scheme sysapi \<Rightarrow> ('d, 'x) system_scheme fileapi \<Rightarrow> u32 \<Rightarrow> u8 \<Rightarrow> u8 \<Rightarrow> u32 \<Rightarrow> u32 \<Rightarrow> ('d, 'x) system_scheme crypter \<Rightarrow>
     (verdict \<times> ('d, 'x) system_scheme crypter) outcome" where
  "chunk_test A F junk isDMA isInterrupt chunk_size number_of_chunk s =
     (case map_file F s of
        (None, s) \<Rightarrow> Done (Exited, s)
      | (Some (buffer, file_desc, file_size), s) \<Rightarrow>
          obind (create_device_handle A isDMA isInterrupt 30 17 s) (\<lambda>(cdev, s).
            case cdev of
              None \<Rightarrow> Done (Exited, s)
            | Some cdev \<Rightarrow>
                obind (chunk_rounds A junk cdev buffer chunk_size (unat number_of_chunk) 0 s) (\<lambda>(ok, s).
                  if \<not> ok then Done (Failed, s)
                  else
                    (let s = close_handle A cdev s;
                         s = s\<lparr>os := f_munmap F buffer file_size (os s)\<rparr>;
                         s = s\<lparr>os := f_close F file_desc (os s)\<rparr>
                     in Done (Passed, s)))))"

section \<open>The benchmarks\<close>

fun bench_rounds ::
  "('d, 'x) system_scheme sysapi \<Rightarrow> u32 \<Rightarrow> u32 \<Rightarrow> u64 \<Rightarrow> nat \<Rightarrow> u32 \<Rightarrow> ('d, 'x) system_scheme crypter \<Rightarrow> ('d, 'x) system_scheme crypter outcome" where
  "bench_rounds A junk cdev buffer 0 chunk s = Done s"
| "bench_rounds A junk cdev buffer (Suc i) chunk s =
     (let offset = chunk * 4096;
          buffer_address = buffer + ucast offset
      in obind (encrypt A junk cdev buffer_address 4096 0 s) (\<lambda>(r, s).
         obind (decrypt A junk cdev buffer_address 4096 0 s) (\<lambda>(r, s).
           bench_rounds A junk cdev buffer i (chunk + 1) s)))"

text \<open>The results of the two \<^verbatim>\<open>set_config\<close> calls are not looked at; \<open>None\<close> is an exit before the end.\<close>

definition bench_main ::
  "('d, 'x) system_scheme sysapi \<Rightarrow> ('d, 'x) system_scheme fileapi \<Rightarrow> u32 \<Rightarrow> u8 \<Rightarrow> u8 \<Rightarrow> ('d, 'x) system_scheme crypter \<Rightarrow> (u32 option \<times> ('d, 'x) system_scheme crypter) outcome" where
  "bench_main A F junk isDMA isInterrupt s =
     (case map_file F s of
        (None, s) \<Rightarrow> Done (None, s)
      | (Some (buffer, file_desc, file_size), s) \<Rightarrow>
          (let (cdev, s) = create_handle A s
           in if cdev = ERROR then Done (None, s)
              else
                obind (set_config A cdev DMA isDMA s) (\<lambda>(r, s).
                obind (set_config A cdev INTERRUPT isInterrupt s) (\<lambda>(r, s).
                obind (set_key A cdev 30 17 s) (\<lambda>(r, s).
                  if r = ERROR then Done (None, s)
                  else
                    obind (bench_rounds A junk cdev buffer (unat (file_size div 4096)) 0 s) (\<lambda>s.
                      (let s = close_handle A cdev s;
                           s = s\<lparr>os := f_munmap F buffer file_size (os s)\<rparr>;
                           s = s\<lparr>os := f_close F file_desc (os s)\<rparr>
                       in Done (Some 0, s))))))))"

section \<open>The programs\<close>

definition MMIO_test1 where "MMIO_test1 A junk op_text = message_test A junk op_text UNSET UNSET"
definition MMIO_IRQ_test1 where "MMIO_IRQ_test1 A junk op_text = message_test A junk op_text UNSET SET"
definition DMA_test1 where "DMA_test1 A junk op_text = message_test A junk op_text SET UNSET"
definition DMA_IRQ_test1 where "DMA_IRQ_test1 A junk op_text = message_test A junk op_text SET SET"

definition MMIO_test2 where "MMIO_test2 A junk op_text = handles_test A junk op_text UNSET UNSET"
definition MMIO_IRQ_test2 where "MMIO_IRQ_test2 A junk op_text = handles_test A junk op_text UNSET SET"
definition DMA_test2 where "DMA_test2 A junk op_text = handles_test A junk op_text SET UNSET"
definition DMA_IRQ_test2 where "DMA_IRQ_test2 A junk op_text = handles_test A junk op_text SET SET"

definition MMIO_test3 where "MMIO_test3 A F junk = chunk_test A F junk UNSET UNSET 1 10"
definition MMIO_IRQ_test3 where "MMIO_IRQ_test3 A F junk = chunk_test A F junk UNSET SET 1 10"
definition DMA_test3 where "DMA_test3 A F junk = chunk_test A F junk SET UNSET 1 10"
definition DMA_IRQ_test3 where "DMA_IRQ_test3 A F junk = chunk_test A F junk SET SET 1 10"

definition MMIO_test4 where "MMIO_test4 A F junk = chunk_test A F junk UNSET UNSET (32 * 1024) 10"
definition MMIO_IRQ_test4 where "MMIO_IRQ_test4 A F junk = chunk_test A F junk UNSET SET (32 * 1024) 10"
definition DMA_test4 where "DMA_test4 A F junk = chunk_test A F junk SET UNSET (1020 * 1024) 10"
definition DMA_IRQ_test4 where "DMA_IRQ_test4 A F junk = chunk_test A F junk SET SET (1020 * 1024) 10"

definition MMIO_test5 where "MMIO_test5 A F junk = chunk_test A F junk UNSET UNSET (55 * 1024) 5"
definition MMIO_IRQ_test5 where "MMIO_IRQ_test5 A F junk = chunk_test A F junk UNSET SET (55 * 1024) 5"
definition DMA_test5 where "DMA_test5 A F junk = chunk_test A F junk SET UNSET (55 * 1024) 5"
definition DMA_IRQ_test5 where "DMA_IRQ_test5 A F junk = chunk_test A F junk SET SET (55 * 1024) 5"

definition mmio_main where "mmio_main A F junk = bench_main A F junk UNSET UNSET"
definition mmio_interrupt_main where "mmio_interrupt_main A F junk = bench_main A F junk UNSET SET"
definition dma_main where "dma_main A F junk = bench_main A F junk SET UNSET"
definition dma_interrupt_main where "dma_interrupt_main A F junk = bench_main A F junk SET SET"

section \<open>One request\<close>

text \<open>The file \<open>f\<close> is set to the key \<open>(a, b)\<close> of the reference cipher.\<close>

definition keyed :: "'d spec \<Rightarrow> u32 \<Rightarrow> u8 \<Rightarrow> u8 \<Rightarrow> ('d, 'x) system_scheme \<Rightarrow> bool" where
  "keyed S f a b t \<longleftrightarrow> file_fn S False f t = encrypt_byte a b \<and> file_fn S True f t = decrypt_byte a b"

definition reachable :: "uaccess \<Rightarrow> u64 \<Rightarrow> nat \<Rightarrow> bool" where
  "reachable U addr n \<longleftrightarrow> (\<forall>i c. unat i + unat c \<le> n \<longrightarrow> user_ok U (addr + i) c)"

lemma reachable_flat [simp]: "reachable flat_user addr n"
  by (simp add: reachable_def)

lemma reachable_part:
  assumes "reachable U addr n" "i + k \<le> n" "n < 2 ^ 64"
  shows "reachable U (addr + of_nat i) k"
proof -
  have "user_ok U (addr + of_nat i + j) c" if "unat j + unat c \<le> k" for j c
  proof -
    have "unat (of_nat i + j) = i + unat j"
      using assms(2,3) that unat_of_nat_u64 [of i] unat_word_ariths(1) [of "of_nat i" j] by simp
    then have "unat (of_nat i + j) + unat c \<le> n" using assms(2) that by simp
    then have "user_ok U (addr + (of_nat i + j)) c" using assms(1) unfolding reachable_def by blast
    then show ?thesis by (simp only: add.assoc)
  qed
  then show ?thesis by (simp add: reachable_def)
qed

context bench_device
begin

lemma encrypt_run:
  assumes "good (os s)" "keyed S f a b (os s)" "unat len < 32000 * 2 ^ 31" "reachable U addr (unat len)"
  shows "\<exists>t. encrypt A junk f addr len 0 s = Done (0, s\<lparr>os := t\<rparr>) \<and> good t \<and>
    keyed S f a b t \<and> umem t = mem_map (encrypt_byte a b) addr (unat len) (umem (os s))"
  using encrypt_any_length [OF assms(1,3), of addr junk f] assms(2,4)
  by (auto simp: keyed_def same_fn_def reachable_def)

lemma decrypt_run:
  assumes "good (os s)" "keyed S f a b (os s)" "unat len < 32768 * 2 ^ 31" "reachable U addr (unat len)"
  shows "\<exists>t. decrypt A junk f addr len 0 s = Done (0, s\<lparr>os := t\<rparr>) \<and> good t \<and>
    keyed S f a b t \<and>
    umem t = mem_map (if unat len \<le> 32768 then decrypt_byte a b else encrypt_byte a b) addr (unat len) (umem (os s))"
proof (cases "unat len \<le> 32768")
  case True
  have "user_ok U addr len" using assms(4) by (auto simp: reachable_def dest: spec [of _ 0])
  then show ?thesis using decrypt_small [OF assms(1) True, of addr junk f] assms(2) True
    by (auto simp: keyed_def same_fn_def)
next
  case False
  then show ?thesis using decrypt_large [OF assms(1) _ assms(3), of addr junk f] assms(2,4)
    by (auto simp: keyed_def same_fn_def reachable_def)
qed

lemma handle_run:
  assumes "good (os s)" "\<not> next_fd (os s) <s 0" "enc S = encrypt_byte" "dec S = decrypt_byte"
  shows "\<exists>t. create_device_handle A isDMA isInterrupt a b s =
      Done (Some (next_fd (os s)), s\<lparr>os := t\<rparr>) \<and> good t \<and> umem t = umem (os s) \<and>
    next_fd t = next_fd (os s) + 1 \<and> keyed S (next_fd (os s)) a b t"
  using create_device_handle_run [OF assms(1,2), of isDMA isInterrupt a b] assms(3,4)
  by (auto simp: keyed_def file_fn_def crypt_def Let_def)

end

lemmas encrypt_keyed = bench.encrypt_run
lemmas decrypt_keyed = bench.decrypt_run
lemmas handle_keyed = bench.handle_run
lemmas close_keyed = bench.close_handle_run

lemma round_trip_mem:
  assumes "uint b \<le> 128" "n \<le> 2 ^ 64"
  shows "mem_map (decrypt_byte a b) addr n (mem_map (encrypt_byte a b) addr n m) = m"
  using assms by (simp add: fun_eq_iff mem_map_apply decrypt_encrypt_byte)

lemma isValid_same: "n = length xs \<Longrightarrow> isValid xs xs n = Some 1"
  by (simp add: isValid_eq)

section \<open>Chunks\<close>

text \<open>What one round of the chunk test does: it goes on, with the memory as before, when the chunk is small and
  free of terminators, and it fails when the chunk is large and holds a letter.\<close>

lemma mem_read_mem_map: "n < 2 ^ 64 \<Longrightarrow> mem_read a n (mem_map F a n m) = map F (mem_read a n m)"
  using mem_read_map [of a "of_nat n" F m] by (simp add: unat_of_nat_u64)

lemma encrypt_twice_letter:
  assumes "is_letter x"
  shows "encrypt_byte 30 17 (encrypt_byte 30 17 x) \<noteq> x"
proof -
  obtain base i where x: "x = letter base i" "base \<in> {65, 97}" "0 \<le> i" "i < 26" using assms by (rule letterE)
  have u: "uint (30 :: u8) = 30" "uint (17 :: u8) = 17" by simp_all
  have e: "encrypt_byte 30 17 (letter base j) = letter base ((j + 47) mod 26)" if "0 \<le> j" "j < 26" for j
    using encrypt_letter [OF x(2) that, of 30 17] unfolding u by (simp add: add.assoc)
  have "encrypt_byte 30 17 (encrypt_byte 30 17 x) = letter base (((i + 47) mod 26 + 47) mod 26)"
    using x e [of i] e [of "(i + 47) mod 26"] by simp
  also have "((i + 47) mod 26 + 47) mod 26 = (i + 16 + 26 * 3) mod 26" by (simp add: mod_simps)
  also have "\<dots> = (i + 16) mod 26" by (rule mod_mult_self2)
  finally have *: "encrypt_byte 30 17 (encrypt_byte 30 17 x) = letter base ((i + 16) mod 26)" .
  have "(i + 16) mod 26 = (if i < 10 then i + 16 else i - 10)"
    using x(3,4) mod_add_self2 [of "i - 10" 26] by (auto simp: add.commute)
  then have "(i + 16) mod 26 \<noteq> i" by simp
  then have "sint (letter base ((i + 16) mod 26)) \<noteq> sint (letter base i)"
    using sint_letter [OF x(2), of "(i + 16) mod 26"] sint_letter [OF x(2-4)] by simp
  then show ?thesis using * x(1) by auto
qed

text \<open>The offset of a chunk, a 32-bit product, is exact while the file is below 4 GB.\<close>

lemma chunk_offset:
  fixes chunk_size :: u32
  assumes "Suc i * unat chunk_size < 2 ^ 32"
  shows "ucast (of_nat i * chunk_size) = (of_nat (i * unat chunk_size) :: u64)"
proof -
  define m where "m = i * unat chunk_size"
  have "m < 2 ^ 32" using assms by (simp add: m_def)
  then have "unat (of_nat m :: u32) = m" by (simp add: unat_of_nat)
  moreover have "of_nat i * chunk_size = of_nat m" by (simp add: m_def)
  ultimately have "unat (of_nat i * chunk_size) = m" by (simp only:)
  moreover have "ucast (of_nat i * chunk_size) = (of_nat (unat (of_nat i * chunk_size)) :: u64)"
    by (simp only: of_nat_unat)
  ultimately show ?thesis by (simp only: m_def)
qed

text \<open>The file is mapped at \<open>buffer\<close> and holds \<open>n\<close> bytes, none of them a terminator, within reach of the kernel.\<close>

definition file_mapped ::
  "('d, 'x) system_scheme fileapi \<Rightarrow> uaccess \<Rightarrow> u64 \<Rightarrow> nat \<Rightarrow> ('d, 'x) system_scheme \<Rightarrow> ('d, 'x) system_scheme \<Rightarrow> bool" where
  "file_mapped F U buffer n t t' \<longleftrightarrow>
     (\<exists>f t1. f_open F ''/dev/shm/in_memory.txt'' t = (f, t1) \<and> \<not> f <s 0 \<and> f_mmap F (f_size F f t1) f t1 = (buffer, t')) \<and>
     buffer \<noteq> 0 \<and> reachable U buffer n \<and> 0 \<notin> set (mem_read buffer n (umem t'))"

lemma map_file_mapped:
  assumes "file_mapped F U buffer n (os s) t'"
  shows "\<exists>f sz. map_file F s = (Some (buffer, f, sz), s\<lparr>os := t'\<rparr>)"
  using assms by (auto simp: map_file_def file_mapped_def)

context bench_device
begin

lemma chunk_round:
  assumes good: "good (os s)" "keyed S f 30 17 (os s)"
    and reach: "reachable U (buffer + ucast (chunk * chunk_size)) (unat chunk_size)"
    and nonul: "0 \<notin> set (peek (buffer + ucast (chunk * chunk_size)) (unat chunk_size) s)"
  shows "\<exists>t. good t \<and> keyed S f 30 17 t \<and>
    (if unat chunk_size \<le> 32768
     then umem t = umem (os s) \<and> chunk_rounds A junk f buffer chunk_size (Suc i) chunk s =
       chunk_rounds A junk f buffer chunk_size i (chunk + 1) (s\<lparr>os := t\<rparr>)
     else (\<exists>x \<in> set (peek (buffer + ucast (chunk * chunk_size)) (unat chunk_size) s). is_letter x) \<longrightarrow>
       chunk_rounds A junk f buffer chunk_size (Suc i) chunk s = Done (False, s\<lparr>os := t\<rparr>))"
proof -
  let ?n = "unat chunk_size" and ?a = "buffer + ucast (chunk * chunk_size)"
  let ?buf = "peek ?a ?n s"
  have "?n < 2 ^ LENGTH(32)" by (rule unsigned_less)
  then have lim: "?n < 2 ^ 32" by simp
  then have n: "unat (ucast chunk_size :: u64) = ?n" by (simp add: unsigned_ucast_eq take_bit_eq_mod)
  have len: "length ?buf = ?n" by (simp add: peek_def)
  have ref: "create_encrpyted_buffer ?buf 30 17 ?n = Some (map (encrypt_byte 30 17) ?buf)"
    using nonul len strncpy_no_nul [of ?n ?buf] by (simp add: create_encrpyted_buffer_def encryptMessage_map)
  obtain t1 where t1: "encrypt A junk f ?a (ucast chunk_size) 0 s = Done (0, s\<lparr>os := t1\<rparr>)" "good t1" "keyed S f 30 17 t1"
    "umem t1 = mem_map (encrypt_byte 30 17) ?a ?n (umem (os s))"
    using encrypt_run [OF good, of "ucast chunk_size" ?a junk] lim reach unfolding n by auto
  have p1: "peek ?a ?n (s\<lparr>os := t1\<rparr>) = map (encrypt_byte 30 17) ?buf"
    using t1(4) lim by (simp add: peek_def mem_read_mem_map)
  obtain t2 where t2: "decrypt A junk f ?a (ucast chunk_size) 0 (s\<lparr>os := t1\<rparr>) = Done (0, s\<lparr>os := t2\<rparr>)" "good t2"
    "keyed S f 30 17 t2"
    "umem t2 = mem_map (if ?n \<le> 32768 then decrypt_byte 30 17 else encrypt_byte 30 17) ?a ?n (umem t1)"
    using decrypt_run [of "s\<lparr>os := t1\<rparr>" f 30 17 "ucast chunk_size" ?a junk] t1 lim reach unfolding n by auto
  have dref: "decryptMessage (map (encrypt_byte 30 17) ?buf) ?n 30 17 = Some ?buf"
    using len gen.map_dec_enc [of "(30, 17)" ?buf] by (simp add: decryptMessage_map)
  have step: "chunk_rounds A junk f buffer chunk_size (Suc i) chunk s =
      obind (need (isValid ?buf (peek ?a ?n (s\<lparr>os := t2\<rparr>)) ?n)) (\<lambda>v.
        if v = 0 then Done (False, s\<lparr>os := t2\<rparr>) else chunk_rounds A junk f buffer chunk_size i (chunk + 1) (s\<lparr>os := t2\<rparr>))"
    using ref t1(1) p1 t2(1) dref len by (simp add: chunk_rounds.simps(2) Let_def isValid_eq)
  show ?thesis
  proof (cases "?n \<le> 32768")
    case True
    then have "umem t2 = umem (os s)" using t1(4) t2(4) lim by (simp add: round_trip_mem)
    then show ?thesis using step t2 len True by (intro exI [of _ t2]) (simp add: peek_def isValid_eq)
  next
    case False
    have p2: "peek ?a ?n (s\<lparr>os := t2\<rparr>) = map (encrypt_byte 30 17 \<circ> encrypt_byte 30 17) ?buf"
      using t1(4) t2(4) False lim by (simp add: peek_def mem_read_mem_map)
    have "?buf \<noteq> map (encrypt_byte 30 17 \<circ> encrypt_byte 30 17) ?buf" if x: "x \<in> set ?buf" "is_letter x" for x
    proof -
      obtain j where "j < length ?buf" "?buf ! j = x" using x(1) unfolding in_set_conv_nth by blast
      then have "map (encrypt_byte 30 17 \<circ> encrypt_byte 30 17) ?buf ! j \<noteq> ?buf ! j" using encrypt_twice_letter [OF x(2)] by simp
      then show ?thesis by metis
    qed
    then show ?thesis using step t2 len False p2 by (intro exI [of _ t2]) (auto simp: isValid_eq)
  qed
qed

lemma chunk_rounds_pass:
  assumes "good (os s)" "keyed S f 30 17 (os s)" "unat chunk_size \<le> 32768" "(j + i) * unat chunk_size < 2 ^ 32"
    "reachable U buffer ((j + i) * unat chunk_size)" "0 \<notin> set (peek buffer ((j + i) * unat chunk_size) s)"
  shows "\<exists>t. chunk_rounds A junk f buffer chunk_size i (of_nat j) s = Done (True, s\<lparr>os := t\<rparr>) \<and>
    good t \<and> umem t = umem (os s)"
  using assms
proof (induction i arbitrary: j s)
  case 0
  then show ?case by (intro exI [of _ "os s"]) simp
next
  case (Suc i)
  let ?n = "unat chunk_size"
  have le: "Suc j * ?n \<le> (j + Suc i) * ?n" by simp
  then have lt: "Suc j * ?n < 2 ^ 32" using Suc.prems(4) by linarith
  have off: "buffer + ucast (of_nat j * chunk_size) = buffer + of_nat (j * ?n)" by (simp only: chunk_offset [OF lt])
  have r: "reachable U (buffer + ucast (of_nat j * chunk_size)) ?n"
    unfolding off using Suc.prems(4,5) le by (intro reachable_part [where n = "(j + Suc i) * ?n"]) (simp_all add: algebra_simps)
  have "set (peek (buffer + ucast (of_nat j * chunk_size)) ?n s) \<subseteq> set (peek buffer ((j + Suc i) * ?n) s)"
  proof -
    have "(j + Suc i) * ?n = j * ?n + ?n + i * ?n" by (simp add: algebra_simps)
    then show ?thesis unfolding off peek_def by (simp only: mem_read_append set_append) blast
  qed
  then have z: "0 \<notin> set (peek (buffer + ucast (of_nat j * chunk_size)) ?n s)" using Suc.prems(6) by blast
  obtain t where t: "good t" "keyed S f 30 17 t" "umem t = umem (os s)"
    "chunk_rounds A junk f buffer chunk_size (Suc i) (of_nat j) s = chunk_rounds A junk f buffer chunk_size i (of_nat j + 1) (s\<lparr>os := t\<rparr>)"
    using chunk_round [OF Suc.prems(1,2) r z, of junk i] Suc.prems(3) by auto
  have "peek buffer ((Suc j + i) * ?n) (s\<lparr>os := t\<rparr>) = peek buffer ((j + Suc i) * ?n) s" using t(3) by (simp add: peek_def)
  then obtain t' where "chunk_rounds A junk f buffer chunk_size i (of_nat (Suc j)) (s\<lparr>os := t\<rparr>) = Done (True, s\<lparr>os := t'\<rparr>)"
    "good t'" "umem t' = umem (os s)"
    using Suc.IH [of "s\<lparr>os := t\<rparr>" "Suc j"] t Suc.prems by auto
  then show ?case using t(4) by (intro exI [of _ t']) (simp add: add.commute)
qed

lemma chunk_test_passes:
  assumes mapd: "file_mapped F U buffer (unat number * unat chunk_size) (os s) t0" and good: "good t0"
    and fd: "\<not> next_fd t0 <s 0" and card: "enc S = encrypt_byte" "dec S = decrypt_byte"
    and sz: "unat chunk_size \<le> 32768" "unat number * unat chunk_size < 2 ^ 32"
  shows "\<exists>s'. chunk_test A F junk isDMA isInterrupt chunk_size number s = Done (Passed, s')"
proof -
  obtain f z where m: "map_file F s = (Some (buffer, f, z), s\<lparr>os := t0\<rparr>)" using map_file_mapped [OF mapd] by blast
  obtain t1 where t1: "create_device_handle A isDMA isInterrupt 30 17 (s\<lparr>os := t0\<rparr>) = Done (Some (next_fd t0), s\<lparr>os := t1\<rparr>)"
    "good t1" "umem t1 = umem t0" "keyed S (next_fd t0) 30 17 t1"
    using handle_run [of "s\<lparr>os := t0\<rparr>" isDMA isInterrupt 30 17] good fd card by auto
  obtain t2 where "chunk_rounds A junk (next_fd t0) buffer chunk_size (unat number) 0 (s\<lparr>os := t1\<rparr>) = Done (True, s\<lparr>os := t2\<rparr>)"
    using chunk_rounds_pass [of "s\<lparr>os := t1\<rparr>" "next_fd t0" chunk_size 0 "unat number" buffer junk]
      t1 sz mapd by (auto simp: file_mapped_def peek_def)
  then show ?thesis using m t1 by (simp add: chunk_test_def Let_def)
qed

lemma chunk_test_fails:
  assumes mapd: "file_mapped F U buffer (unat chunk_size) (os s) t0" and good: "good t0"
    and fd: "\<not> next_fd t0 <s 0" and card: "enc S = encrypt_byte" "dec S = decrypt_byte"
    and sz: "32768 < unat chunk_size" "number \<noteq> 0"
    and letter: "x \<in> set (mem_read buffer (unat chunk_size) (umem t0))" "is_letter x"
  shows "\<exists>s'. chunk_test A F junk isDMA isInterrupt chunk_size number s = Done (Failed, s')"
proof -
  obtain f z where m: "map_file F s = (Some (buffer, f, z), s\<lparr>os := t0\<rparr>)" using map_file_mapped [OF mapd] by blast
  obtain t1 where t1: "create_device_handle A isDMA isInterrupt 30 17 (s\<lparr>os := t0\<rparr>) = Done (Some (next_fd t0), s\<lparr>os := t1\<rparr>)"
    "good t1" "umem t1 = umem t0" "keyed S (next_fd t0) 30 17 t1"
    using handle_run [of "s\<lparr>os := t0\<rparr>" isDMA isInterrupt 30 17] good fd card by auto
  obtain i where i: "unat number = Suc i" using sz(2) by (cases "unat number") (auto simp: unat_eq_0)
  obtain t2 where "chunk_rounds A junk (next_fd t0) buffer chunk_size (Suc i) 0 (s\<lparr>os := t1\<rparr>) = Done (False, s\<lparr>os := t2\<rparr>)"
    using chunk_round [of "s\<lparr>os := t1\<rparr>" "next_fd t0" buffer 0 chunk_size junk i]
      t1 sz(1) mapd letter by (auto simp: file_mapped_def peek_def)
  then show ?thesis using m t1 i by (simp add: chunk_test_def)
qed

end

section \<open>Messages\<close>

lemma ioctl_next_fd:
  "ioctl (driver_sys C k U ja jb mmap munmap) f cmd arg s = Done (r, s') \<Longrightarrow> next_fd (os s') = next_fd (os s)"
  by (auto simp: ioctl_def driver_sys_def driver_ioctl_def obind_def split: outcome.splits prod.splits)

lemma small_next_fd:
  assumes "len \<le> 32000"
  shows "encrypt (driver_sys C k U ja jb mmap munmap) junk f addr len 0 s = Done (r, s') \<Longrightarrow> next_fd (os s') = next_fd (os s)"
    and "decrypt (driver_sys C k U ja jb mmap munmap) junk f addr len 0 s = Done (r, s') \<Longrightarrow> next_fd (os s') = next_fd (os s)"
proof -
  have "len \<le> 32768" using assms by (simp add: word_le_nat_alt)
  with assms show "encrypt (driver_sys C k U ja jb mmap munmap) junk f addr len 0 s = Done (r, s') \<Longrightarrow> next_fd (os s') = next_fd (os s)"
    "decrypt (driver_sys C k U ja jb mmap munmap) junk f addr len 0 s = Done (r, s') \<Longrightarrow> next_fd (os s') = next_fd (os s)"
    using ioctl_next_fd by (fastforce simp: encrypt_def decrypt_def obind_def split: outcome.splits prod.splits if_splits)+
qed

lemma there_and_back_ok:
  assumes good: "driver_good C S k (os s)" "keyed S f a b (os s)" "uint b \<le> 128"
    and msg: "length msg \<le> 32000" "peek op_text (length msg) s = msg" and reach: "reachable U op_text (length msg)"
  shows "\<exists>t. there_and_back (driver_sys C k U ja jb mmap munmap) junk f op_text msg (map (encrypt_byte a b) msg) s =
      Done (True, s\<lparr>os := t\<rparr>) \<and> driver_good C S k t \<and> umem t = umem (os s) \<and> next_fd t = next_fd (os s)"
proof -
  let ?A = "driver_sys C k U ja jb mmap munmap" and ?n = "length msg" and ?w = "of_nat (length msg) :: u64"
  have n: "unat ?w = ?n" using msg(1) by (intro unat_of_nat_u64) simp
  have small: "?w \<le> 32000" using n msg(1) by (simp add: word_le_nat_alt)
  obtain t1 where t1: "encrypt ?A junk f op_text ?w 0 s = Done (0, s\<lparr>os := t1\<rparr>)" "driver_good C S k t1" "keyed S f a b t1"
    "umem t1 = mem_map (encrypt_byte a b) op_text ?n (umem (os s))"
    using encrypt_keyed [OF good(1,2), of ?w U op_text ja jb mmap munmap junk] n msg(1) reach by auto
  have p1: "peek op_text ?n (s\<lparr>os := t1\<rparr>) = map (encrypt_byte a b) msg"
    using t1(4) msg by (simp add: peek_def mem_read_mem_map)
  obtain t2 where t2: "decrypt ?A junk f op_text ?w 0 (s\<lparr>os := t1\<rparr>) = Done (0, s\<lparr>os := t2\<rparr>)" "driver_good C S k t2"
    "umem t2 = mem_map (decrypt_byte a b) op_text ?n (umem t1)"
    using decrypt_keyed [of C S k "s\<lparr>os := t1\<rparr>" f a b ?w U op_text ja jb mmap munmap junk] n msg(1) reach t1 by auto
  have m: "umem t2 = umem (os s)" using t1(4) t2(3) good(3) msg(1) by (simp add: round_trip_mem)
  then have "peek op_text ?n (s\<lparr>os := t2\<rparr>) = msg" using msg(2) by (simp add: peek_def)
  moreover have "next_fd t2 = next_fd (os s)"
    using small_next_fd [OF small, of C k U ja jb mmap munmap junk f op_text] t1(1) t2(1) by fastforce
  ultimately show ?thesis using t1 t2 p1 m by (intro exI [of _ t2]) (simp add: there_and_back_def isValid_same)
qed

lemma hello_check: "create_encrpyted_buffer hello a b (length hello) = Some (map (encrypt_byte a b) hello)"
proof -
  have "0 \<notin> set (take (length hello) hello)" by (simp add: hello_def)
  then show ?thesis using strncpy_no_nul [of "length hello" hello]
    by (simp add: create_encrpyted_buffer_def encryptMessage_map)
qed

lemma mem_read_write_prefix:
  assumes "length (xs @ ys) \<le> 2 ^ 64"
  shows "mem_read a (length xs) (mem_write a (xs @ ys) m) = xs"
proof -
  have "mem_read a (length xs + length ys) (mem_write a (xs @ ys) m) = xs @ ys"
    using mem_read_write_same [OF assms, of a m] by simp
  then show ?thesis unfolding mem_read_append by simp
qed

lemma peek_poke_hello [simp]: "peek op_text (length hello) (poke op_text (hello @ [0]) s) = hello"
proof -
  have "length (hello @ [0]) \<le> 2 ^ 64" by (simp add: hello_def)
  from mem_read_write_prefix [OF this, of op_text "umem (os s)"] show ?thesis by (simp add: peek_def poke_def)
qed

text \<open>One session with a handle: open, configure, encrypt and decrypt the message, close.\<close>

lemma hello_session:
  assumes good: "driver_good C S k (os s)" "\<not> next_fd (os s) <s 0" and card: "enc S = encrypt_byte" "dec S = decrypt_byte"
    and b: "uint b \<le> 128" and msg: "peek op_text (length hello) s = hello" "reachable U op_text (length hello)"
  shows "\<exists>t1 t2 t3. create_device_handle (driver_sys C k U ja jb mmap munmap) isDMA isInterrupt a b s =
      Done (Some (next_fd (os s)), s\<lparr>os := t1\<rparr>) \<and>
    there_and_back (driver_sys C k U ja jb mmap munmap) junk (next_fd (os s)) op_text hello (map (encrypt_byte a b) hello) (s\<lparr>os := t1\<rparr>) =
      Done (True, s\<lparr>os := t2\<rparr>) \<and>
    close_handle (driver_sys C k U ja jb mmap munmap) (next_fd (os s)) (s\<lparr>os := t2\<rparr>) = s\<lparr>os := t3\<rparr> \<and>
    driver_good C S k t3 \<and> umem t3 = umem (os s) \<and> next_fd t3 = next_fd (os s) + 1"
proof -
  let ?A = "driver_sys C k U ja jb mmap munmap" and ?f = "next_fd (os s)"
  obtain t1 where t1: "create_device_handle ?A isDMA isInterrupt a b s = Done (Some ?f, s\<lparr>os := t1\<rparr>)" "driver_good C S k t1"
    "umem t1 = umem (os s)" "next_fd t1 = ?f + 1" "keyed S ?f a b t1"
    using handle_keyed [OF good card] by blast
  have "length hello \<le> 32000" by (simp add: hello_def)
  moreover have "peek op_text (length hello) (s\<lparr>os := t1\<rparr>) = hello" using msg(1) t1(3) by (simp add: peek_def)
  ultimately obtain t2 where t2: "there_and_back ?A junk ?f op_text hello (map (encrypt_byte a b) hello) (s\<lparr>os := t1\<rparr>) = Done (True, s\<lparr>os := t2\<rparr>)"
    "driver_good C S k t2" "umem t2 = umem t1" "next_fd t2 = next_fd t1"
    using there_and_back_ok [of C S k "s\<lparr>os := t1\<rparr>" ?f a b hello op_text U ja jb mmap munmap junk] t1(2,5) b msg(2) by auto
  obtain t3 where "close_handle ?A ?f (s\<lparr>os := t2\<rparr>) = s\<lparr>os := t3\<rparr>" "driver_good C S k t3" "umem t3 = umem t2" "next_fd t3 = next_fd t2"
    using close_keyed [of C S k "s\<lparr>os := t2\<rparr>" U ja jb mmap munmap ?f] t2(2) by auto
  then show ?thesis using t1 t2 by (intro exI [of _ t1] exI [of _ t2] exI [of _ t3]) simp
qed

lemma poke_simps [simp]:
  "driver_good C S k (os (poke a bs s)) = driver_good C S k (os s)" "next_fd (os (poke a bs s)) = next_fd (os s)"
  by (simp_all add: poke_def driver_good_def)

lemma message_test_passes:
  assumes "driver_good C S k (os s)" "\<not> next_fd (os s) <s 0" "enc S = encrypt_byte" "dec S = decrypt_byte"
    "reachable U op_text (length hello)"
  shows "\<exists>s'. message_test (driver_sys C k U ja jb mmap munmap) junk op_text isDMA isInterrupt s = Done (Passed, s')"
proof -
  let ?s = "poke op_text (hello @ [0]) s"
  obtain t1 t2 t3 where "create_device_handle (driver_sys C k U ja jb mmap munmap) isDMA isInterrupt 30 17 ?s =
      Done (Some (next_fd (os ?s)), ?s\<lparr>os := t1\<rparr>)"
    "there_and_back (driver_sys C k U ja jb mmap munmap) junk (next_fd (os ?s)) op_text hello (map (encrypt_byte 30 17) hello) (?s\<lparr>os := t1\<rparr>) =
      Done (True, ?s\<lparr>os := t2\<rparr>)"
    using hello_session [of C S k ?s 17 op_text U ja jb mmap munmap isDMA isInterrupt 30 junk] assms by auto
  then show ?thesis by (simp add: message_test_def hello_check Let_def del: poke_simps)
qed

lemma handles_test_passes:
  assumes good: "driver_good C S k (os s)" and fds: "\<not> next_fd (os s) <s 0" "\<not> next_fd (os s) + 1 <s 0" "\<not> next_fd (os s) + 2 <s 0"
    and card: "enc S = encrypt_byte" "dec S = decrypt_byte" and reach: "reachable U op_text (length hello)"
  shows "\<exists>s'. handles_test (driver_sys C k U ja jb mmap munmap) junk op_text isDMA isInterrupt s = Done (Passed, s')"
proof -
  let ?A = "driver_sys C k U ja jb mmap munmap"
  define s0 where "s0 = poke op_text (hello @ [0]) s"
  have p0: "peek op_text (length hello) s0 = hello" "driver_good C S k (os s0)" "next_fd (os s0) = next_fd (os s)"
    using good by (simp_all add: s0_def)
  have f0: "\<not> next_fd (os s0) <s 0" using p0 fds by simp
  obtain t1 where t1: "create_device_handle ?A isDMA isInterrupt 30 17 s0 = Done (Some (next_fd (os s0)), s0\<lparr>os := t1\<rparr>)"
    "driver_good C S k t1" "umem t1 = umem (os s0)" "next_fd t1 = next_fd (os s0) + 1"
    using handle_keyed [OF p0(2) f0 card] by blast
  obtain t1' where t1': "close_handle ?A (next_fd (os s0)) (s0\<lparr>os := t1\<rparr>) = s0\<lparr>os := t1'\<rparr>" "driver_good C S k t1'"
    "umem t1' = umem t1" "next_fd t1' = next_fd t1"
    using close_keyed [of C S k "s0\<lparr>os := t1\<rparr>" U ja jb mmap munmap "next_fd (os s0)"] t1(2) by auto
  have p1: "peek op_text (length hello) (s0\<lparr>os := t1'\<rparr>) = hello" using p0(1) t1(3) t1'(3) by (simp add: peek_def)
  obtain t2 t3 t4 where t2: "create_device_handle ?A isDMA isInterrupt 45 60 (s0\<lparr>os := t1'\<rparr>) = Done (Some (next_fd t1'), s0\<lparr>os := t2\<rparr>)"
    "there_and_back ?A junk (next_fd t1') op_text hello (map (encrypt_byte 45 60) hello) (s0\<lparr>os := t2\<rparr>) = Done (True, s0\<lparr>os := t3\<rparr>)"
    "close_handle ?A (next_fd t1') (s0\<lparr>os := t3\<rparr>) = s0\<lparr>os := t4\<rparr>" "driver_good C S k t4" "umem t4 = umem t1'" "next_fd t4 = next_fd t1' + 1"
    using hello_session [of C S k "s0\<lparr>os := t1'\<rparr>" 60 op_text U ja jb mmap munmap isDMA isInterrupt 45 junk]
      t1'(2) t1(4) t1'(4) p0(3) fds(2) card p1 reach by auto
  have p2: "peek op_text (length hello) (s0\<lparr>os := t4\<rparr>) = hello" using p1 t2(5) by (simp add: peek_def)
  have f4: "next_fd t4 = next_fd (os s) + 2" using t2(6) t1'(4) t1(4) p0(3) by simp
  obtain t5 t6 where "create_device_handle ?A isDMA isInterrupt 30 17 (s0\<lparr>os := t4\<rparr>) = Done (Some (next_fd t4), s0\<lparr>os := t5\<rparr>)"
    "there_and_back ?A junk (next_fd t4) op_text hello (map (encrypt_byte 30 17) hello) (s0\<lparr>os := t5\<rparr>) = Done (True, s0\<lparr>os := t6\<rparr>)"
    using hello_session [of C S k "s0\<lparr>os := t4\<rparr>" 17 op_text U ja jb mmap munmap isDMA isInterrupt 30 junk]
      t2(4) f4 fds(3) card p2 reach by auto
  then show ?thesis using t1(1) t1'(1) t2(1-3)
    by (simp add: handles_test_def hello_check Let_def s0_def [symmetric])
qed

section \<open>The acceptance tests on this driver\<close>

lemma file_mapped_mono: "file_mapped F U buffer n t t' \<Longrightarrow> k \<le> n \<Longrightarrow> n < 2 ^ 64 \<Longrightarrow> file_mapped F U buffer k t t'"
proof -
  assume *: "file_mapped F U buffer n t t'" "k \<le> n" "n < 2 ^ 64"
  have "mem_read buffer n (umem t') = mem_read buffer k (umem t') @ mem_read (buffer + of_nat k) (n - k) (umem t')"
    using *(2) mem_read_append [of buffer k "n - k" "umem t'"] by simp
  then have "0 \<notin> set (mem_read buffer k (umem t'))" using *(1) by (simp add: file_mapped_def)
  moreover have "reachable U buffer k" using reachable_part [of U buffer n 0 k] * by (simp add: file_mapped_def)
  ultimately show ?thesis using *(1) by (simp add: file_mapped_def)
qed

lemmas programs = MMIO_test1_def MMIO_IRQ_test1_def DMA_test1_def DMA_IRQ_test1_def MMIO_test2_def MMIO_IRQ_test2_def
  DMA_test2_def DMA_IRQ_test2_def MMIO_test3_def MMIO_IRQ_test3_def DMA_test3_def DMA_IRQ_test3_def MMIO_test4_def MMIO_IRQ_test4_def
  DMA_test4_def DMA_IRQ_test4_def MMIO_test5_def MMIO_IRQ_test5_def DMA_test5_def DMA_IRQ_test5_def

context bench_device
begin

lemma small_chunks_pass:
  assumes "file_mapped F U buffer size0 (os s) t0" "good t0" "\<not> next_fd t0 <s 0" "enc S = encrypt_byte" "dec S = decrypt_byte"
    "unat n \<le> 32768" "unat c * unat n \<le> size0" "size0 < 2 ^ 32"
  shows "\<exists>s'. chunk_test A F junk d i n c s = Done (Passed, s')"
  using assms by (intro chunk_test_passes [where buffer = buffer and ?t0.0 = t0]) (auto intro: file_mapped_mono)

lemma big_chunks_fail:
  assumes "file_mapped F U buffer size0 (os s) t0" "good t0" "\<not> next_fd t0 <s 0" "enc S = encrypt_byte" "dec S = decrypt_byte"
    "x \<in> set (mem_read buffer l (umem t0))" "is_letter x" "32768 < unat n" "l \<le> unat n" "unat n \<le> size0" "size0 < 2 ^ 32" "c \<noteq> 0"
  shows "\<exists>s'. chunk_test A F junk d i n c s = Done (Failed, s')"
proof -
  have "mem_read buffer (unat n) (umem t0) = mem_read buffer l (umem t0) @ mem_read (buffer + of_nat l) (unat n - l) (umem t0)"
    using assms(9) mem_read_append [of buffer l "unat n - l" "umem t0"] by simp
  then have "x \<in> set (mem_read buffer (unat n) (umem t0))" using assms(6) by simp
  then show ?thesis using assms by (intro chunk_test_fails [where buffer = buffer and ?t0.0 = t0]) (auto intro: file_mapped_mono)
qed

end

text \<open>
  C7: The verdicts of the twenty MMIO and DMA acceptance tests on the library and the driver, with a card that
  computes the reference cipher and a file of text: all tests of single messages, of two handles, of
  chunks of one byte and of 32 KB print "Testcase passed"; the tests with chunks of 55 KB and of 1020 KB print
  "Testcase failed", because decrypting more than 32 KB through the library encrypts once more.
\<close>

theorem acceptance_tests:
  assumes good: "driver_good C S k (os s)" "driver_good C S k t0" and card: "enc S = encrypt_byte" "dec S = decrypt_byte"
    and fds: "\<not> next_fd (os s) <s 0" "\<not> next_fd (os s) + 1 <s 0" "\<not> next_fd (os s) + 2 <s 0" "\<not> next_fd t0 <s 0"
    and mem: "reachable U op_text (length hello)" "file_mapped F U buffer (1020 * 1024) (os s) t0"
    and letter: "x \<in> set (mem_read buffer (55 * 1024) (umem t0))" "is_letter x"
    and A: "A = driver_sys C k U ja jb mmap munmap"
  shows "(\<forall>p \<in> {MMIO_test1, MMIO_IRQ_test1, DMA_test1, DMA_IRQ_test1, MMIO_test2, MMIO_IRQ_test2, DMA_test2, DMA_IRQ_test2}.
      \<exists>s'. p A junk op_text s = Done (Passed, s')) \<and>
    (\<forall>p \<in> {MMIO_test3, MMIO_IRQ_test3, DMA_test3, DMA_IRQ_test3, MMIO_test4, MMIO_IRQ_test4}.
      \<exists>s'. p A F junk s = Done (Passed, s')) \<and>
    (\<forall>p \<in> {DMA_test4, DMA_IRQ_test4, MMIO_test5, MMIO_IRQ_test5, DMA_test5, DMA_IRQ_test5}.
      \<exists>s'. p A F junk s = Done (Failed, s'))"
proof -
  have one: "\<exists>s'. message_test A junk op_text d i s = Done (Passed, s')" for d i
    unfolding A using message_test_passes [OF good(1) fds(1) card mem(1)] by blast
  have two: "\<exists>s'. handles_test A junk op_text d i s = Done (Passed, s')" for d i
    unfolding A using handles_test_passes [OF good(1) fds(1-3) card mem(1)] by blast
  have small: "\<exists>s'. chunk_test A F junk d i n c s = Done (Passed, s')"
    if "unat n \<le> 32768" "unat c * unat n \<le> 1020 * 1024" for d i n c
    unfolding A using bench.small_chunks_pass [OF mem(2) good(2) fds(4) card that] by simp
  have big: "\<exists>s'. chunk_test A F junk d i n c s = Done (Failed, s')"
    if "55 * 1024 \<le> unat n" "unat n \<le> 1020 * 1024" "c \<noteq> 0" for d i n c
    unfolding A using bench.big_chunks_fail [OF mem(2) good(2) fds(4) card letter] that by simp
  show ?thesis using one two small big by (simp add: programs)
qed

text \<open>A file of letters, mapped at an address of the example system.\<close>

definition text_file :: "('d, 'x) system_scheme fileapi" where
  "text_file = \<lparr>f_open = (\<lambda>p t. (3, t)), f_size = (\<lambda>f t. 1044480), f_mmap = (\<lambda>n f t. (0x100000, t)),
     f_munmap = (\<lambda>a n t. t), f_close = (\<lambda>f t. t)\<rparr>"

lemma set_mem_read_const: "0 < n \<Longrightarrow> set (mem_read a n (\<lambda>_. x)) = {x}"
  by (auto simp: mem_read_def)

lemma bench_file [simp]: "file_mapped text_file flat_user 0x100000 (Suc n) bench_system bench_system"
  by (auto simp: file_mapped_def text_file_def set_mem_read_const word_sless_alt)

theorem acceptance_tests_witness:
  "(\<exists>s'. MMIO_IRQ_test2 bench_sys 9 0x4000 \<lparr>map_size = 0, os = bench_system\<rparr> = Done (Passed, s')) \<and>
   (\<exists>s'. MMIO_test4 bench_sys text_file 9 \<lparr>map_size = 0, os = bench_system\<rparr> = Done (Passed, s')) \<and>
   (\<exists>s'. DMA_test5 bench_sys text_file 9 \<lparr>map_size = 0, os = bench_system\<rparr> = Done (Failed, s'))"
proof -
  have "72 \<in> set (mem_read 0x100000 (55 * 1024) (umem bench_system))" by (simp add: set_mem_read_const)
  moreover have "is_letter 72" by (simp add: is_letter_def)
  moreover have "file_mapped text_file flat_user 0x100000 (1020 * 1024) bench_system bench_system" using bench_file [of 1044479] by simp
  ultimately show ?thesis
    using acceptance_tests [of "sim_card encrypt_byte decrypt_byte" "sim_spec encrypt_byte decrypt_byte" ex_kernel
      "\<lparr>map_size = 0, os = bench_system\<rparr>" bench_system flat_user "0x4000" text_file "0x100000" 72 bench_sys 0 0
      "\<lambda>n f t. (MAP_FAILED, t)" "\<lambda>a n t. (- 1, t)" 9]
    by (simp add: bench_sys_def word_sless_alt)
qed

section \<open>The benchmarks on this driver\<close>

declare bench_rounds.simps(2) [simp del]

text \<open>
  The same system with a witness of the requests: after each request to encrypt or decrypt it notes the command, the address
  and the bytes that are then in the caller's memory there.
\<close>

record 'd watched = "'d system" +
  events :: "(u32 \<times> u64 \<times> u8 list) list"

definition noted :: "u32 \<Rightarrow> cc_op \<Rightarrow> 'd watched \<Rightarrow> 'd watched" where
  "noted cmd ccop t =
     (if cmd = ENCRYPT \<or> cmd = DECRYPT
      then t\<lparr>events := events t @ [(cmd, op_addr ccop, mem_read (op_addr ccop) (unat (op_length ccop)) (umem t))]\<rparr> else t)"

definition watching :: "'d watched sysapi \<Rightarrow> 'd watched sysapi" where
  "watching A = A\<lparr>sys_ioctl := (\<lambda>f cmd arg t. obind (sys_ioctl A f cmd arg t) (\<lambda>(r, t). Done (r, noted cmd (as_op arg) t)))\<rparr>"

lemma noted_simps [simp]:
  "umem (noted cmd ccop t) = umem t" "driver_good C S k (noted cmd ccop t) = driver_good C S k t"
  "keyed S f a b (noted cmd ccop t) = keyed S f a b t"
  by (simp_all add: noted_def driver_good_def keyed_def file_fn_def)

lemma watching_simps [simp]:
  "sys_open (watching A) = sys_open A" "sys_close (watching A) = sys_close A"
  "create_handle (watching A) s = create_handle A s" "close_handle (watching A) f s = close_handle A f s"
  "set_config (watching A) f ty val s = set_config A f ty val s" "set_key (watching A) f a b s = set_key A f a b s"
proof -
  show "set_config (watching A) f ty val s = set_config A f ty val s"
    by (cases "sys_ioctl A f SET_CONFIG (no_arg\<lparr>as_config := \<lparr>mode_int_dma = config_num ty, cfg_set = val\<rparr>\<rparr>) (os s)")
      (auto simp: set_config_def ioctl_def watching_def noted_def lib_cmds cmd_defs)
  show "set_key (watching A) f a b s = set_key A f a b s"
    by (cases "sys_ioctl A f SET_KEY (no_arg\<lparr>as_key := \<lparr>key_field_a = a, key_field_b = b\<rparr>\<rparr>) (os s)")
      (auto simp: set_key_def ioctl_def watching_def noted_def lib_cmds cmd_defs)
qed (simp_all add: watching_def create_handle_def close_handle_def)

lemma driver_keeps_events:
  "create_handle (driver_sys C k U ja jb mmap munmap) s = (f, s') \<Longrightarrow> events (os s') = events (os s)"
  "set_config (driver_sys C k U ja jb mmap munmap) f ty val s = Done (r, s') \<Longrightarrow> events (os s') = events (os s)"
  "set_key (driver_sys C k U ja jb mmap munmap) f a b s = Done (r, s') \<Longrightarrow> events (os s') = events (os s)"
  "sys_ioctl (driver_sys C k U ja jb mmap munmap) f cmd arg t = Done (r, t') \<Longrightarrow> events t' = events t"
  "events (os (close_handle (driver_sys C k U ja jb mmap munmap) f s)) = events (os s)"
  by (auto simp: create_handle_def set_config_def set_key_def close_handle_def ioctl_def driver_sys_def driver_open_def driver_ioctl_def
      obind_def Let_def split: prod.splits option.splits outcome.splits if_splits)

text \<open>A request for one chunk, as it is noted.\<close>

lemma watched_chunk:
  assumes "driver_good C S k (os s)" "keyed S f 30 17 (os s)" "reachable U a 4096"
  shows "\<exists>t. encrypt (watching (driver_sys C k U ja jb mmap munmap)) junk f a 4096 0 s = Done (0, s\<lparr>os := t\<rparr>) \<and>
      driver_good C S k t \<and> keyed S f 30 17 t \<and> umem t = mem_map (encrypt_byte 30 17) a 4096 (umem (os s)) \<and>
      events t = events (os s) @ [(ENCRYPT, a, map (encrypt_byte 30 17) (mem_read a 4096 (umem (os s))))]"
    and "\<exists>t. decrypt (watching (driver_sys C k U ja jb mmap munmap)) junk f a 4096 0 s = Done (0, s\<lparr>os := t\<rparr>) \<and>
      driver_good C S k t \<and> keyed S f 30 17 t \<and> umem t = mem_map (decrypt_byte 30 17) a 4096 (umem (os s)) \<and>
      events t = events (os s) @ [(DECRYPT, a, map (decrypt_byte 30 17) (mem_read a 4096 (umem (os s))))]"
proof -
  let ?A = "driver_sys C k U ja jb mmap munmap"
  have u: "user_ok U a 4096" using assms(3) by (auto simp: reachable_def dest: spec [of _ 0])
  have n: "unat (4096 :: u64) \<le> card_buffer" by (simp add: card_buffer_def)
  have *: "\<exists>t. sys_ioctl (watching ?A) f (crypt_cmd decr) (arg_op a 4096 0) (os s) = Done (0, t) \<and>
      driver_good C S k t \<and> keyed S f 30 17 t \<and> umem t = mem_map (file_fn S decr f (os s)) a 4096 (umem (os s)) \<and>
      events t = events (os s) @ [(crypt_cmd decr, a, map (file_fn S decr f (os s)) (mem_read a 4096 (umem (os s))))]" for decr
  proof -
    obtain t where t: "sys_ioctl ?A f (crypt_cmd decr) (arg_op a 4096 0) (os s) = Done (0, t)" "driver_good C S k t"
      "umem t = mem_map (file_fn S decr f (os s)) a 4096 (umem (os s))" "same_fn (file_fn S) (os s) t"
      using driver.request [OF assms(1) n u, of ja jb mmap munmap f decr] by auto
    have "keyed S f 30 17 t" using t(4) assms(2) by (simp add: keyed_def same_fn_def)
    moreover have "crypt_cmd decr = ENCRYPT \<or> crypt_cmd decr = DECRYPT" by (simp add: crypt_cmd_def)
    ultimately show ?thesis using t driver_keeps_events(4) [OF t(1)]
      by (intro exI [of _ "noted (crypt_cmd decr) (as_op (arg_op a 4096 0)) t"])
        (auto simp: watching_def noted_def arg_op_def mem_read_mem_map driver_good_def keyed_def file_fn_def)
  qed
  from * [of False] assms(2)
  show "\<exists>t. encrypt (watching ?A) junk f a 4096 0 s = Done (0, s\<lparr>os := t\<rparr>) \<and>
      driver_good C S k t \<and> keyed S f 30 17 t \<and> umem t = mem_map (encrypt_byte 30 17) a 4096 (umem (os s)) \<and>
      events t = events (os s) @ [(ENCRYPT, a, map (encrypt_byte 30 17) (mem_read a 4096 (umem (os s))))]"
    by (auto simp: encrypt_def ioctl_def lib_cmds crypt_cmd_def keyed_def)
  from * [of True] assms(2)
  show "\<exists>t. decrypt (watching ?A) junk f a 4096 0 s = Done (0, s\<lparr>os := t\<rparr>) \<and>
      driver_good C S k t \<and> keyed S f 30 17 t \<and> umem t = mem_map (decrypt_byte 30 17) a 4096 (umem (os s)) \<and>
      events t = events (os s) @ [(DECRYPT, a, map (decrypt_byte 30 17) (mem_read a 4096 (umem (os s))))]"
    by (auto simp: decrypt_def ioctl_def lib_cmds crypt_cmd_def keyed_def)
qed

text \<open>What a run has to leave behind: every chunk in turn, first encrypted and then as it was.\<close>

definition chunk_events :: "u64 \<Rightarrow> mem \<Rightarrow> nat \<Rightarrow> (u32 \<times> u64 \<times> u8 list) list" where
  "chunk_events buffer m j =
     (let a = buffer + of_nat (j * 4096)
      in [(ENCRYPT, a, map (encrypt_byte 30 17) (mem_read a 4096 m)), (DECRYPT, a, mem_read a 4096 m)])"

lemma bench_rounds_run:
  assumes "driver_good C S k (os s)" "keyed S f 30 17 (os s)" "(j + i) * 4096 < 2 ^ 32" "reachable U buffer ((j + i) * 4096)"
  shows "\<exists>t. bench_rounds (watching (driver_sys C k U ja jb mmap munmap)) junk f buffer i (of_nat j) s = Done (s\<lparr>os := t\<rparr>) \<and>
    driver_good C S k t \<and> umem t = umem (os s) \<and>
    events t = events (os s) @ concat (map (chunk_events buffer (umem (os s))) [j..<j + i])"
  using assms
proof (induction i arbitrary: j s)
  case 0
  then show ?case by (intro exI [of _ "os s"]) simp
next
  case (Suc i)
  let ?A = "watching (driver_sys C k U ja jb mmap munmap)" and ?a = "buffer + ucast (of_nat j * 4096 :: u32)"
  have a: "?a = buffer + of_nat (j * 4096)" using chunk_offset [of j 4096] Suc.prems(3) by simp
  then have r: "reachable U ?a 4096"
    using Suc.prems(3,4) reachable_part [of U buffer "(j + Suc i) * 4096" "j * 4096" 4096] by simp
  obtain t1 where t1: "encrypt ?A junk f ?a 4096 0 s = Done (0, s\<lparr>os := t1\<rparr>)" "driver_good C S k t1" "keyed S f 30 17 t1"
    "umem t1 = mem_map (encrypt_byte 30 17) ?a 4096 (umem (os s))"
    "events t1 = events (os s) @ [(ENCRYPT, ?a, map (encrypt_byte 30 17) (mem_read ?a 4096 (umem (os s))))]"
    using watched_chunk(1) [OF Suc.prems(1,2) r] by blast
  obtain t2 where t2: "decrypt ?A junk f ?a 4096 0 (s\<lparr>os := t1\<rparr>) = Done (0, s\<lparr>os := t2\<rparr>)" "driver_good C S k t2" "keyed S f 30 17 t2"
    "umem t2 = mem_map (decrypt_byte 30 17) ?a 4096 (umem t1)"
    "events t2 = events t1 @ [(DECRYPT, ?a, map (decrypt_byte 30 17) (mem_read ?a 4096 (umem t1)))]"
    using watched_chunk(2) [of C S k "s\<lparr>os := t1\<rparr>" f U ?a ja jb mmap munmap junk] t1 r by auto
  have m: "umem t2 = umem (os s)" using t1(4) t2(4) by (simp add: round_trip_mem)
  have "mem_read ?a 4096 (umem t2) = map (decrypt_byte 30 17) (mem_read ?a 4096 (umem t1))"
    using t2(4) by (simp add: mem_read_mem_map)
  then have e: "events t2 = events (os s) @ chunk_events buffer (umem (os s)) j"
    using t1(5) t2(5) m by (simp add: chunk_events_def a Let_def)
  obtain t3 where t3: "bench_rounds ?A junk f buffer i (of_nat (Suc j)) (s\<lparr>os := t2\<rparr>) = Done (s\<lparr>os := t3\<rparr>)" "driver_good C S k t3"
    "umem t3 = umem (os s)" "events t3 = events t2 @ concat (map (chunk_events buffer (umem (os s))) [Suc j..<Suc j + i])"
    using Suc.IH [of "s\<lparr>os := t2\<rparr>" "Suc j"] t2(2,3) m Suc.prems(3,4) by auto
  have "[j..<j + Suc i] = j # [Suc j..<Suc j + i]" by (simp add: upt_rec)
  then show ?case using t1(1) t2(1) t3 e
    by (intro exI [of _ t3]) (simp add: bench_rounds.simps(2) Let_def add.commute)
qed

text \<open>
  C16: Every benchmark run does its work and comes to its end.  With a mapped file, whatever its size in 32 bits, in all four
  modes, the requests the program makes are exactly these: for each of the 4096-byte chunks of the file in turn, one that leaves
  the chunk encrypted by the reference cipher in memory and one that leaves it as it was.  Then the program returns 0, and just
  before the file is unmapped its contents in memory are what they were and the driver is ready for the next user.
\<close>

theorem benchmarks_finish:
  assumes good: "driver_good C S k t0" and card: "enc S = encrypt_byte" "dec S = decrypt_byte" and fd: "\<not> next_fd t0 <s 0"
    and mapd: "map_file F s = (Some (buffer, f, sz), s\<lparr>os := t0\<rparr>)" "reachable U buffer (unat sz)"
    and A: "A = watching (driver_sys C k U ja jb mmap munmap)"
  shows "\<forall>p \<in> {mmio_main, mmio_interrupt_main, dma_main, dma_interrupt_main}.
    \<exists>t. p A F junk s = Done (Some 0, s\<lparr>os := f_close F f (f_munmap F buffer sz t)\<rparr>) \<and> umem t = umem t0 \<and> driver_good C S k t \<and>
      events t = events t0 @ concat (map (chunk_events buffer (umem t0)) [0..<unat (sz div 4096)])"
proof -
  let ?D = "driver_sys C k U ja jb mmap munmap"
  have main: "\<exists>t. bench_main A F junk d i s = Done (Some 0, s\<lparr>os := f_close F f (f_munmap F buffer sz t)\<rparr>) \<and> umem t = umem t0 \<and>
      driver_good C S k t \<and> events t = events t0 @ concat (map (chunk_events buffer (umem t0)) [0..<unat (sz div 4096)])" for d i
  proof -
    let ?f = "next_fd t0"
    have ne: "?f \<noteq> ERROR" using fd by (auto simp: ERROR_def word_sless_alt)
    obtain t1 where t1: "create_handle ?D (s\<lparr>os := t0\<rparr>) = (?f, s\<lparr>os := t1\<rparr>)" "driver_good C S k t1" "umem t1 = umem t0"
      using create_handle_driver [of C S k "s\<lparr>os := t0\<rparr>" U ja jb mmap munmap] good fd by auto
    obtain t2 where t2: "set_config ?D ?f DMA d (s\<lparr>os := t1\<rparr>) = Done (0, s\<lparr>os := t2\<rparr>)" "driver_good C S k t2" "umem t2 = umem t1"
      using set_config_driver [of C S k "s\<lparr>os := t1\<rparr>" U ja jb mmap munmap ?f DMA d] t1(2) by auto
    obtain t3 where t3: "set_config ?D ?f INTERRUPT i (s\<lparr>os := t2\<rparr>) = Done (0, s\<lparr>os := t3\<rparr>)" "driver_good C S k t3" "umem t3 = umem t2"
      using set_config_driver [of C S k "s\<lparr>os := t2\<rparr>" U ja jb mmap munmap ?f INTERRUPT i] t2(2) by auto
    obtain t4 where t4: "set_key ?D ?f 30 17 (s\<lparr>os := t3\<rparr>) = Done (0, s\<lparr>os := t4\<rparr>)" "driver_good C S k t4" "umem t4 = umem t3"
      "conf_a (fconf t4 ?f) = 30" "conf_b (fconf t4 ?f) = 17"
      using set_key_driver [of C S k "s\<lparr>os := t3\<rparr>" U ja jb mmap munmap ?f 30 17] t3(2) by auto
    have e4: "events t4 = events t0"
      using driver_keeps_events(1) [OF t1(1)] driver_keeps_events(2) [OF t2(1)] driver_keeps_events(2) [OF t3(1)] driver_keeps_events(3) [OF t4(1)]
      by simp
    have key: "keyed S ?f 30 17 t4" using t4(4,5) card by (simp add: keyed_def file_fn_def crypt_def)
    have "unat (sz div 4096) * 4096 \<le> unat sz" by (simp add: unat_div)
    moreover have "unat sz < 2 ^ LENGTH(32)" by (rule unsigned_less)
    ultimately have lim: "unat (sz div 4096) * 4096 < 2 ^ 32" and r: "reachable U buffer (unat (sz div 4096) * 4096)"
      using mapd(2) reachable_part [of U buffer "unat sz" 0 "unat (sz div 4096) * 4096"] by simp_all
    obtain t5 where t5: "bench_rounds A junk ?f buffer (unat (sz div 4096)) 0 (s\<lparr>os := t4\<rparr>) = Done (s\<lparr>os := t5\<rparr>)" "driver_good C S k t5"
      "umem t5 = umem t4" "events t5 = events t0 @ concat (map (chunk_events buffer (umem t0)) [0..<unat (sz div 4096)])"
      using bench_rounds_run [of C S k "s\<lparr>os := t4\<rparr>" ?f 0 "unat (sz div 4096)" U buffer ja jb mmap munmap junk] t4 key lim r A e4 t1(3) t2(3) t3(3) by auto
    obtain t6 where t6: "close_handle ?D ?f (s\<lparr>os := t5\<rparr>) = s\<lparr>os := t6\<rparr>" "driver_good C S k t6" "umem t6 = umem t5"
      using close_keyed [of C S k "s\<lparr>os := t5\<rparr>" U ja jb mmap munmap ?f] t5(2) by auto
    have "events t6 = events t5" using driver_keeps_events(5) [of C k U ja jb mmap munmap ?f "s\<lparr>os := t5\<rparr>"] t6(1) by simp
    then show ?thesis using mapd(1) t1 t2 t3 t4 t5 t6 ne A
      by (intro exI [of _ t6]) (simp add: bench_main_def ERROR_def Let_def)
  qed
  then show ?thesis by (simp add: mmio_main_def mmio_interrupt_main_def dma_main_def dma_interrupt_main_def)
qed

text \<open>The example system, watched.\<close>

definition watched_system :: "(regs \<times> nat) watched" where
  "watched_system = \<lparr>next_fd = 4, fconf = fconf bench_system, fpriv = fpriv bench_system, umem = umem bench_system, drv = drv bench_system,
     events = []\<rparr>"

theorem benchmarks_finish_witness:
  "\<exists>t. dma_interrupt_main (watching (driver_sys (sim_card encrypt_byte decrypt_byte) ex_kernel flat_user 0 0
       (\<lambda>n f t. (MAP_FAILED, t)) (\<lambda>a n t. (- 1, t)))) text_file 9 \<lparr>map_size = 0, os = watched_system\<rparr> =
     Done (Some 0, \<lparr>map_size = 0, os = t\<rparr>) \<and> umem t = (\<lambda>_. 72) \<and>
     events t = concat (map (chunk_events 0x100000 (\<lambda>_. 72)) [0..<255])"
proof -
  let ?A = "watching (driver_sys (sim_card encrypt_byte decrypt_byte) ex_kernel flat_user 0 0 (\<lambda>n f t. (MAP_FAILED, t)) (\<lambda>a n t. (- 1, t)))"
  have m: "map_file text_file \<lparr>map_size = 0, os = watched_system\<rparr> =
      (Some (0x100000, 3, 1044480), \<lparr>map_size = 0, os = watched_system\<rparr>\<lparr>os := watched_system\<rparr>)"
    by (simp add: map_file_def text_file_def word_sless_alt)
  have g: "driver_good (sim_card encrypt_byte decrypt_byte) (sim_spec encrypt_byte decrypt_byte) ex_kernel watched_system"
    using bench_system_simps(1) by (simp add: watched_system_def driver_good_def)
  have fd: "\<not> next_fd watched_system <s 0" by (simp add: watched_system_def word_sless_alt)
  from benchmarks_finish [where junk = 9 and ja = 0 and jb = 0 and mmap = "\<lambda>n f t. (MAP_FAILED, t)" and munmap = "\<lambda>a n t. (- 1, t)",
      OF g sim_spec_cipher fd m reachable_flat refl] show ?thesis
    by (auto simp: watched_system_def text_file_def simp del: upt_rec_numeral)
qed

end
