(* ===== verification/Signals.thy ===== *)
theory Signals
  imports Harness
begin

text \<open>
  Requests that a signal cuts short.  The interrupt routines of \<^verbatim>\<open>cryptocard.c\<close> sleep in
  \<^verbatim>\<open>wait_event_interruptible\<close> and do not look at what it returns: a process with a signal pending goes on
  while the card still works, and the interrupt that comes later leaves the flag \<^verbatim>\<open>wq_flag\<close> set for a request that
  is no longer there.  The theorems elsewhere assume that no signal arrives (\<open>undisturbed\<close>); here is what happens
  when one does, for the DMA routines.
\<close>

section \<open>The card at work\<close>

text \<open>
  What the driver finds when it copies from a coherent buffer the card is working on, and when it frees it: the memory as it is,
  the operation still under way.  This is a card whose operation outlasts the copy.
\<close>

definition outlasts_copy :: "'d card \<Rightarrow> 'd spec \<Rightarrow> bool" where
  "outlasts_copy C S \<longleftrightarrow> (\<forall>d h n l. r_dma_busy (view S d) \<longrightarrow>
     fst (dma_get C h n d) = mem_read h n (r_host (view S d)) \<and> view S (snd (dma_get C h n d)) = view S d \<and>
     view S (dma_free C h l d) = view S d)"

lemma sim_outlasts_copy: "outlasts_copy (sim_card e d) (sim_spec e d)"
  by (auto simp: outlasts_copy_def sim_card_def sim_spec_def)

text \<open>A signal for the process that sleeps is no matter of the card.\<close>

lemma signal_laws [simp]:
  "card_ok (C\<lparr>signal := g\<rparr>) S = card_ok C S" "grants (C\<lparr>signal := g\<rparr>) = grants C"
  "outlasts_copy (C\<lparr>signal := g\<rparr>) S = outlasts_copy C S"
  by (simp_all add: card_ok_def card_law_defs grants_def outlasts_copy_def)

definition early :: "'d card \<Rightarrow> 'd cryptocard \<Rightarrow> bool" where
  "early C s \<longleftrightarrow> wq_flag s \<noteq> 0 \<or> (\<forall>d. signal C d)"

lemma wait_early: "early C s \<Longrightarrow> wait_event_interruptible C s = Done s"
  by (simp add: wait_event_interruptible_def early_def while_option_False)

text \<open>A DMA operation with its interrupt on the way.\<close>

definition working :: "'d spec \<Rightarrow> 'd cryptocard \<Rightarrow> bool" where
  "working S s \<longleftrightarrow> \<not> r_busy (vs S s) \<and> r_dma_busy (vs S s) \<and> bit (r_dma_cmd (vs S s)) 2 \<and> \<not> r_irq (vs S s) \<and> wq_flag s = 0"

section \<open>A request that does not wait\<close>

lemma dma_wait_skipped:
  assumes ok: "card_ok C S" "outlasts_copy C S" and t: "early C t" "quiet (vs S t)" "\<not> r_irq (vs S t)"
    and V: "r_dma_len (vs S t) = len" "unat len \<le> card_buffer" "mem_read h (unat len) (r_host (vs S t)) = take (unat len) data"
    and cmd: "bit cmd 0" "bit cmd 2"
  shows "\<exists>d'. obind (poll C DMA_CMD_OFF t) (\<lambda>s.
         obind (wait_event_interruptible C (iowrite32 C cmd DMA_CMD_OFF s)) (\<lambda>s.
           let s = s\<lparr>wq_flag := 0\<rparr>;
               (bs, s) = memcpy_fromdma C h (unat len) s;
               s = (if True then dma_free_coherent C h len s else s)
           in Done (bs @ drop (unat len) data, s))) = Done (data, t\<lparr>wq_flag := 0, dev := d'\<rparr>) \<and>
      working S (t\<lparr>wq_flag := 0, dev := d'\<rparr>)"
proof -
  obtain d1 where d1: "poll C DMA_CMD_OFF t = Done (t\<lparr>dev := d1\<rparr>)" "view S d1 = vs S t"
    using poll_quiet [OF ok(1) t(2)] by blast
  let ?d2 = "wr32 C cmd DMA_CMD_OFF d1" and ?V = "(vs S t)\<lparr>r_dma_cmd := cmd, r_dma_busy := True\<rparr>"
  have v2: "view S ?d2 = ?V" using card_start(2) [OF ok(1), of d1 cmd] t(2) V(1,2) d1(2) cmd(1) by simp
  then have "r_dma_busy (view S ?d2)" by simp
  then have g: "fst (dma_get C h (unat len) ?d2) = take (unat len) data" "view S (snd (dma_get C h (unat len) ?d2)) = ?V"
    using ok(2) V(3) v2 unfolding outlasts_copy_def by auto
  then have f: "view S (dma_free C h len (snd (dma_get C h (unat len) ?d2))) = ?V"
    using ok(2) unfolding outlasts_copy_def by simp
  have w: "wait_event_interruptible C (iowrite32 C cmd DMA_CMD_OFF (t\<lparr>dev := d1\<rparr>)) = Done (iowrite32 C cmd DMA_CMD_OFF (t\<lparr>dev := d1\<rparr>))"
    using t(1) by (intro wait_early) (simp add: early_def iowrite32_def)
  show ?thesis using d1(1) g(1) f t(2,3) cmd(2) w
    by (intro exI [of _ "dma_free C h len (snd (dma_get C h (unat len) ?d2))"])
      (simp add: iowrite32_def memcpy_fromdma_def dma_free_coherent_def case_prod_beta working_def quiet_def)
qed

lemma dma_interrupt_skipped:
  assumes ok: "card_ok C S" "grants C" "outlasts_copy C S" and s: "early C s" "quiet (vs S s)" "\<not> r_irq (vs S s)"
    and n: "op_len n \<le> card_buffer" "op_len n \<le> length data" and oper: "oper = encryption_dma_interrupt \<or> oper = decryption_dma_interrupt"
  shows "\<exists>d'. oper C data n s = Done (data, s\<lparr>wq_flag := 0, dev := d'\<rparr>) \<and> working S (s\<lparr>wq_flag := 0, dev := d'\<rparr>)"
proof -
  obtain h d0 d where alloc: "dma_alloc_coherent C (ucast n) s = ((True, h), s\<lparr>dev := d0\<rparr>)"
    and d: "iowrite32 C (ucast h) DMA_ADDR_OFF (iowrite32 C (ucast n) DMA_DATA_LEN_OFF
       (memcpy_todma C h (take (op_len n) data) (s\<lparr>dev := d0\<rparr>))) = s\<lparr>dev := d\<rparr>"
    and v: "quiet (view S d)" "r_dma_len (view S d) = ucast n"
      "mem_read h (unat (ucast n :: u32)) (r_host (view S d)) = take (op_len n) data" "r_irq (view S d) = r_irq (vs S s)"
    using dma_setup [OF ok(1,2) s(2) length_take_op_len [OF n(2)]] by blast
  have e: "early C (s\<lparr>dev := d\<rparr>)" using s(1) by (simp add: early_def)
  have "unat (ucast n :: u32) \<le> card_buffer" using n(1) by (simp add: op_len_def)
  then have *: "\<exists>d'. obind (poll C DMA_CMD_OFF (s\<lparr>dev := d\<rparr>)) (\<lambda>s.
         obind (wait_event_interruptible C (iowrite32 C cmd DMA_CMD_OFF s)) (\<lambda>s.
           let s = s\<lparr>wq_flag := 0\<rparr>;
               (bs, s) = memcpy_fromdma C h (unat (ucast n :: u32)) s;
               s = (if True then dma_free_coherent C h (ucast n) s else s)
           in Done (bs @ drop (unat (ucast n :: u32)) data, s))) = Done (data, s\<lparr>wq_flag := 0, dev := d'\<rparr>) \<and>
      working S (s\<lparr>wq_flag := 0, dev := d'\<rparr>)" if "bit cmd 0" "bit cmd 2" for cmd
    using dma_wait_skipped [OF ok(1,3) e, of "ucast n" h data cmd] v s(3) that by (simp add: op_len_def)
  from oper show ?thesis
  proof
    assume o: "oper = encryption_dma_interrupt"
    show ?thesis unfolding o encryption_dma_interrupt_def Let_def alloc prod.case d [unfolded op_len_def] if_not_True
      by (rule * [unfolded Let_def]) simp_all
  next
    assume o: "oper = decryption_dma_interrupt"
    show ?thesis unfolding o decryption_dma_interrupt_def Let_def alloc prod.case d [unfolded op_len_def] if_not_True
      by (rule * [unfolded Let_def]) simp_all
  qed
qed

text \<open>The request as a whole reports success, and the caller's memory is as it was.\<close>

lemma request_skipped:
  assumes ok: "card_ok C S" "grants C" "outlasts_copy C S" and s: "early C s" "quiet (vs S s)" "\<not> r_irq (vs S s)" "\<not> cc_spinlock s"
    and cfg: "conf_dma cfg \<noteq> 0" "conf_interrupt cfg \<noteq> 0"
    and op: "isMapped (as_op arg) = 0" "unat (op_length (as_op arg)) \<le> card_buffer" "user_ok U (op_addr (as_op arg)) (op_length (as_op arg))"
    and k: "k_alloc k (klog s) \<noteq> 0"
  shows "\<exists>s'. cryptocard_ioctl C k U (crypt_cmd decr) arg cfg m s = Done (0, cfg, m, s') \<and> working S s' \<and> \<not> cc_spinlock s'"
proof -
  let ?a = "op_addr (as_op arg)" and ?n = "op_length (as_op arg)"
  let ?s1 = "iowrite32 C (key_word cfg) KEY_OFF (s\<lparr>cc_spinlock := True\<rparr>)"
  let ?s2 = "kcalled (Kalloc (unat (?n + 1)) (k_alloc k (klog s))) ?s1"
  have "vs S ?s2 = (vs S s)\<lparr>r_key := key_word cfg\<rparr>"
    using card_write(1) [OF ok(1) s(2)] by (simp add: kcalled_def iowrite32_def)
  then have s2: "early C ?s2" "quiet (vs S ?s2)" "\<not> r_irq (vs S ?s2)"
    using s by (simp_all add: early_def kcalled_def iowrite32_def quiet_def)
  have len: "op_len ?n = unat ?n"
    using op(2) by (simp add: op_len_def card_buffer_def unsigned_ucast_eq take_bit_eq_mod)
  have "unat ?n \<le> 2 ^ 64" using op(2) by (simp add: card_buffer_def)
  then have copy: "u_to U ?a (mem_read ?a (unat ?n) m) m = (0, m)" "u_from U ?a ?n m = (0, mem_read ?a (unat ?n) m)"
    using op(3) by (simp_all add: user_ok_def mem_write_read)
  note run = dma_interrupt_skipped [OF ok s2, of ?n "mem_read ?a (unat ?n) m"]
  obtain d1 d2 where
    d1: "encryption_dma_interrupt C (mem_read ?a (unat ?n) m) ?n ?s2 = Done (mem_read ?a (unat ?n) m, ?s2\<lparr>wq_flag := 0, dev := d1\<rparr>)"
      "working S (?s2\<lparr>wq_flag := 0, dev := d1\<rparr>)" and
    d2: "decryption_dma_interrupt C (mem_read ?a (unat ?n) m) ?n ?s2 = Done (mem_read ?a (unat ?n) m, ?s2\<lparr>wq_flag := 0, dev := d2\<rparr>)"
      "working S (?s2\<lparr>wq_flag := 0, dev := d2\<rparr>)"
    using run [of encryption_dma_interrupt] run [of decryption_dma_interrupt] len op(2) by auto
  have "klog ?s1 = klog s" by (simp add: iowrite32_def)
  then show ?thesis unfolding ioctl_crypt_cmd ioctl_encrypt_def ioctl_decrypt_def
    using d1 d2 copy s(4) op(1) k cfg
    by (cases decr) (simp_all add: key_word_def [symmetric] kalloc_def Let_def encrypt_op_def decrypt_op_def working_def)
qed

section \<open>The interrupt that comes later\<close>

text \<open>After the last sleeper has gone the interrupt handler runs as it does while one sleeps.\<close>

definition until_interrupt :: "'d card \<Rightarrow> 'd cryptocard \<Rightarrow> 'd cryptocard outcome" where
  "until_interrupt C = wait_event_interruptible (C\<lparr>signal := \<lambda>_. False\<rparr>)"

text \<open>A request of a process that is killed, from any time before its sleep on, and what follows: its file is released, and the
  card ends its work.\<close>

definition killed_request ::
  "'d card \<Rightarrow> kapi \<Rightarrow> uaccess \<Rightarrow> u32 \<Rightarrow> ioctl_arg \<Rightarrow> cryptocard_config \<Rightarrow> mem \<Rightarrow> ptr \<Rightarrow> 'd cryptocard \<Rightarrow> 'd cryptocard outcome" where
  "killed_request C k U cmd arg cfg m p s =
     obind (cryptocard_ioctl (C\<lparr>signal := \<lambda>_. True\<rparr>) k U cmd arg cfg m s) (\<lambda>(v, cfg, m, s).
       until_interrupt C (snd (cryptocard_frelease p s)))"

text \<open>The flag is set although nobody waits.\<close>

definition stale :: "'d spec \<Rightarrow> 'd cryptocard \<Rightarrow> bool" where
  "stale S s \<longleftrightarrow> quiet (vs S s) \<and> \<not> r_irq (vs S s) \<and> wq_flag s = 1 \<and> \<not> cc_spinlock s"

lemma working_interrupts:
  assumes "card_ok C S" "working S s" "\<not> cc_spinlock s"
  shows "\<exists>s'. until_interrupt C s = Done s' \<and> stale S s'"
proof -
  let ?C = "C\<lparr>signal := \<lambda>_. False\<rparr>"
  have ok: "card_ok ?C S" and un: "undisturbed ?C" using assms(1) by (simp_all add: undisturbed_def)
  have "\<exists>d'. wait_event_interruptible ?C s = Done (s\<lparr>dev := d', wq_flag := 1\<rparr>) \<and>
      view S d' = (finish_dma S (vs S s))\<lparr>r_irq := False, r_isr := 0\<rparr>"
  proof (rule wait_until [OF ok un _ _ _ _ refl])
    fix d assume d: "view S d = vs S s"
    then have "\<not> r_busy (view S d)" "r_dma_busy (view S d)" using assms(2) by (simp_all add: working_def)
    from progress_dma [OF card_irq(1) [OF ok] this]
    show "view S (pass ?C d) = vs S s \<and> work S (pass ?C d) < work S d \<or> view S (pass ?C d) = finish_dma S (vs S s)"
      unfolding d .
  qed (use assms(2) in \<open>simp_all add: working_def finish_dma_def quiet_def\<close>)
  then show ?thesis using assms(2,3) by (auto simp: until_interrupt_def stale_def working_def finish_dma_def quiet_def)
qed

lemma killed_request_stale:
  assumes ok: "card_ok C S" "grants C" "outlasts_copy C S" and s: "ready S s" "\<not> cc_spinlock s"
    and cfg: "conf_dma cfg \<noteq> 0" "conf_interrupt cfg \<noteq> 0"
    and op: "isMapped (as_op arg) = 0" "unat (op_length (as_op arg)) \<le> card_buffer" "user_ok U (op_addr (as_op arg)) (op_length (as_op arg))"
    and k: "k_alloc k (klog s) \<noteq> 0"
  shows "\<exists>s1 s2. cryptocard_ioctl (C\<lparr>signal := \<lambda>_. True\<rparr>) k U (crypt_cmd decr) arg cfg m s = Done (0, cfg, m, s1) \<and>
    killed_request C k U (crypt_cmd decr) arg cfg m p s = Done s2 \<and> stale S s2"
proof -
  obtain s1 where s1: "cryptocard_ioctl (C\<lparr>signal := \<lambda>_. True\<rparr>) k U (crypt_cmd decr) arg cfg m s = Done (0, cfg, m, s1)"
    "working S s1" "\<not> cc_spinlock s1"
    using request_skipped [where C = "C\<lparr>signal := \<lambda>_. True\<rparr>" and S = S and decr = decr and m = m, OF _ _ _ _ _ _ s(2) cfg op k] ok s(1)
    by (auto simp: early_def ready_def)
  then have "working S (snd (cryptocard_frelease p s1))" "\<not> cc_spinlock (snd (cryptocard_frelease p s1))"
    by (simp_all add: cryptocard_frelease_def kcalled_def working_def Let_def)
  then show ?thesis using working_interrupts [OF ok(1)] s1(1) by (auto simp: killed_request_def)
qed

text \<open>
  C26: What a signal does to a request with DMA and interrupt, in either direction, on a card that works longer than the driver
  copies.  The request of a process with a signal pending returns 0 although its memory is unchanged; when the process has
  gone and the card is done, the lock is free but the flag is still set, and the next such request, of any process,
  returns 0 without waiting and leaves the caller's memory unchanged as well.
\<close>

theorem killed_request_spoils_next:
  assumes card: "card_ok C S" "grants C" "outlasts_copy C S" and s: "ready S s" "\<not> cc_spinlock s" and k: "\<And>l. k_alloc k l \<noteq> 0"
    and cfg: "\<And>c. c \<in> {cfg1, cfg2} \<Longrightarrow> conf_dma c \<noteq> 0 \<and> conf_interrupt c \<noteq> 0"
    and op: "\<And>x. x \<in> {arg1, arg2} \<Longrightarrow> isMapped (as_op x) = 0 \<and> unat (op_length (as_op x)) \<le> card_buffer \<and>
      user_ok U (op_addr (as_op x)) (op_length (as_op x))"
  shows "\<exists>s1 s2 s3. cryptocard_ioctl (C\<lparr>signal := \<lambda>_. True\<rparr>) k U (crypt_cmd decr1) arg1 cfg1 m1 s = Done (0, cfg1, m1, s1) \<and>
    killed_request C k U (crypt_cmd decr1) arg1 cfg1 m1 p s = Done s2 \<and> \<not> cc_spinlock s2 \<and> wq_flag s2 = 1 \<and>
    cryptocard_ioctl C k U (crypt_cmd decr2) arg2 cfg2 m2 s2 = Done (0, cfg2, m2, s3)"
proof -
  obtain s1 s2 where s1: "cryptocard_ioctl (C\<lparr>signal := \<lambda>_. True\<rparr>) k U (crypt_cmd decr1) arg1 cfg1 m1 s = Done (0, cfg1, m1, s1)"
    and s2: "killed_request C k U (crypt_cmd decr1) arg1 cfg1 m1 p s = Done s2" "stale S s2"
    using killed_request_stale [OF card s, of cfg1 arg1 U k decr1 m1 p] cfg op k by auto
  then show ?thesis
    using request_skipped [OF card, of s2 cfg2 arg2 U k decr2 m2] cfg op k by (auto simp: stale_def early_def)
qed

theorem killed_request_spoils_next_witness:
  "\<exists>s1 s2 s3. cryptocard_ioctl (ex_card\<lparr>signal := \<lambda>_. True\<rparr>) ex_kernel flat_user (crypt_cmd False) (ex_arg 0) (ex_config 1 1) (\<lambda>_. 7) ex_driver =
      Done (0, ex_config 1 1, \<lambda>_. 7, s1) \<and>
    killed_request ex_card ex_kernel flat_user (crypt_cmd False) (ex_arg 0) (ex_config 1 1) (\<lambda>_. 7) 16384 ex_driver = Done s2 \<and>
    \<not> cc_spinlock s2 \<and> wq_flag s2 = 1 \<and>
    cryptocard_ioctl ex_card ex_kernel flat_user (crypt_cmd True) (ex_arg 0) (ex_config 1 1) (\<lambda>_. 9) s2 = Done (0, ex_config 1 1, \<lambda>_. 9, s3)"
proof -
  have g: "outlasts_copy ex_card ex_spec" by (simp add: ex_card_def ex_spec_def sim_outlasts_copy)
  show ?thesis
    by (rule killed_request_spoils_next [OF ex_card_ok(1,2) g ex_ready(1,2)])
      (auto simp: ex_kernel_def ex_config_def ex_arg_def card_buffer_def)
qed

section \<open>The next user\<close>

definition driver_stale :: "'d card \<Rightarrow> 'd spec \<Rightarrow> kapi \<Rightarrow> ('d, 'x) system_scheme \<Rightarrow> bool" where
  "driver_stale C S k t \<longleftrightarrow> card_ok C S \<and> grants C \<and> outlasts_copy C S \<and> (\<forall>l. k_alloc k l \<noteq> 0) \<and> stale S (drv t)"

text \<open>Opening, configuring and closing go on as if nothing had happened.\<close>

interpretation spoilt: handle_device "driver_sys C k U ja jb mmap munmap" "driver_stale C S k"
  for C S k U ja jb mmap munmap
proof
  fix t :: "('a, 'b) system_scheme" assume g: "driver_stale C S k t" and "\<not> next_fd t <s 0"
  then show "\<exists>t'. sys_open (driver_sys C k U ja jb mmap munmap) ''/dev/cryptocard'' t = (next_fd t, t') \<and> driver_stale C S k t' \<and>
      umem t' = umem t \<and> next_fd t' = next_fd t + 1"
    by (auto simp: driver_sys_def driver_open_def cryptocard_fopen_def kernel_defs driver_stale_def stale_def Let_def)
next
  fix t :: "('a, 'b) system_scheme" and f ty val assume g: "driver_stale C S k t"
  then show "\<exists>t'. sys_ioctl (driver_sys C k U ja jb mmap munmap) f SET_CONFIG
        (no_arg\<lparr>as_config := \<lparr>mode_int_dma = config_num ty, cfg_set = val\<rparr>\<rparr>) t = Done (0, t') \<and> driver_stale C S k t' \<and>
      umem t' = umem t \<and> next_fd t' = next_fd t \<and>
      conf_interrupt (fconf t' f) = (if ty = INTERRUPT then val else conf_interrupt (fconf t f)) \<and>
      conf_dma (fconf t' f) = (if ty = DMA then val else conf_dma (fconf t f))"
    by (cases ty) (auto simp: driver_sys_def driver_ioctl_def no_arg_def cryptocard_ioctl_def driver_stale_def Let_def)
next
  fix t :: "('a, 'b) system_scheme" and f a b assume g: "driver_stale C S k t"
  then have "view S (snd (rd32 C 0 (dev (drv t)))) = vs S (drv t)"
    by (intro card_read_quiet) (simp_all add: driver_stale_def stale_def)
  then show "\<exists>t'. sys_ioctl (driver_sys C k U ja jb mmap munmap) f SET_KEY
        (no_arg\<lparr>as_key := \<lparr>key_field_a = a, key_field_b = b\<rparr>\<rparr>) t = Done (0, t') \<and> driver_stale C S k t' \<and>
      umem t' = umem t \<and> next_fd t' = next_fd t \<and> conf_a (fconf t' f) = a \<and> conf_b (fconf t' f) = b \<and>
      conf_interrupt (fconf t' f) = conf_interrupt (fconf t f) \<and> conf_dma (fconf t' f) = conf_dma (fconf t f)"
    using g by (auto simp: driver_sys_def driver_ioctl_def no_arg_def cryptocard_ioctl_def driver_stale_def stale_def ioread32_def
        case_prod_beta Let_def)
next
  fix t :: "('a, 'b) system_scheme" and f assume g: "driver_stale C S k t"
  then show "driver_stale C S k (sys_close (driver_sys C k U ja jb mmap munmap) f t) \<and>
      umem (sys_close (driver_sys C k U ja jb mmap munmap) f t) = umem t \<and>
      next_fd (sys_close (driver_sys C k U ja jb mmap munmap) f t) = next_fd t"
    by (auto simp: driver_sys_def cryptocard_frelease_def kcalled_def driver_stale_def stale_def Let_def)
qed

lemma spoilt_request:
  assumes "driver_stale C S k t" "conf_dma (fconf t f) \<noteq> 0" "conf_interrupt (fconf t f) \<noteq> 0" "unat n \<le> card_buffer" "user_ok U a n"
  shows "\<exists>t'. sys_ioctl (driver_sys C k U ja jb mmap munmap) f (crypt_cmd decr) (arg_op a n 0) t = Done (0, t') \<and> umem t' = umem t"
  using request_skipped [of C S "drv t" "fconf t f" "arg_op a n 0" U k decr "umem t"] assms
  by (auto simp: driver_sys_def driver_ioctl_def driver_stale_def stale_def early_def arg_op_def syscall_ret_def word_le_nat_alt)

end
