(* ===== verification/Multiprocess.thy ===== *)
theory Multiprocess
  imports Suite Signals "HOL-Library.Signed_Division"
begin

text \<open>
  The acceptance tests of the CryptoCard with several processes and threads
  (\<^verbatim>\<open>eval-test/src/MultiProcess/test1.c\<close> to \<^verbatim>\<open>test10.c\<close>).  All of them run one routine, \<^verbatim>\<open>do_encryption\<close>, in several processes or
  threads at once.  Each of these has its own descriptors and its own private mapping of the file (the threads of a process
  use only what they opened and mapped themselves), so what they share is the driver with its card: between any two system calls
  of one of them, the others can make any number of theirs.
\<close>

section \<open>System calls of others\<close>

text \<open>A call that another process or thread makes, as the driver sees it: any file, any memory.  A request is one
  that the tests make, with a buffer of at most 32 KB that the driver copies; \<open>Processes\<close> shows that a request is
  served as one step, whatever other requests are under way.\<close>

inductive foreign :: "'d card \<Rightarrow> kapi \<Rightarrow> uaccess \<Rightarrow> 'd cryptocard \<Rightarrow> 'd cryptocard \<Rightarrow> bool" for C k U where
  opens_file: "cryptocard_fopen k ja jb s = (r, x, s') \<Longrightarrow> foreign C k U s s'"
| releases_file: "cryptocard_frelease p s = (r, s') \<Longrightarrow> foreign C k U s s'"
| makes_request: "acceptable U \<lparr>rq_file = 0, rq_cmd = cmd, rq_arg = arg\<rparr> \<Longrightarrow>
    cryptocard_ioctl C k U cmd arg cfg m s = Done (v, cfg', m', s') \<Longrightarrow> foreign C k U s s'"

text \<open>The system of one process or thread, with the number of calls it has made; what the others do before its \<open>n\<close>-th call is \<open>meddle n\<close>.\<close>

record 'd crowd = "'d system" +
  calls :: nat

definition others :: "(nat \<Rightarrow> 'd cryptocard \<Rightarrow> 'd cryptocard) \<Rightarrow> 'd crowd \<Rightarrow> 'd crowd" where
  "others meddle t = t\<lparr>drv := meddle (calls t) (drv t), calls := Suc (calls t)\<rparr>"

definition with_others :: "(nat \<Rightarrow> 'd cryptocard \<Rightarrow> 'd cryptocard) \<Rightarrow> 'd crowd sysapi \<Rightarrow> 'd crowd sysapi" where
  "with_others meddle A =
     \<lparr>sys_open = (\<lambda>p t. sys_open A p (others meddle t)), sys_close = (\<lambda>f t. sys_close A f (others meddle t)),
      sys_ioctl = (\<lambda>f cmd arg t. sys_ioctl A f cmd arg (others meddle t)),
      sys_mmap = (\<lambda>n f t. sys_mmap A n f (others meddle t)), sys_munmap = (\<lambda>a n t. sys_munmap A a n (others meddle t))\<rparr>"

section \<open>The routine of the tests\<close>

record job =
  j_dma :: u8
  j_interrupt :: u8
  j_chunk_size :: u32
  j_number :: u32

abbreviation job :: "u8 \<Rightarrow> u8 \<Rightarrow> u32 \<Rightarrow> u32 \<Rightarrow> job" where
  "job d i n c \<equiv> \<lparr>j_dma = d, j_interrupt = i, j_chunk_size = n, j_number = c\<rparr>"

text \<open>Where a process or thread runs: its system calls, what the others do in between, its files, uninitialised memory, its state.\<close>

record 'd place =
  p_sys :: "'d crowd sysapi"
  p_meddle :: "nat \<Rightarrow> 'd cryptocard \<Rightarrow> 'd cryptocard"
  p_files :: "'d crowd fileapi"
  p_junk :: u32
  p_state :: "'d crowd crypter"

definition do_encryption :: "'d place \<Rightarrow> job \<Rightarrow> verdict outcome" where
  "do_encryption P j =
     obind (chunk_test (with_others (p_meddle P) (p_sys P)) (p_files P) (p_junk P)
         (j_dma j) (j_interrupt j) (j_chunk_size j) (j_number j) (p_state P))
       (\<lambda>(v, s). Done v)"

text \<open>The whole file at once; its size is an \<^verbatim>\<open>int\<close>.\<close>

definition large_test ::
  "('d, 'x) system_scheme sysapi \<Rightarrow> ('d, 'x) system_scheme fileapi \<Rightarrow> u32 \<Rightarrow> u8 \<Rightarrow> u8 \<Rightarrow> ('d, 'x) system_scheme crypter \<Rightarrow>
     (verdict \<times> ('d, 'x) system_scheme crypter) outcome" where
  "large_test A F junk isDMA isInterrupt s =
     (case map_file F s of
        (None, s) \<Rightarrow> Done (Exited, s)
      | (Some (buffer, file_desc, file_size), s) \<Rightarrow>
          obind (create_device_handle A isDMA isInterrupt 30 17 s) (\<lambda>(cdev, s).
            case cdev of
              None \<Rightarrow> Done (Exited, s)
            | Some cdev \<Rightarrow>
                (let size = scast file_size :: u64; n = unat size
                 in obind (need (create_encrpyted_buffer (peek buffer n s) 30 17 n)) (\<lambda>encrypt_buff.
                    obind (encrypt A junk cdev buffer size 0 s) (\<lambda>(r, s).
                    obind (need (isValid encrypt_buff (peek buffer n s) n)) (\<lambda>v.
                      if v = 0 then Done (Failed, s)
                      else
                        obind (decrypt A junk cdev buffer size 0 s) (\<lambda>(r, s).
                        obind (need (decryptMessage encrypt_buff n 30 17)) (\<lambda>encrypt_buff.
                        obind (need (isValid encrypt_buff (peek buffer n s) n)) (\<lambda>v.
                          if v = 0 then Done (Failed, s)
                          else
                            (let s = close_handle A cdev s;
                                 s = s\<lparr>os := f_munmap F buffer file_size (os s)\<rparr>;
                                 s = s\<lparr>os := f_close F file_desc (os s)\<rparr>
                             in Done (Passed, s)))))))))))"

definition do_large_encryption :: "'d place \<Rightarrow> u8 \<Rightarrow> u8 \<Rightarrow> verdict outcome" where
  "do_large_encryption P d i =
     obind (large_test (with_others (p_meddle P) (p_sys P)) (p_files P) (p_junk P) d i (p_state P)) (\<lambda>(v, s). Done v)"

section \<open>The ends of a program\<close>

text \<open>
  What a program prints of "Testcase passed" and "Testcase failed", by any of its processes.  A child exits after its
  work, whatever came of it; \<^verbatim>\<open>started i\<close> is whether the \<open>i\<close>-th fork succeeded.
\<close>

definition child :: "verdict outcome \<Rightarrow> verdict set outcome" where
  "child r = obind r (\<lambda>v. Done (if v = Failed then {Failed} else {}))"

definition children :: "(nat \<Rightarrow> bool) \<Rightarrow> (nat \<Rightarrow> verdict outcome) \<Rightarrow> nat \<Rightarrow> verdict set outcome list" where
  "children started does n = map (\<lambda>i. child (does i)) (filter started [0..<n])"

fun printed :: "verdict set outcome list \<Rightarrow> verdict set" where
  "printed [] = {}"
| "printed (Done ls # rs) = ls \<union> printed rs"
| "printed (_ # rs) = printed rs"

text \<open>
  The end of a main program with its own work (of its threads, or of itself) and its children: a failure
  of its own work is printed and exits, without waiting for anyone; otherwise it waits for all, and prints "Testcase passed".
\<close>

definition main_end :: "verdict set outcome list \<Rightarrow> verdict outcome list \<Rightarrow> verdict set outcome" where
  "main_end kids own =
     (if Done Failed \<in> set own then Done (printed kids \<union> {Failed})
      else if Done Exited \<in> set own then Done (printed kids)
      else if Oops \<in> set own then Oops
      else if Hang \<in> set own \<or> Hang \<in> set kids then Hang
      else Done (printed kids \<union> {Passed}))"

section \<open>The programs\<close>

text \<open>Children and parent work in \<open>W 0\<close>, \<open>W 1\<close> and so on, the parent in the last.\<close>

definition fork_test :: "(nat \<Rightarrow> 'd place) \<Rightarrow> (nat \<Rightarrow> bool) \<Rightarrow> job list \<Rightarrow> job \<Rightarrow> verdict set outcome" where
  "fork_test W started kids own =
     main_end (children started (\<lambda>i. do_encryption (W i) (kids ! i)) (length kids)) [do_encryption (W (length kids)) own]"

definition MP_test1 where
  "MP_test1 W started = fork_test W started [job SET SET 1 100, job SET SET 1 50] (job SET SET 1 50)"

definition MP_test2 where
  "MP_test2 W started = fork_test W started [job UNSET UNSET 1555 100, job UNSET UNSET 1555 50] (job UNSET UNSET 1555 50)"

definition MP_test3 where
  "MP_test3 W started = fork_test W started
     [job SET SET 1020 100, job UNSET SET 1020 50, job SET UNSET 1020 50] (job UNSET UNSET 1020 50)"

definition child_job :: "nat \<Rightarrow> job" where
  "child_job i =
     (if i mod 4 = 0 then job UNSET UNSET 1 500
      else if i mod 4 = 1 then job UNSET SET 1555 20
      else if i mod 4 = 2 then job SET UNSET (1020 * 1024) 10
      else job SET SET 4096 15)"

definition MP_test4 where
  "MP_test4 W started = main_end (children started (\<lambda>i. do_encryption (W i) (child_job i)) 50) []"

text \<open>
  The parent kills each child after a second, before it starts the next; \<open>killed\<close> are those that had not ended.  The signal also
  cuts short the request a child is in: \<open>cuts i\<close> is what the \<open>i\<close>-th child, killed, leaves in the driver before anyone else
  opens the device.  A fork that fails gives \<^verbatim>\<open>-1\<close>, and the signal goes to every other process: then \<open>cuts i\<close> is what those leave.
  The parent does not wait for the children that are still there.
\<close>

definition kills :: "(nat \<Rightarrow> bool) \<Rightarrow> (nat \<Rightarrow> bool) \<Rightarrow> (nat \<Rightarrow> 'd cryptocard \<Rightarrow> 'd cryptocard) \<Rightarrow> nat \<Rightarrow> 'd cryptocard \<Rightarrow> 'd cryptocard" where
  "kills started killed cuts n s = fold (\<lambda>i s. if started i \<and> \<not> killed i then s else cuts i s) [0..<n] s"

definition after_kills :: "('d cryptocard \<Rightarrow> 'd cryptocard) \<Rightarrow> 'd place \<Rightarrow> 'd place" where
  "after_kills left P = P\<lparr>p_meddle := (p_meddle P)(0 := (\<lambda>s. p_meddle P 0 (left s)))\<rparr>"

definition MP_test5 where
  "MP_test5 W started killed cuts =
     (let kids = children (\<lambda>i. started i \<and> \<not> killed i)
            (\<lambda>i. do_large_encryption (after_kills (kills started killed cuts i) (W i))
                   (if i mod 4 = 0 \<or> i mod 4 = 1 then UNSET else SET) (if i mod 4 = 0 \<or> i mod 4 = 2 then UNSET else SET)) 50
      in main_end (filter (\<lambda>r. r \<noteq> Hang) kids)
           [do_encryption (after_kills (kills started killed cuts 50) (W 50)) (job SET SET 1055 200)])"

text \<open>A thread that cannot be created ends the program.\<close>

definition thread_test :: "(nat \<Rightarrow> bool) \<Rightarrow> verdict set outcome list \<Rightarrow> (nat \<Rightarrow> verdict outcome) \<Rightarrow> nat \<Rightarrow> verdict set outcome" where
  "thread_test creates kids does n =
     (if list_all creates [0..<n] then main_end kids (map does [0..<n]) else Done (printed kids))"

definition MP_test6 where
  "MP_test6 W creates = thread_test creates [] (\<lambda>i. do_encryption (W i) (job UNSET UNSET 1 100)) 2"

text \<open>
  A thread gets its parameter by the address of a variable of the loop that creates it: \<open>reads i\<close> is what the \<open>i\<close>-th
  thread finds there.  The remainder is that of C.
\<close>

definition C_mod4 :: "u32 \<Rightarrow> int" where
  "C_mod4 x = sint x smod 4"

definition thread_size :: "u32 \<Rightarrow> u32" where
  "thread_size param =
     (if C_mod4 param = 0 then 4096 else if C_mod4 param = 1 then 1020 * 1024 else if C_mod4 param = 2 then 1 else 1555)"

definition thread_count :: "u32 \<Rightarrow> u32" where
  "thread_count param =
     (if C_mod4 param = 0 then 50 else if C_mod4 param = 1 then 10 else if C_mod4 param = 2 then 100 else 10)"

text \<open>
  All threads are created into \<^verbatim>\<open>thread1[0]\<close>, which at the end names the last of them; \<^verbatim>\<open>thread1[1]\<close> to \<^verbatim>\<open>thread1[11]\<close>, joined afterwards,
  never get a value: \<open>joins i\<close> is whether joining what happens to be there returns.  So only the last thread is waited for;
  \<open>ended i\<close> is whether the \<open>i\<close>-th had come to its end by the time the program ended.
\<close>

definition MP_test7 where
  "MP_test7 W creates reads joins ended =
     (let does = (\<lambda>i. do_encryption (W i) (job SET SET (thread_size (reads i)) (thread_count (reads i))));
          own = map does (filter (\<lambda>i. ended i \<and> does i \<noteq> Hang) [0..<11]) @ [does 11]
      in if \<not> list_all creates [0..<12] then Done {}
         else if main_end [] own = Done {Passed} \<and> \<not> list_all joins [1..<12] then Oops
         else main_end [] own)"

definition worker_job :: "u32 \<Rightarrow> job" where
  "worker_job param =
     (let chunk_size = thread_size param; count = thread_count param;
          index_val = C_mod4 (param + count + chunk_size);
          index_val = index_val smod 4
      in job (if index_val = 1 then 1 else if index_val = 2 then 0 else 1) (if index_val = 1 then 0 else 1) chunk_size count)"

definition MP_test8 where
  "MP_test8 W creates reads = thread_test creates [] (\<lambda>i. do_encryption (W i) (worker_job (reads i))) 50"

text \<open>
  The second child does not exit: it creates \<^verbatim>\<open>thread1[1]\<close> and goes to the end of the program, where it joins the copy of
  \<^verbatim>\<open>thread1[0]\<close>, a thread of its parent; \<open>joined\<close> is whether that returns.
\<close>

definition MP_test9 where
  "MP_test9 W started creates joined =
     (let second = (if \<not> creates 2 then Done {}
            else if \<not> joined \<and> do_encryption (W 3) (job SET SET 1 100) \<notin> {Done Failed, Done Exited} then Hang
            else main_end [] [do_encryption (W 3) (job SET SET 1 100)]);
          kids = children started (\<lambda>_. do_encryption (W 2) (job SET SET 1 50)) 1 @ (if started 1 \<and> creates 0 then [second] else [])
      in thread_test creates kids (\<lambda>i. do_encryption (W i) (job SET SET 1 100)) 2)"

definition MP_test10 where
  "MP_test10 W started creates reads =
     thread_test creates (children (\<lambda>i. started i \<and> list_all creates [0..<i]) (\<lambda>i. do_encryption (W (50 + i)) (child_job i)) 50)
       (\<lambda>i. do_encryption (W i) (worker_job (reads i))) 50"

section \<open>The others do no harm\<close>

lemma foreign_ready:
  assumes "foreign C k U s s'" "card_ok C S" "grants C" "undisturbed C" "\<And>l. k_alloc k l \<noteq> 0" "ready S s" "\<not> cc_spinlock s"
  shows "ready S s' \<and> \<not> cc_spinlock s'"
  using assms(1)
proof cases
  case (opens_file ja jb r x)
  then show ?thesis using assms(5-7)
    by (auto simp: cryptocard_fopen_def kernel_defs Let_def cong: ready_cong)
next
  case (releases_file p r)
  then show ?thesis using assms(6,7) by (auto simp: cryptocard_frelease_def kcalled_def Let_def cong: ready_cong)
next
  case (makes_request cmd arg cfg m v cfg' m')
  then show ?thesis using ioctl_refines [OF assms(2-4,6,7,5) makes_request(1), of "\<lambda>_. cfg" m] by auto
qed

definition rely :: "'d card \<Rightarrow> kapi \<Rightarrow> uaccess \<Rightarrow> (nat \<Rightarrow> 'd cryptocard \<Rightarrow> 'd cryptocard) \<Rightarrow> bool" where
  "rely C k U meddle \<longleftrightarrow> (\<forall>n s. (foreign C k U)\<^sup>*\<^sup>* s (meddle n s))"

lemma others_simps [simp]:
  "umem (others meddle t) = umem t" "next_fd (others meddle t) = next_fd t" "fconf (others meddle t) = fconf t"
  "fpriv (others meddle t) = fpriv t" "file_fn S decr f (others meddle t) = file_fn S decr f t"
  by (simp_all add: others_def file_fn_def)

lemma others_good:
  assumes "driver_good C S k t" "rely C k U meddle"
  shows "driver_good C S k (others meddle t)"
proof -
  have "(foreign C k U)\<^sup>*\<^sup>* (drv t) (meddle (calls t) (drv t))" using assms(2) by (simp add: rely_def)
  then have "ready S (meddle (calls t) (drv t)) \<and> \<not> cc_spinlock (meddle (calls t) (drv t))"
    using assms(1) by induction (use foreign_ready [of C k U _ _ S] assms(1) in \<open>auto simp: driver_good_def\<close>)
  then show ?thesis using assms(1) by (simp add: driver_good_def others_def)
qed

text \<open>Among others a process finds the card and the driver as the tests of one process do.\<close>

definition crowd_good :: "'d card \<Rightarrow> 'd spec \<Rightarrow> kapi \<Rightarrow> uaccess \<Rightarrow> (nat \<Rightarrow> 'd cryptocard \<Rightarrow> 'd cryptocard) \<Rightarrow> 'd crowd \<Rightarrow> bool" where
  "crowd_good C S k U meddle t \<longleftrightarrow> driver_good C S k t \<and> rely C k U meddle"

interpretation crowd: bench_device "with_others meddle (driver_sys C k U ja jb mmap munmap)" "crowd_good C S k U meddle" S U
  for meddle C k U ja jb mmap munmap S
proof
  fix t :: "'a crowd" and n a f decr assume g: "crowd_good C S k U meddle t" and n: "unat n \<le> card_buffer" "user_ok U a n"
  then have o: "driver_good C S k (others meddle t)" by (auto simp: crowd_good_def intro: others_good)
  show "\<exists>t'. sys_ioctl (with_others meddle (driver_sys C k U ja jb mmap munmap)) f (crypt_cmd decr) (arg_op a n 0) t = Done (0, t') \<and>
      crowd_good C S k U meddle t' \<and> umem t' = mem_map (file_fn S decr f t) a (unat n) (umem t) \<and> same_fn (file_fn S) t t'"
    using driver.request [OF o n, of ja jb mmap munmap f decr] g by (auto simp: with_others_def crowd_good_def same_fn_def)
next
  fix t :: "'a crowd" assume g: "crowd_good C S k U meddle t" and fd: "\<not> next_fd t <s 0"
  then have o: "driver_good C S k (others meddle t)" by (auto simp: crowd_good_def intro: others_good)
  show "\<exists>t'. sys_open (with_others meddle (driver_sys C k U ja jb mmap munmap)) ''/dev/cryptocard'' t = (next_fd t, t') \<and>
      crowd_good C S k U meddle t' \<and> umem t' = umem t \<and> next_fd t' = next_fd t + 1"
    using bench.opens [OF o, of U ja jb mmap munmap] g fd by (auto simp: with_others_def crowd_good_def)
next
  fix t :: "'a crowd" and f ty val assume g: "crowd_good C S k U meddle t"
  then have o: "driver_good C S k (others meddle t)" by (auto simp: crowd_good_def intro: others_good)
  show "\<exists>t'. sys_ioctl (with_others meddle (driver_sys C k U ja jb mmap munmap)) f SET_CONFIG
        (no_arg\<lparr>as_config := \<lparr>mode_int_dma = config_num ty, cfg_set = val\<rparr>\<rparr>) t = Done (0, t') \<and> crowd_good C S k U meddle t' \<and>
      umem t' = umem t \<and> next_fd t' = next_fd t \<and>
      conf_interrupt (fconf t' f) = (if ty = INTERRUPT then val else conf_interrupt (fconf t f)) \<and>
      conf_dma (fconf t' f) = (if ty = DMA then val else conf_dma (fconf t f))"
    using bench.configures [OF o, of U ja jb mmap munmap f ty val] g by (auto simp: with_others_def crowd_good_def)
next
  fix t :: "'a crowd" and f a b assume g: "crowd_good C S k U meddle t"
  then have o: "driver_good C S k (others meddle t)" by (auto simp: crowd_good_def intro: others_good)
  show "\<exists>t'. sys_ioctl (with_others meddle (driver_sys C k U ja jb mmap munmap)) f SET_KEY
        (no_arg\<lparr>as_key := \<lparr>key_field_a = a, key_field_b = b\<rparr>\<rparr>) t = Done (0, t') \<and> crowd_good C S k U meddle t' \<and>
      umem t' = umem t \<and> next_fd t' = next_fd t \<and> conf_a (fconf t' f) = a \<and> conf_b (fconf t' f) = b \<and>
      conf_interrupt (fconf t' f) = conf_interrupt (fconf t f) \<and> conf_dma (fconf t' f) = conf_dma (fconf t f)"
    using bench.keys [OF o, of U ja jb mmap munmap f a b] g by (auto simp: with_others_def crowd_good_def)
next
  fix t :: "'a crowd" and f assume g: "crowd_good C S k U meddle t"
  then have o: "driver_good C S k (others meddle t)" by (auto simp: crowd_good_def intro: others_good)
  show "crowd_good C S k U meddle (sys_close (with_others meddle (driver_sys C k U ja jb mmap munmap)) f t) \<and>
      umem (sys_close (with_others meddle (driver_sys C k U ja jb mmap munmap)) f t) = umem t \<and>
      next_fd (sys_close (with_others meddle (driver_sys C k U ja jb mmap munmap)) f t) = next_fd t"
    using bench.closes [OF o, of U ja jb mmap munmap f] g by (auto simp: with_others_def crowd_good_def)
qed

text \<open>And what it does itself is, for the others, a call of the kind they rely on.\<close>

lemma own_calls_are_foreign:
  "sys_open (driver_sys C k U ja jb mmap munmap) p t = (f, t') \<Longrightarrow> foreign C k U (drv t) (drv t')"
  "foreign C k U (drv t) (drv (sys_close (driver_sys C k U ja jb mmap munmap) f t))"
  "acceptable U \<lparr>rq_file = 0, rq_cmd = cmd, rq_arg = arg\<rparr> \<Longrightarrow>
     sys_ioctl (driver_sys C k U ja jb mmap munmap) f cmd arg t = Done (r, t') \<Longrightarrow> foreign C k U (drv t) (drv t')"
  by (auto simp: driver_sys_def driver_open_def driver_ioctl_def obind_def intro: foreign.intros releases_file [OF prod.collapse [symmetric]]
      split: prod.splits option.splits outcome.splits)

section \<open>The routine among others\<close>

text \<open>A place where the routine can work: the file is mapped and holds text, at least 1020 KB of it, and the others keep to the rules.\<close>

definition place_ok :: "'d card \<Rightarrow> 'd spec \<Rightarrow> kapi \<Rightarrow> uaccess \<Rightarrow> 'd place \<Rightarrow> bool" where
  "place_ok C S k U P \<longleftrightarrow> rely C k U (p_meddle P) \<and> (\<exists>ja jb mmap munmap buffer f n t0.
     p_sys P = driver_sys C k U ja jb mmap munmap \<and>
     file_mapped (p_files P) U buffer n (os (p_state P)) t0 \<and>
     map_file (p_files P) (p_state P) = (Some (buffer, f, of_nat n), (p_state P)\<lparr>os := t0\<rparr>) \<and>
     1020 * 1024 \<le> n \<and> n < 2 ^ 31 \<and> driver_good C S k t0 \<and> \<not> next_fd t0 <s 0 \<and> calls t0 = 0 \<and>
     (\<exists>x. x \<in> set (mem_read buffer (1020 * 1024) (umem t0)) \<and> is_letter x))"

lemma job_passes:
  assumes "place_ok C S k U P" "enc S = encrypt_byte" "dec S = decrypt_byte" "unat (j_chunk_size j) \<le> 32768"
    "unat (j_number j) * unat (j_chunk_size j) \<le> 1020 * 1024"
  shows "do_encryption P j = Done Passed"
proof -
  obtain ja jb mmap munmap buffer n t0 where
    p: "p_sys P = driver_sys C k U ja jb mmap munmap" "file_mapped (p_files P) U buffer n (os (p_state P)) t0"
      "1020 * 1024 \<le> n" "n < 2 ^ 31" "crowd_good C S k U (p_meddle P) t0" "\<not> next_fd t0 <s 0"
    using assms(1) unfolding place_ok_def crowd_good_def by blast
  have le: "unat (j_number j) * unat (j_chunk_size j) \<le> n" and lt: "n < 2 ^ 32" using assms(5) p(3,4) by simp_all
  show ?thesis
    using crowd.small_chunks_pass [OF p(2,5,6) assms(2-4) le lt, of ja jb mmap munmap "p_junk P" "j_dma j" "j_interrupt j"] p(1)
    by (auto simp: do_encryption_def)
qed

lemma job_fails:
  assumes "place_ok C S k U P" "enc S = encrypt_byte" "dec S = decrypt_byte" "j_chunk_size j = 1020 * 1024" "j_number j \<noteq> 0"
  shows "do_encryption P j = Done Failed"
proof -
  obtain ja jb mmap munmap buffer n t0 x where
    p: "p_sys P = driver_sys C k U ja jb mmap munmap" "file_mapped (p_files P) U buffer n (os (p_state P)) t0"
      "1020 * 1024 \<le> n" "n < 2 ^ 31" "crowd_good C S k U (p_meddle P) t0" "\<not> next_fd t0 <s 0"
      "x \<in> set (mem_read buffer (1020 * 1024) (umem t0))" "is_letter x"
    using assms(1) unfolding place_ok_def crowd_good_def by blast
  show ?thesis
    using crowd.big_chunks_fail [OF p(2,5,6) assms(2,3) p(7,8), of "j_chunk_size j" "j_number j" ja jb mmap munmap "p_junk P" "j_dma j" "j_interrupt j"]
      assms(4,5) p(1,3,4) by (auto simp: do_encryption_def)
qed

text \<open>The whole file at once is one round of the loop, with the size of the file for the size of a chunk.\<close>

lemma large_test_round:
  assumes "map_file F s = (Some (buffer, f, z), s')" "unat z < 2 ^ 31"
  shows "large_test A F junk d i s = obind (create_device_handle A d i 30 17 s') (\<lambda>(cdev, s).
    case cdev of
      None \<Rightarrow> Done (Exited, s)
    | Some cdev \<Rightarrow> obind (chunk_rounds A junk cdev buffer z 1 0 s) (\<lambda>(ok, s).
        if \<not> ok then Done (Failed, s)
        else (let s = close_handle A cdev s; s = s\<lparr>os := f_munmap F buffer z (os s)\<rparr>; s = s\<lparr>os := f_close F f (os s)\<rparr>
              in Done (Passed, s))))"
proof -
  have "uint z < 2 ^ 31" using assms(2) by (metis of_nat_less_iff of_nat_numeral of_nat_power uint_nat)
  then have "sint z = uint z" unfolding sint_uint using signed_take_bit_int_eq_self [of 31 "uint z"] uint_ge_0 [of z] by simp
  then have w: "scast z = (ucast z :: u64)" by (simp add: signed_scast_eq scast_eq)
  have n: "unat (ucast z :: u64) = unat z" using assms(2) by (simp add: unsigned_ucast_eq take_bit_eq_mod)
  show ?thesis using assms(1)
    by (simp add: large_test_def w n chunk_rounds.simps(2) Let_def obind_def split: outcome.splits option.splits prod.splits)
qed

lemma large_fails:
  assumes "place_ok C S k U P" "enc S = encrypt_byte" "dec S = decrypt_byte"
  shows "do_large_encryption P d i = Done Failed"
proof -
  obtain ja jb mmap munmap buffer f n t0 x where
    p: "p_sys P = driver_sys C k U ja jb mmap munmap" "file_mapped (p_files P) U buffer n (os (p_state P)) t0"
      "map_file (p_files P) (p_state P) = (Some (buffer, f, of_nat n), (p_state P)\<lparr>os := t0\<rparr>)"
      "1020 * 1024 \<le> n" "n < 2 ^ 31" "crowd_good C S k U (p_meddle P) t0" "\<not> next_fd t0 <s 0"
      "x \<in> set (mem_read buffer (1020 * 1024) (umem t0))" "is_letter x"
    using assms(1) unfolding place_ok_def crowd_good_def by blast
  let ?A = "with_others (p_meddle P) (driver_sys C k U ja jb mmap munmap)" and ?s = "p_state P"
  have z: "unat (of_nat n :: u32) = n" "unat (of_nat n :: u32) < 2 ^ 31" using p(5) by (simp_all add: unat_of_nat)
  obtain t1 where t1: "create_device_handle ?A d i 30 17 (?s\<lparr>os := t0\<rparr>) = Done (Some (next_fd t0), ?s\<lparr>os := t1\<rparr>)"
    "crowd_good C S k U (p_meddle P) t1" "umem t1 = umem t0" "keyed S (next_fd t0) 30 17 t1"
    using crowd.handle_run [of C S k U "p_meddle P" "?s\<lparr>os := t0\<rparr>" ja jb mmap munmap d i 30 17] p(6,7) assms(2,3) by auto
  have "x \<in> set (mem_read buffer n (umem t1))"
    using p(4,8) t1(3) mem_read_append [of buffer "1020 * 1024" "n - 1020 * 1024" "umem t1"] by simp
  then obtain t2 where "chunk_rounds ?A (p_junk P) (next_fd t0) buffer (of_nat n) (Suc 0) 0 (?s\<lparr>os := t1\<rparr>) = Done (False, ?s\<lparr>os := t2\<rparr>)"
    using crowd.chunk_round [of C S k U "p_meddle P" "?s\<lparr>os := t1\<rparr>" "next_fd t0" buffer 0 "of_nat n" ja jb mmap munmap "p_junk P" 0] t1 p(2,4,5,9) z(1)
    by (auto simp: file_mapped_def peek_def)
  then show ?thesis using large_test_round [OF p(3) z(2), of ?A "p_junk P" d i] t1(1) p(1) by (simp add: do_large_encryption_def)
qed

section \<open>The verdicts\<close>

lemma child_Done [simp]: "child (Done v) = Done (if v = Failed then {Failed} else {})"
  by (simp add: child_def)

text \<open>When the work of every child ends, so does the wait for them, and a failure of any is printed.\<close>

lemma printed_children:
  assumes "\<And>i. i < n \<Longrightarrow> does i = Done (v i)"
  shows "printed (children started does n) = (if \<exists>i<n. started i \<and> v i = Failed then {Failed} else {})"
    and "Hang \<notin> set (children started does n)"
proof -
  have p: "printed (map (\<lambda>i. child (Done (v i))) is) = (if \<exists>i\<in>set is. v i = Failed then {Failed} else {})" for "is"
    by (induction "is") auto
  have c: "children started does n = map (\<lambda>i. child (Done (v i))) (filter started [0..<n])"
    using assms by (simp add: children_def)
  show "printed (children started does n) = (if \<exists>i<n. started i \<and> v i = Failed then {Failed} else {})"
    unfolding c p by auto
  show "Hang \<notin> set (children started does n)" unfolding c by auto
qed

text \<open>The verdicts of the work of all workers of a program: a chunk of 1020 KB fails, the smaller ones pass.\<close>

definition outcome_of :: "job \<Rightarrow> verdict" where
  "outcome_of j = (if j_chunk_size j = 1020 * 1024 then Failed else Passed)"

definition fair_job :: "job \<Rightarrow> bool" where
  "fair_job j \<longleftrightarrow> (if j_chunk_size j = 1020 * 1024 then j_number j \<noteq> 0
     else unat (j_chunk_size j) \<le> 32768 \<and> unat (j_number j) * unat (j_chunk_size j) \<le> 1020 * 1024)"

lemma do_encryption_verdict:
  assumes "place_ok C S k U P" "enc S = encrypt_byte" "dec S = decrypt_byte" "fair_job j"
  shows "do_encryption P j = Done (outcome_of j)"
  using job_passes [OF assms(1-3), of j] job_fails [OF assms(1-3), of j] assms(4)
  by (auto simp: fair_job_def outcome_of_def split: if_splits)

lemma child_job_verdict: "fair_job (child_job i)" "outcome_of (child_job i) = (if i mod 4 = 2 then Failed else Passed)"
  by (auto simp: child_job_def fair_job_def outcome_of_def)

lemma worker_job_verdict: "fair_job (worker_job p)" "outcome_of (worker_job p) = (if C_mod4 p = 1 then Failed else Passed)"
  by (auto simp: worker_job_def thread_size_def thread_count_def fair_job_def outcome_of_def Let_def)

lemma fork_test_passes:
  assumes "\<And>i. place_ok C S k U (W i)" "enc S = encrypt_byte" "dec S = decrypt_byte"
    and "\<And>j. j \<in> set (own # kids) \<Longrightarrow> fair_job j \<and> outcome_of j = Passed"
  shows "fork_test W started kids own = Done {Passed}"
proof -
  have "do_encryption (W i) (kids ! i) = Done Passed" if "i < length kids" for i
    using do_encryption_verdict [OF assms(1-3), of "kids ! i" i] assms(4) [of "kids ! i"] that by simp
  from printed_children [OF this, where started = started] show ?thesis
    using do_encryption_verdict [OF assms(1-3), of own] assms(4) [of own] by (simp add: fork_test_def main_end_def)
qed

text \<open>What kills leave behind that cut no request short is what calls of others leave.\<close>

lemma after_kills_ok:
  assumes "place_ok C S k U P" "\<And>i s. (foreign C k U)\<^sup>*\<^sup>* s (cuts i s)"
  shows "place_ok C S k U (after_kills (kills started killed cuts n) P)"
proof -
  have "(foreign C k U)\<^sup>*\<^sup>* s (kills started killed cuts n s)" for s
  proof (induction n)
    case 0
    then show ?case by (simp add: kills_def)
  next
    case (Suc n)
    then show ?case using assms(2) [of "kills started killed cuts n s" n] by (auto simp: kills_def)
  qed
  then have "rely C k U (p_meddle (after_kills (kills started killed cuts n) P))"
    using assms(1) unfolding place_ok_def rely_def after_kills_def by (auto intro: rtranclp_trans)
  then show ?thesis using assms(1) by (simp add: place_ok_def after_kills_def)
qed

text \<open>
  C8: The tests of several processes on the library and the driver, with a card that computes the reference cipher and a
  file of text of at least 1020 KB, whatever system calls the processes interleave, while no signal arrives in a request: the
  first three print "Testcase passed".  The fourth prints "Testcase passed" at the end, and "Testcase failed" before as soon as one
  of the children with chunks of 1020 KB was started.  The fifth kills its children: if none of the kills cuts a request short,
  so that each leaves the driver as whole calls do, it prints "Testcase passed", and "Testcase failed" before as soon as one of
  the children, which encrypt the whole file, ends before it is killed.
\<close>

theorem process_tests:
  assumes W: "\<And>i. place_ok C S k U (W i)" and card: "enc S = encrypt_byte" "dec S = decrypt_byte"
  shows "(\<forall>p \<in> {MP_test1, MP_test2, MP_test3}. p W started = Done {Passed}) \<and>
    MP_test4 W started = Done (if \<exists>i<50. started i \<and> i mod 4 = 2 then {Failed, Passed} else {Passed}) \<and>
    ((\<forall>i s. (foreign C k U)\<^sup>*\<^sup>* s (cuts i s)) \<longrightarrow>
      MP_test5 W started killed cuts = Done (if \<exists>i<50. started i \<and> \<not> killed i then {Failed, Passed} else {Passed}))"
proof -
  have small: "fork_test W started kids own = Done {Passed}" if "\<And>j. j \<in> set (own # kids) \<Longrightarrow> fair_job j \<and> outcome_of j = Passed" for kids own
    using fork_test_passes [OF W card that] .
  have "MP_test1 W started = Done {Passed}" "MP_test2 W started = Done {Passed}" "MP_test3 W started = Done {Passed}"
    unfolding MP_test1_def MP_test2_def MP_test3_def by (rule small, auto simp: fair_job_def outcome_of_def)+
  moreover have "MP_test4 W started = Done (if \<exists>i<50. started i \<and> i mod 4 = 2 then {Failed, Passed} else {Passed})"
  proof -
    have "do_encryption (W i) (child_job i) = Done (outcome_of (child_job i))" for i
      using do_encryption_verdict [OF W card child_job_verdict(1)] .
    from printed_children [OF this, where n = 50 and started = started] show ?thesis
      by (auto simp: MP_test4_def main_end_def child_job_verdict)
  qed
  moreover have "MP_test5 W started killed cuts = Done (if \<exists>i<50. started i \<and> \<not> killed i then {Failed, Passed} else {Passed})"
    if cuts: "\<And>i s. (foreign C k U)\<^sup>*\<^sup>* s (cuts i s)"
  proof -
    note ok = after_kills_ok [where started = started and killed = killed, OF W cuts]
    define kids where "kids = children (\<lambda>i. started i \<and> \<not> killed i) (\<lambda>i. do_large_encryption (after_kills (kills started killed cuts i) (W i))
        (if i mod 4 = 0 \<or> i mod 4 = 1 then UNSET else SET) (if i mod 4 = 0 \<or> i mod 4 = 2 then UNSET else SET)) 50"
    have kids: "printed kids = (if \<exists>i<50. started i \<and> \<not> killed i then {Failed} else {})" "Hang \<notin> set kids"
      unfolding kids_def by (simp_all add: printed_children [OF large_fails [OF ok card]])
    have "filter (\<lambda>r. r \<noteq> Hang) kids = kids" using kids(2) by (intro filter_True) blast
    moreover have "do_encryption (after_kills (kills started killed cuts 50) (W 50)) (job SET SET 1055 200) = Done Passed"
      using job_passes [OF ok card, of "job SET SET 1055 200"] by simp
    ultimately show ?thesis using kids unfolding MP_test5_def Let_def kids_def [symmetric]
      by (auto simp: main_end_def)
  qed
  ultimately show ?thesis by blast
qed

section \<open>A kill in the middle of a request\<close>

lemma driver_keeps_calls:
  "sys_open (driver_sys C k U ja jb mmap munmap) p (t :: 'd crowd) = (f, t') \<Longrightarrow> calls t' = calls t"
  "sys_ioctl (driver_sys C k U ja jb mmap munmap) f cmd arg (t :: 'd crowd) = Done (r, t') \<Longrightarrow> calls t' = calls t"
  "calls (sys_close (driver_sys C k U ja jb mmap munmap) f (t :: 'd crowd)) = calls t"
  by (auto simp: driver_sys_def driver_open_def driver_ioctl_def obind_def split: prod.splits option.splits outcome.splits)

text \<open>A process that finds the flag set when it opens the device, and is alone from then on.\<close>

definition crowd_stale :: "'d card \<Rightarrow> 'd spec \<Rightarrow> kapi \<Rightarrow> (nat \<Rightarrow> 'd cryptocard \<Rightarrow> 'd cryptocard) \<Rightarrow> 'd crowd \<Rightarrow> bool" where
  "crowd_stale C S k meddle t \<longleftrightarrow> driver_stale C S k (others meddle t) \<and> (\<forall>n s. 0 < n \<longrightarrow> meddle n s = s)"

lemma calls_others [simp]: "calls (others meddle t) = Suc (calls t)"
  by (simp add: others_def)

lemma crowd_stale_calls:
  assumes "crowd_stale C S k meddle t"
  shows "sys_open (driver_sys C k U ja jb mmap munmap) p (others meddle t) = (f, t') \<Longrightarrow> driver_stale C S k t' \<Longrightarrow> crowd_stale C S k meddle t'"
    "sys_ioctl (driver_sys C k U ja jb mmap munmap) f cmd arg (others meddle t) = Done (r, t') \<Longrightarrow> driver_stale C S k t' \<Longrightarrow>
       crowd_stale C S k meddle t'"
    "driver_stale C S k (sys_close (driver_sys C k U ja jb mmap munmap) f (others meddle t)) \<Longrightarrow>
       crowd_stale C S k meddle (sys_close (driver_sys C k U ja jb mmap munmap) f (others meddle t))"
proof -
  have *: "crowd_stale C S k meddle u" if "driver_stale C S k u" "calls u = Suc n" for u n
    using assms that by (simp add: crowd_stale_def driver_stale_def others_def)
  show "sys_open (driver_sys C k U ja jb mmap munmap) p (others meddle t) = (f, t') \<Longrightarrow> driver_stale C S k t' \<Longrightarrow> crowd_stale C S k meddle t'"
    by (rule *, assumption, drule driver_keeps_calls(1), simp)
  show "sys_ioctl (driver_sys C k U ja jb mmap munmap) f cmd arg (others meddle t) = Done (r, t') \<Longrightarrow> driver_stale C S k t' \<Longrightarrow>
      crowd_stale C S k meddle t'"
    by (rule *, assumption, drule driver_keeps_calls(2), simp)
  show "driver_stale C S k (sys_close (driver_sys C k U ja jb mmap munmap) f (others meddle t)) \<Longrightarrow>
      crowd_stale C S k meddle (sys_close (driver_sys C k U ja jb mmap munmap) f (others meddle t))"
    by (rule *, assumption, simp add: driver_keeps_calls(3))
qed

interpretation spoilt_crowd: handle_device "with_others meddle (driver_sys C k U ja jb mmap munmap)" "crowd_stale C S k meddle"
  for meddle C k U ja jb mmap munmap S
proof
  fix t :: "'a crowd" assume g: "crowd_stale C S k meddle t" and fd: "\<not> next_fd t <s 0"
  then have o: "driver_stale C S k (others meddle t)" by (simp add: crowd_stale_def)
  show "\<exists>t'. sys_open (with_others meddle (driver_sys C k U ja jb mmap munmap)) ''/dev/cryptocard'' t = (next_fd t, t') \<and>
      crowd_stale C S k meddle t' \<and> umem t' = umem t \<and> next_fd t' = next_fd t + 1"
    using spoilt.opens [OF o, of U ja jb mmap munmap] fd crowd_stale_calls(1) [OF g] by (fastforce simp: with_others_def)
next
  fix t :: "'a crowd" and f ty val assume g: "crowd_stale C S k meddle t"
  then have o: "driver_stale C S k (others meddle t)" by (simp add: crowd_stale_def)
  show "\<exists>t'. sys_ioctl (with_others meddle (driver_sys C k U ja jb mmap munmap)) f SET_CONFIG
        (no_arg\<lparr>as_config := \<lparr>mode_int_dma = config_num ty, cfg_set = val\<rparr>\<rparr>) t = Done (0, t') \<and> crowd_stale C S k meddle t' \<and>
      umem t' = umem t \<and> next_fd t' = next_fd t \<and>
      conf_interrupt (fconf t' f) = (if ty = INTERRUPT then val else conf_interrupt (fconf t f)) \<and>
      conf_dma (fconf t' f) = (if ty = DMA then val else conf_dma (fconf t f))"
    using spoilt.configures [OF o, of U ja jb mmap munmap f ty val] crowd_stale_calls(2) [OF g]
    by (fastforce simp: with_others_def)
next
  fix t :: "'a crowd" and f a b assume g: "crowd_stale C S k meddle t"
  then have o: "driver_stale C S k (others meddle t)" by (simp add: crowd_stale_def)
  show "\<exists>t'. sys_ioctl (with_others meddle (driver_sys C k U ja jb mmap munmap)) f SET_KEY
        (no_arg\<lparr>as_key := \<lparr>key_field_a = a, key_field_b = b\<rparr>\<rparr>) t = Done (0, t') \<and> crowd_stale C S k meddle t' \<and>
      umem t' = umem t \<and> next_fd t' = next_fd t \<and> conf_a (fconf t' f) = a \<and> conf_b (fconf t' f) = b \<and>
      conf_interrupt (fconf t' f) = conf_interrupt (fconf t f) \<and> conf_dma (fconf t' f) = conf_dma (fconf t f)"
    using spoilt.keys [OF o, of U ja jb mmap munmap f a b] crowd_stale_calls(2) [OF g]
    by (fastforce simp: with_others_def)
next
  fix t :: "'a crowd" and f assume g: "crowd_stale C S k meddle t"
  then have o: "driver_stale C S k (others meddle t)" by (simp add: crowd_stale_def)
  show "crowd_stale C S k meddle (sys_close (with_others meddle (driver_sys C k U ja jb mmap munmap)) f t) \<and>
      umem (sys_close (with_others meddle (driver_sys C k U ja jb mmap munmap)) f t) = umem t \<and>
      next_fd (sys_close (with_others meddle (driver_sys C k U ja jb mmap munmap)) f t) = next_fd t"
    using spoilt.closes [OF o, of U ja jb mmap munmap f] crowd_stale_calls(3) [OF g] by (simp add: with_others_def)
qed

text \<open>The first chunk of such a process stays as it is.\<close>

lemma stale_round_fails:
  assumes t: "crowd_stale C S k meddle (os s)" "conf_dma (fconf (os s) f) \<noteq> 0" "conf_interrupt (fconf (os s) f) \<noteq> 0"
    and n: "unat n \<le> 32000" "reachable U buffer (unat n)" "0 \<notin> set (peek buffer (unat n) s)" "x \<in> set (peek buffer (unat n) s)" "is_letter x"
  shows "\<exists>t. chunk_rounds (with_others meddle (driver_sys C k U ja jb mmap munmap)) junk f buffer n (Suc i) 0 s = Done (False, s\<lparr>os := t\<rparr>)"
proof -
  let ?A = "with_others meddle (driver_sys C k U ja jb mmap munmap)" and ?buf = "peek buffer (unat n) s"
  have w: "unat (ucast n :: u64) = unat n" using n(1) by (simp add: unsigned_ucast_eq take_bit_eq_mod)
  have "user_ok U (buffer + 0) (ucast n)" using n(2) w unfolding reachable_def by (metis add_0 le_refl unat_0)
  then obtain t' where t': "sys_ioctl ?A f (crypt_cmd False) (arg_op buffer (ucast n) 0) (os s) = Done (0, t')" "umem t' = umem (os s)"
    using spoilt_request [of C S k "others meddle (os s)" f "ucast n" U buffer ja jb mmap munmap False] t n(1) w
    by (auto simp: with_others_def crowd_stale_def card_buffer_def)
  then have e: "encrypt ?A junk f buffer (ucast n) 0 s = Done (0, s\<lparr>os := t'\<rparr>)"
    using n(1) w by (simp add: encrypt_def ioctl_def lib_cmds word_less_nat_alt word_le_nat_alt)
  have ref: "create_encrpyted_buffer ?buf 30 17 (unat n) = Some (map (encrypt_byte 30 17) ?buf)"
    using n(3) strncpy_no_nul [of "unat n" ?buf] by (simp add: create_encrpyted_buffer_def encryptMessage_map peek_def)
  have "encrypt_byte 30 17 x \<noteq> x" using encrypt_twice_letter [OF n(5)] by metis
  then have "map (encrypt_byte 30 17) ?buf \<noteq> ?buf" using n(4) by (metis in_set_conv_nth nth_map)
  moreover have "peek buffer (unat n) (s\<lparr>os := t'\<rparr>) = ?buf" using t'(2) by (simp add: peek_def)
  ultimately show ?thesis using e ref
    by (intro exI [of _ t']) (simp add: chunk_rounds.simps(2) Let_def isValid_eq peek_def)
qed

text \<open>The file of a place has a letter among its first \<open>n\<close> bytes.\<close>

definition starts_with_letter :: "nat \<Rightarrow> 'd place \<Rightarrow> bool" where
  "starts_with_letter n P \<longleftrightarrow> (case map_file (p_files P) (p_state P) of
     (Some (buffer, f, z), s) \<Rightarrow> list_ex is_letter (peek buffer n s) | _ \<Rightarrow> False)"

lemma stale_job_fails:
  assumes P: "place_ok C S k U P" "enc S = encrypt_byte" "dec S = decrypt_byte" "outlasts_copy C S" "starts_with_letter (unat n) P"
    and alone: "\<And>n s. p_meddle P n s = s" and left: "\<And>s. ready S s \<Longrightarrow> \<not> cc_spinlock s \<Longrightarrow> stale S (left s)"
    and job: "unat n \<le> 32000" "c \<noteq> 0"
  shows "do_encryption (after_kills left P) (job SET SET n c) = Done Failed"
proof -
  obtain ja jb mmap munmap buffer f z t0 where p: "p_sys P = driver_sys C k U ja jb mmap munmap"
    "file_mapped (p_files P) U buffer z (os (p_state P)) t0"
    "map_file (p_files P) (p_state P) = (Some (buffer, f, of_nat z), (p_state P)\<lparr>os := t0\<rparr>)" "1020 * 1024 \<le> z" "z < 2 ^ 31"
    "driver_good C S k t0" "\<not> next_fd t0 <s 0" "calls t0 = 0"
    using P(1) unfolding place_ok_def by blast
  let ?Q = "after_kills left P" and ?s = "p_state P"
  let ?A = "with_others (p_meddle ?Q) (driver_sys C k U ja jb mmap munmap)"
  obtain x where x: "x \<in> set (mem_read buffer (unat n) (umem t0))" "is_letter x"
    using P(5) p(3) by (auto simp: starts_with_letter_def peek_def list_ex_iff)
  have g: "crowd_stale C S k (p_meddle ?Q) t0"
    using p(6,8) P(4) alone left [of "drv t0"] by (auto simp: crowd_stale_def driver_stale_def driver_good_def others_def after_kills_def)
  obtain t1 where t1: "create_device_handle ?A SET SET 30 17 (?s\<lparr>os := t0\<rparr>) = Done (Some (next_fd t0), ?s\<lparr>os := t1\<rparr>)"
    "crowd_stale C S k (p_meddle ?Q) t1" "umem t1 = umem t0" "conf_dma (fconf t1 (next_fd t0)) = SET" "conf_interrupt (fconf t1 (next_fd t0)) = SET"
    using spoilt_crowd.create_device_handle_run [of C S k "p_meddle ?Q" "?s\<lparr>os := t0\<rparr>" U ja jb mmap munmap SET SET 30 17] g p(7)
    by (auto simp: Let_def)
  have m: "file_mapped (p_files P) U buffer (unat n) (os ?s) t0" using p(2,4,5) job(1) by (intro file_mapped_mono [OF p(2)]) simp_all
  obtain i where i: "unat c = Suc i" using job(2) by (cases "unat c") (auto simp: unat_eq_0)
  obtain t2 where "chunk_rounds ?A (p_junk P) (next_fd t0) buffer n (Suc i) 0 (?s\<lparr>os := t1\<rparr>) = Done (False, ?s\<lparr>os := t2\<rparr>)"
    using stale_round_fails [of C S k "p_meddle ?Q" "?s\<lparr>os := t1\<rparr>" "next_fd t0" n U buffer x ja jb mmap munmap "p_junk P" i] t1 m x job(1)
    by (auto simp: file_mapped_def peek_def SET_def)
  then show ?thesis using p(1,3) t1(1) i by (simp add: do_encryption_def chunk_test_def after_kills_def)
qed

text \<open>
  C27: The fifth test of several processes when a kill does cut a request short: one with DMA and interrupt, of any length up
  to 32 KB, on a card that works longer than the driver copies.  If no other kill disturbs the driver and no other process
  is at work, the parent's own first chunk comes back as it was, and the program prints "Testcase failed" and never "Testcase passed".
\<close>

theorem killed_request_fails_test5:
  assumes W: "place_ok C S k U (W 50)" and card: "enc S = encrypt_byte" "dec S = decrypt_byte" "outlasts_copy C S"
    and parent: "\<And>n s. p_meddle (W 50) n s = s" "starts_with_letter 1055 (W 50)"
    and request: "conf_dma cfg \<noteq> 0" "conf_interrupt cfg \<noteq> 0" "isMapped (as_op arg) = 0" "unat (op_length (as_op arg)) \<le> card_buffer"
      "user_ok U (op_addr (as_op arg)) (op_length (as_op arg))"
    and child: "i < 50" "killed i"
    and cuts: "\<And>s. ready S s \<Longrightarrow> \<not> cc_spinlock s \<Longrightarrow> killed_request C k U (crypt_cmd decr) arg cfg m p s = Done (cuts i s)"
      "\<And>j s. j \<noteq> i \<Longrightarrow> cuts j s = s"
  shows "MP_test5 W started killed cuts = Done {Failed}"
proof -
  have good: "card_ok C S" "grants C" "\<And>l. k_alloc k l \<noteq> 0" using W by (auto simp: place_ok_def driver_good_def)
  have cut: "stale S (cuts i s)" if "ready S s" "\<not> cc_spinlock s" for s
    using killed_request_stale [OF good(1,2) card(3) that request good(3), of decr m p] cuts(1) [OF that] by auto
  have "kills started killed cuts n s = (if i < n then cuts i s else s)" for n s
    using child(2) cuts(2) by (induction n) (auto simp: kills_def less_Suc_eq)
  then have "do_encryption (after_kills (kills started killed cuts 50) (W 50)) (job SET SET 1055 200) = Done Failed"
    using child(1) cut parent(2) by (intro stale_job_fails [OF W card _ parent(1)]) simp_all
  moreover have "printed (filter (\<lambda>r. r \<noteq> Hang) (children g does n)) \<subseteq> {Failed}" for g does n
  proof -
    have "printed (filter (\<lambda>r. r \<noteq> Hang) (map (\<lambda>i. child (does i)) is)) \<subseteq> {Failed}" for "is"
    proof (induction "is")
      case (Cons a "is")
      then show ?case by (cases "does a") (auto simp: child_def)
    qed simp
    then show ?thesis by (simp add: children_def)
  qed
  ultimately show ?thesis unfolding MP_test5_def Let_def by (simp add: main_end_def insert_absorb subset_singleton_iff Un_absorb1)
qed

text \<open>A program whose threads all come to a verdict.\<close>

lemma thread_test_end:
  assumes "\<And>i. i < n \<Longrightarrow> does i = Done (v i) \<and> v i \<noteq> Exited" "\<And>i. creates i" "Hang \<notin> set kids"
  shows "thread_test creates kids does n = Done (printed kids \<union> (if \<exists>i<n. v i = Failed then {Failed} else {Passed}))"
proof -
  have "list_all creates [0..<n]" using assms(2) by (simp add: list_all_iff)
  moreover have "set (map does [0..<n]) = (\<lambda>i. Done (v i)) ` {0..<n}" using assms(1) by simp
  moreover have "Done Failed \<in> (\<lambda>i. Done (v i)) ` {0..<n} \<longleftrightarrow> (\<exists>i<n. v i = Failed)" by (force simp: image_iff)
  moreover have "Done Exited \<notin> (\<lambda>i. Done (v i)) ` {0..<n}" using assms(1) by (metis (no_types, lifting) atLeastLessThan_iff imageE outcome.inject)
  moreover have "Oops \<notin> (\<lambda>i. Done (v i)) ` {0..<n}" "Hang \<notin> (\<lambda>i. Done (v i)) ` {0..<n}" by auto
  ultimately show ?thesis using assms(3) by (simp add: thread_test_def main_end_def del: set_map set_upt) blast
qed

text \<open>
  C9: The tests of several threads in the same system, when every thread can be created: the sixth prints "Testcase passed".
  The eighth prints "Testcase failed" and nothing else as soon as a thread finds a parameter of the form 4n + 1,
  and passes otherwise; the tenth likewise, with the failures of its children in addition.  The ninth passes if joining
  a thread of another process returns, and hangs if it does not.  The seventh joins threads that were never created: unless
  a thread with such a parameter ends the program before, it passes or crashes as those joins do.
\<close>

theorem thread_programs:
  assumes W: "\<And>i. place_ok C S k U (W i)" and card: "enc S = encrypt_byte" "dec S = decrypt_byte"
    and creates: "\<And>i. creates i"
  shows "MP_test6 W creates = Done {Passed} \<and>
    MP_test8 W creates reads = Done (if \<exists>i<50. C_mod4 (reads i) = 1 then {Failed} else {Passed}) \<and>
    MP_test9 W started creates joined = (if started 1 \<and> \<not> joined then Hang else Done {Passed}) \<and>
    MP_test10 W started creates reads = Done ((if \<exists>i<50. started i \<and> i mod 4 = 2 then {Failed} else {}) \<union>
      (if \<exists>i<50. C_mod4 (reads i) = 1 then {Failed} else {Passed})) \<and>
    ((\<forall>i<12. C_mod4 (reads i) \<noteq> 1) \<longrightarrow>
      MP_test7 W creates reads joins ended = (if list_all joins [1..<12] then Done {Passed} else Oops))"
proof (intro conjI impI)
  have own: "do_encryption (W i) j = Done (outcome_of j)" if "fair_job j" for i j
    by (rule do_encryption_verdict [OF W card that])
  have one: "do_encryption (W i) (job d e 1 c) = Done Passed" if "unat c \<le> 1000" for i d e c
    using own [of "job d e 1 c" i] that by (simp add: fair_job_def outcome_of_def)
  have worker: "do_encryption (W i) (worker_job p) = Done (if C_mod4 p = 1 then Failed else Passed)" for i p
    by (simp add: own worker_job_verdict)
  have kids: "do_encryption (W i) (child_job j) = Done (if j mod 4 = 2 then Failed else Passed)" for i j
    by (simp add: own child_job_verdict)
  show "MP_test6 W creates = Done {Passed}"
    unfolding MP_test6_def by (subst thread_test_end [where v = "\<lambda>_. Passed"]) (simp_all add: one creates)
  show "MP_test8 W creates reads = Done (if \<exists>i<50. C_mod4 (reads i) = 1 then {Failed} else {Passed})"
    unfolding MP_test8_def worker
    by (subst thread_test_end [where v = "\<lambda>i. if C_mod4 (reads i) = 1 then Failed else Passed"]) (auto simp: creates)
  show "MP_test9 W started creates joined = (if started 1 \<and> \<not> joined then Hang else Done {Passed})"
  proof (cases "started 1 \<and> \<not> joined")
    case True
    then show ?thesis using creates by (auto simp: MP_test9_def thread_test_def main_end_def one Let_def list_all_iff)
  next
    case False
    then show ?thesis unfolding MP_test9_def Let_def
      by (subst thread_test_end [where v = "\<lambda>_. Passed"]) (auto simp: one creates children_def main_end_def)
  qed
  show "MP_test10 W started creates reads = Done ((if \<exists>i<50. started i \<and> i mod 4 = 2 then {Failed} else {}) \<union>
      (if \<exists>i<50. C_mod4 (reads i) = 1 then {Failed} else {Passed}))"
    unfolding MP_test10_def worker kids using creates
    by (subst thread_test_end [where v = "\<lambda>i. if C_mod4 (reads i) = 1 then Failed else Passed"])
      (auto simp: printed_children [where v = "\<lambda>i. if i mod 4 = 2 then Failed else Passed"] list_all_iff)
  assume small: "\<forall>i<12. C_mod4 (reads i) \<noteq> 1"
  have seven: "do_encryption (W i) (job SET SET (thread_size (reads i)) (thread_count (reads i))) = Done Passed" if "i < 12" for i
    using own [of "job SET SET (thread_size (reads i)) (thread_count (reads i))" i] small that
    by (simp add: fair_job_def outcome_of_def thread_size_def thread_count_def)
  then show "MP_test7 W creates reads joins ended = (if list_all joins [1..<12] then Done {Passed} else Oops)"
    using creates by (auto simp: MP_test7_def main_end_def Let_def list_all_iff image_iff)
qed

text \<open>Among others that open and close the device all the time, with the file of letters.\<close>

definition busy :: "nat \<Rightarrow> 'd cryptocard \<Rightarrow> 'd cryptocard" where
  "busy n s = (if even n then snd (snd (cryptocard_fopen ex_kernel 0 0 s)) else snd (cryptocard_frelease 16384 s))"

lemma busy_rely: "rely C ex_kernel U busy"
proof -
  have "foreign C ex_kernel U s (busy n s)" for n and s :: "'a cryptocard"
    by (cases "cryptocard_fopen ex_kernel 0 0 s") (auto simp: busy_def intro: opens_file releases_file [OF prod.collapse [symmetric]])
  then show ?thesis by (simp add: rely_def r_into_rtranclp)
qed

definition ex_place :: "(regs \<times> nat) place" where
  "ex_place = \<lparr>p_sys = driver_sys (sim_card encrypt_byte decrypt_byte) ex_kernel flat_user 0 0 (\<lambda>n f t. (MAP_FAILED, t)) (\<lambda>a n t. (- 1, t)),
     p_meddle = busy,
     p_files = text_file, p_junk = 9,
     p_state = \<lparr>map_size = 0, os = \<lparr>next_fd = 4, fconf = (\<lambda>_. ex_config 0 1), fpriv = (\<lambda>_. 0), umem = (\<lambda>_. 72),
       drv = ex_driver, calls = 0\<rparr>\<rparr>\<rparr>"

lemma ex_place_ok: "place_ok (sim_card encrypt_byte decrypt_byte) (sim_spec encrypt_byte decrypt_byte) ex_kernel flat_user ex_place"
proof -
  let ?t = "os (p_state ex_place)"
  have "driver_good (sim_card encrypt_byte decrypt_byte) (sim_spec encrypt_byte decrypt_byte) ex_kernel ?t"
    by (simp add: driver_good_def ex_place_def ex_kernel_def sim_card_ok sim_card_kind bench_ready)
  moreover have "file_mapped (p_files ex_place) flat_user 0x100000 (1020 * 1024) ?t ?t"
    by (auto simp: file_mapped_def ex_place_def text_file_def set_mem_read_const word_sless_alt)
  moreover have "map_file (p_files ex_place) (p_state ex_place) = (Some (0x100000, 3, of_nat (1020 * 1024)), p_state ex_place)"
    by (simp add: map_file_def ex_place_def text_file_def word_sless_alt)
  moreover have "72 \<in> set (mem_read 0x100000 (1020 * 1024) (umem ?t))" "is_letter 72"
    by (simp_all add: ex_place_def set_mem_read_const is_letter_def)
  moreover have "p_sys ex_place = driver_sys (sim_card encrypt_byte decrypt_byte) ex_kernel flat_user 0 0
      (\<lambda>n f t. (MAP_FAILED, t)) (\<lambda>a n t. (- 1, t))" "p_meddle ex_place = busy" "\<not> next_fd ?t <s 0" "calls ?t = 0" "(p_state ex_place)\<lparr>os := ?t\<rparr> = p_state ex_place"
    by (simp_all add: ex_place_def word_sless_alt)
  moreover have "(1020 * 1024 :: nat) \<le> 1020 * 1024" "(1020 * 1024 :: nat) < 2 ^ 31" by simp_all
  ultimately show ?thesis unfolding place_ok_def using busy_rely by metis
qed

theorem process_tests_witness:
  "MP_test3 (\<lambda>_. ex_place) (\<lambda>_. True) = Done {Passed} \<and> MP_test4 (\<lambda>_. ex_place) (\<lambda>i. i = 6) = Done {Failed, Passed} \<and>
   MP_test5 (\<lambda>_. ex_place) (\<lambda>_. True) (\<lambda>_. True) (\<lambda>i s. s) = Done {Passed}"
  using process_tests [where W = "\<lambda>_. ex_place" and started = "\<lambda>_. True" and cuts = "\<lambda>i s. s" and killed = "\<lambda>_. True", OF ex_place_ok]
    process_tests [where W = "\<lambda>_. ex_place" and started = "\<lambda>i. i = 6" and cuts = "\<lambda>i s. s", OF ex_place_ok] by (simp add: conj_commute)

text \<open>The 48th child is killed in a request.\<close>

definition ex_cut :: "(regs \<times> nat) cryptocard \<Rightarrow> (regs \<times> nat) cryptocard" where
  "ex_cut s = (case killed_request (sim_card encrypt_byte decrypt_byte) ex_kernel flat_user (crypt_cmd False) (ex_arg 0) (ex_config 1 1) (\<lambda>_. 72) 16384 s of
     Done s' \<Rightarrow> s' | _ \<Rightarrow> s)"

definition quiet_place :: "(regs \<times> nat) place" where
  "quiet_place = ex_place\<lparr>p_meddle := \<lambda>n s. s\<rparr>"

theorem killed_request_fails_test5_witness:
  "MP_test5 (\<lambda>_. quiet_place) (\<lambda>_. True) (\<lambda>_. True) (\<lambda>i s. if i = 47 then ex_cut s else s) = Done {Failed}"
proof -
  let ?C = "sim_card encrypt_byte decrypt_byte" and ?S = "sim_spec encrypt_byte decrypt_byte"
  have W: "place_ok ?C ?S ex_kernel flat_user quiet_place"
    using ex_place_ok by (simp add: place_ok_def quiet_place_def rely_def)
  have letters: "starts_with_letter 1055 quiet_place"
    using set_mem_read_const [of 1055 "0x100000" 72]
    by (auto simp: starts_with_letter_def quiet_place_def ex_place_def map_file_def text_file_def word_sless_alt peek_def list_ex_iff is_letter_def)
  have op: "conf_dma (ex_config 1 1) \<noteq> 0" "conf_interrupt (ex_config 1 1) \<noteq> 0" "isMapped (as_op (ex_arg 0)) = 0"
    "unat (op_length (as_op (ex_arg 0))) \<le> card_buffer" "user_ok flat_user (op_addr (as_op (ex_arg 0))) (op_length (as_op (ex_arg 0)))"
    by (simp_all add: ex_config_def card_buffer_def)
  have k: "k_alloc ex_kernel l \<noteq> 0" for l by (simp add: ex_kernel_def)
  have cut: "killed_request ?C ex_kernel flat_user (crypt_cmd False) (ex_arg 0) (ex_config 1 1) (\<lambda>_. 72) 16384 s = Done (ex_cut s)"
    if "ready ?S s" "\<not> cc_spinlock s" for s
    using killed_request_stale [where decr = False and m = "\<lambda>_. 72" and p = 16384,
        OF sim_card_ok sim_card_kind(1) sim_outlasts_copy that op k] by (auto simp: ex_cut_def)
  show ?thesis
    by (rule killed_request_fails_test5 [where i = 47 and decr = False and m = "\<lambda>_. 72" and p = 16384,
          OF W sim_spec_cipher sim_outlasts_copy _ letters op]) (use cut in \<open>simp_all add: quiet_place_def\<close>)
qed

theorem thread_programs_witness:
  "MP_test6 (\<lambda>_. ex_place) (\<lambda>_. True) = Done {Passed} \<and> MP_test7 (\<lambda>_. ex_place) (\<lambda>_. True) (\<lambda>_. 0) (\<lambda>_. False) (\<lambda>_. True) = Oops \<and>
   MP_test8 (\<lambda>_. ex_place) (\<lambda>_. True) (\<lambda>_. 5) = Done {Failed} \<and>
   MP_test9 (\<lambda>_. ex_place) (\<lambda>_. True) (\<lambda>_. True) False = Hang"
proof -
  have m: "C_mod4 0 = 0" "C_mod4 5 = 1" by (simp_all add: C_mod4_def signed_modulo_int_def signed_divide_int_def)
  show ?thesis
    using thread_programs [of _ _ _ _ "\<lambda>_. ex_place" "\<lambda>_. True" "\<lambda>_. 0" "\<lambda>_. True" False "\<lambda>_. False" "\<lambda>_. True", OF ex_place_ok]
      thread_programs [of _ _ _ _ "\<lambda>_. ex_place" "\<lambda>_. True" "\<lambda>_. 5" "\<lambda>_. True" False "\<lambda>_. False" "\<lambda>_. True", OF ex_place_ok]
      m upt_rec [of 1 12] by (auto intro: exI [of _ 0] dest: spec [of _ 0])
qed

end
