(* ===== verification/Mapped.thy ===== *)
theory Mapped
  imports Suite
begin

text \<open>
  The programs that map the card: the acceptance tests of \<^verbatim>\<open>eval-test/src/MMAP\<close> and the benchmarks
  \<^verbatim>\<open>mmap.c\<close> and \<^verbatim>\<open>mmap_interrupt.c\<close>.  A load or store of the program at a mapped address reaches BAR 0 at the
  distance of the address from the start of its mapping, which the parameter \<open>start_of\<close> gives
  (\<open>None\<close> where nothing is mapped: the program dies).
\<close>

section \<open>Accesses through a mapping\<close>

definition map_peek ::
  "'d card \<Rightarrow> (u64 \<Rightarrow> u64 option) \<Rightarrow> u64 \<Rightarrow> nat \<Rightarrow> 'd system crypter \<Rightarrow> (u8 list \<times> 'd system crypter) outcome" where
  "map_peek C start_of addr n s =
     (case start_of addr of
        None \<Rightarrow> Oops
      | Some b \<Rightarrow>
          (let (bs, d) = from_io C (addr - b) n (dev (drv (os s)))
           in Done (bs, s\<lparr>os := (os s)\<lparr>drv := (drv (os s))\<lparr>dev := d\<rparr>\<rparr>\<rparr>)))"

definition map_poke ::
  "'d card \<Rightarrow> (u64 \<Rightarrow> u64 option) \<Rightarrow> u64 \<Rightarrow> u8 list \<Rightarrow> 'd system crypter \<Rightarrow> 'd system crypter outcome" where
  "map_poke C start_of addr bs s =
     (case start_of addr of
        None \<Rightarrow> Oops
      | Some b \<Rightarrow> Done (s\<lparr>os := (os s)\<lparr>drv := (drv (os s))\<lparr>dev := to_io C (addr - b) bs (dev (drv (os s)))\<rparr>\<rparr>\<rparr>))"

section \<open>The tests\<close>

definition mapped_message_test ::
  "'d system sysapi \<Rightarrow> 'd card \<Rightarrow> (u64 \<Rightarrow> u64 option) \<Rightarrow> u32 \<Rightarrow> u8 \<Rightarrow> 'd system crypter \<Rightarrow> (verdict \<times> 'd system crypter) outcome" where
  "mapped_message_test A C start_of junk isInterrupt s =
     obind (create_device_handle A UNSET isInterrupt 30 17 s) (\<lambda>(cdev, s).
       case cdev of
         None \<Rightarrow> Done (Exited, s)
       | Some cdev \<Rightarrow>
           (let (actual_buff, s) = map_card A cdev (of_nat (length hello)) s
            in if actual_buff = 0 then Done (Failed, s)
               else
                 obind (map_poke C start_of actual_buff (strncpy hello (length hello)) s) (\<lambda>s.
                 obind (need (create_encrpyted_buffer hello 30 17 (length hello))) (\<lambda>test_buff.
                 obind (encrypt A junk cdev actual_buff (of_nat (length hello)) 1 s) (\<lambda>(r, s).
                 obind (map_peek C start_of actual_buff (length hello) s) (\<lambda>(got, s).
                 obind (need (isValid got test_buff (length hello))) (\<lambda>v.
                   if v = 0 then Done (Failed, s)
                   else
                     obind (decrypt A junk cdev actual_buff (of_nat (length hello)) 1 s) (\<lambda>(r, s).
                     obind (map_peek C start_of actual_buff (length hello) s) (\<lambda>(got, s).
                     obind (need (isValid hello got (length hello))) (\<lambda>v.
                       if v = 0 then Done (Failed, s)
                       else Done (Passed, close_handle A cdev (unmap_card A cdev actual_buff s))))))))))))"

definition mapped_file_test ::
  "'d system sysapi \<Rightarrow> 'd system fileapi \<Rightarrow> 'd card \<Rightarrow> (u64 \<Rightarrow> u64 option) \<Rightarrow> u32 \<Rightarrow> u8 \<Rightarrow> 'd system crypter \<Rightarrow>
     (verdict \<times> 'd system crypter) outcome" where
  "mapped_file_test A F C start_of junk isInterrupt s =
     (let n = 1020 * 1024 in
      case map_file F s of
        (None, s) \<Rightarrow> Done (Exited, s)
      | (Some (buffer, file_desc, file_size), s) \<Rightarrow>
          obind (create_device_handle A UNSET isInterrupt 30 17 s) (\<lambda>(cdev, s).
            case cdev of
              None \<Rightarrow> Done (Exited, s)
            | Some cdev \<Rightarrow>
                (let (actual_buff, s) = map_card A cdev (of_nat n) s
                 in if actual_buff = 0 then Done (Failed, s)
                    else
                      obind (map_poke C start_of actual_buff (strncpy (peek buffer n s) n) s) (\<lambda>s.
                      obind (map_peek C start_of actual_buff n s) (\<lambda>(text, s).
                      obind (need (create_encrpyted_buffer text 30 17 n)) (\<lambda>test_buff.
                      obind (encrypt A junk cdev actual_buff (of_nat n) 1 s) (\<lambda>(r, s).
                      obind (map_peek C start_of actual_buff n s) (\<lambda>(got, s).
                      obind (need (isValid got test_buff n)) (\<lambda>v.
                        if v = 0 then Done (Failed, s)
                        else
                          obind (decrypt A junk cdev actual_buff (of_nat n) 1 s) (\<lambda>(r, s).
                          obind (map_peek C start_of actual_buff n s) (\<lambda>(got, s).
                          obind (need (isValid (peek buffer n s) got n)) (\<lambda>v.
                            if v = 0 then Done (Failed, s)
                            else Done (Passed, close_handle A cdev (unmap_card A cdev actual_buff s))))))))))))))"

text \<open>Three mappings; the second is given back and made again.\<close>

definition three_mappings_test ::
  "'d system sysapi \<Rightarrow> 'd system fileapi \<Rightarrow> 'd card \<Rightarrow> (u64 \<Rightarrow> u64 option) \<Rightarrow> u32 \<Rightarrow> u8 \<Rightarrow> 'd system crypter \<Rightarrow>
     (verdict \<times> 'd system crypter) outcome" where
  "three_mappings_test A F C start_of junk isInterrupt s =
     (let n = 340 * 1024 in
      case map_file F s of
        (None, s) \<Rightarrow> Done (Exited, s)
      | (Some (buffer, file_desc, file_size), s) \<Rightarrow>
          obind (create_device_handle A UNSET isInterrupt 30 17 s) (\<lambda>(cdev, s).
            case cdev of
              None \<Rightarrow> Done (Exited, s)
            | Some cdev \<Rightarrow>
                obind (need (create_encrpyted_buffer (peek buffer n s) 30 17 n)) (\<lambda>test_buff.
                (let (actual_buff1, s) = map_card A cdev (of_nat n) s;
                     (actual_buff2, s) = map_card A cdev (of_nat n) s;
                     (actual_buff3, s) = map_card A cdev (of_nat n) s
                 in if actual_buff1 = 0 \<or> actual_buff2 = 0 \<or> actual_buff3 = 0 \<or>
                       \<not> (actual_buff1 \<noteq> actual_buff2 \<and> actual_buff2 \<noteq> actual_buff3) then Done (Failed, s)
                    else
                      (let s = unmap_card A cdev actual_buff2 s;
                           (actual_buff2, s) = map_card A cdev (of_nat n) s
                       in if actual_buff2 = 0 then Done (Failed, s)
                          else
                            obind (map_poke C start_of actual_buff2 (strncpy (peek buffer n s) n) s) (\<lambda>s.
                            obind (encrypt A junk cdev actual_buff2 (of_nat n) 1 s) (\<lambda>(r, s).
                            obind (map_peek C start_of actual_buff2 n s) (\<lambda>(got, s).
                            obind (need (isValid got test_buff n)) (\<lambda>v.
                              if v = 0 then Done (Failed, s)
                              else
                                obind (decrypt A junk cdev actual_buff2 (of_nat n) 1 s) (\<lambda>(r, s).
                                obind (map_peek C start_of actual_buff2 n s) (\<lambda>(got, s).
                                obind (need (isValid (peek buffer n s) got n)) (\<lambda>v.
                                  if v = 0 then Done (Failed, s)
                                  else
                                    (let s = unmap_card A cdev actual_buff1 s;
                                         s = unmap_card A cdev actual_buff2 s;
                                         s = unmap_card A cdev actual_buff3 s
                                     in Done (Passed, close_handle A cdev s))))))))))))))"

text \<open>A mapped request, then one with the mapped flag on a buffer of the program at \<open>without_mmap_buf\<close>.\<close>

definition mixed_test ::
  "'d system sysapi \<Rightarrow> 'd system fileapi \<Rightarrow> 'd card \<Rightarrow> (u64 \<Rightarrow> u64 option) \<Rightarrow> u32 \<Rightarrow> u64 \<Rightarrow> u8 \<Rightarrow> 'd system crypter \<Rightarrow>
     (verdict \<times> 'd system crypter) outcome" where
  "mixed_test A F C start_of junk without_mmap_buf isInterrupt s =
     (let n = 1020 * 1024; without_mmap_size = 1024 in
      case map_file F s of
        (None, s) \<Rightarrow> Done (Exited, s)
      | (Some (buffer, file_desc, file_size), s) \<Rightarrow>
          obind (create_device_handle A UNSET isInterrupt 30 17 s) (\<lambda>(cdev, s).
            case cdev of
              None \<Rightarrow> Done (Exited, s)
            | Some cdev \<Rightarrow>
                (let (actual_mmap_buff, s) = map_card A cdev (of_nat n) s
                 in if actual_mmap_buff = 0 then Done (Failed, s)
                    else
                      obind (map_poke C start_of actual_mmap_buff (strncpy (peek buffer n s) n) s) (\<lambda>s.
                      obind (need (create_encrpyted_buffer (peek buffer n s) 30 17 n)) (\<lambda>test_mmap_buff.
                      obind (encrypt A junk cdev actual_mmap_buff (of_nat n) 1 s) (\<lambda>(r, s).
                      (let s = poke without_mmap_buf (strncpy (peek (buffer + 15) without_mmap_size s) without_mmap_size) s
                       in obind (need (create_encrpyted_buffer (peek (buffer + 15) without_mmap_size s) 30 17 without_mmap_size)) (\<lambda>test_buff.
                          obind (encrypt A junk cdev without_mmap_buf (of_nat n) 1 s) (\<lambda>(r, s).
                          obind (need (isValid (peek without_mmap_buf without_mmap_size s) test_buff without_mmap_size)) (\<lambda>v.
                            if v = 0 then Done (Failed, s)
                            else
                              obind (map_peek C start_of actual_mmap_buff n s) (\<lambda>(got, s).
                              obind (need (isValid test_mmap_buff got n)) (\<lambda>v.
                                if v = 0 then Done (Failed, s)
                                else Done (Passed, close_handle A cdev (unmap_card A cdev actual_mmap_buff s))))))))))))))"

section \<open>The benchmarks\<close>

fun mapped_rounds ::
  "'d system sysapi \<Rightarrow> 'd card \<Rightarrow> (u64 \<Rightarrow> u64 option) \<Rightarrow> u32 \<Rightarrow> u32 \<Rightarrow> u64 \<Rightarrow> u64 \<Rightarrow> nat \<Rightarrow> u32 \<Rightarrow> 'd system crypter \<Rightarrow>
     'd system crypter outcome" where
  "mapped_rounds A C start_of junk cdev buffer device_mmap_address 0 chunk s = Done s"
| "mapped_rounds A C start_of junk cdev buffer device_mmap_address (Suc i) chunk s =
     (let offset = chunk * 4096;
          buffer_address = buffer + ucast offset
      in obind (map_poke C start_of device_mmap_address (strncpy (peek buffer_address 4096 s) 4096) s) (\<lambda>s.
         obind (encrypt A junk cdev device_mmap_address 4096 1 s) (\<lambda>(r, s).
         obind (decrypt A junk cdev device_mmap_address 4096 1 s) (\<lambda>(r, s).
           mapped_rounds A C start_of junk cdev buffer device_mmap_address i (chunk + 1) s))))"

definition mapped_bench ::
  "'d system sysapi \<Rightarrow> 'd system fileapi \<Rightarrow> 'd card \<Rightarrow> (u64 \<Rightarrow> u64 option) \<Rightarrow> u32 \<Rightarrow> u8 \<Rightarrow> 'd system crypter \<Rightarrow>
     (u32 option \<times> 'd system crypter) outcome" where
  "mapped_bench A F C start_of junk isInterrupt s =
     (case map_file F s of
        (None, s) \<Rightarrow> Done (None, s)
      | (Some (buffer, file_desc, file_size), s) \<Rightarrow>
          (let (cdev, s) = create_handle A s
           in if cdev = ERROR then Done (None, s)
              else
                obind (set_config A cdev DMA UNSET s) (\<lambda>(r, s).
                obind (set_config A cdev INTERRUPT isInterrupt s) (\<lambda>(r, s).
                obind (set_key A cdev 30 17 s) (\<lambda>(r, s).
                  if r = ERROR then Done (None, s)
                  else
                    (let (device_mmap_address, s) = map_card A cdev 4096 s
                     in obind (mapped_rounds A C start_of junk cdev buffer device_mmap_address (unat (file_size div 4096)) 0 s) (\<lambda>s.
                       (let s = close_handle A cdev s;
                            s = s\<lparr>os := f_munmap F buffer file_size (os s)\<rparr>;
                            s = s\<lparr>os := f_close F file_desc (os s)\<rparr>
                        in Done (Some 0, s)))))))))"

section \<open>The programs\<close>

definition MMAP_test1 where "MMAP_test1 A C start_of junk = mapped_message_test A C start_of junk UNSET"
definition MMAP_IRQ_test1 where "MMAP_IRQ_test1 A C start_of junk = mapped_message_test A C start_of junk SET"
definition MMAP_test2 where "MMAP_test2 A F C start_of junk = mapped_file_test A F C start_of junk UNSET"
definition MMAP_IRQ_test2 where "MMAP_IRQ_test2 A F C start_of junk = mapped_file_test A F C start_of junk SET"
definition MMAP_test3 where "MMAP_test3 A F C start_of junk = three_mappings_test A F C start_of junk UNSET"
definition MMAP_IRQ_test3 where "MMAP_IRQ_test3 A F C start_of junk = three_mappings_test A F C start_of junk SET"
definition MMAP_test4 where "MMAP_test4 A F C start_of junk wbuf = mixed_test A F C start_of junk wbuf UNSET"
definition MMAP_IRQ_test4 where "MMAP_IRQ_test4 A F C start_of junk wbuf = mixed_test A F C start_of junk wbuf SET"
definition mmap_main where "mmap_main A F C start_of junk = mapped_bench A F C start_of junk UNSET"
definition mmap_interrupt_main where "mmap_interrupt_main A F C start_of junk = mapped_bench A F C start_of junk SET"

section \<open>Requests on a mapping\<close>

text \<open>What the programs rely on: the system maps the card where the program finds it, and mapping and unmapping
  leave the driver, the memory and the settings of the files alone.\<close>

definition card_mappable ::
  "'d card \<Rightarrow> 'd spec \<Rightarrow> kapi \<Rightarrow> (u64 \<Rightarrow> u64 option) \<Rightarrow> (u64 \<Rightarrow> u32 \<Rightarrow> 'd system \<Rightarrow> u64 \<times> 'd system) \<Rightarrow>
     (u64 \<Rightarrow> u64 \<Rightarrow> 'd system \<Rightarrow> u32 \<times> 'd system) \<Rightarrow> bool" where
  "card_mappable C S k start_of mmap munmap \<longleftrightarrow>
     (\<forall>n f t. driver_good C S k t \<longrightarrow>
        (\<exists>b t'. mmap n f t = (b, t') \<and> b \<noteq> MAP_FAILED \<and> b + 0xa8 \<noteq> 0 \<and> start_of (b + 0xa8) = Some b \<and>
           driver_good C S k t' \<and> umem t' = umem t \<and> fconf t' = fconf t)) \<and>
     (\<forall>a n t. driver_good C S k t \<longrightarrow>
        driver_good C S k (snd (munmap a n t)) \<and> umem (snd (munmap a n t)) = umem t \<and> fconf (snd (munmap a n t)) = fconf t)"

definition sound :: "'d card \<Rightarrow> 'd spec \<Rightarrow> kapi \<Rightarrow> mem \<Rightarrow> (u32 \<Rightarrow> cryptocard_config) \<Rightarrow> 'd system crypter \<Rightarrow> bool" where
  "sound C S k m c s \<longleftrightarrow> driver_good C S k (os s) \<and> umem (os s) = m \<and> fconf (os s) = c"

lemma map_card_sound:
  assumes "card_mappable C S k start_of mmap munmap" "sound C S k m c s" "sz \<le> 0x100000 - 0xa8"
  shows "\<exists>b s'. map_card (driver_sys C k U ja jb mmap munmap) f sz s = (b + 0xa8, s') \<and> b + 0xa8 \<noteq> 0 \<and>
    start_of (b + 0xa8) = Some b \<and> sound C S k m c s'"
proof -
  have "\<exists>b t'. mmap (sz + 0xa8) f (os s) = (b, t') \<and> b \<noteq> MAP_FAILED \<and> b + 0xa8 \<noteq> 0 \<and> start_of (b + 0xa8) = Some b \<and>
      driver_good C S k t' \<and> umem t' = umem (os s) \<and> fconf t' = fconf (os s)"
    using assms(1,2) unfolding card_mappable_def sound_def by blast
  then show ?thesis using assms(2,3) by (auto simp: map_card_def driver_sys_def sound_def)
qed

lemma unmap_card_sound:
  assumes "card_mappable C S k start_of mmap munmap" "sound C S k m c s"
  shows "sound C S k m c (unmap_card (driver_sys C k U ja jb mmap munmap) f a s)"
  using assms by (auto simp: card_mappable_def sound_def unmap_card_def driver_sys_def case_prod_beta Let_def)

lemma map_poke_sound:
  assumes "sound C S k m c s" "start_of (b + 0xa8) = Some b" "length bs \<le> 0x100000 - 0xa8"
  shows "\<exists>s'. map_poke C start_of (b + 0xa8) bs s = Done s' \<and> sound C S k m c s' \<and>
    (\<forall>i < length bs. r_data (vs S (drv (os s'))) i = bs ! i)"
proof -
  have "card_ok C S" "quiet (view S (dev (drv (os s))))" using assms(1) by (auto simp: sound_def driver_good_def ready_def)
  note area = card_area(1) [OF this assms(3)]
  have "DATA_OFF = 0xa8" by (simp add: DATA_OFF_def)
  then show ?thesis using assms(1,2) area
    by (auto simp: map_poke_def sound_def driver_good_def ready_def quiet_def)
qed

lemma map_peek_sound:
  assumes "card_ok C S" "quiet (vs S (drv (os s)))" "start_of (b + 0xa8) = Some b" "n \<le> 0x100000 - 0xa8"
  shows "\<exists>d. map_peek C start_of (b + 0xa8) n s =
      Done (map (r_data (vs S (drv (os s)))) [0..<n], s\<lparr>os := (os s)\<lparr>drv := (drv (os s))\<lparr>dev := d\<rparr>\<rparr>\<rparr>) \<and> view S d = vs S (drv (os s))"
proof -
  have "DATA_OFF = 0xa8" by (simp add: DATA_OFF_def)
  then show ?thesis using card_area(2,3) [OF assms(1,2,4)] assms(3)
    by (auto simp: map_peek_def case_prod_beta Let_def)
qed

text \<open>With the lock held every request hangs; a mapped request takes the lock and keeps it.\<close>

lemma locked_ioctl:
  assumes "cc_spinlock (drv (os s))"
  shows "ioctl (driver_sys C k U ja jb mmap munmap) f (crypt_cmd decr) arg s = Hang"
  using locked_hangs [OF assms, of C k U decr arg] by (simp add: ioctl_def driver_sys_def driver_ioctl_def)

lemma mapped_ioctl:
  assumes "sound C S k m c s" "op_len n \<le> card_buffer"
  shows "\<exists>t. ioctl (driver_sys C k U ja jb mmap munmap) f (crypt_cmd decr) (arg_op a n 1) s = Done (0, s\<lparr>os := t\<rparr>) \<and>
    cc_spinlock (drv t) \<and> quiet (vs S (drv t)) \<and> umem t = m \<and>
    r_data (vs S (drv t)) = (\<lambda>i. if i < op_len n then crypt S decr (c f) (r_data (vs S (drv (os s))) i)
      else r_data (vs S (drv (os s))) i)"
proof -
  have good: "card_ok C S" "undisturbed C" "ready S (drv (os s))" "\<not> cc_spinlock (drv (os s))"
    "umem (os s) = m" "fconf (os s) = c"
    using assms(1) by (auto simp: sound_def driver_good_def)
  have op: "isMapped (as_op (arg_op a n 1)) \<noteq> 0" "op_len (op_length (as_op (arg_op a n 1))) \<le> card_buffer"
    "op_length (as_op (arg_op a n 1)) = n" using assms(2) by (simp_all add: arg_op_def)
  obtain d where d: "(if decr then ioctl_decrypt else ioctl_encrypt) C k U (as_op (arg_op a n 1)) (c f) m (drv (os s)) = Done (0, m, d)"
    "cc_spinlock d" "ready S d" "r_data (vs S d) = (\<lambda>i. if i < op_len n then crypt S decr (c f) (r_data (vs S (drv (os s))) i)
      else r_data (vs S (drv (os s))) i)"
    using ioctl_encrypt_mapped [OF good(1-4) op(1,2), of k U "c f" m]
      ioctl_decrypt_mapped [OF good(1-4) op(1,2), of k U "c f" m] unfolding op(3)
    by (cases decr) (auto cong: if_cong)
  let ?t = "(os s)\<lparr>fconf := (fconf (os s))(f := c f), umem := m, drv := d\<rparr>"
  have "ioctl (driver_sys C k U ja jb mmap munmap) f (crypt_cmd decr) (arg_op a n 1) s = Done (0, s\<lparr>os := ?t\<rparr>)"
    using d(1) good(5,6) by (simp add: ioctl_def driver_sys_def driver_ioctl_def ioctl_crypt_cmd)
  then show ?thesis using d(2-4) by (intro exI [of _ ?t]) (simp add: ready_def)
qed

lemma small_request_locked:
  assumes "cc_spinlock (drv (os s))" "len \<le> 32000"
  shows "decrypt (driver_sys C k U ja jb mmap munmap) junk f a len mapped s = Hang"
proof -
  have "len \<le> 32768" using assms(2) by (simp add: word_le_nat_alt)
  then show ?thesis using locked_ioctl [OF assms(1), of C k U ja jb mmap munmap f True] by (simp add: decrypt_def lib_cmds)
qed

lemma small_encrypt_mapped:
  assumes "sound C S k m c s" "len \<le> 32000"
  shows "\<exists>t. encrypt (driver_sys C k U ja jb mmap munmap) junk f a len 1 s = Done (0, s\<lparr>os := t\<rparr>) \<and>
    cc_spinlock (drv t) \<and> quiet (vs S (drv t)) \<and>
    (\<forall>i < unat len. r_data (vs S (drv t)) i = crypt S False (c f) (r_data (vs S (drv (os s))) i))"
proof -
  have n: "op_len len = unat len" "op_len len \<le> card_buffer"
    using assms(2) by (simp_all add: op_len_def word_le_nat_alt unsigned_ucast_eq take_bit_eq_mod card_buffer_def)
  show ?thesis
    using mapped_ioctl [OF assms(1) n(2), of U ja jb mmap munmap f False a] assms(2) n(1) by (auto simp: encrypt_def lib_cmds)
qed

text \<open>A large mapped request hangs on its own second chunk.\<close>

lemma large_encrypt_mapped:
  assumes "sound C S k m c s" "64000 \<le> unat len" "unat len < 2 ^ 31"
  shows "encrypt (driver_sys C k U ja jb mmap munmap) junk f a len 1 s = Hang"
proof -
  let ?A = "driver_sys C k U ja jb mmap munmap"
  define q where "q = unat len div 32000"
  have q: "nat (sint (ucast (len div 32000) :: u32)) = q" "2 \<le> q"
    using int_of_u64(2) [of "len div 32000"] assms(2,3) by (simp_all add: q_def unat_div_distrib)
  then obtain i where i: "q = Suc (Suc i)" by (metis add_2_eq_Suc le_Suc_ex)
  have "op_len 32000 \<le> card_buffer" by (simp add: op_len_def card_buffer_def)
  then obtain t where "ioctl ?A f (crypt_cmd False) (arg_op a 32000 1) s = Done (0, s\<lparr>os := t\<rparr>)" "cc_spinlock (drv t)"
    using mapped_ioctl [OF assms(1), of 32000 U ja jb mmap munmap f False a] by blast
  moreover have "ioctl ?A f (crypt_cmd False) arg (s\<lparr>os := t\<rparr>) = Hang" if "cc_spinlock (drv t)" for arg
    using that by (intro locked_ioctl) simp
  moreover have "\<not> len \<le> 32000" using assms(2) by (simp add: word_le_nat_alt)
  ultimately show ?thesis using q i by (simp add: encrypt_def lib_cmds Let_def)
qed

section \<open>The programs never end\<close>

lemma handle_sound:
  assumes "driver_good C S k (os s)" "\<not> next_fd (os s) <s 0" "enc S = encrypt_byte" "dec S = decrypt_byte"
  shows "\<exists>c s'. create_device_handle (driver_sys C k U ja jb mmap munmap) isDMA isInterrupt 30 17 s = Done (Some (next_fd (os s)), s') \<and>
    sound C S k (umem (os s)) c s' \<and> crypt S False (c (next_fd (os s))) = encrypt_byte 30 17"
  using handle_keyed [OF assms, of U ja jb mmap munmap isDMA isInterrupt 30 17]
  by (auto simp: sound_def keyed_def file_fn_def)

lemma mapped_message_hangs:
  assumes good: "driver_good C S k (os s)" "\<not> next_fd (os s) <s 0" "enc S = encrypt_byte" "dec S = decrypt_byte"
    and mappable: "card_mappable C S k start_of mmap munmap"
  shows "mapped_message_test (driver_sys C k U ja jb mmap munmap) C start_of junk isInterrupt s = Hang"
proof -
  let ?A = "driver_sys C k U ja jb mmap munmap" and ?f = "next_fd (os s)" and ?n = "of_nat (length hello) :: u64"
  obtain c s1 where s1: "create_device_handle ?A UNSET isInterrupt 30 17 s = Done (Some ?f, s1)" "sound C S k (umem (os s)) c s1"
    "crypt S False (c ?f) = encrypt_byte 30 17" using handle_sound [OF good] by blast
  have n: "?n \<le> 0x100000 - 0xa8" "?n \<le> 32000" "unat ?n = length hello" "length hello \<le> 0x100000 - 0xa8" by (simp_all add: hello_def)
  obtain b s2 where s2: "map_card ?A ?f ?n s1 = (b + 0xa8, s2)" "b + 0xa8 \<noteq> 0" "start_of (b + 0xa8) = Some b"
    "sound C S k (umem (os s)) c s2" using map_card_sound [OF mappable s1(2) n(1)] by blast
  have "strncpy hello (length hello) = hello" using strncpy_no_nul [of "length hello" hello] by (simp add: hello_def)
  then obtain s3 where s3: "map_poke C start_of (b + 0xa8) (strncpy hello (length hello)) s2 = Done s3"
    "sound C S k (umem (os s)) c s3" "\<forall>i < length hello. r_data (vs S (drv (os s3))) i = hello ! i"
    using map_poke_sound [of C S k "umem (os s)" c s2 start_of b hello] s2(3,4) n(4) by auto
  obtain t where t: "encrypt ?A junk ?f (b + 0xa8) ?n 1 s3 = Done (0, s3\<lparr>os := t\<rparr>)" "cc_spinlock (drv t)" "quiet (vs S (drv t))"
    "\<forall>i < length hello. r_data (vs S (drv t)) i = encrypt_byte 30 17 (r_data (vs S (drv (os s3))) i)"
    using small_encrypt_mapped [OF s3(2) n(2), of U ja jb mmap munmap junk ?f "b + 0xa8"] unfolding n(3) s1(3) by blast
  have got: "map (r_data (vs S (drv t))) [0..<length hello] = map (encrypt_byte 30 17) hello"
    using s3(3) t(4) by (intro nth_equalityI) simp_all
  have "card_ok C S" using good(1) by (simp add: driver_good_def)
  then obtain d where d: "map_peek C start_of (b + 0xa8) (length hello) (s3\<lparr>os := t\<rparr>) =
      Done (map (encrypt_byte 30 17) hello, s3\<lparr>os := t\<lparr>drv := (drv t)\<lparr>dev := d\<rparr>\<rparr>\<rparr>)"
    using map_peek_sound [of C S "s3\<lparr>os := t\<rparr>" start_of b "length hello"] t(3) s2(3) n(4) got by auto
  have "decrypt ?A junk ?f (b + 0xa8) ?n 1 (s3\<lparr>os := t\<lparr>drv := (drv t)\<lparr>dev := d\<rparr>\<rparr>\<rparr>) = Hang"
    using t(2) n(2) by (intro small_request_locked) simp_all
  then show ?thesis using s1(1) s2(1,2) s3(1) t(1) d hello_check [of 30 17]
    by (simp add: mapped_message_test_def isValid_eq)
qed

text \<open>The tests on a file: its text has no terminator, so the reference can be computed.\<close>

lemma reference_of:
  assumes "length bs = n" "0 \<notin> set bs"
  shows "create_encrpyted_buffer bs a b n = Some (map (encrypt_byte a b) bs)"
  using assms strncpy_no_nul [of n bs] by (simp add: create_encrpyted_buffer_def encryptMessage_map)

lemma mapped_file_hangs:
  assumes good: "driver_good C S k t0" "\<not> next_fd t0 <s 0" "enc S = encrypt_byte" "dec S = decrypt_byte"
    and mappable: "card_mappable C S k start_of mmap munmap" and mapd: "file_mapped F U buffer (1020 * 1024) (os s) t0"
  shows "mapped_file_test (driver_sys C k U ja jb mmap munmap) F C start_of junk isInterrupt s = Hang"
    and "mixed_test (driver_sys C k U ja jb mmap munmap) F C start_of junk wbuf isInterrupt s = Hang"
proof -
  let ?A = "driver_sys C k U ja jb mmap munmap" and ?f = "next_fd t0" and ?n = "1044480 :: nat"
  let ?text = "mem_read buffer ?n (umem t0)"
  obtain fdesc sz where fm: "map_file F s = (Some (buffer, fdesc, sz), s\<lparr>os := t0\<rparr>)" using map_file_mapped [OF mapd] by blast
  have nz: "0 \<notin> set ?text" using mapd by (simp add: file_mapped_def)
  have "driver_good C S k (os (s\<lparr>os := t0\<rparr>))" "\<not> next_fd (os (s\<lparr>os := t0\<rparr>)) <s 0" using good by simp_all
  from handle_sound [OF this good(3,4), of U ja jb mmap munmap UNSET isInterrupt]
  obtain c s1 where s1: "create_device_handle ?A UNSET isInterrupt 30 17 (s\<lparr>os := t0\<rparr>) = Done (Some ?f, s1)"
    "sound C S k (umem t0) c s1" by auto
  have n: "(1044480 :: u64) \<le> 0x100000 - 0xa8" "?n \<le> 0x100000 - 0xa8" by (simp_all add: word_le_nat_alt)
  obtain b s2 where s2: "map_card ?A ?f 1044480 s1 = (b + 0xa8, s2)" "b + 0xa8 \<noteq> 0" "start_of (b + 0xa8) = Some b"
    "sound C S k (umem t0) c s2" using map_card_sound [OF mappable s1(2) n(1)] by blast
  have p2: "peek buffer ?n s2 = ?text" using s2(4) by (simp add: sound_def peek_def)
  have cpy: "strncpy ?text ?n = ?text" using strncpy_no_nul [of ?n ?text] nz by simp
  obtain s3 where s3: "map_poke C start_of (b + 0xa8) ?text s2 = Done s3" "sound C S k (umem t0) c s3"
    "\<forall>i < ?n. r_data (vs S (drv (os s3))) i = ?text ! i"
    using map_poke_sound [of C S k "umem t0" c s2 start_of b ?text] s2(3,4) n(2) by auto
  have p3: "peek buffer ?n s3 = ?text" using s3(2) by (simp add: sound_def peek_def)
  have hang: "encrypt ?A junk ?f (b + 0xa8) 1044480 1 s' = Hang" if "sound C S k (umem t0) c s'" for s'
    using large_encrypt_mapped [OF that, of 1044480] by simp
  have ref: "create_encrpyted_buffer ?text 30 17 ?n = Some (map (encrypt_byte 30 17) ?text)"
    by (intro reference_of nz) simp
  show "mixed_test ?A F C start_of junk wbuf isInterrupt s = Hang"
    using fm s1(1) s2(1,2) s3(1) hang [OF s3(2)] ref p2 p3 cpy by (simp add: mixed_test_def)
  have got: "map (r_data (vs S (drv (os s3)))) [0..<?n] = ?text" using s3(3) by (intro nth_equalityI) simp_all
  have "card_ok C S" "quiet (vs S (drv (os s3)))" using s3(2) by (auto simp: sound_def driver_good_def ready_def)
  then obtain d where d: "map_peek C start_of (b + 0xa8) ?n s3 = Done (?text, s3\<lparr>os := (os s3)\<lparr>drv := (drv (os s3))\<lparr>dev := d\<rparr>\<rparr>\<rparr>)"
    "view S d = vs S (drv (os s3))"
    using map_peek_sound [of C S s3 start_of b ?n] s2(3) n(2) got by auto
  have "sound C S k (umem t0) c (s3\<lparr>os := (os s3)\<lparr>drv := (drv (os s3))\<lparr>dev := d\<rparr>\<rparr>\<rparr>)"
    using s3(2) d(2) by (simp add: sound_def driver_good_def ready_def)
  then show "mapped_file_test ?A F C start_of junk isInterrupt s = Hang"
    using fm s1(1) s2(1,2) s3(1) d(1) hang ref p2 cpy by (simp add: mapped_file_test_def)
qed

lemma three_mappings_hang:
  assumes good: "driver_good C S k t0" "\<not> next_fd t0 <s 0" "enc S = encrypt_byte" "dec S = decrypt_byte"
    and mappable: "card_mappable C S k start_of mmap munmap" and mapd: "file_mapped F U buffer (1020 * 1024) (os s) t0"
  shows "three_mappings_test (driver_sys C k U ja jb mmap munmap) F C start_of junk isInterrupt s = Hang \<or>
    (\<exists>s'. three_mappings_test (driver_sys C k U ja jb mmap munmap) F C start_of junk isInterrupt s = Done (Failed, s'))"
proof -
  let ?A = "driver_sys C k U ja jb mmap munmap" and ?f = "next_fd t0" and ?n = "348160 :: nat" and ?M = "umem t0"
  let ?text = "mem_read buffer ?n ?M"
  obtain fdesc sz where fm: "map_file F s = (Some (buffer, fdesc, sz), s\<lparr>os := t0\<rparr>)" using map_file_mapped [OF mapd] by blast
  have "file_mapped F U buffer ?n (os s) t0" using file_mapped_mono [OF mapd] by simp
  then have nz: "0 \<notin> set ?text" by (simp add: file_mapped_def)
  have "driver_good C S k (os (s\<lparr>os := t0\<rparr>))" "\<not> next_fd (os (s\<lparr>os := t0\<rparr>)) <s 0" using good by simp_all
  from handle_sound [OF this good(3,4), of U ja jb mmap munmap UNSET isInterrupt]
  obtain c s0 where s0: "create_device_handle ?A UNSET isInterrupt 30 17 (s\<lparr>os := t0\<rparr>) = Done (Some ?f, s0)"
    "sound C S k ?M c s0" by auto
  have n: "(348160 :: u64) \<le> 0x100000 - 0xa8" "?n \<le> 0x100000 - 0xa8" by (simp_all add: word_le_nat_alt)
  note mc = map_card_sound [OF mappable _ n(1), of ?M c _ U ja jb ?f]
  obtain b1 s1 where s1: "map_card ?A ?f 348160 s0 = (b1 + 0xa8, s1)" "b1 + 0xa8 \<noteq> 0" "sound C S k ?M c s1"
    using mc [OF s0(2)] by blast
  obtain b2 s2 where s2: "map_card ?A ?f 348160 s1 = (b2 + 0xa8, s2)" "b2 + 0xa8 \<noteq> 0" "sound C S k ?M c s2"
    using mc [OF s1(3)] by blast
  obtain b3 s3 where s3: "map_card ?A ?f 348160 s2 = (b3 + 0xa8, s3)" "b3 + 0xa8 \<noteq> 0" "sound C S k ?M c s3"
    using mc [OF s2(3)] by blast
  let ?s3 = "unmap_card ?A ?f (b2 + 0xa8) s3"
  have "sound C S k ?M c ?s3" by (rule unmap_card_sound [OF mappable s3(3)])
  from mc [OF this] obtain b s4 where s4: "map_card ?A ?f 348160 ?s3 = (b + 0xa8, s4)" "b + 0xa8 \<noteq> 0"
    "start_of (b + 0xa8) = Some b" "sound C S k ?M c s4" by blast
  have p0: "peek buffer ?n s0 = ?text" and p4: "peek buffer ?n s4 = ?text" using s0(2) s4(4) by (simp_all add: sound_def peek_def)
  obtain s5 where s5: "map_poke C start_of (b + 0xa8) (strncpy ?text ?n) s4 = Done s5" "sound C S k ?M c s5"
    using map_poke_sound [of C S k ?M c s4 start_of b "strncpy ?text ?n"] s4(3,4) n(2) by auto
  have "encrypt ?A junk ?f (b + 0xa8) 348160 1 s5 = Hang" using large_encrypt_mapped [OF s5(2), of 348160] by simp
  moreover have "create_encrpyted_buffer ?text 30 17 ?n = Some (map (encrypt_byte 30 17) ?text)" by (intro reference_of nz) simp
  ultimately show ?thesis
    using fm s0(1) s1(1,2) s2(1,2) s3(1,2) s4(1,2) s5(1) p0 p4 by (auto simp: three_mappings_test_def)
qed

lemma mapped_bench_hangs:
  assumes good: "driver_good C S k t0" "\<not> next_fd t0 <s 0"
    and mappable: "card_mappable C S k start_of mmap munmap"
    and mapd: "map_file F s = (Some (buffer, fdesc, sz), s\<lparr>os := t0\<rparr>)" "4096 \<le> sz"
  shows "mapped_bench (driver_sys C k U ja jb mmap munmap) F C start_of junk isInterrupt s = Hang"
proof -
  let ?A = "driver_sys C k U ja jb mmap munmap" and ?f = "next_fd t0"
  have ne: "?f \<noteq> ERROR" using good(2) by (auto simp: ERROR_def word_sless_alt)
  obtain t1 where t1: "create_handle ?A (s\<lparr>os := t0\<rparr>) = (?f, s\<lparr>os := t1\<rparr>)" "driver_good C S k t1"
    using create_handle_driver [of C S k "s\<lparr>os := t0\<rparr>" U ja jb mmap munmap] good by auto
  obtain t2 where t2: "set_config ?A ?f DMA UNSET (s\<lparr>os := t1\<rparr>) = Done (0, s\<lparr>os := t2\<rparr>)" "driver_good C S k t2"
    using set_config_driver [of C S k "s\<lparr>os := t1\<rparr>" U ja jb mmap munmap ?f DMA UNSET] t1(2) by auto
  obtain t3 where t3: "set_config ?A ?f INTERRUPT isInterrupt (s\<lparr>os := t2\<rparr>) = Done (0, s\<lparr>os := t3\<rparr>)" "driver_good C S k t3"
    using set_config_driver [of C S k "s\<lparr>os := t2\<rparr>" U ja jb mmap munmap ?f INTERRUPT isInterrupt] t2(2) by auto
  obtain t4 where t4: "set_key ?A ?f 30 17 (s\<lparr>os := t3\<rparr>) = Done (0, s\<lparr>os := t4\<rparr>)" "driver_good C S k t4"
    using set_key_driver [of C S k "s\<lparr>os := t3\<rparr>" U ja jb mmap munmap ?f 30 17] t3(2) by auto
  have "sound C S k (umem t4) (fconf t4) (s\<lparr>os := t4\<rparr>)" "(4096 :: u64) \<le> 0x100000 - 0xa8" using t4(2) by (simp_all add: sound_def)
  then obtain b s5 where s5: "map_card ?A ?f 4096 (s\<lparr>os := t4\<rparr>) = (b + 0xa8, s5)" "start_of (b + 0xa8) = Some b"
    "sound C S k (umem t4) (fconf t4) s5" using map_card_sound [OF mappable] by blast
  define txt1 where "txt1 = strncpy (peek buffer 4096 s5) 4096"
  obtain s6 where s6: "map_poke C start_of (b + 0xa8) txt1 s5 = Done s6" "sound C S k (umem t4) (fconf t4) s6"
    using map_poke_sound [of C S k "umem t4" "fconf t4" s5 start_of b txt1] s5(2,3) by (auto simp: txt1_def)
  obtain t where "encrypt ?A junk ?f (b + 0xa8) 4096 1 s6 = Done (0, s6\<lparr>os := t\<rparr>)" "cc_spinlock (drv t)"
    using small_encrypt_mapped [OF s6(2), of 4096 U ja jb mmap munmap junk ?f "b + 0xa8"] by auto
  moreover have "decrypt ?A junk ?f (b + 0xa8) 4096 1 (s6\<lparr>os := t\<rparr>) = Hang" if "cc_spinlock (drv t)"
    using that by (intro small_request_locked) simp_all
  moreover obtain i where "unat (sz div 4096) = Suc i"
  proof -
    have "4096 \<le> unat sz" using mapd(2) by (simp add: word_le_nat_alt)
    then have "unat (sz div 4096) \<noteq> 0" by (simp add: unat_div_distrib div_eq_0_iff)
    then show ?thesis using that by (cases "unat (sz div 4096)") auto
  qed
  ultimately show ?thesis
    using mapd(1) t1(1) t2(1) t3(1) t4(1) s5(1) s6(1) ne unfolding txt1_def by (simp add: mapped_bench_def ERROR_def)
qed

text \<open>
  C19: No program that maps the card ever finishes its work.  On a correct card, with the card mapped where the
  system says, the four acceptance tests and the benchmark, with and without interrupts, block for ever: a mapped request
  leaves the driver's lock taken, so that the next request, which for a large buffer is the second chunk of the
  same call, never returns.  The test with three mappings blocks as well, or fails when the
  system gives the same address twice.
\<close>

theorem mapped_programs_block:
  assumes good: "driver_good C S k (os s)" "driver_good C S k t0" and card: "enc S = encrypt_byte" "dec S = decrypt_byte"
    and fds: "\<not> next_fd (os s) <s 0" "\<not> next_fd t0 <s 0"
    and mappable: "card_mappable C S k start_of mmap munmap"
    and mapd: "file_mapped F U buffer (1020 * 1024) (os s) t0" "map_file F s = (Some (buffer, fdesc, sz), s\<lparr>os := t0\<rparr>)" "4096 \<le> sz"
    and A: "A = driver_sys C k U ja jb mmap munmap"
  shows "(\<forall>p \<in> {MMAP_test1, MMAP_IRQ_test1}. p A C start_of junk s = Hang) \<and>
    (\<forall>p \<in> {MMAP_test2, MMAP_IRQ_test2}. p A F C start_of junk s = Hang) \<and>
    (\<forall>p \<in> {MMAP_test3, MMAP_IRQ_test3}. p A F C start_of junk s = Hang \<or> (\<exists>s'. p A F C start_of junk s = Done (Failed, s'))) \<and>
    (\<forall>p \<in> {MMAP_test4, MMAP_IRQ_test4}. p A F C start_of junk wbuf s = Hang) \<and>
    (\<forall>p \<in> {mmap_main, mmap_interrupt_main}. p A F C start_of junk s = Hang)"
proof -
  note message = mapped_message_hangs [OF good(1) fds(1) card mappable]
  note large = mapped_file_hangs [OF good(2) fds(2) card mappable mapd(1)]
  note three = three_mappings_hang [OF good(2) fds(2) card mappable mapd(1)]
  note bench = mapped_bench_hangs [OF good(2) fds(2) mappable mapd(2,3)]
  show ?thesis
    using three unfolding A by (simp add: MMAP_test1_def MMAP_IRQ_test1_def MMAP_test2_def MMAP_IRQ_test2_def MMAP_test3_def
        MMAP_IRQ_test3_def MMAP_test4_def MMAP_IRQ_test4_def mmap_main_def mmap_interrupt_main_def message large bench)
qed

text \<open>The card at one fixed place.\<close>

definition mapping_sys :: "(regs \<times> nat) system sysapi" where
  "mapping_sys = driver_sys (sim_card encrypt_byte decrypt_byte) ex_kernel flat_user 0 0
     (\<lambda>n f t. (0x700000, t)) (\<lambda>a n t. (0, t))"

theorem mapped_programs_block_witness:
  "MMAP_IRQ_test1 mapping_sys (sim_card encrypt_byte decrypt_byte) (\<lambda>_. Some 0x700000) 9 \<lparr>map_size = 0, os = bench_system\<rparr> = Hang \<and>
   mmap_main mapping_sys text_file (sim_card encrypt_byte decrypt_byte) (\<lambda>_. Some 0x700000) 9 \<lparr>map_size = 0, os = bench_system\<rparr> = Hang"
proof -
  have "file_mapped text_file flat_user 0x100000 (1020 * 1024) bench_system bench_system" using bench_file [of 1044479] by simp
  moreover have "map_file text_file \<lparr>map_size = 0, os = bench_system\<rparr> = (Some (0x100000, 3, 1044480), \<lparr>map_size = 0, os = bench_system\<rparr>)"
    by (simp add: map_file_def text_file_def word_sless_alt)
  moreover have "card_mappable (sim_card encrypt_byte decrypt_byte) (sim_spec encrypt_byte decrypt_byte) ex_kernel
      (\<lambda>_. Some 0x700000) (\<lambda>n f t. (0x700000, t)) (\<lambda>a n t. (0, t))"
    by (simp add: card_mappable_def MAP_FAILED_def)
  ultimately show ?thesis
    using mapped_programs_block [of "sim_card encrypt_byte decrypt_byte" "sim_spec encrypt_byte decrypt_byte" ex_kernel
      "\<lparr>map_size = 0, os = bench_system\<rparr>" bench_system "\<lambda>_. Some 0x700000" "\<lambda>n f t. (0x700000, t)" "\<lambda>a n t. (0, t)"
      text_file flat_user "0x100000" 3 1044480 mapping_sys 0 0 9 0]
    by (simp add: mapping_sys_def word_sless_alt)
qed

end
