(* ===== verification/Testfile.thy ===== *)
theory Testfile
  imports Suite
begin

text \<open>
  The program that writes the file the tests and benchmarks work on, \<^verbatim>\<open>benchmark-test/file_create.c\<close>, and the
  verdicts of the tests on that file.  The file system is a map from names to contents; the result of
  the \<^verbatim>\<open>system\<close> call and whether the file can be opened are parameters.
\<close>

section \<open>The program\<close>

text \<open>The seed with its line end and terminator.\<close>

definition seed_data :: "u8 list" where
  "seed_data = map of_nat ([97..<123] @ [65..<91] @ [49..<57] @ [65, 82, 85, 78, 10, 0])"

text \<open>The loop from \<open>i\<close> on, with the number of rounds left: the bytes it writes.\<close>

fun put_loop :: "nat \<Rightarrow> nat \<Rightarrow> u8 list" where
  "put_loop 0 i = []"
| "put_loop (Suc n) i = (if i mod 4096 = 4095 then 10 else seed_data ! (i mod 64)) # put_loop n (i + 1)"

type_synonym file_system = "string \<Rightarrow> u8 list option"

text \<open>The limit is the product of an \<^verbatim>\<open>int\<close> that may wrap and a \<^verbatim>\<open>long\<close>; a file that cannot be opened is not
  noticed, and the first \<^verbatim>\<open>fputc\<close> or the \<^verbatim>\<open>fclose\<close> dies.\<close>

definition create_file :: "bool \<Rightarrow> u32 \<Rightarrow> file_system \<Rightarrow> file_system outcome" where
  "create_file opened file_size fs =
     (if \<not> opened then Oops
      else Done (fs(''/dev/shm/in_memory.txt'' \<mapsto> put_loop (nat (sint (file_size * 1024) * 1024)) 0)))"

definition default_file_size :: u32 where "default_file_size = 10"

text \<open>Whether the program goes on after mounting, or exits.\<close>

definition mount_shm :: "u32 \<Rightarrow> bool" where
  "mount_shm result = (\<not> result <s 0)"

definition file_create_main :: "u32 \<Rightarrow> bool \<Rightarrow> u8 list list \<Rightarrow> file_system \<Rightarrow> file_system outcome" where
  "file_create_main system_result opened argv fs =
     (let file_size = (if 2 \<le> length argv then atoi (argv ! 1) else default_file_size)
      in if \<not> mount_shm system_result then Done fs
         else create_file opened file_size fs)"

section \<open>The contents\<close>

definition file_byte :: "nat \<Rightarrow> u8" where
  "file_byte i = (if i mod 4096 = 4095 then 10 else seed_data ! (i mod 64))"

lemma put_loop_eq: "put_loop n i = map file_byte [i..<i + n]"
  by (induction n i rule: put_loop.induct) (simp_all add: file_byte_def upt_rec)

text \<open>Only letters, the digits 1 to 8, and line ends are written: never the terminator of the seed.\<close>

definition text_byte :: "u8 \<Rightarrow> bool" where
  "text_byte x \<longleftrightarrow> is_letter x \<or> x \<in> {49..56} \<or> x = 10"

lemma seed_data_text: "\<forall>x \<in> set (take 64 seed_data). text_byte x"
  by (simp add: seed_data_def text_byte_def is_letter_def)

lemma text_byte_not_0: "text_byte x \<Longrightarrow> x \<noteq> 0"
  by (auto simp: text_byte_def is_letter_def)

lemma length_seed_data: "length seed_data = 66"
  by (simp add: seed_data_def)

lemma file_byte_text: "text_byte (file_byte i)"
proof -
  have "seed_data ! (i mod 64) = take 64 seed_data ! (i mod 64)" by simp
  also have "\<dots> \<in> set (take 64 seed_data)" by (intro nth_mem) (simp add: length_seed_data)
  finally show ?thesis using seed_data_text by (auto simp: file_byte_def text_byte_def)
qed

lemma file_byte_0: "file_byte 0 = 97" "is_letter 97"
  by (simp_all add: file_byte_def seed_data_def is_letter_def)

lemma create_file_contents:
  assumes "\<not> system_result <s 0" "length argv < 2" "file_create_main system_result opened argv fs = Done fs'"
  shows "opened \<and> fs' = fs(''/dev/shm/in_memory.txt'' \<mapsto> map file_byte [0..<10 * 1024 * 1024])"
proof -
  have "(10 :: u32) * 1024 = 10240" "sint (10240 :: u32) = 10240" by simp_all
  then have "nat (sint (default_file_size * 1024) * 1024) = 10 * 1024 * 1024" unfolding default_file_size_def by simp
  then show ?thesis using assms by (auto simp: file_create_main_def mount_shm_def create_file_def put_loop_eq Let_def split: if_splits)
qed

section \<open>The tests on the file that is created\<close>

text \<open>
  C20: The acceptance tests on the file that file_create writes by default.  The program writes that one file and no other;
  it has 10 MB, every byte a letter, a digit or a line end, none a terminator, with a line end at the end of each 4 KB and the
  seed repeated every 64 bytes in between.  When a program maps it, with these contents and this size, the tests with
  chunks of one byte and of 32 KB pass in all modes, while those with chunks of 55 KB and of 1020 KB fail.
\<close>

theorem created_file_verdicts:
  assumes run: "\<not> system_result <s 0" "length argv < 2" "file_create_main system_result opened argv fs = Done fs'"
    and mapd: "map_file F s = (Some (buffer, fdesc, 10 * 1024 * 1024), s\<lparr>os := t0\<rparr>)" "reachable U buffer (10 * 1024 * 1024)"
    and same: "fs' ''/dev/shm/in_memory.txt'' = Some (mem_read buffer (10 * 1024 * 1024) (umem t0))"
    and good: "driver_good C S k t0" "\<not> next_fd t0 <s 0" and card: "enc S = encrypt_byte" "dec S = decrypt_byte"
    and A: "A = driver_sys C k U ja jb mmap munmap"
  shows "(\<exists>bs. fs' = fs(''/dev/shm/in_memory.txt'' \<mapsto> bs) \<and> length bs = 10 * 1024 * 1024 \<and>
      (\<forall>x \<in> set bs. (is_letter x \<or> x \<in> {49..56} \<or> x = 10) \<and> x \<noteq> 0) \<and>
      (\<forall>i < length bs. bs ! i = (if i mod 4096 = 4095 then 10 else seed_data ! (i mod 64)))) \<and>
    (\<forall>p \<in> {MMIO_test3, MMIO_IRQ_test3, DMA_test3, DMA_IRQ_test3, MMIO_test4, MMIO_IRQ_test4}.
      \<exists>s'. p A F junk s = Done (Passed, s')) \<and>
    (\<forall>p \<in> {DMA_test4, DMA_IRQ_test4, MMIO_test5, MMIO_IRQ_test5, DMA_test5, DMA_IRQ_test5}.
      \<exists>s'. p A F junk s = Done (Failed, s'))"
proof -
  let ?n = "10 * 1024 * 1024 :: nat"
  have fs': "fs' = fs(''/dev/shm/in_memory.txt'' \<mapsto> map file_byte [0..<?n])" using create_file_contents [OF run] by simp
  then have bytes: "mem_read buffer ?n (umem t0) = map file_byte [0..<?n]" using same by simp
  have "0 \<notin> set (mem_read buffer ?n (umem t0))" unfolding bytes using file_byte_text text_byte_not_0 by auto
  moreover have "x = y" if "s\<lparr>os := x\<rparr> = s\<lparr>os := y\<rparr>" for x y using arg_cong [OF that, of os] by simp
  ultimately have fm: "file_mapped F U buffer ?n (os s) t0" using mapd
    by (auto simp: file_mapped_def map_file_def Let_def split: prod.splits if_splits)
  have "mem_read buffer 1 (umem t0) = [mem_read buffer ?n (umem t0) ! 0]" by (simp add: mem_read_def)
  then have letter: "97 \<in> set (mem_read buffer 1 (umem t0))" unfolding bytes by (simp add: file_byte_0)
  have small: "\<exists>s'. chunk_test A F junk d i n c s = Done (Passed, s')"
    if "unat n \<le> 32768" "unat c * unat n \<le> ?n" for d i n c
    unfolding A using bench.small_chunks_pass [OF fm good card that] by simp
  have big: "\<exists>s'. chunk_test A F junk d i n c s = Done (Failed, s')"
    if "32768 < unat n" "unat n \<le> ?n" "c \<noteq> 0" for d i n c
    unfolding A using bench.big_chunks_fail [OF fm good card letter file_byte_0(2)] that by simp
  have contents: "\<exists>bs. fs' = fs(''/dev/shm/in_memory.txt'' \<mapsto> bs) \<and> length bs = ?n \<and>
      (\<forall>x \<in> set bs. (is_letter x \<or> x \<in> {49..56} \<or> x = 10) \<and> x \<noteq> 0) \<and>
      (\<forall>i < length bs. bs ! i = (if i mod 4096 = 4095 then 10 else seed_data ! (i mod 64)))"
  proof (intro exI [of _ "map file_byte [0..<?n]"] conjI)
    show "\<forall>x \<in> set (map file_byte [0..<?n]). (is_letter x \<or> x \<in> {49..56} \<or> x = 10) \<and> x \<noteq> 0"
      using file_byte_text text_byte_not_0 unfolding text_byte_def by auto
    show "\<forall>i < length (map file_byte [0..<?n]). map file_byte [0..<?n] ! i = (if i mod 4096 = 4095 then 10 else seed_data ! (i mod 64))"
      by (simp add: file_byte_def del: upt_rec_numeral)
  qed (simp_all add: fs' del: upt_rec_numeral)
  moreover have "\<forall>p \<in> {MMIO_test3, MMIO_IRQ_test3, DMA_test3, DMA_IRQ_test3, MMIO_test4, MMIO_IRQ_test4}.
      \<exists>s'. p A F junk s = Done (Passed, s')" using small by (simp add: programs)
  moreover have "\<forall>p \<in> {DMA_test4, DMA_IRQ_test4, MMIO_test5, MMIO_IRQ_test5, DMA_test5, DMA_IRQ_test5}.
      \<exists>s'. p A F junk s = Done (Failed, s')" using big by (simp add: programs)
  ultimately show ?thesis by (intro conjI)
qed

text \<open>The example system with the file mapped.\<close>

definition file_in_memory :: "(regs \<times> nat) system" where
  "file_in_memory = bench_system\<lparr>umem := \<lambda>x. file_byte (unat (x - 0x100000))\<rparr>"

lemma file_in_memory_good [simp]:
  "driver_good (sim_card encrypt_byte decrypt_byte) (sim_spec encrypt_byte decrypt_byte) ex_kernel file_in_memory"
  "next_fd file_in_memory = 4"
  using bench_system_simps(1) by (simp_all add: file_in_memory_def driver_good_def)

lemma read_file_in_memory:
  assumes "n < 2 ^ 64"
  shows "mem_read 0x100000 n (umem file_in_memory) = map file_byte [0..<n]"
proof -
  have "unat (of_nat i :: u64) = i" if "i < n" for i using assms that by (intro unat_of_nat_u64) simp
  then show ?thesis by (auto simp: mem_read_def file_in_memory_def)
qed

definition big_file :: "('d, 'x) system_scheme fileapi" where
  "big_file = text_file\<lparr>f_size := \<lambda>f t. 10 * 1024 * 1024\<rparr>"

theorem created_file_verdicts_witness:
  "(\<exists>fs' bs. file_create_main 0 True [] (\<lambda>_. None) = Done fs' \<and> fs' ''/dev/shm/in_memory.txt'' = Some bs \<and> 0 \<notin> set bs) \<and>
   (\<exists>s'. DMA_test3 bench_sys big_file 9 \<lparr>map_size = 0, os = file_in_memory\<rparr> = Done (Passed, s')) \<and>
   (\<exists>s'. MMIO_test5 bench_sys big_file 9 \<lparr>map_size = 0, os = file_in_memory\<rparr> = Done (Failed, s'))"
proof -
  have run: "\<not> (0 :: u32) <s 0" "length ([] :: u8 list list) < 2"
    "file_create_main 0 True [] (\<lambda>_. None) = Done ((\<lambda>_. None)(''/dev/shm/in_memory.txt'' \<mapsto> map file_byte [0..<10 * 1024 * 1024]))"
  proof -
    have "(10 :: u32) * 1024 = 10240" "sint (10240 :: u32) = 10240" by simp_all
    then have "nat (sint (default_file_size * 1024) * 1024) = 10 * 1024 * 1024" unfolding default_file_size_def by simp
    then show "file_create_main 0 True [] (\<lambda>_. None) = Done ((\<lambda>_. None)(''/dev/shm/in_memory.txt'' \<mapsto> map file_byte [0..<10 * 1024 * 1024]))"
      by (simp add: file_create_main_def mount_shm_def create_file_def put_loop_eq)
  qed simp_all
  have mapd: "map_file big_file \<lparr>map_size = 0, os = file_in_memory\<rparr> =
      (Some (0x100000, 3, 10 * 1024 * 1024), \<lparr>map_size = 0, os = file_in_memory\<rparr>\<lparr>os := file_in_memory\<rparr>)"
    by (simp add: map_file_def big_file_def text_file_def word_sless_alt)
  have same: "((\<lambda>_. None)(''/dev/shm/in_memory.txt'' \<mapsto> map file_byte [0..<10 * 1024 * 1024])) ''/dev/shm/in_memory.txt'' =
      Some (mem_read 0x100000 (10 * 1024 * 1024) (umem file_in_memory))"
    using read_file_in_memory [of "10 * 1024 * 1024"] by simp
  have fd: "\<not> next_fd file_in_memory <s 0" by (simp add: word_sless_alt)
  note v = created_file_verdicts [where junk = 9, OF run mapd reachable_flat same file_in_memory_good(1) fd sim_spec_cipher bench_sys_def]
  from conjunct1 [OF v] obtain bs where "file_create_main 0 True [] (\<lambda>_. None) = Done ((\<lambda>_. None)(''/dev/shm/in_memory.txt'' \<mapsto> bs))"
    "\<forall>x \<in> set bs. x \<noteq> 0" unfolding run(3) by metis
  then have "\<exists>fs' bs. file_create_main 0 True [] (\<lambda>_. None) = Done fs' \<and> fs' ''/dev/shm/in_memory.txt'' = Some bs \<and> 0 \<notin> set bs"
    by - (intro exI conjI, assumption, rule fun_upd_same, blast)
  moreover have "\<exists>s'. DMA_test3 bench_sys big_file 9 \<lparr>map_size = 0, os = file_in_memory\<rparr> = Done (Passed, s')"
    "\<exists>s'. MMIO_test5 bench_sys big_file 9 \<lparr>map_size = 0, os = file_in_memory\<rparr> = Done (Failed, s')"
    using conjunct2 [OF v] by blast+
  ultimately show ?thesis by blast
qed

end
