(* ===== verification/Addrspace.thy ===== *)
theory Addrspace
  imports Kernel
begin

text \<open>
  What the VMA module uses of a process's address space.  The kernel's memory management is not
  part of the repository: it is a record \<open>mmapi\<close> of functions on an arbitrary state \<open>'m\<close>.  \<open>mm_laws\<close>
  collects the documented behaviour the properties rely on, over the flags at each address and the
  contents \<open>bytes\<close>; \<open>plain_mm\<close> is a concrete address space that satisfies it.
\<close>

section \<open>Areas and the calls on them\<close>

record vma =
  vm_start :: u64
  vm_end :: u64
  vm_flags :: u64
  vm_ops :: ptr
  vm_page_prot :: u64

definition VM_READ :: u64 where "VM_READ = 1"
definition VM_WRITE :: u64 where "VM_WRITE = 2"
definition VM_EXEC :: u64 where "VM_EXEC = 4"
definition VM_SHARED :: u64 where "VM_SHARED = 8"
definition PROT_READ :: u64 where "PROT_READ = 1"
definition PROT_WRITE :: u64 where "PROT_WRITE = 2"
definition PROT_EXEC :: u64 where "PROT_EXEC = 4"
definition MAP_SHARED :: u64 where "MAP_SHARED = 1"
definition MAP_PRIVATE :: u64 where "MAP_PRIVATE = 2"
definition MAP_ANONYMOUS :: u64 where "MAP_ANONYMOUS = 32"

lemmas vm_consts = VM_READ_def VM_WRITE_def VM_EXEC_def VM_SHARED_def PROT_READ_def PROT_WRITE_def
  PROT_EXEC_def MAP_SHARED_def MAP_PRIVATE_def MAP_ANONYMOUS_def

record 'm mmapi =
  mtree_load :: "u64 \<Rightarrow> 'm \<Rightarrow> vma option"                      \<comment> \<open>the area containing an address\<close>
  find_vma :: "u64 \<Rightarrow> 'm \<Rightarrow> vma option"                        \<comment> \<open>the first area ending above it\<close>
  vm_mmap :: "u64 \<Rightarrow> u64 \<Rightarrow> u64 \<Rightarrow> u64 \<Rightarrow> 'm \<Rightarrow> u64 \<times> 'm"       \<comment> \<open>hint, length, protection, flags\<close>
  vm_munmap :: "u64 \<Rightarrow> u64 \<Rightarrow> 'm \<Rightarrow> 'm"
  from_user :: "u64 \<Rightarrow> u64 \<Rightarrow> 'm \<Rightarrow> u64 \<times> u8 list"            \<comment> \<open>bytes not copied, kernel buffer\<close>
  to_user :: "u64 \<Rightarrow> u8 list \<Rightarrow> 'm \<Rightarrow> u64 \<times> 'm"
  alloc_pages :: "u32 \<Rightarrow> 'm \<Rightarrow> ptr \<times> 'm"
  page_to_pfn :: "ptr \<Rightarrow> u64"
  page_address :: "ptr \<Rightarrow> u64"
  k_memcpy :: "u64 \<Rightarrow> u64 \<Rightarrow> u64 \<Rightarrow> 'm \<Rightarrow> 'm option"           \<comment> \<open>a plain copy; \<open>None\<close> when it faults\<close>
  get_pte :: "u64 \<Rightarrow> 'm \<Rightarrow> u64"
  set_pte :: "u64 \<Rightarrow> u64 \<Rightarrow> 'm \<Rightarrow> 'm"
  PAGE_KERNEL :: u64                                           \<comment> \<open>a protection value of the architecture\<close>
  remap_pfn_range :: "vma \<Rightarrow> u64 \<Rightarrow> u64 \<Rightarrow> u64 \<Rightarrow> u64 \<Rightarrow> 'm \<Rightarrow> u32 \<times> 'm"

section \<open>Ranges of addresses\<close>

definition in_range :: "u64 \<Rightarrow> nat \<Rightarrow> u64 \<Rightarrow> bool" where
  "in_range a n x \<longleftrightarrow> unat (x - a) < n"

lemma in_range_offset: "i < 2 ^ 64 \<Longrightarrow> in_range a n (a + of_nat i) \<longleftrightarrow> i < n"
  by (simp add: in_range_def unat_of_nat_u64)

lemma in_range_cases: "in_range a n x \<Longrightarrow> \<exists>i<n. i < 2 ^ 64 \<and> x = a + of_nat i"
  using unat_u64 [of "x - a"] by (intro exI [of _ "unat (x - a)"]) (simp add: in_range_def)

lemma in_range_mono: "in_range a n x \<Longrightarrow> n \<le> n' \<Longrightarrow> in_range a n' x"
  by (simp add: in_range_def)

lemma in_range_0 [simp]: "\<not> in_range a 0 x"
  by (simp add: in_range_def)

lemma in_range_split:
  assumes "n + k \<le> 2 ^ 64"
  shows "in_range a (n + k) x \<longleftrightarrow> in_range a n x \<or> in_range (a + of_nat n) k x"
proof -
  define d where "d = x - a"
  have d: "x - (a + of_nat n) = d - of_nat n" by (simp add: d_def)
  have "unat d < n + k \<longleftrightarrow> unat d < n \<or> unat (d - of_nat n) < k"
  proof (cases "unat d < n")
    case True
    then show ?thesis by simp
  next
    case False
    then have "n < 2 ^ 64" using unat_u64 [of d] by simp
    then have "of_nat n \<le> d" using False by (simp add: word_le_nat_alt unat_of_nat_u64)
    then have "unat (d - of_nat n) = unat d - n" using \<open>n < 2 ^ 64\<close> by (simp add: unat_sub unat_of_nat_u64)
    then show ?thesis using False by auto
  qed
  then show ?thesis by (simp add: in_range_def d d_def [symmetric])
qed

section \<open>Documented behaviour\<close>

definition flags_at :: "'m mmapi \<Rightarrow> 'm \<Rightarrow> u64 \<Rightarrow> u64 option" where
  "flags_at K m x = map_option vm_flags (mtree_load K x m)"

definition permits :: "u64 \<Rightarrow> u64 option \<Rightarrow> bool" where
  "permits b f \<longleftrightarrow> (case f of None \<Rightarrow> False | Some w \<Rightarrow> w AND b \<noteq> 0)"

text \<open>Copies succeed where the area permits the access, and fail when its first byte does not.\<close>

definition copies_ok :: "'m mmapi \<Rightarrow> ('m \<Rightarrow> mem) \<Rightarrow> bool" where
  "copies_ok K bytes \<longleftrightarrow>
    (\<forall>a n m. (\<forall>x. in_range a (unat n) x \<longrightarrow> permits VM_READ (flags_at K m x)) \<longrightarrow>
       from_user K a n m = (0, mem_read a (unat n) (bytes m))) \<and>
    (\<forall>a n m. n \<noteq> 0 \<and> flags_at K m a = None \<longrightarrow> fst (from_user K a n m) \<noteq> 0) \<and>
    (\<forall>a bs m. (\<forall>x. in_range a (length bs) x \<longrightarrow> permits VM_WRITE (flags_at K m x)) \<longrightarrow>
       fst (to_user K a bs m) = 0 \<and> bytes (snd (to_user K a bs m)) = mem_write a bs (bytes m)) \<and>
    (\<forall>a bs m. bs \<noteq> [] \<and> \<not> permits VM_WRITE (flags_at K m a) \<longrightarrow>
       fst (to_user K a bs m) \<noteq> 0 \<and> bytes (snd (to_user K a bs m)) = bytes m) \<and>
    (\<forall>a bs m x. mtree_load K x (snd (to_user K a bs m)) = mtree_load K x m)"

text \<open>The flags of a mapping: protection and sharing.\<close>

definition area_flags :: "u64 \<Rightarrow> u64 \<Rightarrow> u64" where
  "area_flags prot flags = (prot AND 7) OR (if flags AND MAP_SHARED \<noteq> 0 then VM_SHARED else 0)"

text \<open>A new mapping is placed on free pages of the user's half of the address space, wherever the kernel decides,
  and a refused one changes nothing; removing a mapping frees its addresses; neither touches any other address.\<close>

definition maps_ok :: "'m mmapi \<Rightarrow> ('m \<Rightarrow> mem) \<Rightarrow> bool" where
  "maps_ok K bytes \<longleftrightarrow>
    (\<forall>a n p f m r m'. 4096 dvd unat n \<and> vm_mmap K a n p f m = (r, m') \<longrightarrow>
       (if IS_ERR r then m' = m
        else 4096 dvd unat r \<and> unat r + unat n \<le> 2 ^ 47 \<and> (\<forall>x. if in_range r (unat n) x
                  then flags_at K m x = None \<and> (\<exists>w. flags_at K m' x = Some w \<and> w AND 15 = area_flags p f)
                  else flags_at K m' x = flags_at K m x \<and> bytes m' x = bytes m x))) \<and>
    (\<forall>a n m x. 4096 dvd unat a \<and> 4096 dvd unat n \<longrightarrow>
       (if in_range a (unat n) x then flags_at K (vm_munmap K a n m) x = None
        else flags_at K (vm_munmap K a n m) x = flags_at K m x \<and> bytes (vm_munmap K a n m) x = bytes m x))"

text \<open>The two lookups agree on addresses inside an area.\<close>

definition finds_ok :: "'m mmapi \<Rightarrow> bool" where
  "finds_ok K \<longleftrightarrow>
    (\<forall>a m v. mtree_load K a m = Some v \<longrightarrow> find_vma K a m = Some v \<and> vm_start v \<le> a \<and> a < vm_end v)"

definition mm_laws :: "'m mmapi \<Rightarrow> ('m \<Rightarrow> mem) \<Rightarrow> bool" where
  "mm_laws K bytes \<longleftrightarrow> copies_ok K bytes \<and> maps_ok K bytes \<and> finds_ok K"

lemma flags_at_None [simp]: "flags_at K m x = None \<longleftrightarrow> mtree_load K x m = None"
  by (simp add: flags_at_def)

lemma from_user_ok:
  "mm_laws K bytes \<Longrightarrow> (\<And>x. in_range a (unat n) x \<Longrightarrow> permits VM_READ (flags_at K m x)) \<Longrightarrow>
   from_user K a n m = (0, mem_read a (unat n) (bytes m))"
  by (simp add: mm_laws_def copies_ok_def)

lemma to_user_areas: "mm_laws K bytes \<Longrightarrow> mtree_load K x (snd (to_user K a bs m)) = mtree_load K x m"
  by (simp add: mm_laws_def copies_ok_def)

lemma to_user_flags: "mm_laws K bytes \<Longrightarrow> flags_at K (snd (to_user K a bs m)) = flags_at K m"
  by (simp add: flags_at_def to_user_areas fun_eq_iff)

lemma to_user_ok:
  assumes "mm_laws K bytes" "\<And>x. in_range a (length bs) x \<Longrightarrow> permits VM_WRITE (flags_at K m x)"
  shows "\<exists>m'. to_user K a bs m = (0, m') \<and> bytes m' = mem_write a bs (bytes m) \<and> flags_at K m' = flags_at K m"
  using assms by (intro exI [of _ "snd (to_user K a bs m)"] conjI)
    (simp_all add: to_user_flags, simp_all add: mm_laws_def copies_ok_def prod_eq_iff)

lemma to_user_denied:
  assumes "mm_laws K bytes" "bs \<noteq> []" "\<not> permits VM_WRITE (flags_at K m a)"
  shows "\<exists>r m'. to_user K a bs m = (r, m') \<and> r \<noteq> 0 \<and> bytes m' = bytes m \<and> flags_at K m' = flags_at K m"
  using assms by (intro exI [of _ "fst (to_user K a bs m)"] exI [of _ "snd (to_user K a bs m)"])
    (simp add: to_user_flags, simp add: mm_laws_def copies_ok_def)

lemma vm_mmap_ok:
  assumes "mm_laws K bytes" "4096 dvd unat n" "vm_mmap K a n p f m = (r, m')" "\<not> IS_ERR r"
  shows "in_range r (unat n) x \<Longrightarrow> flags_at K m x = None"
    and "in_range r (unat n) x \<Longrightarrow> \<exists>w. flags_at K m' x = Some w \<and> w AND 15 = area_flags p f"
    and "\<not> in_range r (unat n) x \<Longrightarrow> flags_at K m' x = flags_at K m x"
    and "\<not> in_range r (unat n) x \<Longrightarrow> bytes m' x = bytes m x"
    and "4096 dvd unat r" and "unat r + unat n \<le> 2 ^ 47"
proof -
  from assms have *: "4096 dvd unat r \<and> unat r + unat n \<le> 2 ^ 47 \<and> (\<forall>x. if in_range r (unat n) x
      then flags_at K m x = None \<and> (\<exists>w. flags_at K m' x = Some w \<and> w AND 15 = area_flags p f)
      else flags_at K m' x = flags_at K m x \<and> bytes m' x = bytes m x)"
    unfolding mm_laws_def maps_ok_def by presburger
  then show "4096 dvd unat r" "unat r + unat n \<le> 2 ^ 47" by blast+
  show "in_range r (unat n) x \<Longrightarrow> flags_at K m x = None"
    "in_range r (unat n) x \<Longrightarrow> \<exists>w. flags_at K m' x = Some w \<and> w AND 15 = area_flags p f"
    "\<not> in_range r (unat n) x \<Longrightarrow> flags_at K m' x = flags_at K m x"
    "\<not> in_range r (unat n) x \<Longrightarrow> bytes m' x = bytes m x"
    using * by simp_all
qed

lemma vm_mmap_refused:
  "mm_laws K bytes \<Longrightarrow> 4096 dvd unat n \<Longrightarrow> vm_mmap K a n p f m = (r, m') \<Longrightarrow> IS_ERR r \<Longrightarrow> m' = m"
  unfolding mm_laws_def maps_ok_def by presburger

lemma vm_munmap_ok:
  assumes "mm_laws K bytes" "4096 dvd unat a" "4096 dvd unat n"
  shows "in_range a (unat n) x \<Longrightarrow> flags_at K (vm_munmap K a n m) x = None"
    and "\<not> in_range a (unat n) x \<Longrightarrow> flags_at K (vm_munmap K a n m) x = flags_at K m x"
    and "\<not> in_range a (unat n) x \<Longrightarrow> bytes (vm_munmap K a n m) x = bytes m x"
proof -
  from assms have *: "if in_range a (unat n) x then flags_at K (vm_munmap K a n m) x = None
      else flags_at K (vm_munmap K a n m) x = flags_at K m x \<and> bytes (vm_munmap K a n m) x = bytes m x"
    unfolding mm_laws_def maps_ok_def by presburger
  show "in_range a (unat n) x \<Longrightarrow> flags_at K (vm_munmap K a n m) x = None"
    "\<not> in_range a (unat n) x \<Longrightarrow> flags_at K (vm_munmap K a n m) x = flags_at K m x"
    "\<not> in_range a (unat n) x \<Longrightarrow> bytes (vm_munmap K a n m) x = bytes m x"
    using * by simp_all
qed

section \<open>A concrete address space\<close>

text \<open>The area behind every address and the contents.  A mapping is placed at its hint, or else at the first of five
  addresses where it fits, or refused.\<close>

record space =
  area :: "u64 \<Rightarrow> vma option"
  contents :: mem

definition space_load :: "u64 \<Rightarrow> space \<Rightarrow> vma option" where
  "space_load x m =
     (case area m x of Some v \<Rightarrow> if vm_start v \<le> x \<and> x < vm_end v then Some v else None | None \<Rightarrow> None)"

definition all_range :: "(u64 \<Rightarrow> bool) \<Rightarrow> u64 \<Rightarrow> nat \<Rightarrow> bool" where
  "all_range P a n \<longleftrightarrow> list_all (\<lambda>i. P (a + of_nat i)) [0..<n]"

definition fits :: "space \<Rightarrow> u64 \<Rightarrow> u64 \<Rightarrow> bool" where
  "fits m n a \<longleftrightarrow> 4096 dvd unat a \<and> 0x10000 \<le> a \<and> 0 < n \<and> unat a + unat n \<le> 2 ^ 47 \<and>
     all_range (\<lambda>x. space_load x m = None) a (unat n)"

definition plain_mmap :: "u64 \<Rightarrow> u64 \<Rightarrow> u64 \<Rightarrow> u64 \<Rightarrow> space \<Rightarrow> u64 \<times> space" where
  "plain_mmap a n p f m =
     (case find (fits m n) [a, 0x7f0000000000, 0x7f0080000000, 0x7f0100000000, 0x7f0180000000] of
        None \<Rightarrow> (- ENOMEM, m)
      | Some a \<Rightarrow> (a, m\<lparr>area := (\<lambda>x. if in_range a (unat n) x
              then Some \<lparr>vm_start = a, vm_end = a + n, vm_flags = area_flags p f, vm_ops = 0, vm_page_prot = p\<rparr>
              else area m x)\<rparr>))"

definition plain_mm :: "space mmapi" where
  "plain_mm =
     \<lparr>mtree_load = space_load,
      find_vma = space_load,
      vm_mmap = plain_mmap,
      vm_munmap = (\<lambda>a n m. m\<lparr>area := (\<lambda>x. if in_range a (unat n) x then None else area m x)\<rparr>),
      from_user = (\<lambda>a n m. if all_range (\<lambda>x. space_load x m \<noteq> None) a (unat n)
        then (0, mem_read a (unat n) (contents m)) else (n, [])),
      to_user = (\<lambda>a bs m. if all_range (\<lambda>x. permits VM_WRITE (map_option vm_flags (space_load x m))) a (length bs)
        then (0, m\<lparr>contents := mem_write a bs (contents m)\<rparr>) else (1, m)),
      alloc_pages = (\<lambda>n m. (0xFFFFEA0000000000, m)), page_to_pfn = (\<lambda>p. 0x1000),
      page_address = (\<lambda>p. 0xFFFF888000000000),
      k_memcpy = (\<lambda>d a n m. if all_range (\<lambda>x. space_load x m \<noteq> None) a (unat n)
        then Some (m\<lparr>contents := mem_write d (mem_read a (unat n) (contents m)) (contents m)\<rparr>) else None),
      get_pte = (\<lambda>a m. 0), set_pte = (\<lambda>a e m. m), PAGE_KERNEL = 0x8000000000000163,
      remap_pfn_range = (\<lambda>v a p n q m. (- EINVAL, m))\<rparr>"

lemma all_range_iff: "n \<le> 2 ^ 64 \<Longrightarrow> all_range P a n \<longleftrightarrow> (\<forall>x. in_range a n x \<longrightarrow> P x)"
proof
  assume "n \<le> 2 ^ 64" "all_range P a n"
  then show "\<forall>x. in_range a n x \<longrightarrow> P x" using in_range_cases by (fastforce simp: all_range_def list_all_iff)
next
  assume "n \<le> 2 ^ 64" "\<forall>x. in_range a n x \<longrightarrow> P x"
  then show "all_range P a n" by (auto simp: all_range_def list_all_iff in_range_offset)
qed

lemma all_range_word: "all_range P a (unat (n :: u64)) \<longleftrightarrow> (\<forall>x. in_range a (unat n) x \<longrightarrow> P x)"
  using unat_u64 [of n] by (intro all_range_iff) simp

lemma all_range_first: "all_range P a n \<Longrightarrow> 0 < n \<Longrightarrow> P a"
  by (auto simp: all_range_def list_all_iff dest: bspec [of _ _ 0])

lemma in_range_bounds:
  assumes "in_range a (unat n) x" "unat a + unat n \<le> 2 ^ 47"
  shows "a \<le> x \<and> x < a + (n :: u64)"
proof -
  obtain i where i: "i < unat n" "x = a + of_nat i" using in_range_cases [OF assms(1)] by blast
  have "unat x = unat a + i" using i assms(2) unat_of_nat_u64 [of i] unat_word_ariths(1) [of a "of_nat i"] by simp
  moreover have "unat (a + n) = unat a + unat n" using assms(2) unat_word_ariths(1) [of a n] by simp
  ultimately show ?thesis using i(1) by (simp add: word_le_nat_alt word_less_nat_alt)
qed

lemma all_rangeI: "(\<And>x. in_range a n x \<Longrightarrow> P x) \<Longrightarrow> all_range P a n"
proof -
  assume *: "\<And>x. in_range a n x \<Longrightarrow> P x"
  have "P (a + of_nat i)" if "i < n" for i
  proof -
    have "unat (of_nat i :: u64) \<le> i" by (simp add: unat_of_nat take_bit_eq_mod)
    with that * show ?thesis by (simp add: in_range_def)
  qed
  then show ?thesis by (simp add: all_range_def list_all_iff)
qed

lemma flags_at_plain [simp]: "flags_at plain_mm m x = map_option vm_flags (space_load x m)"
  by (simp add: flags_at_def plain_mm_def)

lemma plain_copies: "copies_ok plain_mm contents"
proof -
  have sel: "from_user plain_mm a n m = (if all_range (\<lambda>x. space_load x m \<noteq> None) a (unat n)
      then (0, mem_read a (unat n) (contents m)) else (n, []))"
    "to_user plain_mm a bs m = (if all_range (\<lambda>x. permits VM_WRITE (map_option vm_flags (space_load x m))) a (length bs)
      then (0, m\<lparr>contents := mem_write a bs (contents m)\<rparr>) else (1, m))" for a n m bs
    by (simp_all add: plain_mm_def)
  have ld: "mtree_load plain_mm = space_load" by (simp add: plain_mm_def)
  have same: "space_load x (m\<lparr>contents := c\<rparr>) = space_load x m" for x m c by (simp add: space_load_def)
  have 1: "all_range (\<lambda>x. space_load x m \<noteq> None) a n"
    if "\<forall>x. in_range a n x \<longrightarrow> permits VM_READ (map_option vm_flags (space_load x m))" for a n m
    using that by (intro all_rangeI) (fastforce simp: permits_def split: option.splits)
  have 2: "\<not> all_range (\<lambda>x. space_load x m \<noteq> None) a (unat n)" if "n \<noteq> 0" "space_load a m = None" for a and n :: u64 and m
    using that by (auto dest: all_range_first simp: unat_gt_0)
  have 3: "all_range (\<lambda>x. permits VM_WRITE (map_option vm_flags (space_load x m))) a n"
    if "\<forall>x. in_range a n x \<longrightarrow> permits VM_WRITE (map_option vm_flags (space_load x m))" for a n m
    using that by (intro all_rangeI) blast
  have 4: "\<not> all_range (\<lambda>x. permits VM_WRITE (map_option vm_flags (space_load x m))) a (length bs)"
    if "bs \<noteq> []" "\<not> permits VM_WRITE (map_option vm_flags (space_load a m))" for a bs m
    using that by (auto dest: all_range_first)
  show ?thesis
    unfolding copies_ok_def sel ld flags_at_plain using 1 2 3 4 by (simp add: same) blast
qed

lemma plain_maps: "maps_ok plain_mm contents"
proof -
  have map: "if IS_ERR r then m' = m
      else 4096 dvd unat r \<and> unat r + unat n \<le> 2 ^ 47 \<and> (\<forall>x. if in_range r (unat n) x
          then space_load x m = None \<and> (\<exists>w. map_option vm_flags (space_load x m') = Some w \<and> w AND 15 = area_flags p f)
          else space_load x m' = space_load x m \<and> contents m' x = contents m x)"
    if eq: "plain_mmap a n p f m = (r, m')" for a n p f m r m'
  proof (cases "find (fits m n) [a, 0x7f0000000000, 0x7f0080000000, 0x7f0100000000, 0x7f0180000000]")
    case None
    moreover have "IS_ERR (- ENOMEM)" by (simp add: IS_ERR_def ENOMEM_def word_le_nat_alt)
    ultimately show ?thesis using eq by (auto simp: plain_mmap_def)
  next
    case (Some c)
    then have fit: "fits m n c" unfolding find_Some_iff by blast
    have r: "r = c" "m' = snd (plain_mmap a n p f m)" using eq Some by (auto simp: plain_mmap_def)
    have fl: "area_flags p f AND 15 = area_flags p f"
      by (simp add: area_flags_def VM_SHARED_def bit.conj_disj_distrib2 and.assoc)
    have ran: "c \<le> x \<and> x < c + n" if "in_range c (unat n) x" for x using in_range_bounds [OF that] fit by (simp add: fits_def)
    have "m' = m\<lparr>area := (\<lambda>x. if in_range c (unat n) x
        then Some \<lparr>vm_start = c, vm_end = c + n, vm_flags = area_flags p f, vm_ops = 0, vm_page_prot = p\<rparr> else area m x)\<rparr>"
      unfolding r(2) plain_mmap_def Some by simp
    moreover have "\<not> IS_ERR c" using fit by (simp add: fits_def IS_ERR_def word_le_nat_alt)
    ultimately show ?thesis using fit fl ran unfolding fits_def all_range_word r(1)
      by (auto simp: space_load_def)
  qed
  have unmap: "if in_range a (unat n) x then space_load x (vm_munmap plain_mm a n m) = None
      else space_load x (vm_munmap plain_mm a n m) = space_load x m \<and> contents (vm_munmap plain_mm a n m) x = contents m x"
    for a n m x
    by (simp add: plain_mm_def space_load_def)
  have sel: "vm_mmap plain_mm = plain_mmap" by (simp add: plain_mm_def)
  show ?thesis unfolding maps_ok_def sel flags_at_plain using map unmap
    by (intro conjI allI impI) (smt (verit) map_option_is_None)+
qed

lemma plain_mm_laws: "mm_laws plain_mm contents"
  using plain_copies plain_maps
  by (auto simp: mm_laws_def finds_ok_def plain_mm_def space_load_def split: option.splits if_splits)

end
