(* ===== verification/Btplus.thy ===== *)
theory Btplus
  imports Addrspace
begin

text \<open>
  The VMA module, \<^verbatim>\<open>Assignment_2/btplus.c\<close>: a character device whose \<^verbatim>\<open>ioctl\<close> requests move an area
  of the calling process to a given address or to a hole, promote runs of 512 pages to a block of
  2 MB, and compact an area.  The address space of the caller is the field \<open>mm\<close> of the state, on
  which only the parameter \<open>mmapi\<close> acts.  The theory holds the whole model, and the facts on loading,
  compaction and promotion; the moves are treated in the next theory.
\<close>

section \<open>Data\<close>

record 'm bt =
  chrdev +
  cs614_kobject :: ptr
  mm :: 'm

record address =
  from_addr :: u64
  to_addr :: u64

record input =
  in_addr :: u64
  in_length :: u32
  in_buff :: ptr

definition DEVNAME :: string where "DEVNAME = ''cs614''"
definition MAJOR_NUM :: u32 where "MAJOR_NUM = 100"
definition IOCTL_MVE_VMA_TO :: u32 where "IOCTL_MVE_VMA_TO = IOR MAJOR_NUM 0 8"
definition IOCTL_MVE_VMA :: u32 where "IOCTL_MVE_VMA = IOWR MAJOR_NUM 1 8"
definition IOCTL_PROMOTE_VMA :: u32 where "IOCTL_PROMOTE_VMA = IOR MAJOR_NUM 2 8"
definition IOCTL_COMPACT_VMA :: u32 where "IOCTL_COMPACT_VMA = IOWR MAJOR_NUM 3 8"

lemmas ioctl_defs = IOCTL_MVE_VMA_TO_def IOCTL_MVE_VMA_def IOCTL_PROMOTE_VMA_def IOCTL_COMPACT_VMA_def
  MAJOR_NUM_def ioc_defs

text \<open>Little-endian images of the two structures, as they lie in the caller's memory.\<close>

definition put64 :: "u64 \<Rightarrow> u8 list" where
  "put64 w = map (\<lambda>i. ucast (drop_bit (8 * i) w)) [0..<8]"

definition get64 :: "u8 list \<Rightarrow> u64" where
  "get64 bs = foldr (\<lambda>b w. ucast b OR push_bit 8 w) (take 8 bs) 0"

definition put_address :: "address \<Rightarrow> u8 list" where
  "put_address a = put64 (from_addr a) @ put64 (to_addr a)"

definition get_address :: "u8 list \<Rightarrow> address" where
  "get_address bs = \<lparr>from_addr = get64 bs, to_addr = get64 (drop 8 bs)\<rparr>"

definition get_input :: "u8 list \<Rightarrow> input" where
  "get_input bs = \<lparr>in_addr = get64 bs, in_length = ucast (get64 (drop 8 bs)), in_buff = get64 (drop 16 bs)\<rparr>"

section \<open>Opening, reading, writing\<close>

definition device_open :: "'m bt \<Rightarrow> u32 \<times> 'm bt" where
  "device_open s =
     (let s = s\<lparr>device_opened := device_opened s + 1\<rparr>
      in (0, kcalled Try_module_get s))"

definition device_release :: "'m bt \<Rightarrow> u32 \<times> 'm bt" where
  "device_release s =
     (let s = s\<lparr>device_opened := device_opened s - 1\<rparr>
      in (0, kcalled Module_put s))"

definition device_read :: "u64 \<Rightarrow> u64 \<Rightarrow> 'm bt \<Rightarrow> ssize_t \<times> 'm bt" where
  "device_read buffer n s = (0, s)"

definition device_write :: "u64 \<Rightarrow> u64 \<Rightarrow> 'm bt \<Rightarrow> ssize_t \<times> 'm bt" where
  "device_write buffer n s = (8, s)"

section \<open>Moving an area\<close>

text \<open>The protection and the flags of the new mapping, from the old area.\<close>

definition move_prot :: "vma \<Rightarrow> u64" where
  "move_prot v =
     (let prot = 0;
          prot = (if vm_flags v AND VM_READ \<noteq> 0 then prot OR PROT_READ else prot);
          prot = (if vm_flags v AND VM_WRITE \<noteq> 0 then prot OR PROT_WRITE else prot)
      in if vm_flags v AND VM_EXEC \<noteq> 0 then prot OR PROT_EXEC else prot)"

definition move_flags :: "vma \<Rightarrow> u64" where
  "move_flags v =
     (let flags = (if vm_ops v = 0 then MAP_ANONYMOUS else 0)
      in if vm_flags v AND VM_SHARED \<noteq> 0 then flags OR MAP_SHARED else flags OR MAP_PRIVATE)"

text \<open>\<^verbatim>\<open>vma_pages(vma) * PAGE_SIZE\<close> less the part below the given address.\<close>

definition move_size :: "vma \<Rightarrow> u64 \<Rightarrow> u64" where
  "move_size v a = drop_bit 12 (vm_end v - vm_start v) * 4096 - (a - vm_start v)"

text \<open>The copy loop; the flag tells whether it reached its end.  A missing \<open>buff1\<close> is a null dereference.\<close>

function copy_pages :: "'m mmapi \<Rightarrow> ptr \<Rightarrow> u32 \<Rightarrow> u64 \<Rightarrow> u64 \<Rightarrow> 'm \<Rightarrow> (bool \<times> 'm) outcome" where
  "copy_pages K buff1 iterations vma_addr to m =
     (if iterations = 0 then Done (True, m)
      else if buff1 = 0 then Oops
      else
        (let (r, page) = from_user K vma_addr 4096 m
         in if r \<noteq> 0 then Done (False, m)
            else
              (let (r, m) = to_user K to page m
               in if r \<noteq> 0 then Done (False, m)
                  else copy_pages K buff1 (iterations - 1) (vma_addr + 4096) (to + 4096) m)))"
  by pat_completeness auto
termination
  by (relation "measure (\<lambda>(K, b, n, f, t, m). unat n)") (auto simp: unat_minus_one unat_gt_0)

declare copy_pages.simps [simp del]

text \<open>\<^verbatim>\<open>IOCTL_MVE_VMA_TO\<close>; \<open>- 1\<close> on a refusal, \<open>ret\<close> (0) when a copy faults.\<close>

definition move_vma_to :: "kapi \<Rightarrow> 'm mmapi \<Rightarrow> ptr \<Rightarrow> u64 \<Rightarrow> 'm bt \<Rightarrow> (u64 \<times> 'm bt) outcome" where
  "move_vma_to k K buff1 ioctl_param s =
     (let (b, s) = kalloc k 16 s
      in if b = 0 then Oops
         else
           (let (r, bs) = from_user K ioctl_param 16 (mm s)
            in if r \<noteq> 0 then Done (0, s)
               else
                 (let vma_addr = from_addr (get_address bs);
                      to = to_addr (get_address bs)
                  in if mtree_load K vma_addr (mm s) = None then Done (- 1, s)
                     else if mtree_load K to (mm s) \<noteq> None then Done (- 1, s)
                     else
                       (case find_vma K vma_addr (mm s) of
                          None \<Rightarrow> Done (- 1, s)
                        | Some vma \<Rightarrow>
                            if vm_start vma > vma_addr then Done (- 1, s)
                            else
                              (let sz = move_size vma vma_addr;
                                   (ptr1, m) = vm_mmap K to sz (move_prot vma) (move_flags vma) (mm s)
                               in if IS_ERR ptr1 then Done (- 1, s\<lparr>mm := m\<rparr>)
                                  else obind (copy_pages K buff1 (ucast (sz div 4096)) vma_addr to m) (\<lambda>(ok, m).
                                    if \<not> ok then Done (0, s\<lparr>mm := m\<rparr>)
                                    else
                                      (let m = vm_munmap K vma_addr sz m
                                       in Done (0, kcalled (Kfree b) (s\<lparr>mm := m\<rparr>)))))))))"

lemma page_step:
  fixes a :: u64
  assumes "a \<le> 0x7fffffffffff"
  shows "unat a < 2 ^ 47" "unat (a + 4096) = unat a + 4096" "2 ^ 47 - unat (a + 4096) < 2 ^ 47 - unat a"
proof -
  show 1: "unat a < 2 ^ 47" using assms by (simp add: word_le_nat_alt)
  then show 2: "unat (a + 4096) = unat a + 4096" using unat_word_ariths(1) [of a 4096] by simp
  show "2 ^ 47 - unat (a + 4096) < 2 ^ 47 - unat a" using 1 unfolding 2 by simp
qed

lemma obind_cong [fundef_cong]:
  "x = y \<Longrightarrow> (\<And>z. y = Done z \<Longrightarrow> f z = g z) \<Longrightarrow> obind x f = obind y g"
  by (cases y) simp_all

text \<open>The search for a hole: counts free pages from \<open>to\<close> upwards until \<open>need\<close> of them are in a row.\<close>

function find_hole :: "'m mmapi \<Rightarrow> 'm \<Rightarrow> u64 \<Rightarrow> u64 \<Rightarrow> u64 \<Rightarrow> u64 \<times> u64" where
  "find_hole K m need j to =
     (if to \<le> 0x7fffffffffff then
        (if mtree_load K to m = None then
           (if j + 1 = need then (j + 1, to) else find_hole K m need (j + 1) (to + 4096))
         else find_hole K m need 0 (to + 4096))
      else (j, to))"
  by pat_completeness auto
termination
  by (relation "measure (\<lambda>(K, m, need, j, to). 2 ^ 47 - unat to)") (use page_step in auto)

declare find_hole.simps [simp del]

text \<open>\<^verbatim>\<open>IOCTL_MVE_VMA\<close>.\<close>

definition move_vma :: "kapi \<Rightarrow> 'm mmapi \<Rightarrow> ptr \<Rightarrow> u64 \<Rightarrow> 'm bt \<Rightarrow> (u64 \<times> 'm bt) outcome" where
  "move_vma k K buff1 ioctl_param s =
     (let (b, s) = kalloc k 16 s
      in if b = 0 then Oops
         else
           (let (r, bs) = from_user K ioctl_param 16 (mm s)
            in if r \<noteq> 0 then Done (0, s)
               else
                 (let vma_addr = from_addr (get_address bs)
                  in if mtree_load K vma_addr (mm s) = None then Done (- 1, s)
                     else
                       (case find_vma K vma_addr (mm s) of
                          None \<Rightarrow> Done (- 1, s)
                        | Some vma \<Rightarrow>
                            if vm_start vma > vma_addr then Done (- 1, s)
                            else
                              (let sz = move_size vma vma_addr;
                                   (j, to) = find_hole K (mm s) (sz div 4096 + 1) 0 (vm_end vma)
                               in if j \<noteq> sz div 4096 + 1 then Done (- 1, s)
                                  else
                                    (let to = to - sz
                                     in if mtree_load K to (mm s) \<noteq> None then Done (- 1, s)
                                        else
                                          (let (ptr1, m) = vm_mmap K to sz (move_prot vma) (move_flags vma) (mm s)
                                           in if IS_ERR ptr1 then Done (- 1, s\<lparr>mm := m\<rparr>)
                                              else obind (copy_pages K buff1 (ucast (sz div 4096)) vma_addr to m) (\<lambda>(ok, m).
                                                if \<not> ok then Done (0, s\<lparr>mm := m\<rparr>)
                                                else
                                                  (let m = vm_munmap K vma_addr sz m;
                                                       (r, m) = to_user K ioctl_param (put_address \<lparr>from_addr = vma_addr, to_addr = to\<rparr>) m
                                                   in if r \<noteq> 0 then Done (- 1, s\<lparr>mm := m\<rparr>)
                                                      else Done (0, kcalled (Kfree b) (s\<lparr>mm := m\<rparr>)))))))))))"

section \<open>Promotion\<close>

text \<open>The loop over \<open>n\<close> pages that hands the page table entries of the new block to the old addresses.\<close>

fun move_ptes :: "'m mmapi \<Rightarrow> nat \<Rightarrow> u64 \<Rightarrow> u64 \<Rightarrow> 'm \<Rightarrow> 'm" where
  "move_ptes K 0 virt_addr start_addr m = m"
| "move_ptes K (Suc n) virt_addr start_addr m =
     (let entry = get_pte K virt_addr m;
          m = set_pte K virt_addr 0 m;
          m = set_pte K start_addr entry m
      in move_ptes K n (virt_addr + 4096) (start_addr + 4096) m)"

text \<open>What happens when the page at \<open>i\<close> completes a run of 512; the flag tells that the remapping failed.\<close>

definition promote_block :: "'m mmapi \<Rightarrow> u64 \<Rightarrow> 'm \<Rightarrow> (bool \<times> 'm) outcome" where
  "promote_block K i m =
     (let start_addr = i - 2 * 1024 * 1024;
          (page, m) = alloc_pages K 9 m
      in if page = 0 then Oops
         else
           (let pfn = page_to_pfn K page;
                virt_addr = page_address K page
            in case k_memcpy K virt_addr start_addr (2 * 1024 * 1024) m of
                 None \<Rightarrow> Oops
               | Some m \<Rightarrow>
                   (let m = move_ptes K 512 virt_addr start_addr m;
                        m = vm_munmap K virt_addr (2 * 1024 * 1024) m
                    in case find_vma K start_addr m of
                         None \<Rightarrow> Oops
                       | Some vma \<Rightarrow>
                           (let (r, m) = remap_pfn_range K vma (vm_start vma) pfn (2 * 1024 * 1024) (vm_page_prot vma) m
                            in Done (r \<noteq> 0, m)))))"

function promote_loop :: "'m mmapi \<Rightarrow> u64 \<Rightarrow> u64 \<Rightarrow> 'm \<Rightarrow> (bool \<times> 'm) outcome" where
  "promote_loop K i j m =
     (if i \<le> 0x7fffffffffff then
        (if mtree_load K i m \<noteq> None then
           (if j + 1 = 512 then
              obind (promote_block K i m) (\<lambda>(bad, m). if bad then Done (True, m) else promote_loop K (i + 4096) 0 m)
            else promote_loop K (i + 4096) (j + 1) m)
         else promote_loop K (i + 4096) 0 m)
      else Done (False, m))"
  by pat_completeness auto
termination
  by (relation "measure (\<lambda>(K, i, j, m). 2 ^ 47 - unat i)") (use page_step in auto)

declare promote_loop.simps [simp del]

definition promote_vma :: "'m mmapi \<Rightarrow> 'm bt \<Rightarrow> (u64 \<times> 'm bt) outcome" where
  "promote_vma K s =
     obind (promote_loop K 0 0 (mm s)) (\<lambda>(bad, m). Done (if bad then - EAGAIN else 0, s\<lparr>mm := m\<rparr>))"

section \<open>Compaction\<close>

text \<open>The address of the table entry for a page of the area: \<^verbatim>\<open>buff + index\<close>, with a 32-bit \<^verbatim>\<open>index\<close>.\<close>

definition entry_addr :: "ptr \<Rightarrow> u64 \<Rightarrow> u64 \<Rightarrow> u64" where
  "entry_addr buff vma_addr a = buff + 16 * ucast (ucast (drop_bit 12 (a - vma_addr)) :: u32)"

text \<open>The first inner loop: upwards to the first free page; the flag is false when a table write faulted.\<close>

partial_function (option) compact_up ::
  "'m mmapi \<Rightarrow> u64 \<Rightarrow> ptr \<Rightarrow> u64 \<Rightarrow> u64 \<Rightarrow> u64 \<Rightarrow> address \<Rightarrow> 'm \<Rightarrow> (bool \<times> u64 \<times> u64 \<times> address \<times> 'm) option" where
  "compact_up K vma_addr buff i j to temp m =
     (if i < j then
        (if mtree_load K i m = None then Some (True, i, i, temp, m)
         else
           (let temp = \<lparr>from_addr = to, to_addr = to\<rparr>;
                (r, m) = to_user K (entry_addr buff vma_addr to) (put_address temp) m
            in if r \<noteq> 0 then Some (False, i, to, temp, m)
               else compact_up K vma_addr buff (i + 4096) j to temp m))
      else Some (True, i, to, temp, m))"

text \<open>The second: downwards to the last mapped page.\<close>

partial_function (option) compact_down :: "'m mmapi \<Rightarrow> u64 \<Rightarrow> u64 \<Rightarrow> u64 \<Rightarrow> 'm \<Rightarrow> (u64 \<times> u64) option" where
  "compact_down K i j from m =
     (if i < j then
        (if mtree_load K j m \<noteq> None then Some (j, j)
         else compact_down K i (j - 4096) from m)
      else Some (j, from))"

text \<open>The outer loop; its result is the early return value, if any, with the entry \<^verbatim>\<open>temp\<close> and the address space.\<close>

partial_function (option) compact_loop ::
  "'m mmapi \<Rightarrow> ptr \<Rightarrow> vma option \<Rightarrow> u64 \<Rightarrow> ptr \<Rightarrow> u64 \<Rightarrow> u64 \<Rightarrow> u64 \<Rightarrow> u64 \<Rightarrow> address \<Rightarrow> 'm \<Rightarrow>
   (u64 option \<times> address \<times> 'm) outcome option" where
  "compact_loop K buff1 vma vma_addr buff i j to from temp m =
     (if i < j then
        Option.bind (compact_up K vma_addr buff to j to temp m) (\<lambda>(ok, i, to, temp, m).
          if \<not> ok then Some (Done (Some 0, temp, m))
          else Option.bind (compact_down K i from from m) (\<lambda>(j, from).
            if j \<ge> i then Some (Done (None, temp, m))
            else if buff1 = 0 then Some Oops
            else
              (let (r, page) = from_user K to 4096 m
               in if r \<noteq> 0 then Some (Done (Some 0, temp, m))
                  else
                    (let (r, m) = to_user K from page m
                     in if r \<noteq> 0 then Some (Done (Some 0, temp, m))
                        else
                          (case vma of
                             None \<Rightarrow> Some Oops
                           | Some v \<Rightarrow>
                               (let (r, m) = remap_pfn_range K v from 0 4096 (PAGE_KERNEL K) m
                                in if r \<noteq> 0 then Some (Done (Some (- EINVAL), temp, m))
                                   else
                                     (let temp = \<lparr>from_addr = from, to_addr = to\<rparr>;
                                          (r, m) = to_user K (entry_addr buff vma_addr from) (put_address temp) m
                                      in if r \<noteq> 0 then Some (Done (Some 0, temp, m))
                                         else
                                           (let temp = \<lparr>from_addr = to, to_addr = from\<rparr>;
                                                (r, m) = to_user K (entry_addr buff vma_addr to) (put_address temp) m
                                            in if r \<noteq> 0 then Some (Done (Some 0, temp, m))
                                               else compact_loop K buff1 vma vma_addr buff i j to from temp m))))))))
      else Some (Done (None, temp, m)))"

definition compact_vma :: "kapi \<Rightarrow> 'm mmapi \<Rightarrow> ptr \<Rightarrow> u64 \<Rightarrow> 'm bt \<Rightarrow> (u64 \<times> 'm bt) outcome" where
  "compact_vma k K buff1 ioctl_param s =
     (let (ip, s) = kalloc k 24 s
      in if ip = 0 then Oops
         else
           (let (r, bs) = from_user K ioctl_param 24 (mm s)
            in if r \<noteq> 0 then Done (0, s)
               else
                 (let vma_addr = in_addr (get_input bs);
                      len = in_length (get_input bs);
                      buff = in_buff (get_input bs);
                      temp = \<lparr>from_addr = vma_addr, to_addr = vma_addr\<rparr>;
                      from = vma_addr + ucast (len * 4096);
                      vma = find_vma K from (mm s)
                  in case compact_loop K buff1 vma vma_addr buff vma_addr from vma_addr from temp (mm s) of
                       None \<Rightarrow> Hang
                     | Some out \<Rightarrow>
                         obind out (\<lambda>(early, temp, m).
                           case early of
                             Some ret \<Rightarrow> Done (ret, s\<lparr>mm := m\<rparr>)
                           | None \<Rightarrow>
                               (let (r, m) = to_user K (entry_addr buff vma_addr vma_addr) (put_address temp) m
                                in if r \<noteq> 0 then Done (0, s\<lparr>mm := m\<rparr>)
                                   else Done (0, kcalled (Kfree ip) (s\<lparr>mm := m\<rparr>)))))))"

section \<open>The request dispatcher\<close>

definition device_ioctl :: "kapi \<Rightarrow> 'm mmapi \<Rightarrow> u32 \<Rightarrow> u64 \<Rightarrow> 'm bt \<Rightarrow> (u64 \<times> 'm bt) outcome" where
  "device_ioctl k K ioctl_num ioctl_param s =
     (let (buff1, s) = kalloc k 4096 s
      in if ioctl_num = IOCTL_MVE_VMA_TO then move_vma_to k K buff1 ioctl_param s
         else if ioctl_num = IOCTL_MVE_VMA then move_vma k K buff1 ioctl_param s
         else if ioctl_num = IOCTL_PROMOTE_VMA then promote_vma K s
         else if ioctl_num = IOCTL_COMPACT_VMA then compact_vma k K buff1 ioctl_param s
         else Done (0, s))"

section \<open>The sysfs file, loading and unloading\<close>

definition demo_devnode :: "u32 \<Rightarrow> u16 option \<Rightarrow> 'm bt \<Rightarrow> u16 option" where
  "demo_devnode devt mode s =
     (case mode of None \<Rightarrow> None | Some v \<Rightarrow> if devt = MKDEV (major s) 0 then Some 0x1B6 else Some v)"

text \<open>\<^verbatim>\<open>sysfs_show\<close> gets the page the kernel has cleared for the text, and returns the length of the text in it.\<close>

definition sysfs_show :: "u8 list \<Rightarrow> 'm bt \<Rightarrow> ssize_t \<times> u8 list \<times> 'm bt" where
  "sysfs_show buf s = (0, buf, s)"

definition sysfs_store :: "u8 list \<Rightarrow> u64 \<Rightarrow> 'm bt \<Rightarrow> ssize_t \<times> 'm bt" where
  "sysfs_store buf count s = (count, s)"

text \<open>\<open>kernel_kobj\<close> is the kernel's own directory object.\<close>

definition init_module :: "ptr \<Rightarrow> kapi \<Rightarrow> 'm bt \<Rightarrow> u32 \<times> 'm bt" where
  "init_module kernel_kobj k s =
     (let (r, s) = register_chrdev k DEVNAME s;
          s = s\<lparr>major := r\<rparr>
      in if r <s 0 then (r, s)
         else
           (let (c, s) = class_create k DEVNAME s;
                s = s\<lparr>demo_class := c\<rparr>
            in if IS_ERR c then (PTR_ERR c, kcalled (Unregister_chrdev (major s) DEVNAME) s)
               else
                 (let (d, s) = device_create k c (MKDEV (major s) 0) DEVNAME s;
                      s = s\<lparr>demo_device := d\<rparr>
                  in if IS_ERR d then
                       (let s = kcalled (Class_destroy (demo_class s)) s
                        in (PTR_ERR d, kcalled (Unregister_chrdev (major s) DEVNAME) s))
                     else
                       (let s = s\<lparr>device_opened := 0\<rparr>;
                            (kobj, s) = kobject_create_and_add k ''kobject_cs614'' s;
                            s = s\<lparr>cs614_kobject := kobj\<rparr>
                        in if kobj = 0 then (- ENOMEM, s)
                           else
                             (let (err, s) = sysfs_create_file k kobj ''promote'' s
                              in if err \<noteq> 0 then
                                   (let s = kcalled (Kobject_put kobj) s;
                                        s = kcalled (Sysfs_remove_file kernel_kobj ''promote'') s;
                                        s = kcalled (Class_destroy (demo_class s)) s
                                    in (err, kcalled (Unregister_chrdev (major s) DEVNAME) s))
                                 else (0, s))))))"

definition cleanup_module :: "ptr \<Rightarrow> 'm bt \<Rightarrow> 'm bt" where
  "cleanup_module kernel_kobj s =
     (let s = kcalled (Device_destroy (demo_class s) (MKDEV (major s) 0)) s;
          s = kcalled (Class_destroy (demo_class s)) s;
          s = kcalled (Unregister_chrdev (major s) DEVNAME) s;
          s = kcalled (Kobject_put (cs614_kobject s)) s
      in kcalled (Sysfs_remove_file kernel_kobj ''promote'') s)"

lemmas module_defs = init_module_def cleanup_module_def kernel_defs Let_def

end
