(* ===== verification/Btplus_Requests.thy ===== *)
theory Btplus_Requests
  imports Btplus
begin

text \<open>
  Facts on the VMA module: the page scan behind the hole search and the promotion, the compaction
  request, and loading and unloading.
\<close>

section \<open>Counting pages in a row\<close>

text \<open>The common loop of the hole search and the promotion: the first page that completes a row of
  \<open>need\<close> pages with the property \<open>P\<close>.\<close>

function scan :: "(u64 \<Rightarrow> bool) \<Rightarrow> u64 \<Rightarrow> u64 \<Rightarrow> u64 \<Rightarrow> u64 \<times> u64" where
  "scan P need j a =
     (if a \<le> 0x7fffffffffff then
        (if P a then (if j + 1 = need then (j + 1, a) else scan P need (j + 1) (a + 4096))
         else scan P need 0 (a + 4096))
      else (j, a))"
  by pat_completeness auto
termination
  by (relation "measure (\<lambda>(P, need, j, a). 2 ^ 47 - unat a)") (use page_step in auto)

declare scan.simps [simp del]

lemma find_hole_scan: "find_hole K m need j a = scan (\<lambda>x. mtree_load K x m = None) need j a"
proof (induction "\<lambda>x. mtree_load K x m = None" need j a rule: scan.induct)
  case (1 need j a)
  then show ?case by (simp add: find_hole.simps [of K m need j a] scan.simps [of _ need j a])
qed

text \<open>Pages of an address space from a base address on, and a row of \<open>n\<close> of them that ends at \<open>e\<close>.\<close>

definition page :: "u64 \<Rightarrow> nat \<Rightarrow> u64" where
  "page a i = a + 4096 * of_nat i"

definition row :: "(u64 \<Rightarrow> bool) \<Rightarrow> u64 \<Rightarrow> nat \<Rightarrow> nat \<Rightarrow> bool" where
  "row P a n e \<longleftrightarrow> n \<le> Suc e \<and> (\<forall>i. e < i + n \<and> i \<le> e \<longrightarrow> P (page a i))"

lemma page_0 [simp]: "page a 0 = a"
  by (simp add: page_def)

lemma page_Suc: "page a (Suc i) = page a i + 4096"
  by (simp add: page_def algebra_simps)

lemma unat_page: "unat a + 4096 * i < 2 ^ 64 \<Longrightarrow> unat (page a i) = unat a + 4096 * i"
proof -
  assume *: "unat a + 4096 * i < 2 ^ 64"
  then have "unat (4096 * of_nat i :: u64) = 4096 * i"
    using unat_of_nat_u64 [of "4096 * i"] by simp
  with * show ?thesis unfolding page_def using unat_word_ariths(1) [of a "4096 * of_nat i"] by simp
qed

lemma page_below: "unat a + 4096 * i < 2 ^ 47 \<longleftrightarrow> page a i \<le> 0x7fffffffffff" if "unat a + 4096 * i < 2 ^ 64"
  using unat_page [OF that] by (auto simp: word_le_nat_alt)

lemma of_nat_u64_inj: "x < 2 ^ 64 \<Longrightarrow> y < 2 ^ 64 \<Longrightarrow> (of_nat x = (of_nat y :: u64)) \<longleftrightarrow> x = y"
  by (metis unat_of_nat_u64)

lemma scan_rows:
  assumes "b = page a i" "j = of_nat r" "r < n" "n < 2 ^ 64" "r \<le> i" "\<forall>i'. i \<le> i' + r \<and> i' < i \<longrightarrow> P (page a i')"
    "r < i \<longrightarrow> \<not> P (page a (i - Suc r))" "\<forall>e<i. \<not> row P a n e" "unat a + 4096 * i < 2 ^ 48"
  shows "(\<exists>e. scan P (of_nat n) j b = (of_nat n, page a e) \<and> row P a n e \<and> (\<forall>e'<e. \<not> row P a n e') \<and> unat a + 4096 * e < 2 ^ 47) \<or>
    (\<exists>r' b'. scan P (of_nat n) j b = (of_nat r', b') \<and> r' < n \<and> (\<forall>e. unat a + 4096 * e < 2 ^ 47 \<longrightarrow> \<not> row P a n e))"
  using assms
proof (induction "2 ^ 47 - unat b" arbitrary: b j i r rule: less_induct)
  case less
  note [simp] = \<open>b = page a i\<close> \<open>j = of_nat r\<close>
  have ub: "unat b = unat a + 4096 * i" using unat_page less.prems(9) by simp
  show ?case
  proof (cases "b \<le> 0x7fffffffffff")
    case False
    then have "2 ^ 47 \<le> unat a + 4096 * i" using ub by (simp add: word_le_nat_alt)
    then have "\<forall>e. unat a + 4096 * e < 2 ^ 47 \<longrightarrow> \<not> row P a n e" using less.prems(8) by auto
    then show ?thesis using False less.prems(3) by (auto simp: scan.simps [of _ _ _ "page a i"])
  next
    case lim: True
    note step = page_step [OF lim]
    have next_ok: "page a i + 4096 = page a (Suc i)" "unat a + 4096 * Suc i < 2 ^ 48"
      using step(1) ub by (simp_all add: page_Suc)
    show ?thesis
    proof (cases "P b")
      case False
      then have "\<not> row P a n i" using less.prems(3) by (auto simp: row_def intro: exI [of _ i])
      then have "\<forall>e<Suc i. \<not> row P a n e" using less.prems(8) less_Suc_eq by auto
      moreover have "\<forall>i'. Suc i \<le> i' \<and> i' < Suc i \<longrightarrow> P (page a i')" by auto
      moreover note less.hyps [OF _ next_ok(1) _ _ less.prems(4), of 0 0] step(3) False lim next_ok less.prems(3)
      ultimately
      show ?thesis by (simp add: scan.simps [of _ _ _ "page a i"])
    next
      case True
      have jn: "(of_nat r + 1 = (of_nat n :: u64)) \<longleftrightarrow> Suc r = n"
        using of_nat_u64_inj [of "Suc r" n] less.prems(3,4) by (simp add: add.commute)
      show ?thesis
      proof (cases "Suc r = n")
        case fin: True
        have "P (page a i')" if "i < i' + n" "i' \<le> i" for i'
          using less.prems(6) fin True that by (cases "i' = i") auto
        then have "row P a n i" using less.prems(5) fin by (auto simp: row_def)
        then show ?thesis using fin True lim jn less.prems(8) step(1) ub
          by (intro disjI1 exI [of _ i]) (simp add: scan.simps [of _ _ _ "page a i"])
      next
        case more: False
        have "\<not> row P a n i"
        proof
          assume "row P a n i"
          moreover have "i < (i - Suc r) + n" "r < i" using more less.prems(3) \<open>row P a n i\<close> by (auto simp: row_def)
          ultimately show False using less.prems(7) by (auto simp: row_def)
        qed
        then have "\<forall>e<Suc i. \<not> row P a n e" using less.prems(8) less_Suc_eq by auto
        moreover have "\<forall>i'. Suc i \<le> i' + Suc r \<and> i' < Suc i \<longrightarrow> P (page a i')"
          using less.prems(6) True less_Suc_eq by auto
        ultimately show ?thesis
          using less.hyps [OF _ next_ok(1) _ _ less.prems(4), of "of_nat r + 1" "Suc r"] step(3) True lim jn more next_ok less.prems
          by (simp add: scan.simps [of _ _ _ "page a i"])
      qed
    qed
  qed
qed

lemma scan_first:
  assumes "0 < n" "n < 2 ^ 64" "unat a < 2 ^ 48"
  shows "(\<exists>e. scan P (of_nat n) 0 a = (of_nat n, page a e) \<and> row P a n e \<and> (\<forall>e'<e. \<not> row P a n e') \<and> unat a + 4096 * e < 2 ^ 47) \<or>
    (\<exists>r' b'. scan P (of_nat n) 0 a = (of_nat r', b') \<and> r' < n \<and> (\<forall>e. unat a + 4096 * e < 2 ^ 47 \<longrightarrow> \<not> row P a n e))"
  using scan_rows [of a a 0 0 0 n P] assms by simp

section \<open>Examples\<close>

text \<open>A module that was just inserted, in a process whose address space is \<open>m\<close>.\<close>

definition inserted :: "'m \<Rightarrow> 'm bt" where
  "inserted m = \<lparr>major = 0, device_opened = 0, demo_class = 0, demo_device = 0, klog = [], cs614_kobject = 0, mm = m\<rparr>"

text \<open>An address space of one readable and writable area of 512 pages, which holds a request to compact three
  of them with the result table in its second page.\<close>

definition one_area :: vma where
  "one_area = \<lparr>vm_start = 0x200000, vm_end = 0x400000, vm_flags = 3, vm_ops = 0, vm_page_prot = 0\<rparr>"

definition ex_space :: space where
  "ex_space = \<lparr>area = (\<lambda>x. if 0x200000 \<le> x \<and> x < 0x400000 then Some one_area else None),
     contents = (\<lambda>_. 0)(0x200002 := 0x30, 0x200008 := 3, 0x200011 := 0x10, 0x200012 := 0x20)\<rparr>"

lemma load_ex_space [simp]:
  "mtree_load plain_mm x ex_space = (if 0x200000 \<le> x \<and> x < 0x400000 then Some one_area else None)"
  by (simp add: plain_mm_def space_load_def ex_space_def one_area_def)

lemma mm_inserted [simp]: "mm (inserted m) = m"
  by (simp add: inserted_def)

lemma in_range_ex_space:
  assumes "in_range a n x" "0x200000 \<le> unat a" "unat a + n \<le> 0x400000"
  shows "mtree_load plain_mm x ex_space = Some one_area"
proof -
  obtain i where i: "i < n" "x = a + of_nat i" using in_range_cases [OF assms(1)] by blast
  have "unat (of_nat i :: u64) = i" using i(1) assms(3) by (intro unat_of_nat_u64) simp
  then have "unat x = unat a + i" using i assms(3) unat_word_ariths(1) [of a "of_nat i"] by simp
  then show ?thesis using i(1) assms(2,3) by (simp add: word_le_nat_alt word_less_nat_alt)
qed

lemma permits_ex_space:
  assumes "in_range a n x" "0x200000 \<le> unat a" "unat a + n \<le> 0x400000"
  shows "permits VM_READ (flags_at plain_mm ex_space x)" "permits VM_WRITE (flags_at plain_mm ex_space x)"
  using in_range_ex_space [OF assms] by (simp_all add: flags_at_def permits_def one_area_def vm_consts del: flags_at_plain)

section \<open>Promotion\<close>

lemma promote_loop_scan:
  assumes "j < 512"
  shows "promote_loop K a j m =
    (let (j', e) = scan (\<lambda>x. mtree_load K x m \<noteq> None) 512 j a
     in if j' = 512 then obind (promote_block K e m) (\<lambda>(bad, m). if bad then Done (True, m) else promote_loop K (e + 4096) 0 m)
        else Done (False, m))"
  using assms
proof (induction "\<lambda>x. mtree_load K x m \<noteq> None" "512 :: u64" j a rule: scan.induct)
  case (1 j a)
  have "j + 1 < 512" if "j + 1 \<noteq> 512" using inc_le [OF "1.prems"] that by (rule le_neq_trans)
  moreover have "j \<noteq> 512" using "1.prems" by auto
  ultimately show ?case
    using 1 by (simp add: promote_loop.simps [of K a j m] scan.simps [of _ _ j a])
qed

text \<open>A run is copied from one page too low; that page is not mapped when the run is the first.\<close>

lemma promote_block_first:
  assumes "row (\<lambda>x. mtree_load K x m \<noteq> None) 0 512 e" "\<forall>e'<e. \<not> row (\<lambda>x. mtree_load K x m \<noteq> None) 0 512 e'"
    "mtree_load K 0 m = None"
    "\<And>d a n m. n \<noteq> 0 \<Longrightarrow> mtree_load K a m = None \<Longrightarrow> k_memcpy K d a n m = None"
    "\<And>n m x. mtree_load K x (snd (alloc_pages K n m)) = mtree_load K x m"
  shows "promote_block K (page 0 e) m = Oops"
proof -
  let ?P = "\<lambda>x. mtree_load K x m \<noteq> None"
  have mapped: "?P (page 0 i)" if "e < i + 512" "i \<le> e" for i using assms(1) that by (simp add: row_def)
  have "512 \<le> e"
  proof (rule ccontr)
    assume "\<not> 512 \<le> e"
    then have "?P (page 0 0)" by (intro mapped) simp_all
    with assms(3) show False by simp
  qed
  have start: "mtree_load K (page 0 (e - 512)) m = None"
  proof (rule ccontr)
    assume *: "mtree_load K (page 0 (e - 512)) m \<noteq> None"
    have "?P (page 0 i)" if "e - 1 < i + 512" "i \<le> e - 1" for i
      using mapped [of i] * that \<open>512 \<le> e\<close> by (cases "i = e - 512") auto
    then have "row ?P 0 512 (e - 1)" using \<open>512 \<le> e\<close> by (auto simp: row_def)
    with assms(2) \<open>512 \<le> e\<close> show False by auto
  qed
  have "page 0 e - 2 * 1024 * 1024 = page 0 (e - 512)" using \<open>512 \<le> e\<close> by (simp add: page_def of_nat_diff algebra_simps)
  moreover have "k_memcpy K d (page 0 (e - 512)) 2097152 (snd (alloc_pages K 9 m)) = None" for d
    by (rule assms(4)) (simp_all add: assms(5) start)
  ultimately show ?thesis by (cases "alloc_pages K 9 m") (simp add: promote_block_def Let_def)
qed

lemma promote_effect:
  assumes "mtree_load K 0 (mm s) = None"
    and "\<And>d a n m. n \<noteq> 0 \<Longrightarrow> mtree_load K a m = None \<Longrightarrow> k_memcpy K d a n m = None"
    and "\<And>n m x. mtree_load K x (snd (alloc_pages K n m)) = mtree_load K x m"
  shows "device_ioctl k K IOCTL_PROMOTE_VMA param s =
    (if \<exists>e. 4096 * e < 2 ^ 47 \<and> row (\<lambda>x. mtree_load K x (mm s) \<noteq> None) 0 512 e then Oops
     else Done (0, kcalled (Kalloc 4096 (k_alloc k (klog s))) s))"
proof -
  let ?P = "\<lambda>x. mtree_load K x (mm s) \<noteq> None"
  have ioctl: "device_ioctl k K IOCTL_PROMOTE_VMA param s = promote_vma K (kcalled (Kalloc 4096 (k_alloc k (klog s))) s)"
    by (simp add: device_ioctl_def kalloc_def ioctl_defs Let_def)
  have sm: "mm (kcalled c s) = mm s" "(kcalled c s)\<lparr>mm := mm s\<rparr> = kcalled c s" for c by (simp_all add: kcalled_def)
  consider (run) e where "scan ?P 512 0 0 = (512, page 0 e)" "row ?P 0 512 e" "\<forall>e'<e. \<not> row ?P 0 512 e'" "4096 * e < 2 ^ 47"
    | (none) r b where "scan ?P 512 0 0 = (of_nat r, b)" "r < 512" "\<forall>e. 4096 * e < 2 ^ 47 \<longrightarrow> \<not> row ?P 0 512 e"
    using scan_first [of 512 0 ?P] by auto
  then show ?thesis
  proof cases
    case run
    then show ?thesis using promote_block_first [OF run(2,3) assms] unfolding ioctl promote_vma_def sm
      by (auto simp: promote_loop_scan)
  next
    case none
    moreover have "(of_nat r :: u64) \<noteq> 512" using none(2) of_nat_u64_inj [of r 512] by simp
    ultimately show ?thesis unfolding ioctl promote_vma_def sm by (auto simp: promote_loop_scan sm)
  qed
qed

text \<open>
  C12: The promotion request never promotes.  With page 0 unmapped, as it always is, a process that has
  512 mapped pages in a row somewhere is killed by the request: the copy of the first such run starts one
  page below it, on an address that is not mapped.  For any other process the request returns 0 and
  changes nothing, but allocates a buffer it does not free.
\<close>

theorem promote_crashes_or_idles:
  assumes "mtree_load K 0 (mm s) = None"
    and "\<And>d a n m. n \<noteq> 0 \<Longrightarrow> mtree_load K a m = None \<Longrightarrow> k_memcpy K d a n m = None"
    and "\<And>n m x. mtree_load K x (snd (alloc_pages K n m)) = mtree_load K x m"
  shows "device_ioctl k K IOCTL_PROMOTE_VMA param s =
    (if \<exists>e. 4096 * e < 2 ^ 47 \<and> row (\<lambda>x. mtree_load K x (mm s) \<noteq> None) 0 512 e then Oops
     else Done (0, kcalled (Kalloc 4096 (k_alloc k (klog s))) s))"
  by (rule promote_effect [OF assms])

lemma plain_pages:
  "n \<noteq> 0 \<Longrightarrow> mtree_load plain_mm a m = None \<Longrightarrow> k_memcpy plain_mm d a n m = None"
  "mtree_load plain_mm x (snd (alloc_pages plain_mm i m)) = mtree_load plain_mm x m"
  by (auto simp: plain_mm_def unat_gt_0 dest: all_range_first)

theorem promote_crashes_or_idles_witness:
  "device_ioctl granting plain_mm IOCTL_PROMOTE_VMA 0 (inserted ex_space) = Oops"
proof -
  have "mtree_load plain_mm (page 0 i) ex_space \<noteq> None" if "1023 < i + 512" "i \<le> 1023" for i
  proof -
    have "unat (page 0 i) = 4096 * i" using unat_page [of 0 i] that by simp
    then show ?thesis using that by (simp add: word_le_nat_alt word_less_nat_alt)
  qed
  then have "row (\<lambda>x. mtree_load plain_mm x ex_space \<noteq> None) 0 512 1023" by (simp add: row_def)
  then have "\<exists>e. 4096 * e < 2 ^ 47 \<and> row (\<lambda>x. mtree_load plain_mm x (mm (inserted ex_space)) \<noteq> None) 0 512 e"
    by (intro exI [of _ 1023]) (simp del: load_ex_space)
  then show ?thesis
    using promote_crashes_or_idles [of plain_mm "inserted ex_space" granting 0] plain_pages by (simp del: load_ex_space) simp
qed

section \<open>Compaction\<close>

text \<open>The two inner loops return, and leave \<open>j\<close> at or above \<open>i\<close>.\<close>

definition table_write :: "'m mmapi \<Rightarrow> ptr \<Rightarrow> u64 \<Rightarrow> 'm \<Rightarrow> 'm" where
  "table_write K buff a m = snd (to_user K buff (put_address \<lparr>from_addr = a, to_addr = a\<rparr>) m)"

lemma entry_addr_first [simp]: "entry_addr buff a a = buff"
  by (simp add: entry_addr_def)

lemma page_less: "unat a + 4096 * n < 2 ^ 64 \<Longrightarrow> i \<le> n \<Longrightarrow> i' \<le> n \<Longrightarrow> page a i < page a i' \<longleftrightarrow> i < i'"
  by (simp add: word_less_nat_alt unat_page)

lemma compact_up_returns:
  assumes "unat a + 4096 * n < 2 ^ 64" "i \<le> n"
  shows "\<exists>ok i' to' t. i' \<le> n \<and> (ok \<or> 0 < t) \<and>
    compact_up K a buff (page a i) (page a n) a \<lparr>from_addr = a, to_addr = a\<rparr> m =
      Some (ok, page a i', to', \<lparr>from_addr = a, to_addr = a\<rparr>, (table_write K buff a ^^ t) m)"
  using assms(2)
proof (induction "n - i" arbitrary: i m)
  case 0
  then have "i = n" by simp
  then show ?case by (intro exI [of _ True] exI [of _ n] exI [of _ a] exI [of _ 0])
      (simp add: compact_up.simps [of _ _ _ "page a n"])
next
  case (Suc d)
  then have i: "i < n" and d: "d = n - Suc i" by simp_all
  then have lt: "page a i < page a n" using page_less [OF assms(1), of i n] by simp
  show ?case
  proof (cases "mtree_load K (page a i) m")
    case None
    then show ?thesis using lt i
      by (intro exI [of _ True] exI [of _ i] exI [of _ "page a i"] exI [of _ 0])
        (simp add: compact_up.simps [of _ _ _ "page a i"])
  next
    case (Some v)
    let ?w = "to_user K buff (put_address \<lparr>from_addr = a, to_addr = a\<rparr>) m"
    have m: "snd ?w = table_write K buff a m" by (simp add: table_write_def)
    show ?thesis
    proof (cases "fst ?w = 0")
      case False
      then show ?thesis using lt i m Some
        by (intro exI [of _ False] exI [of _ i] exI [of _ a] exI [of _ 1])
          (auto simp: compact_up.simps [of _ _ _ "page a i"] Let_def split: prod.splits)
    next
      case True
      have s: "page a i + 4096 = page a (Suc i)" by (simp add: page_Suc)
      have up: "compact_up K a buff (page a i) (page a n) a \<lparr>from_addr = a, to_addr = a\<rparr> m =
          compact_up K a buff (page a (Suc i)) (page a n) a \<lparr>from_addr = a, to_addr = a\<rparr> (table_write K buff a m)"
        using lt True m Some s by (auto simp: compact_up.simps [of _ _ _ "page a i"] Let_def split: prod.splits)
      from Suc.hyps(1) [OF d, of "table_write K buff a m"] i obtain ok i' to' t where "i' \<le> n" "ok \<or> 0 < t"
        "compact_up K a buff (page a (Suc i)) (page a n) a \<lparr>from_addr = a, to_addr = a\<rparr> (table_write K buff a m) =
           Some (ok, page a i', to', \<lparr>from_addr = a, to_addr = a\<rparr>, (table_write K buff a ^^ t) (table_write K buff a m))"
        by auto
      then show ?thesis unfolding up
        by (intro exI [of _ ok] exI [of _ i'] exI [of _ to'] exI [of _ "Suc t"]) (simp add: funpow_swap1)
    qed
  qed
qed

lemma compact_down_returns:
  assumes "unat a + 4096 * n < 2 ^ 64" "i \<le> j" "j \<le> n"
  shows "\<exists>j' from'. compact_down K (page a i) (page a j) from m = Some (j', from') \<and> page a i \<le> j'"
  using assms(2,3)
proof (induction "j - i" arbitrary: j)
  case 0
  then have "j = i" by simp
  then show ?case by (simp add: compact_down.simps [of _ "page a i" "page a i"])
next
  case (Suc d)
  then have lt: "page a i < page a j" using page_less [OF assms(1), of i j] by simp
  obtain j' where j': "j = Suc j'" using Suc by (cases j) auto
  then have "page a j - 4096 = page a j'" by (simp add: page_Suc)
  moreover have "\<exists>j'' from'. compact_down K (page a i) (page a j') from m = Some (j'', from') \<and> page a i \<le> j''"
    using Suc j' by (intro Suc.hyps(1)) simp_all
  ultimately show ?case using lt by (auto simp: compact_down.simps [of _ "page a i" "page a j"] less_imp_le)
qed

text \<open>So the outer loop ends in its first round, before anything is moved.\<close>

lemma compact_loop_returns:
  fixes l :: u32
  assumes "b = a + ucast (l * 4096)"
  shows "\<exists>early t. compact_loop K buff1 vma a buff a b a b \<lparr>from_addr = a, to_addr = a\<rparr> m =
    Some (Done (early, \<lparr>from_addr = a, to_addr = a\<rparr>, (table_write K buff a ^^ t) m)) \<and>
    (early = None \<or> early = Some 0 \<and> 0 < t)"
proof (cases "a < b")
  case False
  then show ?thesis by (intro exI [of _ None] exI [of _ 0]) (simp add: compact_loop.simps [of _ _ _ _ _ a b])
next
  case True
  define n where "n = unat (l * 4096) div 4096"
  have "4096 dvd unat (l * 4096)"
  proof -
    have "unat (l * 4096) = (unat l * 4096) mod 2 ^ 32" using unat_word_ariths(2) [of l 4096] by simp
    moreover have "(4096 :: nat) dvd 2 ^ 32" by simp
    ultimately show ?thesis by (metis dvd_mod dvd_triv_right)
  qed
  then have n: "unat (l * 4096) = 4096 * n" by (simp add: n_def)
  have "(ucast (l * 4096) :: u64) = of_nat (unat (l * 4096))" by simp
  then have b: "b = page a n" using assms n by (simp add: page_def)
  have "unat (l * 4096) < 2 ^ LENGTH(32)" by (rule unsigned_less)
  then have y: "unat (4096 * of_nat n :: u64) = 4096 * n" using n unat_of_nat_u64 [of "4096 * n"] by simp
  have "a \<le> a + 4096 * of_nat n" using True b by (simp add: page_def)
  then have range: "unat a + 4096 * n < 2 ^ 64"
    using unat_u64 [of "a + 4096 * of_nat n"] unfolding unat_plus_simple y by linarith
  obtain ok i' to' t where up: "i' \<le> n" "ok \<or> 0 < t" "compact_up K a buff a b a \<lparr>from_addr = a, to_addr = a\<rparr> m =
      Some (ok, page a i', to', \<lparr>from_addr = a, to_addr = a\<rparr>, (table_write K buff a ^^ t) m)"
    using compact_up_returns [OF range, of 0 K buff m] b by auto
  obtain j' from' where down: "compact_down K (page a i') b b ((table_write K buff a ^^ t) m) = Some (j', from')" "page a i' \<le> j'"
    using compact_down_returns [OF range up(1) order_refl, of K b "(table_write K buff a ^^ t) m"] unfolding b by blast
  show ?thesis using True up(2,3) down
    by (cases ok) (auto simp: compact_loop.simps [of _ _ _ _ _ a b])
qed

lemma table_writes:
  assumes "mm_laws K bytes" "\<And>x. in_range buff 16 x \<Longrightarrow> permits VM_WRITE (flags_at K m x)"
  shows "flags_at K ((table_write K buff a ^^ t) m) = flags_at K m"
    and "bytes ((table_write K buff a ^^ t) m) =
      (if t = 0 then bytes m else mem_write buff (put_address \<lparr>from_addr = a, to_addr = a\<rparr>) (bytes m))"
proof -
  let ?e = "put_address \<lparr>from_addr = a, to_addr = a\<rparr>"
  have len: "length ?e = 16" by (simp add: put_address_def put64_def)
  have "flags_at K ((table_write K buff a ^^ t) m) = flags_at K m \<and>
    bytes ((table_write K buff a ^^ t) m) = (if t = 0 then bytes m else mem_write buff ?e (bytes m))"
  proof (induction t)
    case (Suc t)
    let ?m = "(table_write K buff a ^^ t) m"
    have "\<exists>m'. to_user K buff ?e ?m = (0, m') \<and> bytes m' = mem_write buff ?e (bytes ?m) \<and> flags_at K m' = flags_at K ?m"
      using assms Suc len by (intro to_user_ok) simp_all
    then obtain m' where m': "to_user K buff ?e ?m = (0, m')" "bytes m' = mem_write buff ?e (bytes ?m)" "flags_at K m' = flags_at K ?m"
      by blast
    have "(table_write K buff a ^^ Suc t) m = m'" using m'(1) by (simp add: table_write_def [of K buff a ?m])
    then show ?case using Suc m' len by (simp add: mem_write_twice)
  qed simp
  then show "flags_at K ((table_write K buff a ^^ t) m) = flags_at K m"
    "bytes ((table_write K buff a ^^ t) m) = (if t = 0 then bytes m else mem_write buff ?e (bytes m))" by simp_all
qed

lemma compact_effect:
  assumes laws: "mm_laws K bytes" and alloc: "k_alloc k (Kalloc 4096 (k_alloc k (klog s)) # klog s) \<noteq> 0"
    and arg: "\<And>x. in_range param 24 x \<Longrightarrow> permits VM_READ (flags_at K (mm s) x)"
    and ip: "ip = get_input (mem_read param 24 (bytes (mm s)))"
    and table: "\<And>x. in_range (in_buff ip) 16 x \<Longrightarrow> permits VM_WRITE (flags_at K (mm s) x)"
  shows "\<exists>s'. device_ioctl k K IOCTL_COMPACT_VMA param s = Done (0, s') \<and> flags_at K (mm s') = flags_at K (mm s) \<and>
    bytes (mm s') = mem_write (in_buff ip) (put_address \<lparr>from_addr = in_addr ip, to_addr = in_addr ip\<rparr>) (bytes (mm s))"
proof -
  let ?b = "in_buff ip" and ?a = "in_addr ip" and ?from = "in_addr ip + ucast (in_length ip * 4096)"
  let ?l1 = "Kalloc 4096 (k_alloc k (klog s)) # klog s"
  let ?ip = "k_alloc k ?l1" and ?s2 = "s\<lparr>klog := Kalloc 24 (k_alloc k ?l1) # ?l1\<rparr>"
  obtain early t where loop: "compact_loop K (k_alloc k (klog s)) (find_vma K ?from (mm s)) ?a ?b ?a ?from ?a ?from
      \<lparr>from_addr = ?a, to_addr = ?a\<rparr> (mm s) =
      Some (Done (early, \<lparr>from_addr = ?a, to_addr = ?a\<rparr>, (table_write K ?b ?a ^^ t) (mm s)))"
    "early = None \<or> early = Some 0 \<and> 0 < t"
    using compact_loop_returns [OF refl, of K "k_alloc k (klog s)" "find_vma K ?from (mm s)" ?a ?b "in_length ip" "mm s"]
    by (elim exE conjE) (rule that)
  have arg': "from_user K param 24 (mm s) = (0, mem_read param 24 (bytes (mm s)))"
    using from_user_ok [OF laws, of param 24] arg by simp
  note tw = table_writes [OF laws table]
  have ioctl: "device_ioctl k K IOCTL_COMPACT_VMA param s =
      (case early of Some ret \<Rightarrow> Done (ret, ?s2\<lparr>mm := (table_write K ?b ?a ^^ t) (mm s)\<rparr>)
       | None \<Rightarrow> (let (r, m) = to_user K ?b (put_address \<lparr>from_addr = ?a, to_addr = ?a\<rparr>) ((table_write K ?b ?a ^^ t) (mm s))
          in if r \<noteq> 0 then Done (0, ?s2\<lparr>mm := m\<rparr>) else Done (0, kcalled (Kfree ?ip) (?s2\<lparr>mm := m\<rparr>))))"
    using alloc arg' ip loop(1) by (cases early) (simp_all add: device_ioctl_def compact_vma_def kalloc_def kcalled_def ioctl_defs Let_def split: prod.splits)
  show ?thesis
  proof (cases early)
    case None
    obtain m' where "to_user K ?b (put_address \<lparr>from_addr = ?a, to_addr = ?a\<rparr>) ((table_write K ?b ?a ^^ t) (mm s)) = (0, m')"
      "m' = (table_write K ?b ?a ^^ Suc t) (mm s)"
      using to_user_ok [OF laws, of ?b "put_address \<lparr>from_addr = ?a, to_addr = ?a\<rparr>" "(table_write K ?b ?a ^^ t) (mm s)"] table
      by (auto simp: tw(1) table_write_def put_address_def put64_def)
    with None show ?thesis unfolding ioctl using tw [where t = "Suc t"] by (auto simp: kcalled_def)
  next
    case (Some r)
    with loop(2) show ?thesis unfolding ioctl using tw [where t = t] by auto
  qed
qed

text \<open>
  C11: Compaction never moves a page.  For every area, every length and every layout of the address space, the
  request returns 0 after leaving its loop in the first round; no mapping changes, and of the caller's memory
  only the first entry of the result table does, which then says that the first page stayed where it is.
\<close>

theorem compact_moves_nothing:
  assumes laws: "mm_laws K bytes" and alloc: "k_alloc k (Kalloc 4096 (k_alloc k (klog s)) # klog s) \<noteq> 0"
    and arg: "\<And>x. in_range param 24 x \<Longrightarrow> permits VM_READ (flags_at K (mm s) x)"
    and ip: "ip = get_input (mem_read param 24 (bytes (mm s)))"
    and table: "\<And>x. in_range (in_buff ip) 16 x \<Longrightarrow> permits VM_WRITE (flags_at K (mm s) x)"
  shows "\<exists>s'. device_ioctl k K IOCTL_COMPACT_VMA param s = Done (0, s') \<and> flags_at K (mm s') = flags_at K (mm s) \<and>
    bytes (mm s') = mem_write (in_buff ip) (put_address \<lparr>from_addr = in_addr ip, to_addr = in_addr ip\<rparr>) (bytes (mm s))"
  by (rule compact_effect [OF assms])

theorem compact_moves_nothing_witness:
  "\<exists>s'. device_ioctl granting plain_mm IOCTL_COMPACT_VMA 0x200000 (inserted ex_space) = Done (0, s') \<and>
    flags_at plain_mm (mm s') = flags_at plain_mm ex_space \<and>
    contents (mm s') = mem_write 0x201000 (put_address \<lparr>from_addr = 0x300000, to_addr = 0x300000\<rparr>) (contents ex_space)"
proof -
  have ip: "\<lparr>in_addr = 0x300000, in_length = 3, in_buff = 0x201000\<rparr> = get_input (mem_read 0x200000 24 (contents (mm (inserted ex_space))))"
    by (simp add: get_input_def get64_def mem_read_def ex_space_def upt_rec)
  show ?thesis
    using compact_moves_nothing [OF plain_mm_laws, of granting "inserted ex_space" "0x200000", OF _ _ ip]
      permits_ex_space [of "0x200000" 24] permits_ex_space [of "0x201000" 16]
    by (simp add: granting_def inserted_def)
qed

section \<open>Loading and unloading\<close>

interpretation bt_files: chrdev_files device_open device_release device_opened klog
  "\<lambda>s. (major s, demo_class s, demo_device s, cs614_kobject s, mm s)"
  by unfold_locales (simp_all add: device_open_def device_release_def kcalled_def Let_def)

interpretation bt_module: chrdev_module "init_module kernel_kobj" "cleanup_module kernel_kobj" klog "\<lambda>k s. kernel_kobj \<noteq> 0"
  for kernel_kobj
proof
  fix k s s'
  assume *: "init_module kernel_kobj k s = (0, s')" "kernel_kobj \<noteq> 0" "live (klog s) = {}" "well_used (klog s)"
  show "live (klog (cleanup_module kernel_kobj s')) = {} \<and> well_used (klog (cleanup_module kernel_kobj s'))"
    using * PTR_ERR_nonzero by (auto simp: module_defs ENOMEM_def split: if_splits)
qed

text \<open>
  Loading the VMA module.  A successful load is undone by the unload without loss and without a double
  release.  A load that fails at the sysfs directory reports ENOMEM and leaves the device, its class and its number
  registered, with a file operations table in a module that is not loaded; one that fails at the sysfs file
  leaves the device behind while its class is destroyed; every earlier failure leaves nothing.
\<close>


lemma bt_load_unload:
  assumes "init_module kernel_kobj k s = (e, s')" "kernel_kobj \<noteq> 0" "klog s = []"
  shows "(e = 0 \<longrightarrow> live (klog (cleanup_module kernel_kobj s')) = {} \<and> well_used (klog (cleanup_module kernel_kobj s'))) \<and>
    (e \<noteq> 0 \<longrightarrow> live (klog s') =
       (if \<exists>n. Kobject_create n 0 \<in> set (klog s') then {R_chrdev (major s'), R_class (demo_class s'), R_device (MKDEV (major s') 0)}
        else if \<exists>p n r. Sysfs_create_file p n r \<in> set (klog s') then {R_device (MKDEV (major s') 0)}
        else {}))"
proof -
  have "live (klog (cleanup_module kernel_kobj s')) = {} \<and> well_used (klog (cleanup_module kernel_kobj s'))" if "e = 0"
    using bt_module.load_unload [of kernel_kobj k s s'] assms that by simp
  moreover have "live (klog s') =
       (if \<exists>n. Kobject_create n 0 \<in> set (klog s') then {R_chrdev (major s'), R_class (demo_class s'), R_device (MKDEV (major s') 0)}
        else if \<exists>p n r. Sysfs_create_file p n r \<in> set (klog s') then {R_device (MKDEV (major s') 0)} else {})" if "e \<noteq> 0"
    using assms that by (auto simp: module_defs split: if_splits)
  ultimately show ?thesis by blast
qed

end
