(* ===== verification/Btplus_Moves.thy ===== *)
theory Btplus_Moves
  imports Btplus_Requests
begin

text \<open>
  The two requests of the VMA module that move an area: the copy loop, what a move does to the
  address space, the hole it chooses, and the requests that fail.
\<close>

section \<open>Images of structures\<close>

lemma bit_get64:
  "length bs = 8 \<Longrightarrow> bit (get64 bs) n \<longleftrightarrow> n < 64 \<and> bit (bs ! (n div 8)) (n mod 8)"
proof -
  have gen: "bit (foldr (\<lambda>b w. ucast b OR push_bit 8 w) bs (0 :: u64)) n \<longleftrightarrow>
      n < 64 \<and> n < 8 * length bs \<and> bit (bs ! (n div 8)) (n mod 8)" for bs :: "u8 list" and n
  proof (induction bs arbitrary: n)
    case (Cons b bs)
    show ?case
    proof (cases "n < 8")
      case True
      then show ?thesis by (simp add: bit_or_iff bit_push_bit_iff bit_ucast_iff)
    next
      case False
      then obtain n' where n: "n = n' + 8" using le_Suc_ex [of 8 n] by (auto simp: add.commute)
      have div_eight: "(n' + 8) div 8 = Suc (n' div 8)" by simp
      have "\<not> bit b n" using bit_imp_le_length [of b n] False by auto
      then show ?thesis using Cons [of n'] by (auto simp: n div_eight bit_or_iff bit_push_bit_iff bit_ucast_iff)
    qed
  qed simp
  assume "length bs = 8"
  then show ?thesis using gen [of bs n] by (simp add: get64_def)
qed

lemma get64_put64 [simp]: "get64 (put64 w @ bs) = w"
proof -
  have t: "get64 (put64 w @ bs) = get64 (put64 w)" by (simp add: get64_def put64_def)
  show ?thesis unfolding t
  proof (rule bit_word_eqI)
    fix n assume "n < LENGTH(64)"
    then show "bit (get64 (put64 w)) n = bit w n"
      by (subst bit_get64) (auto simp: put64_def bit_ucast_iff bit_drop_bit_eq)
  qed
qed

lemma get_put_address [simp]: "get_address (put_address a) = a"
proof -
  have "drop 8 (put64 x @ bs) = bs" for x bs by (simp add: put64_def)
  then show ?thesis using get64_put64 [of _ "[]"] by (simp add: get_address_def put_address_def)
qed

lemma length_put_address [simp]: "length (put_address a) = 16"
  by (simp add: put_address_def put64_def)

section \<open>The shape of the new mapping\<close>

lemma and_bit_flag:
  "(w :: u64) AND 1 = (if bit w 0 then 1 else 0)" "w AND 2 = (if bit w 1 then 2 else 0)"
  "w AND 4 = (if bit w 2 then 4 else 0)" "w AND 8 = (if bit w 3 then 8 else 0)"
proof -
  have *: "w AND 2 ^ n = (if bit w n then 2 ^ n else 0)" for n
    by (rule bit_word_eqI) (auto simp: bit_and_iff bit_exp_iff)
  show "w AND 1 = (if bit w 0 then 1 else 0)" "w AND 2 = (if bit w 1 then 2 else 0)"
    "w AND 4 = (if bit w 2 then 4 else 0)" "w AND 8 = (if bit w 3 then 8 else 0)"
    using * [of 0] * [of 1] * [of 2] * [of 3] by simp_all
qed

lemma area_flags_move: "area_flags (move_prot v) (move_flags v) = vm_flags v AND 15"
proof -
  let ?w = "vm_flags v"
  have "?w AND 15 = (?w AND 1) OR (?w AND 2) OR (?w AND 4) OR (?w AND 8)"
    by (simp add: bit.conj_disj_distrib [symmetric])
  then show ?thesis
    by (simp add: area_flags_def move_prot_def move_flags_def vm_consts and_bit_flag Let_def)
qed

lemma move_size_eq:
  assumes "4096 dvd unat (vm_start v)" "4096 dvd unat (vm_end v)" "vm_start v \<le> a" "a \<le> vm_end v"
  shows "move_size v a = vm_end v - a"
proof -
  let ?d = "vm_end v - vm_start v"
  have "unat ?d = unat (vm_end v) - unat (vm_start v)" using assms(3,4) by (intro unat_sub) (rule order_trans)
  then have dvd: "4096 dvd unat ?d" using assms(1,2) by simp
  have "unat (drop_bit 12 ?d) = unat ?d div 4096" by (simp add: drop_bit_eq_div unat_div)
  then have "unat (drop_bit 12 ?d) * 4096 = unat ?d" using dvd by simp
  then have "of_nat (unat (drop_bit 12 ?d) * 4096) = (of_nat (unat ?d) :: u64)" by simp
  then have "drop_bit 12 ?d * 4096 = ?d" by simp
  then show ?thesis by (simp add: move_size_def)
qed

section \<open>The copy loop\<close>

lemma copy_pages_ok:
  assumes "mm_laws K bytes" "b \<noteq> 0" "unat it = n" "4096 * n \<le> 2 ^ 64"
    "\<And>x. in_range a (4096 * n) x \<Longrightarrow> permits VM_READ (flags_at K m x)"
    "\<And>x. in_range c (4096 * n) x \<Longrightarrow> permits VM_WRITE (flags_at K m x)"
    "\<And>x. in_range a (4096 * n) x \<Longrightarrow> \<not> in_range c (4096 * n) x"
  shows "\<exists>m'. copy_pages K b it a c m = Done (True, m') \<and> flags_at K m' = flags_at K m \<and>
    (\<forall>x. bytes m' x = (if in_range c (4096 * n) x then bytes m (a + (x - c)) else bytes m x))"
  using assms
proof (induction n arbitrary: it a c m)
  case 0
  then have "it = 0" by (simp add: unat_eq_0)
  then show ?case by (auto simp: copy_pages.simps)
next
  case (Suc k)
  let ?page = "mem_read a 4096 (bytes m)"
  have it0: "it \<noteq> 0" using Suc.prems(3) by auto
  then have it: "it \<noteq> 0" "unat (it - 1) = k" using Suc.prems(3) unat_minus_one [OF it0] by auto
  have split: "in_range y (4096 * Suc k) x \<longleftrightarrow> in_range y 4096 x \<or> in_range (y + 4096) (4096 * k) x" for y x
    using in_range_split [of 4096 "4096 * k" y x] Suc.prems(4) by simp
  have src: "from_user K a 4096 m = (0, ?page)"
    using from_user_ok [OF Suc.prems(1), of a 4096 m] Suc.prems(5) unfolding split by simp
  obtain m1 where m1: "to_user K c ?page m = (0, m1)" "bytes m1 = mem_write c ?page (bytes m)" "flags_at K m1 = flags_at K m"
    using to_user_ok [OF Suc.prems(1), of c ?page m] Suc.prems(6) unfolding split by auto
  have "\<exists>m'. copy_pages K b (it - 1) (a + 4096) (c + 4096) m1 = Done (True, m') \<and> flags_at K m' = flags_at K m1 \<and>
    (\<forall>x. bytes m' x = (if in_range (c + 4096) (4096 * k) x then bytes m1 (a + 4096 + (x - (c + 4096))) else bytes m1 x))"
    using Suc.prems m1(3) it(2) unfolding split by (intro Suc.IH) auto
  then obtain m' where m': "copy_pages K b (it - 1) (a + 4096) (c + 4096) m1 = Done (True, m')" "flags_at K m' = flags_at K m1"
    "\<And>x. bytes m' x = (if in_range (c + 4096) (4096 * k) x then bytes m1 (a + (x - c)) else bytes m1 x)"
    by auto
  have first: "bytes m1 x = (if in_range c 4096 x then bytes m (a + (x - c)) else bytes m x)" for x
    unfolding m1(2) by (subst mem_write_apply) (auto simp: in_range_def)
  have "bytes m' x = (if in_range c (4096 * Suc k) x then bytes m (a + (x - c)) else bytes m x)" for x
  proof (cases "in_range (c + 4096) (4096 * k) x")
    case False
    then show ?thesis unfolding split m'(3) first by simp
  next
    case True
    then have "in_range a (4096 * Suc k) (a + (x - c))"
      using split [of c x] by (simp add: in_range_def)
    then have "\<not> in_range c 4096 (a + (x - c))" using Suc.prems(7) split [of c] by blast
    then show ?thesis using True unfolding split m'(3) first by simp
  qed
  moreover have "copy_pages K b it a c m = Done (True, m')"
    using it(1) Suc.prems(2) src m1(1) m'(1) by (simp add: copy_pages.simps [of K b it])
  ultimately show ?case using m'(2) m1(3) by auto
qed

section \<open>A move\<close>

text \<open>
  The \<open>n\<close> bytes at \<open>a\<close> moved to \<open>c\<close>: the old addresses are free, the new ones hold the old contents under
  the old access rights, and no other address changed.
\<close>

definition moved :: "'m mmapi \<Rightarrow> ('m \<Rightarrow> mem) \<Rightarrow> u64 \<Rightarrow> u64 \<Rightarrow> nat \<Rightarrow> 'm \<Rightarrow> 'm \<Rightarrow> bool" where
  "moved K bytes a c n m m' \<longleftrightarrow>
     (\<forall>x. in_range a n x \<longrightarrow> flags_at K m' x = None \<and> bytes m' (c + (x - a)) = bytes m x \<and>
        map_option (\<lambda>w. w AND 15) (flags_at K m' (c + (x - a))) = map_option (\<lambda>w. w AND 15) (flags_at K m x)) \<and>
     (\<forall>x. \<not> in_range a n x \<and> \<not> in_range c n x \<longrightarrow> flags_at K m' x = flags_at K m x \<and> bytes m' x = bytes m x)"

lemma in_range_shift: "in_range a n x \<Longrightarrow> in_range c n (c + (x - a))"
  by (simp add: in_range_def)

lemma permits_low: "w AND 15 = w' AND 15 \<Longrightarrow> permits VM_WRITE (Some w) = permits VM_WRITE (Some w')"
proof -
  assume "w AND 15 = w' AND 15"
  then have "(w AND 15) AND 2 = (w' AND 15) AND 2" by simp
  then show ?thesis by (simp add: permits_def VM_WRITE_def and.assoc)
qed

text \<open>The iteration count of the copy loop, an \<^verbatim>\<open>int\<close>, is exact below 16 TB.\<close>

lemma iterations_eq:
  fixes sz :: u64
  assumes "unat sz < 2 ^ 44"
  shows "unat (ucast (sz div 4096) :: u32) = unat sz div 4096"
proof -
  have "unat (sz div 4096) = unat sz div 4096" by (simp add: unat_div)
  moreover have "unat sz div 4096 < 2 ^ 32" using assms by simp
  ultimately show ?thesis by (simp add: unsigned_ucast_eq take_bit_eq_mod)
qed

lemma move_core:
  assumes laws: "mm_laws K bytes" and b: "b \<noteq> 0"
    and src: "\<And>x. in_range a (unat sz) x \<Longrightarrow> flags_at K m x = Some (vm_flags v)"
    and rw: "vm_flags v AND VM_READ \<noteq> 0" "vm_flags v AND VM_WRITE \<noteq> 0"
    and al: "4096 dvd unat a" "4096 dvd unat sz" "unat sz < 2 ^ 44"
    and map: "vm_mmap K c sz (move_prot v) (move_flags v) m = (c, m1)" "\<not> IS_ERR c"
  shows "\<exists>m2. copy_pages K b (ucast (sz div 4096)) a c m1 = Done (True, m2) \<and>
    moved K bytes a c (unat sz) m (vm_munmap K a sz m2)"
proof -
  let ?n = "unat sz"
  note mp = vm_mmap_ok [OF laws al(2) map]
  have disj: "\<not> in_range c ?n x" if "in_range a ?n x" for x using src [OF that] mp(1) [of x] by auto
  have n: "4096 * (?n div 4096) = ?n" using al(2) by simp
  note it = iterations_eq [OF al(3)]
  have rd: "permits VM_READ (flags_at K m1 x)" if "in_range a ?n x" for x
    using src [OF that] mp(3) [OF disj [OF that]] rw(1) by (simp add: permits_def)
  have new: "\<exists>w. flags_at K m1 x = Some w \<and> w AND 15 = vm_flags v AND 15" if "in_range c ?n x" for x
    using mp(2) [OF that] by (simp add: area_flags_move)
  have wr: "permits VM_WRITE (flags_at K m1 x)" if "in_range c ?n x" for x
    using new [OF that] permits_low [of _ "vm_flags v"] rw(2) by (auto simp: permits_def)
  obtain m2 where m2: "copy_pages K b (ucast (sz div 4096)) a c m1 = Done (True, m2)" "flags_at K m2 = flags_at K m1"
    "\<And>x. bytes m2 x = (if in_range c ?n x then bytes m1 (a + (x - c)) else bytes m1 x)"
    using copy_pages_ok [OF laws b it, of a m1 c] unfolding n using rd wr disj unat_u64 [of sz] by auto
  note un = vm_munmap_ok [OF laws al(1,2), where m = m2]
  have "moved K bytes a c ?n m (vm_munmap K a sz m2)"
    unfolding moved_def
  proof (intro conjI allI impI; (elim conjE)?)
    fix x assume x: "in_range a ?n x"
    let ?y = "c + (x - a)"
    have y: "in_range c ?n ?y" "\<not> in_range a ?n ?y" using in_range_shift [OF x] disj by blast+
    show "flags_at K (vm_munmap K a sz m2) x = None" by (rule un(1) [OF x])
    show "bytes (vm_munmap K a sz m2) ?y = bytes m x"
      using un(3) [OF y(2)] m2(3) [of ?y] y(1) mp(4) [OF disj [OF x]] by simp
    show "map_option (\<lambda>w. w AND 15) (flags_at K (vm_munmap K a sz m2) ?y) = map_option (\<lambda>w. w AND 15) (flags_at K m x)"
      using un(2) [OF y(2)] new [OF y(1)] src [OF x] m2(2) by auto
  next
    fix x assume x: "\<not> in_range a ?n x" "\<not> in_range c ?n x"
    show "flags_at K (vm_munmap K a sz m2) x = flags_at K m x" using un(2) [OF x(1)] m2(2) mp(3) [OF x(2)] by simp
    show "bytes (vm_munmap K a sz m2) x = bytes m x" using un(3) [OF x(1)] m2(3) [of x] x(2) mp(4) [OF x(2)] by simp
  qed
  with m2(1) show ?thesis by blast
qed

text \<open>An area of the caller, page aligned, and an address in it from which it is to be moved.\<close>

definition in_area :: "'m mmapi \<Rightarrow> 'm \<Rightarrow> vma \<Rightarrow> u64 \<Rightarrow> bool" where
  "in_area K m v a \<longleftrightarrow>
     (\<forall>x. in_range (vm_start v) (unat (vm_end v - vm_start v)) x \<longrightarrow> mtree_load K x m = Some v) \<and>
     4096 dvd unat (vm_start v) \<and> 4096 dvd unat (vm_end v) \<and> 4096 dvd unat a \<and>
     vm_start v \<le> a \<and> a < vm_end v \<and> unat (vm_end v - a) < 2 ^ 44"

lemma in_area_facts:
  assumes "in_area K m v a"
  shows "mtree_load K a m = Some v" "move_size v a = vm_end v - a" "4096 dvd unat (vm_end v - a)"
    "in_range a (unat (vm_end v - a)) x \<Longrightarrow> mtree_load K x m = Some v"
proof -
  have le: "unat (vm_start v) \<le> unat a" "unat a < unat (vm_end v)"
    using assms by (simp_all add: in_area_def word_le_nat_alt word_less_nat_alt)
  then have ord: "vm_start v \<le> a" "a \<le> vm_end v" "vm_start v \<le> vm_end v"
    by (simp_all add: word_le_nat_alt)
  have sub: "unat (vm_end v - a) = unat (vm_end v) - unat a" "unat (vm_end v - vm_start v) = unat (vm_end v) - unat (vm_start v)"
    "unat (a - vm_start v) = unat a - unat (vm_start v)"
    using ord by (simp_all add: unat_sub)
  show "move_size v a = vm_end v - a" using assms ord by (intro move_size_eq) (simp_all add: in_area_def)
  show "4096 dvd unat (vm_end v - a)" unfolding sub using assms by (simp add: in_area_def)
  have range: "mtree_load K x m = Some v" if x: "in_range a (unat (vm_end v - a)) x" for x
  proof -
    obtain i where i: "i < unat (vm_end v) - unat a" "x = a + of_nat i" using in_range_cases [OF x] unfolding sub by blast
    define d where "d = unat a - unat (vm_start v) + i"
    have x: "x = vm_start v + of_nat d" using i(2) le by (simp add: d_def of_nat_diff)
    have "d < unat (vm_end v) - unat (vm_start v)" using i(1) le by (simp add: d_def)
    moreover from this have "d < 2 ^ 64" using unat_u64 [of "vm_end v"] by linarith
    ultimately have "in_range (vm_start v) (unat (vm_end v - vm_start v)) x"
      unfolding sub x by (simp only: in_range_offset)
    then show ?thesis using assms by (simp add: in_area_def)
  qed
  then show "in_range a (unat (vm_end v - a)) x \<Longrightarrow> mtree_load K x m = Some v" by blast
  show "mtree_load K a m = Some v" using range [of a] le sub by (simp add: in_range_def)
qed

lemma area_found:
  assumes "mm_laws K bytes" "mtree_load K a m = Some v"
  shows "find_vma K a m = Some v" "\<not> vm_start v > a"
  using assms by (auto simp: mm_laws_def finds_ok_def not_less)

section \<open>The requests\<close>

text \<open>The caller's argument: a readable structure with the two addresses.\<close>

definition requests :: "'m mmapi \<Rightarrow> ('m \<Rightarrow> mem) \<Rightarrow> 'm \<Rightarrow> u64 \<Rightarrow> address \<Rightarrow> bool" where
  "requests K bytes m param ad \<longleftrightarrow>
     (\<forall>x. in_range param 16 x \<longrightarrow> permits VM_READ (flags_at K m x)) \<and> mem_read param 16 (bytes m) = put_address ad"

lemma from_user_request: "mm_laws K bytes \<Longrightarrow> requests K bytes m param ad \<Longrightarrow> from_user K param 16 m = (0, put_address ad)"
  using from_user_ok [of K bytes param 16 m] by (simp add: requests_def)

text \<open>Both buffers of the handler are allocated.\<close>

definition buffers :: "kapi \<Rightarrow> 'm bt \<Rightarrow> bool" where
  "buffers k s \<longleftrightarrow> k_alloc k (klog s) \<noteq> 0 \<and> k_alloc k (Kalloc 4096 (k_alloc k (klog s)) # klog s) \<noteq> 0"

definition both_allocated :: "kapi \<Rightarrow> 'm bt \<Rightarrow> 'm bt" where
  "both_allocated k s = snd (kalloc k 16 (snd (kalloc k 4096 s)))"

lemma both_allocated_simps [simp]:
  "mm (both_allocated k s) = mm s"
  "klog (both_allocated k s) = Kalloc 16 (k_alloc k (Kalloc 4096 (k_alloc k (klog s)) # klog s)) # Kalloc 4096 (k_alloc k (klog s)) # klog s"
  by (simp_all add: both_allocated_def kernel_defs Let_def)

lemma both_kallocs:
  "\<exists>s1. kalloc k 4096 s = (k_alloc k (klog s), s1) \<and> mm s1 = mm s \<and>
     kalloc k 16 s1 = (k_alloc k (Kalloc 4096 (k_alloc k (klog s)) # klog s), both_allocated k s)"
  by (simp add: both_allocated_def kernel_defs Let_def)

lemma ioctl_move_to:
  assumes "mm_laws K bytes" "buffers k s" "requests K bytes (mm s) param \<lparr>from_addr = a, to_addr = c\<rparr>" "S = both_allocated k s"
  shows "device_ioctl k K IOCTL_MVE_VMA_TO param s =
    (if mtree_load K a (mm s) = None then Done (- 1, S)
     else if mtree_load K c (mm s) \<noteq> None then Done (- 1, S)
     else (case find_vma K a (mm s) of None \<Rightarrow> Done (- 1, S)
       | Some v \<Rightarrow> if vm_start v > a then Done (- 1, S)
           else (let (ptr1, m) = vm_mmap K c (move_size v a) (move_prot v) (move_flags v) (mm s)
                 in if IS_ERR ptr1 then Done (- 1, S\<lparr>mm := m\<rparr>)
                    else obind (copy_pages K (k_alloc k (klog s)) (ucast (move_size v a div 4096)) a c m) (\<lambda>(ok, m).
                      if \<not> ok then Done (0, S\<lparr>mm := m\<rparr>)
                      else Done (0, kcalled (Kfree (k_alloc k (Kalloc 4096 (k_alloc k (klog s)) # klog s)))
                        (S\<lparr>mm := vm_munmap K a (move_size v a) m\<rparr>))))))"
proof -
  obtain s1 where "kalloc k 4096 s = (k_alloc k (klog s), s1)" "mm s1 = mm s" "mm S = mm s"
    "kalloc k 16 s1 = (k_alloc k (Kalloc 4096 (k_alloc k (klog s)) # klog s), S)"
    using both_kallocs [of k s] assms(4) by auto
  then show ?thesis using assms(2) from_user_request [OF assms(1,3)]
    by (cases "find_vma K a (mm s)") (simp_all add: device_ioctl_def move_vma_to_def buffers_def Let_def cong: if_cong)
qed

lemma ioctl_move:
  assumes "mm_laws K bytes" "buffers k s" "requests K bytes (mm s) param \<lparr>from_addr = a, to_addr = c\<rparr>" "S = both_allocated k s"
  shows "device_ioctl k K IOCTL_MVE_VMA param s =
    (if mtree_load K a (mm s) = None then Done (- 1, S)
     else (case find_vma K a (mm s) of None \<Rightarrow> Done (- 1, S)
       | Some v \<Rightarrow> if vm_start v > a then Done (- 1, S)
           else (let (j, c) = find_hole K (mm s) (move_size v a div 4096 + 1) 0 (vm_end v) in
               if j \<noteq> move_size v a div 4096 + 1 then Done (- 1, S)
               else if mtree_load K (c - move_size v a) (mm s) \<noteq> None then Done (- 1, S)
               else (let (ptr1, m) = vm_mmap K (c - move_size v a) (move_size v a) (move_prot v) (move_flags v) (mm s)
                 in if IS_ERR ptr1 then Done (- 1, S\<lparr>mm := m\<rparr>)
                    else obind (copy_pages K (k_alloc k (klog s)) (ucast (move_size v a div 4096)) a (c - move_size v a) m) (\<lambda>(ok, m).
                      if \<not> ok then Done (0, S\<lparr>mm := m\<rparr>)
                      else (let (r, m) = to_user K param (put_address \<lparr>from_addr = a, to_addr = c - move_size v a\<rparr>)
                              (vm_munmap K a (move_size v a) m)
                        in if r \<noteq> 0 then Done (- 1, S\<lparr>mm := m\<rparr>)
                           else Done (0, kcalled (Kfree (k_alloc k (Kalloc 4096 (k_alloc k (klog s)) # klog s))) (S\<lparr>mm := m\<rparr>))))))))"
proof -
  obtain s1 where "kalloc k 4096 s = (k_alloc k (klog s), s1)" "mm s1 = mm s" "mm S = mm s"
    "kalloc k 16 s1 = (k_alloc k (Kalloc 4096 (k_alloc k (klog s)) # klog s), S)"
    using both_kallocs [of k s] assms(4) by auto
  then show ?thesis using assms(2) from_user_request [OF assms(1,3)]
    by (cases "find_vma K a (mm s)") (simp_all add: device_ioctl_def move_vma_def buffers_def ioctl_defs Let_def cong: if_cong)
qed

text \<open>
  C6: Moving an area to a given address.  For a readable and writable area, a free target and a kernel that
  places the new mapping there, the request returns 0 and moves everything from the given address to the end of
  the area: the contents and access rights appear at the target, the old addresses are free, and no other
  address of the process changes.
\<close>

theorem move_to_moves:
  assumes laws: "mm_laws K bytes" and bufs: "buffers k s"
    and req: "requests K bytes (mm s) param \<lparr>from_addr = a, to_addr = c\<rparr>"
    and area: "in_area K (mm s) v a" "vm_flags v AND VM_READ \<noteq> 0" "vm_flags v AND VM_WRITE \<noteq> 0"
    and target: "mtree_load K c (mm s) = None" "\<not> IS_ERR c"
    and hint: "fst (vm_mmap K c (vm_end v - a) (move_prot v) (move_flags v) (mm s)) = c"
  shows "\<exists>s'. device_ioctl k K IOCTL_MVE_VMA_TO param s = Done (0, s') \<and>
    moved K bytes a c (unat (vm_end v - a)) (mm s) (mm s')"
proof -
  note f = in_area_facts [OF area(1)]
  note fv = area_found [OF laws f(1)]
  obtain m1 where m1: "vm_mmap K c (vm_end v - a) (move_prot v) (move_flags v) (mm s) = (c, m1)"
    using hint by (metis prod.collapse)
  have "\<exists>m2. copy_pages K (k_alloc k (klog s)) (ucast ((vm_end v - a) div 4096)) a c m1 = Done (True, m2) \<and>
      moved K bytes a c (unat (vm_end v - a)) (mm s) (vm_munmap K a (vm_end v - a) m2)"
    using laws bufs f area m1 target(2) by (intro move_core) (auto simp: buffers_def flags_at_def in_area_def)
  then show ?thesis using ioctl_move_to [OF laws bufs req refl] f(1,2) fv target m1 by (auto simp: kcalled_def)
qed

section \<open>The hole\<close>

text \<open>Page \<open>i\<close> above the area starts the first \<open>n + 1\<close> free pages in a row there, for an area of \<open>n\<close> pages.\<close>

definition first_hole :: "'m mmapi \<Rightarrow> 'm \<Rightarrow> u64 \<Rightarrow> nat \<Rightarrow> nat \<Rightarrow> bool" where
  "first_hole K m a n i \<longleftrightarrow> (\<forall>j\<le>n. mtree_load K (page a (i + j)) m = None) \<and>
     (\<forall>i'<i. \<exists>j\<le>n. mtree_load K (page a (i' + j)) m \<noteq> None) \<and> unat a + 4096 * (i + n) < 2 ^ 47"

lemma row_window: "row P a (Suc n) e \<longleftrightarrow> (\<exists>i. e = i + n \<and> (\<forall>j\<le>n. P (page a (i + j))))"
proof
  assume r: "row P a (Suc n) e"
  then have "n \<le> e" by (simp add: row_def)
  moreover have "\<forall>j\<le>n. P (page a (e - n + j))" using r \<open>n \<le> e\<close> by (auto simp: row_def)
  ultimately show "\<exists>i. e = i + n \<and> (\<forall>j\<le>n. P (page a (i + j)))" by (intro exI [of _ "e - n"]) simp
next
  assume "\<exists>i. e = i + n \<and> (\<forall>j\<le>n. P (page a (i + j)))"
  then obtain i where i: "e = i + n" "\<forall>j\<le>n. P (page a (i + j))" by blast
  have "P (page a x)" if "e < x + Suc n" "x \<le> e" for x
    using i(2) [rule_format, of "x - i"] that i(1) by simp
  then show "row P a (Suc n) e" using i(1) by (simp add: row_def)
qed

text \<open>The search returns the first hole, or no hole exists below the limit of the address space.\<close>

lemma find_hole_first:
  assumes "unat a < 2 ^ 48" "Suc n < 2 ^ 64"
  shows "(\<exists>i. find_hole K m (of_nat (Suc n)) 0 a = (of_nat (Suc n), page a (i + n)) \<and> first_hole K m a n i) \<or>
    (fst (find_hole K m (of_nat (Suc n)) 0 a) \<noteq> of_nat (Suc n) \<and> (\<nexists>i. first_hole K m a n i))"
proof -
  let ?P = "\<lambda>x. mtree_load K x m = None"
  consider (hole) e where "scan ?P (of_nat (Suc n)) 0 a = (of_nat (Suc n), page a e)" "row ?P a (Suc n) e"
      "\<forall>e'<e. \<not> row ?P a (Suc n) e'" "unat a + 4096 * e < 2 ^ 47"
    | (none) r b where "scan ?P (of_nat (Suc n)) 0 a = (of_nat r, b)" "r < Suc n"
      "\<forall>e. unat a + 4096 * e < 2 ^ 47 \<longrightarrow> \<not> row ?P a (Suc n) e"
    using scan_first [of "Suc n" a ?P] assms by blast
  then show ?thesis
  proof cases
    case hole
    then obtain i where i: "e = i + n" "\<forall>j\<le>n. ?P (page a (i + j))" unfolding row_window by blast
    have "first_hole K m a n i" unfolding first_hole_def
    proof (intro conjI allI impI)
      fix i' assume "i' < i"
      then have "\<not> row ?P a (Suc n) (i' + n)" using hole(3) i(1) by simp
      then show "\<exists>j\<le>n. mtree_load K (page a (i' + j)) m \<noteq> None" unfolding row_window by blast
    qed (use i hole(4) in auto)
    then show ?thesis using hole(1) i(1) by (auto simp: find_hole_scan)
  next
    case none
    have "(of_nat r :: u64) \<noteq> of_nat (Suc n)" using of_nat_u64_inj [of r "Suc n"] none(2) assms(2) by simp
    moreover have "\<not> first_hole K m a n i" for i
      using none(3) [rule_format, of "i + n"] unfolding row_window first_hole_def by blast
    ultimately show ?thesis using none(1) by (simp add: find_hole_scan)
  qed
qed

lemma of_nat_pages: "(w :: u64) div 4096 + 1 = of_nat (Suc (unat w div 4096))"
proof -
  have "unat (w div 4096) = unat w div 4096" by (simp add: unat_div)
  moreover have "w div 4096 = of_nat (unat (w div 4096))" by simp
  ultimately have "w div 4096 = of_nat (unat w div 4096)" by (simp only:)
  then show ?thesis by simp
qed

lemma page_back:
  assumes "4096 dvd unat sz"
  shows "page a (i + unat sz div 4096) - sz = page a i"
proof -
  have "unat sz div 4096 * 4096 = unat sz" using assms by simp
  then have "of_nat (unat sz div 4096 * 4096) = sz" by simp
  then have "4096 * of_nat (unat sz div 4096) = sz" by (simp add: mult.commute)
  then show ?thesis by (simp add: page_def algebra_simps)
qed

text \<open>
  C10: Moving an area to a hole.  The request chooses the lowest address above the area that starts one
  more free page in a row than the area has left, moves the area there, and stores the address in the
  caller's structure; nothing else changes.  The extra page is a quirk of the counting: a hole that fits exactly is
  passed over.
\<close>

theorem move_finds_first_hole:
  assumes laws: "mm_laws K bytes" and bufs: "buffers k s"
    and req: "requests K bytes (mm s) param \<lparr>from_addr = a, to_addr = c\<rparr>"
      "\<And>x. in_range param 16 x \<Longrightarrow> permits VM_WRITE (flags_at K (mm s) x) \<and> \<not> in_range a (unat (vm_end v - a)) x"
    and area: "in_area K (mm s) v a" "vm_flags v AND VM_READ \<noteq> 0" "vm_flags v AND VM_WRITE \<noteq> 0"
    and hole: "first_hole K (mm s) (vm_end v) (unat (vm_end v - a) div 4096) i"
    and hint: "fst (vm_mmap K (page (vm_end v) i) (vm_end v - a) (move_prot v) (move_flags v) (mm s)) = page (vm_end v) i"
  shows "\<exists>s' m. device_ioctl k K IOCTL_MVE_VMA param s = Done (0, s') \<and>
    moved K bytes a (page (vm_end v) i) (unat (vm_end v - a)) (mm s) m \<and> flags_at K (mm s') = flags_at K m \<and>
    bytes (mm s') = mem_write param (put_address \<lparr>from_addr = a, to_addr = page (vm_end v) i\<rparr>) (bytes m)"
proof -
  let ?sz = "vm_end v - a" and ?c = "page (vm_end v) i"
  note f = in_area_facts [OF area(1)]
  note fv = area_found [OF laws f(1)]
  have lim: "unat (vm_end v) + 4096 * (i + unat ?sz div 4096) < 2 ^ 47" using hole by (simp add: first_hole_def)
  obtain i' where i': "find_hole K (mm s) (of_nat (Suc (unat ?sz div 4096))) 0 (vm_end v) =
      (of_nat (Suc (unat ?sz div 4096)), page (vm_end v) (i' + unat ?sz div 4096))"
    "first_hole K (mm s) (vm_end v) (unat ?sz div 4096) i'"
    using find_hole_first [of "vm_end v" "unat ?sz div 4096" K "mm s"] hole lim by auto
  have "i' = i" using hole i'(2) unfolding first_hole_def by (metis linorder_neqE_nat)
  with i' have search: "find_hole K (mm s) (?sz div 4096 + 1) 0 (vm_end v) = (?sz div 4096 + 1, page (vm_end v) (i + unat ?sz div 4096))"
    unfolding of_nat_pages by simp
  have bk: "page (vm_end v) (i + unat ?sz div 4096) - ?sz = ?c" by (rule page_back [OF f(3)])
  have free: "mtree_load K ?c (mm s) = None" using hole by (auto simp: first_hole_def dest: spec [of _ 0])
  have "unat ?c < 2 ^ 47" using lim unat_page [of "vm_end v" i] by simp
  then have noerr: "\<not> IS_ERR ?c" by (simp add: IS_ERR_def word_le_nat_alt)
  obtain m1 where m1: "vm_mmap K ?c ?sz (move_prot v) (move_flags v) (mm s) = (?c, m1)"
    using hint by (metis prod.collapse)
  have "\<exists>m2. copy_pages K (k_alloc k (klog s)) (ucast (?sz div 4096)) a ?c m1 = Done (True, m2) \<and>
      moved K bytes a ?c (unat ?sz) (mm s) (vm_munmap K a ?sz m2)"
    using laws bufs f area m1 noerr by (intro move_core) (auto simp: buffers_def flags_at_def in_area_def)
  then obtain m2 where m2: "copy_pages K (k_alloc k (klog s)) (ucast (?sz div 4096)) a ?c m1 = Done (True, m2)"
    "moved K bytes a ?c (unat ?sz) (mm s) (vm_munmap K a ?sz m2)" by blast
  let ?m3 = "vm_munmap K a ?sz m2"
  have arg: "permits VM_WRITE (flags_at K ?m3 x)" if x: "in_range param 16 x" for x
  proof -
    have "flags_at K (mm s) x \<noteq> None" using req(2) [OF x] by (auto simp: permits_def simp del: flags_at_None split: option.splits)
    then have "\<not> in_range ?c (unat ?sz) x" using vm_mmap_ok(1) [OF laws f(3) m1 noerr, of x] by (auto simp del: flags_at_None)
    then show ?thesis using m2(2) req(2) [OF x] by (simp add: moved_def)
  qed
  obtain m4 where m4: "to_user K param (put_address \<lparr>from_addr = a, to_addr = ?c\<rparr>) ?m3 = (0, m4)"
    "bytes m4 = mem_write param (put_address \<lparr>from_addr = a, to_addr = ?c\<rparr>) (bytes ?m3)" "flags_at K m4 = flags_at K ?m3"
    using to_user_ok [OF laws, of param "put_address \<lparr>from_addr = a, to_addr = ?c\<rparr>" ?m3] arg by auto
  have "device_ioctl k K IOCTL_MVE_VMA param s =
      Done (0, kcalled (Kfree (k_alloc k (Kalloc 4096 (k_alloc k (klog s)) # klog s))) ((both_allocated k s)\<lparr>mm := m4\<rparr>))"
    unfolding ioctl_move [OF laws bufs req(1) refl]
    using f(1,2) fv search bk free m1 noerr m2(1) m4(1) by simp
  then show ?thesis using m2(2) m4(2,3) by (intro exI [where x = ?m3] exI) (auto simp: kcalled_def)
qed

text \<open>
  C21: Refused moves.  Both requests return -1 and leave the address space as it is when the source address is not
  mapped; the first also when the target is mapped, the second also when there is no hole.  In all
  these cases the two buffers of the handler stay allocated.
\<close>

theorem move_refused:
  assumes laws: "mm_laws K bytes" and bufs: "buffers k s"
    and req: "requests K bytes (mm s) param \<lparr>from_addr = a, to_addr = c\<rparr>"
  shows "(mtree_load K a (mm s) = None \<or> mtree_load K c (mm s) \<noteq> None \<longrightarrow>
      device_ioctl k K IOCTL_MVE_VMA_TO param s = Done (- 1, both_allocated k s)) \<and>
    (mtree_load K a (mm s) = None \<or>
      (\<exists>v. in_area K (mm s) v a \<and> unat (vm_end v) < 2 ^ 47 \<and> (\<nexists>i. first_hole K (mm s) (vm_end v) (unat (vm_end v - a) div 4096) i)) \<longrightarrow>
      device_ioctl k K IOCTL_MVE_VMA param s = Done (- 1, both_allocated k s))"
proof -
  have "device_ioctl k K IOCTL_MVE_VMA param s = Done (- 1, both_allocated k s)"
    if v: "in_area K (mm s) v a" "unat (vm_end v) < 2 ^ 47" "\<nexists>i. first_hole K (mm s) (vm_end v) (unat (vm_end v - a) div 4096) i" for v
  proof -
    note f = in_area_facts [OF v(1)]
    note fv = area_found [OF laws f(1)]
    have "unat (vm_end v - a) < 2 ^ 44" using v(1) by (simp add: in_area_def)
    then have "fst (find_hole K (mm s) ((vm_end v - a) div 4096 + 1) 0 (vm_end v)) \<noteq> (vm_end v - a) div 4096 + 1"
      unfolding of_nat_pages using find_hole_first [of "vm_end v" "unat (vm_end v - a) div 4096" K "mm s"] v(2,3) by auto
    then show ?thesis unfolding ioctl_move [OF laws bufs req refl] using f(1,2) fv by (auto split: prod.splits)
  qed
  then show ?thesis
    using ioctl_move_to [OF laws bufs req refl] ioctl_move [OF laws bufs req refl] by (auto split: option.splits)
qed

text \<open>
  C22: A read-only area cannot be moved, and the caller is not told.  Its pages are copied through a mapping with
  the same rights, so the first copy faults; the request then returns 0, the area stays where it was
  with its contents, and the new, empty mapping stays too.
\<close>

theorem readonly_move_reports_success:
  assumes laws: "mm_laws K bytes" and bufs: "buffers k s"
    and req: "requests K bytes (mm s) param \<lparr>from_addr = a, to_addr = c\<rparr>"
    and area: "in_area K (mm s) v a" "vm_flags v AND VM_READ \<noteq> 0" "vm_flags v AND VM_WRITE = 0"
    and target: "mtree_load K c (mm s) = None" "\<not> IS_ERR c"
    and hint: "fst (vm_mmap K c (vm_end v - a) (move_prot v) (move_flags v) (mm s)) = c"
  shows "\<exists>s'. device_ioctl k K IOCTL_MVE_VMA_TO param s = Done (0, s') \<and>
    (\<forall>x. if in_range c (unat (vm_end v - a)) x then flags_at K (mm s') x \<noteq> None
         else flags_at K (mm s') x = flags_at K (mm s) x \<and> bytes (mm s') x = bytes (mm s) x)"
proof -
  let ?sz = "vm_end v - a"
  note f = in_area_facts [OF area(1)]
  note fv = area_found [OF laws f(1)]
  obtain m1 where m1: "vm_mmap K c ?sz (move_prot v) (move_flags v) (mm s) = (c, m1)"
    using hint by (metis prod.collapse)
  note mp = vm_mmap_ok [OF laws f(3) m1 target(2)]
  have nz: "?sz \<noteq> 0" using area(1) by (auto simp: in_area_def)
  then have c: "in_range c (unat ?sz) c" by (simp add: in_range_def unat_gt_0)
  have page: "4096 \<le> unat ?sz" using f(3) nz by (intro dvd_imp_le) (simp_all add: unat_gt_0)
  have "permits VM_READ (flags_at K m1 x)" if x: "in_range a 4096 x" for x
  proof -
    have x': "in_range a (unat ?sz) x" using in_range_mono [OF x page] .
    then have fl: "flags_at K (mm s) x = Some (vm_flags v)" using f(4) by (simp add: flags_at_def)
    then have "\<not> in_range c (unat ?sz) x" using mp(1) [of x] by (auto simp del: flags_at_None)
    then show ?thesis using mp(3) fl area(2) by (simp add: permits_def)
  qed
  then have src: "from_user K a 4096 m1 = (0, mem_read a 4096 (bytes m1))" using from_user_ok [OF laws, of a 4096 m1] by simp
  obtain w where w: "flags_at K m1 c = Some w" "w AND 15 = vm_flags v AND 15" using mp(2) [OF c] by (auto simp: area_flags_move)
  then have "\<not> permits VM_WRITE (flags_at K m1 c)" using permits_low [OF w(2)] area(3) by (simp add: permits_def)
  then obtain r m2 where m2: "to_user K c (mem_read a 4096 (bytes m1)) m1 = (r, m2)" "r \<noteq> 0" "bytes m2 = bytes m1" "flags_at K m2 = flags_at K m1"
    using to_user_denied [OF laws, of "mem_read a 4096 (bytes m1)" m1 c] by (auto simp: mem_read_def)
  have "ucast (?sz div 4096) \<noteq> (0 :: u32)"
  proof -
    have "unat (ucast (?sz div 4096) :: u32) = unat ?sz div 4096" using area(1) by (intro iterations_eq) (simp add: in_area_def)
    moreover have "0 < unat ?sz div 4096" using page by (simp add: div_greater_zero_iff)
    ultimately show ?thesis by (metis less_irrefl unsigned_0)
  qed
  then have "copy_pages K (k_alloc k (klog s)) (ucast (?sz div 4096)) a c m1 = Done (False, m2)"
    using bufs src m2 by (simp add: copy_pages.simps [of _ _ "ucast (?sz div 4096)"] buffers_def)
  then have "device_ioctl k K IOCTL_MVE_VMA_TO param s = Done (0, (both_allocated k s)\<lparr>mm := m2\<rparr>)"
    unfolding ioctl_move_to [OF laws bufs req refl] using f(1,2) fv target m1 by simp
  moreover have "if in_range c (unat ?sz) x then flags_at K m2 x \<noteq> None
         else flags_at K m2 x = flags_at K (mm s) x \<and> bytes m2 x = bytes (mm s) x" for x
    using mp(2,3,4) [of x] m2(3,4) by (cases "in_range c (unat ?sz) x") (simp_all del: flags_at_None, blast)
  ultimately show ?thesis
    by (intro exI [of _ "(both_allocated k s)\<lparr>mm := m2\<rparr>"]) (simp del: flags_at_None)
qed

section \<open>Examples\<close>

text \<open>Two pages at \<open>0x200000\<close> with the access rights \<open>w\<close>, a page with the request to move the second one of
  them, and nothing else.\<close>

definition two_pages :: "u64 \<Rightarrow> vma" where
  "two_pages w = \<lparr>vm_start = 0x200000, vm_end = 0x202000, vm_flags = w, vm_ops = 0, vm_page_prot = 0\<rparr>"

definition arg_page :: vma where
  "arg_page = \<lparr>vm_start = 0x100000, vm_end = 0x101000, vm_flags = 3, vm_ops = 0, vm_page_prot = 0\<rparr>"

definition move_space :: "u64 \<Rightarrow> u64 \<Rightarrow> space" where
  "move_space w c =
     \<lparr>area = (\<lambda>x. if in_range 0x200000 0x2000 x then Some (two_pages w) else if in_range 0x100000 0x1000 x then Some arg_page else None),
      contents = mem_write 0x100000 (put_address \<lparr>from_addr = 0x201000, to_addr = c\<rparr>) (\<lambda>_. 7)\<rparr>"

lemma in_range_le:
  assumes "unat a + n < 2 ^ 64" "in_range a n x"
  shows "a \<le> x \<and> unat x < unat a + n"
proof -
  obtain i where i: "i < n" "x = a + of_nat i" using in_range_cases [OF assms(2)] by blast
  then have "unat x = unat a + i"
    using assms(1) unat_of_nat_u64 [of i] unat_word_ariths(1) [of a "of_nat i"] by simp
  then show ?thesis using i(1) by (simp add: word_le_nat_alt)
qed

lemma load_move_space:
  "mtree_load plain_mm x (move_space w c) =
     (if in_range 0x200000 0x2000 x then Some (two_pages w) else if in_range 0x100000 0x1000 x then Some arg_page else None)"
  using in_range_le [of "0x200000" "0x2000" x] in_range_le [of "0x100000" "0x1000" x]
  by (auto simp: plain_mm_def space_load_def move_space_def two_pages_def arg_page_def word_less_nat_alt)

lemma request_move_space [simp]: "requests plain_mm contents (move_space w c) 0x100000 \<lparr>from_addr = 0x201000, to_addr = c\<rparr>"
proof -
  let ?bs = "put_address \<lparr>from_addr = 0x201000, to_addr = c\<rparr>"
  have "permits VM_READ (flags_at plain_mm (move_space w c) x)" if x: "in_range 0x100000 16 x" for x
  proof -
    have "in_range 0x100000 0x1000 x" by (rule in_range_mono [OF x]) simp
    moreover have "\<not> in_range 0x200000 0x2000 x"
      using in_range_le [OF _ x] in_range_le [of "0x200000" "0x2000" x] by (auto simp: word_le_nat_alt)
    ultimately show ?thesis
      by (simp add: flags_at_def load_move_space permits_def arg_page_def VM_READ_def del: flags_at_plain)
  qed
  moreover have "mem_read 0x100000 16 (contents (move_space w c)) = ?bs"
    using mem_read_write_same [of ?bs "0x100000" "\<lambda>_. 7"] by (simp add: move_space_def)
  ultimately show ?thesis by (simp add: requests_def)
qed

lemma in_area_move_space [simp]: "in_area plain_mm (move_space w c) (two_pages w) 0x201000"
  unfolding in_area_def by (simp add: load_move_space two_pages_def)

lemma buffers_granting [simp]: "buffers granting (inserted m)"
  by (simp add: buffers_def granting_def inserted_def)

lemma move_space_grants:
  assumes "4096 dvd unat c" "0x10000 \<le> c" "unat c + 0x1000 < 2 ^ 47" "\<And>x. in_range c 0x1000 x \<Longrightarrow> mtree_load plain_mm x (move_space w d) = None"
  shows "fst (vm_mmap plain_mm c 0x1000 p f (move_space w d)) = c"
proof -
  have "all_range (\<lambda>x. space_load x (move_space w d) = None) c 4096"
    by (rule all_rangeI) (use assms(4) in \<open>simp add: plain_mm_def\<close>)
  then have "fits (move_space w d) 4096 c" using assms by (simp add: fits_def)
  then show ?thesis by (simp add: plain_mm_def plain_mmap_def)
qed

theorem move_to_moves_witness:
  "\<exists>s'. device_ioctl granting plain_mm IOCTL_MVE_VMA_TO 0x100000 (inserted (move_space 3 0x300000)) = Done (0, s') \<and>
    moved plain_mm contents 0x201000 0x300000 0x1000 (move_space 3 0x300000) (mm s')"
proof -
  have free: "mtree_load plain_mm x (move_space 3 0x300000) = None" if "in_range 0x300000 0x1000 x" for x
    using in_range_le [OF _ that] in_range_le [of "0x200000" "0x2000" x] in_range_le [of "0x100000" "0x1000" x]
    by (auto simp: load_move_space word_le_nat_alt)
  have "fst (vm_mmap plain_mm 0x300000 0x1000 p f (move_space 3 0x300000)) = 0x300000" for p f
    by (rule move_space_grants) (use free in auto)
  moreover have "mtree_load plain_mm 0x300000 (move_space 3 0x300000) = None" by (rule free) (simp add: in_range_def)
  ultimately show ?thesis
    using move_to_moves [OF plain_mm_laws, of granting "inserted (move_space 3 0x300000)" "0x100000" "0x201000" "0x300000" "two_pages 3"]
      in_area_move_space [of 3 "0x300000"]
    by (simp add: two_pages_def vm_consts IS_ERR_def)
qed

lemma free_above:
  assumes "in_range c 0x1000 x" "0x202000 \<le> unat c" "unat c < 2 ^ 47"
  shows "mtree_load plain_mm x (move_space w d) = None"
  using in_range_le [OF _ assms(1)] assms(2,3) in_range_le [of "0x200000" "0x2000" x] in_range_le [of "0x100000" "0x1000" x]
  by (auto simp: load_move_space word_le_nat_alt)

theorem move_finds_first_hole_witness:
  "\<exists>s' m. device_ioctl granting plain_mm IOCTL_MVE_VMA 0x100000 (inserted (move_space 3 0)) = Done (0, s') \<and>
    moved plain_mm contents 0x201000 0x202000 0x1000 (move_space 3 0) m \<and>
    contents (mm s') = mem_write 0x100000 (put_address \<lparr>from_addr = 0x201000, to_addr = 0x202000\<rparr>) (contents m)"
proof -
  have hint: "fst (vm_mmap plain_mm 0x202000 0x1000 p f (move_space 3 0)) = 0x202000" for p f
    by (rule move_space_grants) (use free_above [of "0x202000"] in auto)
  have "mtree_load plain_mm (page 0x202000 j) (move_space 3 0) = None" if "j \<le> 1" for j
    using free_above [of "page 0x202000 j" "page 0x202000 j"] unat_page [of "0x202000" j] that by (simp add: in_range_def)
  then have hole: "first_hole plain_mm (move_space 3 0) 0x202000 1 0" by (simp add: first_hole_def)
  have arg: "permits VM_WRITE (flags_at plain_mm (move_space 3 0) x) \<and> \<not> in_range 0x201000 0x1000 x" if x: "in_range 0x100000 16 x" for x
  proof -
    have "in_range 0x100000 0x1000 x" by (rule in_range_mono [OF x]) simp
    moreover have "\<not> in_range 0x200000 0x2000 x" "\<not> in_range 0x201000 0x1000 x"
      using in_range_le [OF _ x] in_range_le [of "0x200000" "0x2000" x] in_range_le [of "0x201000" "0x1000" x]
      by (auto simp: word_le_nat_alt)
    ultimately show ?thesis
      by (simp add: flags_at_def load_move_space permits_def arg_page_def VM_WRITE_def del: flags_at_plain)
  qed
  have v: "vm_end (two_pages 3) = 0x202000" "vm_flags (two_pages 3) = 3" by (simp_all add: two_pages_def)
  from move_finds_first_hole [OF plain_mm_laws, of granting "inserted (move_space 3 0)" "0x100000" "0x201000" 0 "two_pages 3" 0]
  show ?thesis using hint hole arg in_area_move_space [of 3 0] unfolding v by (simp add: vm_consts) blast
qed

theorem move_refused_witness:
  "device_ioctl granting plain_mm IOCTL_MVE_VMA_TO 0x100000 (inserted (move_space 3 0x100000)) =
     Done (- 1, both_allocated granting (inserted (move_space 3 0x100000)))"
  using move_refused [OF plain_mm_laws, of granting "inserted (move_space 3 0x100000)" "0x100000" "0x201000" "0x100000"]
  by (simp add: load_move_space in_range_def)

theorem readonly_move_reports_success_witness:
  "\<exists>s'. device_ioctl granting plain_mm IOCTL_MVE_VMA_TO 0x100000 (inserted (move_space 1 0x300000)) = Done (0, s') \<and>
    flags_at plain_mm (mm s') 0x201000 = Some 1"
proof -
  have hint: "fst (vm_mmap plain_mm 0x300000 0x1000 p f (move_space 1 0x300000)) = 0x300000" for p f
    by (rule move_space_grants) (use free_above [of "0x300000"] in auto)
  have free: "mtree_load plain_mm 0x300000 (move_space 1 0x300000) = None" by (rule free_above [of "0x300000"]) (simp_all add: in_range_def)
  have v: "vm_end (two_pages 1) = 0x202000" "vm_flags (two_pages 1) = 1" by (simp_all add: two_pages_def)
  have src: "flags_at plain_mm (move_space 1 0x300000) 0x201000 = Some 1"
    by (simp add: flags_at_def load_move_space in_range_def two_pages_def del: flags_at_plain)
  obtain s' where "device_ioctl granting plain_mm IOCTL_MVE_VMA_TO 0x100000 (inserted (move_space 1 0x300000)) = Done (0, s')"
    "\<forall>x. if in_range 0x300000 (unat (0x202000 - 0x201000 :: u64)) x then flags_at plain_mm (mm s') x \<noteq> None
         else flags_at plain_mm (mm s') x = flags_at plain_mm (move_space 1 0x300000) x \<and> contents (mm s') x = contents (move_space 1 0x300000) x"
    using readonly_move_reports_success [OF plain_mm_laws, of granting "inserted (move_space 1 0x300000)" "0x100000" "0x201000" "0x300000" "two_pages 1"]
      hint free in_area_move_space [of 1 "0x300000"] unfolding v mm_inserted by (auto simp: vm_consts IS_ERR_def)
  then show ?thesis using src by (auto simp: in_range_def dest: spec [of _ "0x201000"])
qed

end
