(* ===== verification/Vmprogs.thy ===== *)
theory Vmprogs
  imports Btplus_Moves
begin

text \<open>
  The test programs of the VMA module, part one: what a user program does with its address space (mapping, unmapping, loads and
  stores with their faults, the requests of the module), and the programs that move areas: \<^verbatim>\<open>Testcases/testcases/tc1.c\<close> to \<^verbatim>\<open>tc20.c\<close>
  and \<^verbatim>\<open>template/user_progs/part1_1.c\<close>, \<^verbatim>\<open>part1_2.c\<close>.
\<close>

section \<open>What a program does\<close>

text \<open>
  What a program prints of interest: its verdict, and the characters and page table entries it reads for the
  reader to check.  It ends with an exit status, or by a fault that it does not handle.
\<close>

datatype said = Passed | Failed | Shown u8 | Entries u64 u64
datatype fate = Exit u32 | Killed

type_synonym 'm prog = "'m bt \<Rightarrow> (said list \<times> fate \<times> 'm bt) outcome"

definition say :: "said \<Rightarrow> 'm prog \<Rightarrow> 'm prog" where
  "say w p s = obind (p s) (\<lambda>(ws, e, s). Done (w # ws, e, s))"

text \<open>The end of a program with the device closed, and with the device still open.\<close>

definition exits :: "u32 \<Rightarrow> 'm prog" where
  "exits c s = Done ([], Exit c, s)"

definition quits :: "u32 \<Rightarrow> 'm prog" where
  "quits c s = exits c (snd (device_release s))"

definition closing :: "'m prog \<Rightarrow> 'm prog" where
  "closing p s = p (snd (device_release s))"

text \<open>What a fault leads to: the end of the program, or the handler the program has installed.\<close>

definition dies :: "'m prog" where
  "dies s = Done ([], Killed, snd (device_release s))"

definition segv_passed :: "'m prog" where
  "segv_passed = say Passed (quits 0)"

definition segv_failed :: "'m prog" where
  "segv_failed = say Failed (quits (- 1))"

text \<open>
  What a program finds: whether the device can be opened and the handler installed, the address of its
  argument structure, of an array on its stack, and of a variable that holds an address, and how many bytes an array on
  its stack can have.
\<close>

record venv =
  e_opens :: bool
  e_opens_ptw :: bool
  e_opens_sysfs :: bool
  e_sigaction :: bool
  e_arg :: u64
  e_stack :: u64
  e_addr :: u64
  e_stack_room :: nat

definition with_device :: "venv \<Rightarrow> 'm prog \<Rightarrow> 'm prog" where
  "with_device E p s = (if e_opens E then p (snd (device_open s)) else exits (- 1) s)"

definition with_handler :: "venv \<Rightarrow> 'm prog \<Rightarrow> 'm prog" where
  "with_handler E p = (if e_sigaction E then p else quits (- 1))"

text \<open>A mapping, of whole pages; \<open>- 1\<close> is \<^verbatim>\<open>MAP_FAILED\<close>.  All are anonymous and private, some are populated at once.\<close>

definition page_align :: "u64 \<Rightarrow> u64" where
  "page_align n = (n + 4095) AND NOT 0xfff"

definition mapping_as :: "u64 \<Rightarrow> 'm mmapi \<Rightarrow> u64 \<Rightarrow> u64 \<Rightarrow> u64 \<Rightarrow> (u64 \<Rightarrow> 'm prog) \<Rightarrow> 'm prog" where
  "mapping_as flags K hint n prot p s =
     (let (r, m) = vm_mmap K hint (page_align n) prot flags (mm s)
      in p (if IS_ERR r then - 1 else r) (s\<lparr>mm := m\<rparr>))"

definition PRIVATE :: u64 where "PRIVATE = MAP_ANONYMOUS OR MAP_PRIVATE"
definition MAP_POPULATE :: u64 where "MAP_POPULATE = 0x8000"

definition mapping :: "'m mmapi \<Rightarrow> u64 \<Rightarrow> u64 \<Rightarrow> u64 \<Rightarrow> (u64 \<Rightarrow> 'm prog) \<Rightarrow> 'm prog" where
  "mapping = mapping_as PRIVATE"

definition populating :: "'m mmapi \<Rightarrow> u64 \<Rightarrow> u64 \<Rightarrow> u64 \<Rightarrow> (u64 \<Rightarrow> 'm prog) \<Rightarrow> 'm prog" where
  "populating = mapping_as (PRIVATE OR MAP_POPULATE)"

text \<open>Unmapping refuses an address that is not on a page boundary.\<close>

definition unmapping :: "'m mmapi \<Rightarrow> u64 \<Rightarrow> u64 \<Rightarrow> (u32 \<Rightarrow> 'm prog) \<Rightarrow> 'm prog" where
  "unmapping K a n p s =
     (if a AND 0xfff \<noteq> 0 then p (- 1) s else p 0 (s\<lparr>mm := vm_munmap K a n (mm s)\<rparr>))"

text \<open>Stores and loads; \<open>h\<close> is what a fault leads to.\<close>

definition storing :: "'m mmapi \<Rightarrow> 'm prog \<Rightarrow> u64 \<Rightarrow> u8 list \<Rightarrow> 'm prog \<Rightarrow> 'm prog" where
  "storing K h a bs p s =
     (let (r, m) = to_user K a bs (mm s) in if r \<noteq> 0 then h (s\<lparr>mm := m\<rparr>) else p (s\<lparr>mm := m\<rparr>))"

definition loading :: "'m mmapi \<Rightarrow> 'm prog \<Rightarrow> u64 \<Rightarrow> u64 \<Rightarrow> (u8 list \<Rightarrow> 'm prog) \<Rightarrow> 'm prog" where
  "loading K h a n p s = (let (r, bs) = from_user K a n (mm s) in if r \<noteq> 0 then h s else p bs s)"

text \<open>\<^verbatim>\<open>ptr[i] = 'A'\<close> and \<^verbatim>\<open>printf("%c\n", ptr[i])\<close> for \<open>n\<close> pages.\<close>

fun fill :: "'m mmapi \<Rightarrow> 'm prog \<Rightarrow> u64 \<Rightarrow> nat \<Rightarrow> 'm prog \<Rightarrow> 'm prog" where
  "fill K h ptr 0 p = p"
| "fill K h ptr (Suc n) p = storing K h ptr [65] (fill K h (ptr + 4096) n p)"

fun show_pages :: "'m mmapi \<Rightarrow> 'm prog \<Rightarrow> u64 \<Rightarrow> nat \<Rightarrow> 'm prog \<Rightarrow> 'm prog" where
  "show_pages K h ptr 0 p = p"
| "show_pages K h ptr (Suc n) p = loading K h ptr 1 (\<lambda>bs. say (Shown (hd bs)) (show_pages K h (ptr + 4096) n p))"

text \<open>The structure of a request: both fields, or the source only; and its second field afterwards.\<close>

definition set_addresses :: "'m mmapi \<Rightarrow> 'm prog \<Rightarrow> venv \<Rightarrow> u64 \<Rightarrow> u64 \<Rightarrow> 'm prog \<Rightarrow> 'm prog" where
  "set_addresses K h E a c = storing K h (e_arg E) (put_address \<lparr>from_addr = a, to_addr = c\<rparr>)"

definition set_source :: "'m mmapi \<Rightarrow> 'm prog \<Rightarrow> venv \<Rightarrow> u64 \<Rightarrow> 'm prog \<Rightarrow> 'm prog" where
  "set_source K h E a = storing K h (e_arg E) (put64 a)"

definition get_target :: "'m mmapi \<Rightarrow> 'm prog \<Rightarrow> venv \<Rightarrow> (u64 \<Rightarrow> 'm prog) \<Rightarrow> 'm prog" where
  "get_target K h E p = loading K h (e_arg E) 16 (\<lambda>bs. p (to_addr (get_address bs)))"

text \<open>A request; most programs stop when it fails.\<close>

definition request :: "kapi \<Rightarrow> 'm mmapi \<Rightarrow> venv \<Rightarrow> u32 \<Rightarrow> (u32 \<Rightarrow> 'm prog) \<Rightarrow> 'm prog" where
  "request k K E cmd p s = obind (device_ioctl k K cmd (e_arg E) s) (\<lambda>(r, s). p (syscall_ret r) s)"

definition demand :: "kapi \<Rightarrow> 'm mmapi \<Rightarrow> venv \<Rightarrow> u32 \<Rightarrow> 'm prog \<Rightarrow> 'm prog" where
  "demand k K E cmd p = request k K E cmd (\<lambda>r. if r <s 0 then say Failed (quits (- 1)) else p)"

text \<open>\<^verbatim>\<open>(a + 4096) & ~0xfff\<close>\<close>

definition next_page :: "u64 \<Rightarrow> u64" where
  "next_page a = (a + 4096) AND NOT 0xfff"

definition RW :: u64 where "RW = PROT_READ OR PROT_WRITE"

section \<open>Moving to an address\<close>

text \<open>An area, a second one above which the target is chosen, and the request for it.\<close>

definition two_areas :: "'m mmapi \<Rightarrow> 'm prog \<Rightarrow> venv \<Rightarrow> u64 \<Rightarrow> (u64 \<Rightarrow> u64) \<Rightarrow> (u64 \<Rightarrow> u64 \<Rightarrow> 'm prog) \<Rightarrow> 'm prog" where
  "two_areas K h E n hint p =
     mapping K 0 n RW (\<lambda>ptr. mapping K (hint ptr) 1048576 PROT_READ (\<lambda>ptr1.
       if ptr = - 1 \<or> ptr1 = - 1 then quits (- 1)
       else set_addresses K h E ptr (next_page ptr1) (p ptr ptr1)))"

definition tc1 :: "kapi \<Rightarrow> 'm mmapi \<Rightarrow> venv \<Rightarrow> 'm prog" where
  "tc1 k K E = with_device E (two_areas K dies E 16384 (\<lambda>_. 0) (\<lambda>ptr ptr1.
     fill K dies ptr 4 (request k K E IOCTL_MVE_VMA_TO (\<lambda>r.
       let rest = show_pages K dies ptr 4 (closing (unmapping K ptr 16384 (\<lambda>_. unmapping K ptr1 1048576 (\<lambda>_. exits 0))))
       in if r <s 0 then say Passed rest else rest))))"

definition tc2 :: "kapi \<Rightarrow> 'm mmapi \<Rightarrow> venv \<Rightarrow> 'm prog" where
  "tc2 k K E = with_device E (two_areas K dies E 16384 (\<lambda>_. 0) (\<lambda>ptr ptr1.
     unmapping K ptr 16384 (\<lambda>_. unmapping K ptr1 1048576 (\<lambda>_.
       request k K E IOCTL_MVE_VMA_TO (\<lambda>r. if r <s 0 then say Passed (closing (exits 0)) else closing (exits 0))))))"

definition tc3 :: "kapi \<Rightarrow> 'm mmapi \<Rightarrow> venv \<Rightarrow> 'm prog" where
  "tc3 k K E = with_device E (with_handler E (two_areas K segv_passed E 16384 (\<lambda>_. 0) (\<lambda>ptr ptr1.
     unmapping K ptr1 1048576 (\<lambda>_. demand k K E IOCTL_MVE_VMA_TO (
       storing K segv_passed ptr [65] (closing (exits (- 1))))))))"

definition tc4 :: "kapi \<Rightarrow> 'm mmapi \<Rightarrow> venv \<Rightarrow> 'm prog" where
  "tc4 k K E = with_device E (with_handler E (two_areas K segv_failed E 16384 (\<lambda>_. 0) (\<lambda>ptr ptr1.
     fill K segv_failed ptr 4 (unmapping K ptr1 1048576 (\<lambda>_. demand k K E IOCTL_MVE_VMA_TO (
       get_target K segv_failed E (\<lambda>new. show_pages K segv_failed new 4 (closing (exits 0)))))))))"

definition tc5 :: "kapi \<Rightarrow> 'm mmapi \<Rightarrow> venv \<Rightarrow> 'm prog" where
  "tc5 k K E = with_device E (two_areas K dies E 1073741824 (\<lambda>_. 0) (\<lambda>ptr ptr1.
     fill K dies ptr 262144 (unmapping K ptr1 1048576 (\<lambda>_. request k K E IOCTL_MVE_VMA_TO (\<lambda>r.
       if r <s 0 then say Passed (quits 0) else closing (say Failed (exits (- 1))))))))"

text \<open>The second move of \<^verbatim>\<open>tc6\<close> and \<^verbatim>\<open>tc7\<close>: on into a hole made of an area of 2 MB.\<close>

definition move_on :: "kapi \<Rightarrow> 'm mmapi \<Rightarrow> venv \<Rightarrow> u64 \<Rightarrow> u64 \<Rightarrow> 'm prog" where
  "move_on k K E hint ptr1 =
     mapping K hint 2097152 PROT_READ (\<lambda>ptr2.
       if ptr2 = - 1 then quits (- 1)
       else set_addresses K segv_failed E (next_page ptr1) (next_page ptr2) (unmapping K ptr2 2097152 (\<lambda>_.
         demand k K E IOCTL_MVE_VMA_TO (
           get_target K segv_failed E (\<lambda>new. show_pages K segv_failed new 1 (closing (exits 0)))))))"

definition tc6 :: "kapi \<Rightarrow> 'm mmapi \<Rightarrow> venv \<Rightarrow> 'm prog" where
  "tc6 k K E = with_device E (with_handler E (two_areas K segv_failed E 16384 (\<lambda>_. 0) (\<lambda>ptr ptr1.
     fill K segv_failed ptr 4 (unmapping K ptr1 1048576 (\<lambda>_. demand k K E IOCTL_MVE_VMA_TO (move_on k K E 0 ptr1))))))"

definition tc7 :: "kapi \<Rightarrow> 'm mmapi \<Rightarrow> venv \<Rightarrow> 'm prog" where
  "tc7 k K E = with_device E (with_handler E (two_areas K segv_failed E 16384 (\<lambda>ptr. ptr + 16384) (\<lambda>ptr ptr1.
     fill K segv_failed ptr 4 (unmapping K ptr1 1048576 (\<lambda>_.
       demand k K E IOCTL_MVE_VMA_TO (move_on k K E (ptr1 + 1048576) ptr1))))))"

text \<open>There and back; the address to come back to is taken from an area of 1 GB.\<close>

definition tc8 :: "kapi \<Rightarrow> 'm mmapi \<Rightarrow> venv \<Rightarrow> 'm prog" where
  "tc8 k K E = with_device E (with_handler E (mapping K 0 1073741824 PROT_READ (\<lambda>ptr2.
     unmapping K ptr2 1073741824 (\<lambda>_. mapping K (next_page ptr2) 16384 RW (\<lambda>ptr. mapping K 0 1048576 PROT_READ (\<lambda>ptr1.
       if ptr = - 1 \<or> ptr1 = - 1 \<or> ptr2 = - 1 then quits (- 1)
       else set_addresses K segv_failed E ptr (next_page ptr1) (fill K segv_failed ptr 4 (unmapping K ptr1 1048576 (\<lambda>_.
         demand k K E IOCTL_MVE_VMA_TO (unmapping K ptr 16384 (\<lambda>_.
           set_addresses K segv_failed E (next_page ptr1) ptr (demand k K E IOCTL_MVE_VMA_TO (
             get_target K segv_failed E (\<lambda>new. show_pages K segv_failed new 1 (closing (exits 0))))))))))))))))"

text \<open>Four rounds; the hint is the address of the array \<^verbatim>\<open>ptr\<close>, not of its entry.\<close>

fun four_moves :: "kapi \<Rightarrow> 'm mmapi \<Rightarrow> venv \<Rightarrow> nat \<Rightarrow> 'm prog" where
  "four_moves k K E 0 = closing (exits 0)"
| "four_moves k K E (Suc i) = two_areas K segv_failed E 16384 (\<lambda>_. e_stack E + 16384) (\<lambda>ptr ptr1.
     fill K segv_failed ptr 4 (unmapping K ptr1 1048576 (\<lambda>_. demand k K E IOCTL_MVE_VMA_TO (
       get_target K segv_failed E (\<lambda>new. show_pages K segv_failed new 4 (four_moves k K E i))))))"

definition tc9 :: "kapi \<Rightarrow> 'm mmapi \<Rightarrow> venv \<Rightarrow> 'm prog" where
  "tc9 k K E = with_device E (with_handler E (four_moves k K E 4))"

definition tc10 :: "kapi \<Rightarrow> 'm mmapi \<Rightarrow> venv \<Rightarrow> 'm prog" where
  "tc10 k K E = with_device E (with_handler E (two_areas K segv_failed E 16384 (\<lambda>_. 0) (\<lambda>ptr ptr1.
     fill K segv_failed ptr 4 (unmapping K ptr1 1048576 (\<lambda>_. demand k K E IOCTL_MVE_VMA_TO (
       get_target K segv_failed E (\<lambda>new. show_pages K segv_failed new 4 (unmapping K ptr1 1048576 (\<lambda>r.
         if r <s 0 then say Failed (quits (- 1)) else closing (exits 0))))))))))"

text \<open>Three pages; the second one moves 2 MB up.\<close>

definition three_pages :: "'m mmapi \<Rightarrow> (u64 \<Rightarrow> u64 \<Rightarrow> u64 \<Rightarrow> 'm prog) \<Rightarrow> 'm prog" where
  "three_pages K p =
     mapping K 0 4096 RW (\<lambda>ptr. mapping K 0 4096 RW (\<lambda>ptr1. mapping K 0 4096 RW (\<lambda>ptr2.
       if ptr = - 1 \<or> ptr1 = - 1 \<or> ptr2 = - 1 then quits (- 1) else p ptr ptr1 ptr2)))"

definition unmap_three :: "'m mmapi \<Rightarrow> u64 \<Rightarrow> u64 \<Rightarrow> u64 \<Rightarrow> 'm prog" where
  "unmap_three K ptr ptr1 ptr2 =
     unmapping K ptr 4096 (\<lambda>_. unmapping K ptr1 4096 (\<lambda>_. unmapping K ptr2 4096 (\<lambda>_. exits 0)))"

text \<open>These two programs say "VMA move failed" where the others say "Testcase Failed".\<close>

definition part1_1 :: "kapi \<Rightarrow> 'm mmapi \<Rightarrow> venv \<Rightarrow> 'm prog" where
  "part1_1 k K E = with_device E (three_pages K (\<lambda>ptr ptr1 ptr2.
     set_addresses K dies E ptr1 (ptr1 + 2097152) (storing K dies ptr1 [65] (demand k K E IOCTL_MVE_VMA_TO (
       get_target K dies E (\<lambda>new. show_pages K dies new 1 (closing (unmap_three K ptr ptr1 ptr2))))))))"

section \<open>Moving to a hole\<close>

definition one_area :: "'m mmapi \<Rightarrow> 'm prog \<Rightarrow> venv \<Rightarrow> (u64 \<Rightarrow> 'm prog) \<Rightarrow> 'm prog" where
  "one_area K h E p =
     mapping K 0 16384 RW (\<lambda>ptr. if ptr = - 1 then quits (- 1) else set_source K h E ptr (p ptr))"

definition tc11 :: "kapi \<Rightarrow> 'm mmapi \<Rightarrow> venv \<Rightarrow> 'm prog" where
  "tc11 k K E = with_device E (one_area K dies E (\<lambda>ptr. fill K dies ptr 4 (demand k K E IOCTL_MVE_VMA (
     get_target K dies E (\<lambda>new. show_pages K dies new 4 (closing (exits 0)))))))"

definition tc12 :: "kapi \<Rightarrow> 'm mmapi \<Rightarrow> venv \<Rightarrow> 'm prog" where
  "tc12 k K E = with_device E (one_area K dies E (\<lambda>ptr. unmapping K ptr 16384 (\<lambda>_.
     request k K E IOCTL_MVE_VMA (\<lambda>r. if r <s 0 then say Passed (closing (exits 0)) else closing (exits 0)))))"

definition tc13 :: "kapi \<Rightarrow> 'm mmapi \<Rightarrow> venv \<Rightarrow> 'm prog" where
  "tc13 k K E = with_device E (with_handler E (one_area K segv_passed E (\<lambda>ptr.
     demand k K E IOCTL_MVE_VMA (storing K segv_passed ptr [65] (closing (exits (- 1)))))))"

definition tc14 :: "kapi \<Rightarrow> 'm mmapi \<Rightarrow> venv \<Rightarrow> 'm prog" where
  "tc14 k K E = with_device E (with_handler E (one_area K segv_failed E (\<lambda>ptr.
     fill K segv_failed ptr 4 (demand k K E IOCTL_MVE_VMA (
       get_target K segv_failed E (\<lambda>new. show_pages K segv_failed new 4 (closing (exits 0))))))))"

text \<open>The hole is made of an area of 1 GB and a page, somewhere near the area that is moved.\<close>

definition tc15 :: "kapi \<Rightarrow> 'm mmapi \<Rightarrow> venv \<Rightarrow> 'm prog" where
  "tc15 k K E = with_device E (mapping K 0 1073741824 RW (\<lambda>ptr. mapping K ptr (1073741824 + 4096) PROT_READ (\<lambda>ptr1.
     if ptr = - 1 \<or> ptr1 = - 1 then quits (- 1)
     else set_source K dies E ptr (fill K dies ptr 262144 (unmapping K ptr1 (1073741824 + 4096) (\<lambda>_.
       demand k K E IOCTL_MVE_VMA (get_target K dies E (\<lambda>new.
         if new \<noteq> ptr1 then say Failed (quits (- 1)) else closing (say Passed (exits 0))))))))))"

definition tc16 :: "kapi \<Rightarrow> 'm mmapi \<Rightarrow> venv \<Rightarrow> 'm prog" where
  "tc16 k K E = with_device E (with_handler E (one_area K segv_failed E (\<lambda>ptr.
     fill K segv_failed ptr 4 (demand k K E IOCTL_MVE_VMA (get_target K segv_failed E (\<lambda>new.
       set_source K segv_failed E (next_page new) (demand k K E IOCTL_MVE_VMA (get_target K segv_failed E (\<lambda>new.
         show_pages K segv_failed new 1 (closing (exits 0)))))))))))"

definition tc17 :: "kapi \<Rightarrow> 'm mmapi \<Rightarrow> venv \<Rightarrow> 'm prog" where
  "tc17 k K E = with_device E (with_handler E (mapping K 0 16384 RW (\<lambda>ptr. mapping K (ptr + 16384) 1048576 PROT_READ (\<lambda>ptr1.
     if ptr = - 1 \<or> ptr1 = - 1 then quits (- 1)
     else set_source K segv_failed E ptr (fill K segv_failed ptr 4 (demand k K E IOCTL_MVE_VMA (
       get_target K segv_failed E (\<lambda>new. set_source K segv_failed E (next_page ptr1) (demand k K E IOCTL_MVE_VMA (
         show_pages K segv_failed new 1 (closing (exits 0))))))))))))"

definition tc18 :: "kapi \<Rightarrow> 'm mmapi \<Rightarrow> venv \<Rightarrow> 'm prog" where
  "tc18 k K E = with_device E (with_handler E (mapping K 0 1073741824 PROT_READ (\<lambda>ptr2.
     unmapping K ptr2 1073741824 (\<lambda>_. mapping K (next_page ptr2) 16384 RW (\<lambda>ptr. mapping K ptr 16384 PROT_READ (\<lambda>ptr1.
       if ptr = - 1 \<or> ptr1 = - 1 \<or> ptr2 = - 1 then quits (- 1)
       else set_source K segv_failed E ptr (fill K segv_failed ptr 4 (unmapping K ptr1 16384 (\<lambda>_.
         demand k K E IOCTL_MVE_VMA (get_target K segv_failed E (\<lambda>new. unmapping K ptr 16384 (\<lambda>r.
           if r <s 0 then quits (- 1)
           else mapping K ptr1 16384 PROT_WRITE (\<lambda>ptr2. unmapping K ptr2 16384 (\<lambda>_.
             set_source K segv_failed E (next_page new) (demand k K E IOCTL_MVE_VMA (
               get_target K segv_failed E (\<lambda>new. show_pages K segv_failed new 1 (closing (exits 0)))))))))))))))))))"

fun four_searches :: "kapi \<Rightarrow> 'm mmapi \<Rightarrow> venv \<Rightarrow> nat \<Rightarrow> 'm prog" where
  "four_searches k K E 0 = closing (exits 0)"
| "four_searches k K E (Suc i) =
     mapping K 0 16384 RW (\<lambda>ptr. mapping K (e_stack E + 16384) 1048576 PROT_READ (\<lambda>ptr1.
       if ptr = - 1 \<or> ptr1 = - 1 then quits (- 1)
       else set_source K segv_failed E ptr (fill K segv_failed ptr 4 (unmapping K ptr1 1048576 (\<lambda>_.
         demand k K E IOCTL_MVE_VMA (get_target K segv_failed E (\<lambda>new.
           show_pages K segv_failed new 4 (four_searches k K E i))))))))"

definition tc19 :: "kapi \<Rightarrow> 'm mmapi \<Rightarrow> venv \<Rightarrow> 'm prog" where
  "tc19 k K E = with_device E (with_handler E (four_searches k K E 4))"

definition tc20 :: "kapi \<Rightarrow> 'm mmapi \<Rightarrow> venv \<Rightarrow> 'm prog" where
  "tc20 k K E = with_device E (with_handler E (mapping K 0 16384 RW (\<lambda>ptr. mapping K ptr 1048576 PROT_READ (\<lambda>ptr1.
     if ptr = - 1 \<or> ptr1 = - 1 then quits (- 1)
     else set_source K segv_failed E ptr (fill K segv_failed ptr 4 (unmapping K ptr1 1048576 (\<lambda>_.
       demand k K E IOCTL_MVE_VMA (get_target K segv_failed E (\<lambda>new. show_pages K segv_failed new 4 (
         unmapping K new 16384 (\<lambda>r. if r <s 0 then say Failed (quits (- 1)) else closing (exits 0))))))))))))"

definition part1_2 :: "kapi \<Rightarrow> 'm mmapi \<Rightarrow> venv \<Rightarrow> 'm prog" where
  "part1_2 k K E = with_device E (three_pages K (\<lambda>ptr ptr1 ptr2.
     set_source K dies E ptr1 (storing K dies ptr1 [65] (demand k K E IOCTL_MVE_VMA (
       get_target K dies E (\<lambda>new. show_pages K dies new 1 (closing (unmap_three K ptr ptr1 ptr2))))))))"

section \<open>All programs end\<close>

text \<open>
  A program ends, whatever the kernel does with its mappings, and by then the device was closed \<open>d\<close> times.
\<close>

definition ends :: "u32 \<Rightarrow> 'm prog \<Rightarrow> bool" where
  "ends d p \<longleftrightarrow> (\<forall>s. \<exists>ws e s'. p s = Done (ws, e, s') \<and> device_opened s' = device_opened s - d)"

named_theorems ends_intro

lemma ends_exits [ends_intro]: "ends 0 (exits c)"
  by (simp add: ends_def exits_def)

lemma ends_release [simp]: "device_opened (snd (device_release s)) = device_opened s - 1"
  by (simp add: device_release_def kcalled_def Let_def)

lemma ends_quits [ends_intro]: "ends 1 (quits c)" "ends 1 dies"
  by (simp_all add: ends_def quits_def exits_def dies_def)

lemma ends_say [ends_intro]: "ends d p \<Longrightarrow> ends d (say w p)"
  unfolding ends_def say_def by (metis (no_types, lifting) obind_simps(1) old.prod.case)

lemma ends_segv [ends_intro]: "ends 1 segv_passed" "ends 1 segv_failed"
  unfolding segv_passed_def segv_failed_def by (intro ends_intro)+

lemma ends_closing [ends_intro]: "ends 0 p \<Longrightarrow> ends 1 (closing p)"
  unfolding ends_def closing_def by (metis diff_0_right ends_release)

lemma ends_mapping [ends_intro]:
  assumes "\<And>r. ends d (p r)"
  shows "ends d (mapping K hint n prot p)" "ends d (populating K hint n prot p)"
proof -
  have "ends d (mapping_as f K hint n prot p)" for f
    using assms unfolding ends_def mapping_as_def by (fastforce split: prod.split)
  then show "ends d (mapping K hint n prot p)" "ends d (populating K hint n prot p)" by (simp_all add: mapping_def populating_def)
qed

lemma ends_unmapping [ends_intro]: "(\<And>r. ends d (p r)) \<Longrightarrow> ends d (unmapping K a n p)"
  unfolding ends_def unmapping_def by fastforce

lemma ends_storing [ends_intro]: "ends d h \<Longrightarrow> ends d p \<Longrightarrow> ends d (storing K h a bs p)"
  unfolding ends_def storing_def by (fastforce split: prod.split)

lemma ends_loading [ends_intro]: "ends d h \<Longrightarrow> (\<And>bs. ends d (p bs)) \<Longrightarrow> ends d (loading K h a n p)"
  unfolding ends_def loading_def by (fastforce split: prod.split)

lemma ends_fill [ends_intro]: "ends d h \<Longrightarrow> ends d p \<Longrightarrow> ends d (fill K h ptr n p)"
  by (induction n arbitrary: ptr) (auto intro: ends_intro)

lemma ends_show [ends_intro]: "ends d h \<Longrightarrow> ends d p \<Longrightarrow> ends d (show_pages K h ptr n p)"
  by (induction n arbitrary: ptr) (auto intro: ends_intro)

lemma ends_structure [ends_intro]:
  "ends d h \<Longrightarrow> ends d p \<Longrightarrow> ends d (set_addresses K h E a c p)" "ends d h \<Longrightarrow> ends d p \<Longrightarrow> ends d (set_source K h E a p)"
  "ends d h \<Longrightarrow> (\<And>x. ends d (q x)) \<Longrightarrow> ends d (get_target K h E q)"
  unfolding set_addresses_def set_source_def get_target_def by (auto intro: ends_intro)

lemma ends_if [ends_intro]: "ends d p \<Longrightarrow> ends d q \<Longrightarrow> ends d (if b then p else q)"
  by simp

text \<open>The requests that move an area return, and are not the ones that open or close the device.\<close>

lemma copy_pages_returns: "buff1 \<noteq> 0 \<Longrightarrow> \<exists>ok m'. copy_pages K buff1 n a c m = Done (ok, m')"
  by (induction K buff1 n a c m rule: copy_pages.induct) (subst copy_pages.simps, fastforce split: prod.split)

lemma kalloc_result: "kalloc k n s = (k_alloc k (klog s), kcalled (Kalloc n (k_alloc k (klog s))) s)"
  by (simp add: kalloc_def Let_def)

lemma kcalled_opened [simp]: "device_opened (kcalled c s) = device_opened s"
  by (simp add: kcalled_def)

definition returns :: "'m bt \<Rightarrow> (u64 \<times> 'm bt) outcome \<Rightarrow> bool" where
  "returns s x \<longleftrightarrow> (\<exists>r s'. x = Done (r, s') \<and> device_opened s' = device_opened s)"

lemma returns_intro:
  "device_opened s' = device_opened s \<Longrightarrow> returns s (Done (r, s'))"
  "returns s y \<Longrightarrow> returns s z \<Longrightarrow> returns s (if b then y else z)"
  "(\<And>a b. returns s (f a b)) \<Longrightarrow> returns s (case_prod f w)"
  "returns s y \<Longrightarrow> (\<And>v. returns s (g v)) \<Longrightarrow> returns s (case_option y g o')"
  by (auto simp: returns_def split: prod.split option.split)

lemma returns_copy: "buff1 \<noteq> 0 \<Longrightarrow> (\<And>ok m. returns s (f (ok, m))) \<Longrightarrow> returns s (obind (copy_pages K buff1 n a c m) f)"
  using copy_pages_returns [of buff1 K n a c m] by (metis obind_simps(1))

lemma moves_return:
  assumes "\<And>l. k_alloc k l \<noteq> 0" "cmd = IOCTL_MVE_VMA_TO \<or> cmd = IOCTL_MVE_VMA"
  shows "returns s (device_ioctl k K cmd param s)"
proof -
  have "returns s (move_vma_to k K (k_alloc k l) param (kcalled c s))" for l c
    unfolding move_vma_to_def Let_def kalloc_result prod.case using assms(1)
    by (simp, intro conjI impI returns_intro returns_copy) (simp_all add: kcalled_def)
  moreover have "returns s (move_vma k K (k_alloc k l) param (kcalled c s))" for l c
    unfolding move_vma_def Let_def kalloc_result prod.case using assms(1)
    by (simp, intro conjI impI returns_intro returns_copy) (simp_all add: kcalled_def)
  ultimately show ?thesis using assms(2) by (auto simp: device_ioctl_def kalloc_result ioctl_defs)
qed

lemma ends_request:
  assumes "\<And>l. k_alloc k l \<noteq> 0" "cmd = IOCTL_MVE_VMA_TO \<or> cmd = IOCTL_MVE_VMA" "\<And>r. ends d (p r)"
  shows "ends d (request k K E cmd p)"
proof -
  have "\<exists>r s'. device_ioctl k K cmd (e_arg E) s = Done (r, s') \<and> device_opened s' = device_opened s" for s
    using moves_return [OF assms(1,2)] by (simp add: returns_def)
  with assms(3) show ?thesis unfolding ends_def request_def by (metis (no_types, lifting) obind_simps(1) old.prod.case)
qed

lemma ends_demand:
  assumes "\<And>l. k_alloc k l \<noteq> 0" "cmd = IOCTL_MVE_VMA_TO \<or> cmd = IOCTL_MVE_VMA" "ends 1 p"
  shows "ends 1 (demand k K E cmd p)"
  unfolding demand_def by (intro ends_request assms(1,2)) (auto intro!: ends_intro assms(3))

text \<open>A whole program leaves the device as it found it.\<close>

lemma ends_device: "ends 1 p \<Longrightarrow> ends 0 (with_device E p)"
proof -
  have "device_opened (snd (device_open s)) = device_opened s + 1" for s :: "'a bt" by (simp add: device_open_def kcalled_def Let_def)
  then show "ends 1 p \<Longrightarrow> ends 0 (with_device E p)"
    unfolding ends_def with_device_def exits_def by (metis add_diff_cancel_right' diff_0_right)
qed

lemma ends_handler: "ends 1 p \<Longrightarrow> ends 1 (with_handler E p)"
  unfolding with_handler_def by (auto intro: ends_intro)

lemmas move_programs = tc1_def tc2_def tc3_def tc4_def tc5_def tc6_def tc7_def tc8_def tc9_def tc10_def part1_1_def
  tc11_def tc12_def tc13_def tc14_def tc15_def tc16_def tc17_def tc18_def tc19_def tc20_def part1_2_def

lemmas move_pieces = two_areas_def move_on_def three_pages_def unmap_three_def one_area_def

lemma four_rounds_end:
  assumes "\<And>l. k_alloc k l \<noteq> 0"
  shows "ends 1 (four_moves k K E i)" "ends 1 (four_searches k K E i)"
  by (induction i) (auto simp: two_areas_def intro!: ends_intro ends_demand assms)

lemma move_programs_end:
  assumes "\<And>l. k_alloc k l \<noteq> 0"
    and "p \<in> set [tc1, tc2, tc3, tc4, tc5, tc6, tc7, tc8, tc9, tc10, part1_1, tc11, tc12, tc13, tc14, tc15, tc16, tc17, tc18, tc19, tc20, part1_2]"
  shows "ends 0 (p k K E)"
  using assms(2) unfolding list.set insert_iff empty_iff
  by (elim disjE FalseE) (simp_all only: move_programs move_pieces Let_def,
    (intro ends_device ends_handler ends_intro ends_demand ends_request four_rounds_end allI impI disjI1 disjI2 refl assms(1))+)

end
