(* ===== verification/Vmprogs_Rules.thy ===== *)
theory Vmprogs_Rules
  imports Vmprogs
begin

text \<open>
  Rules for the runs of the test programs of the VMA module: what a program says and how it ends, from the laws of the
  address space.  Each rule reduces a program to what follows its first step.
\<close>

section \<open>Page boundaries\<close>

lemma low_bits: "(x :: u64) AND 0xfff = take_bit 12 x"
proof -
  have "(0xfff :: u64) = mask 12" by (simp add: mask_eq_exp_minus_1)
  then show ?thesis by (simp add: take_bit_eq_mask)
qed

lemma aligned_iff: "(x :: u64) AND 0xfff = 0 \<longleftrightarrow> 4096 dvd unat x"
  by (simp add: low_bits take_bit_eq_mod unat_eq_zero [symmetric] unat_mod mod_eq_0_iff_dvd del: unat_eq_zero)

lemma clear_low: "(x :: u64) AND NOT 0xfff = push_bit 12 (drop_bit 12 x)"
proof -
  have m: "(0xfff :: u64) = mask 12" by (simp add: mask_eq_exp_minus_1)
  show ?thesis unfolding m
    by (rule bit_word_eqI) (auto simp: bit_and_iff bit_not_iff bit_push_bit_iff bit_drop_bit_eq bit_mask_iff)
qed

lemma clear_low_aligned: "4096 dvd unat (x AND NOT (0xfff :: u64))"
proof -
  have "(x AND NOT 0xfff) AND (0xfff :: u64) = 0" by (simp add: and.assoc)
  then show ?thesis by (simp only: aligned_iff)
qed

lemma clear_low_id: "4096 dvd unat x \<Longrightarrow> x AND NOT (0xfff :: u64) = x"
proof -
  assume "4096 dvd unat x"
  then have "x AND 0xfff = 0" by (simp only: aligned_iff)
  moreover have "x = (x AND 0xfff) OR (x AND NOT 0xfff)" by (simp add: bit.conj_disj_distrib [symmetric])
  ultimately show ?thesis by simp
qed

lemma aligned_add:
  assumes "4096 dvd unat x" "4096 dvd unat y"
  shows "4096 dvd unat (x + y :: u64)"
proof -
  have "(4096 :: nat) dvd 2 ^ 64" by simp
  then show ?thesis unfolding unat_word_ariths(1) using assms by (simp add: dvd_mod)
qed

lemma page_align_aligned: "4096 dvd unat (page_align n)"
  unfolding page_align_def by (rule clear_low_aligned)

lemma next_page_eq: "4096 dvd unat a \<Longrightarrow> next_page a = a + 4096"
  unfolding next_page_def by (rule clear_low_id) (rule aligned_add, simp_all)

section \<open>What a program gives\<close>

text \<open>The program ends, with output and fate as \<open>Q\<close> says.\<close>

definition gives :: "'m prog \<Rightarrow> 'm bt \<Rightarrow> (said list \<Rightarrow> fate \<Rightarrow> bool) \<Rightarrow> bool" where
  "gives p s Q \<longleftrightarrow> (\<exists>ws e s'. p s = Done (ws, e, s') \<and> Q ws e)"

lemma gives_ends:
  "Q [] (Exit c) \<Longrightarrow> gives (exits c) s Q" "Q [] (Exit c) \<Longrightarrow> gives (quits c) s Q" "Q [] Killed \<Longrightarrow> gives dies s Q"
  "Q [Passed] (Exit 0) \<Longrightarrow> gives segv_passed s Q" "Q [Failed] (Exit (- 1)) \<Longrightarrow> gives segv_failed s Q"
  by (simp_all add: gives_def exits_def quits_def dies_def segv_passed_def segv_failed_def say_def)

lemma gives_say: "gives p s (\<lambda>ws. Q (w # ws)) \<Longrightarrow> gives (say w p) s Q"
  by (auto simp: gives_def say_def)

lemma gives_closing: "gives p (snd (device_release s)) Q \<Longrightarrow> gives (closing p) s Q"
  by (simp add: gives_def closing_def)

lemma gives_device: "e_opens E \<Longrightarrow> gives p (snd (device_open s)) Q \<Longrightarrow> gives (with_device E p) s Q"
  by (simp add: gives_def with_device_def)

lemma gives_handler: "e_sigaction E \<Longrightarrow> gives p s Q \<Longrightarrow> gives (with_handler E p) s Q"
  by (simp add: gives_def with_handler_def)

lemma gives_mono: "gives p s P \<Longrightarrow> (\<And>ws e. P ws e \<Longrightarrow> Q ws e) \<Longrightarrow> gives p s Q"
  by (auto simp: gives_def)

lemma device_mm [simp]: "mm (snd (device_open s)) = mm s" "mm (snd (device_release s)) = mm s"
  by (simp_all add: device_open_def device_release_def kcalled_def Let_def)

section \<open>Memory of the program\<close>

text \<open>The program may read and write \<open>n\<close> bytes from \<open>a\<close> on.\<close>

definition owns :: "'m mmapi \<Rightarrow> 'm \<Rightarrow> u64 \<Rightarrow> nat \<Rightarrow> bool" where
  "owns K m a n \<longleftrightarrow> (\<forall>x. in_range a n x \<longrightarrow> permits VM_READ (flags_at K m x) \<and> permits VM_WRITE (flags_at K m x))"

lemma ownsD:
  "owns K m a n \<Longrightarrow> in_range a n x \<Longrightarrow> permits VM_READ (flags_at K m x)"
  "owns K m a n \<Longrightarrow> in_range a n x \<Longrightarrow> permits VM_WRITE (flags_at K m x)"
  by (simp_all add: owns_def)

lemma owns_flags: "flags_at K m' = flags_at K m \<Longrightarrow> owns K m' a n = owns K m a n"
  by (simp add: owns_def)

lemma in_range_part:
  assumes "in_range (a + of_nat i) k x" "i + k \<le> n" "n \<le> 2 ^ 64"
  shows "in_range a n x"
  using assms in_range_split [of i k a x] in_range_mono [of a "i + k" x n] by simp

lemma owns_part: "owns K m a n \<Longrightarrow> i + k \<le> n \<Longrightarrow> n \<le> 2 ^ 64 \<Longrightarrow> owns K m (a + of_nat i) k"
  unfolding owns_def using in_range_part by blast

text \<open>A new area of \<open>n\<close> bytes at \<open>r\<close>, and the removal of one.\<close>

definition new_area :: "'m mmapi \<Rightarrow> ('m \<Rightarrow> mem) \<Rightarrow> u64 \<Rightarrow> u64 \<Rightarrow> u64 \<Rightarrow> 'm \<Rightarrow> 'm \<Rightarrow> bool" where
  "new_area K bytes n prot r m m' \<longleftrightarrow>
     r \<noteq> - 1 \<and> 4096 dvd unat r \<and> unat r + unat n \<le> 2 ^ 47 \<and>
     (\<forall>x. in_range r (unat n) x \<longrightarrow> flags_at K m x = None \<and> (\<exists>w. flags_at K m' x = Some w \<and> w AND 15 = prot AND 7)) \<and>
     (\<forall>x. \<not> in_range r (unat n) x \<longrightarrow> flags_at K m' x = flags_at K m x \<and> bytes m' x = bytes m x)"

definition freed :: "'m mmapi \<Rightarrow> ('m \<Rightarrow> mem) \<Rightarrow> u64 \<Rightarrow> u64 \<Rightarrow> 'm \<Rightarrow> 'm \<Rightarrow> bool" where
  "freed K bytes a n m m' \<longleftrightarrow>
     (\<forall>x. if in_range a (unat n) x then flags_at K m' x = None else flags_at K m' x = flags_at K m x \<and> bytes m' x = bytes m x)"

lemma gives_mapping_as:
  assumes laws: "mm_laws K bytes" and priv: "f AND MAP_SHARED = 0"
    and bad: "IS_ERR (fst (vm_mmap K hint (page_align n) prot f (mm s))) \<Longrightarrow> gives (p (- 1)) s Q"
    and ok: "\<And>r m. vm_mmap K hint (page_align n) prot f (mm s) = (r, m) \<Longrightarrow> new_area K bytes (page_align n) prot r (mm s) m \<Longrightarrow>
      gives (p r) (s\<lparr>mm := m\<rparr>) Q"
  shows "gives (mapping_as f K hint n prot p) s Q"
proof (cases "vm_mmap K hint (page_align n) prot f (mm s)")
  case (Pair r m)
  show ?thesis
  proof (cases "IS_ERR r")
    case True
    then have "m = mm s" using vm_mmap_refused [OF laws page_align_aligned Pair] by simp
    then show ?thesis using bad True Pair by (simp add: gives_def mapping_as_def)
  next
    case False
    note mp = vm_mmap_ok [OF laws page_align_aligned Pair False]
    have "r \<noteq> - 1" using False by (auto simp: IS_ERR_def)
    then have "new_area K bytes (page_align n) prot r (mm s) m"
      using mp priv by (simp add: new_area_def area_flags_def del: flags_at_None)
    then show ?thesis using ok False Pair by (simp add: gives_def mapping_as_def)
  qed
qed

lemmas gives_mapping = gives_mapping_as [where f = PRIVATE, folded mapping_def]
lemmas gives_populating = gives_mapping_as [where f = "PRIVATE OR MAP_POPULATE", folded populating_def]

lemma private_flags [simp]: "PRIVATE AND MAP_SHARED = 0" "(PRIVATE OR MAP_POPULATE) AND MAP_SHARED = 0"
  by (simp_all add: PRIVATE_def MAP_POPULATE_def vm_consts)

lemma owns_new_area:
  assumes "new_area K bytes n prot r m m'" "prot AND 3 = 3" "k \<le> unat n"
  shows "owns K m' r k"
proof -
  have "w AND 1 \<noteq> 0 \<and> w AND 2 \<noteq> 0" if "w AND 15 = prot AND 7" for w :: u64
  proof -
    have "w AND 3 = (w AND 15) AND 3" by (simp add: and.assoc)
    also have "\<dots> = 3" unfolding that using assms(2) by (simp add: and.assoc)
    finally have *: "w AND 3 = 3" .
    have "w AND 1 = (w AND 3) AND 1" "w AND 2 = (w AND 3) AND 2" by (simp_all add: and.assoc)
    then show ?thesis unfolding * by simp
  qed
  moreover have "\<exists>w. flags_at K m' x = Some w \<and> w AND 15 = prot AND 7" if "in_range r k x" for x
    using assms(1) in_range_mono [OF that assms(3)] by (simp add: new_area_def)
  ultimately show ?thesis by (fastforce simp: owns_def permits_def VM_READ_def VM_WRITE_def)
qed

text \<open>Memory the program had before it keeps, with the contents.\<close>

lemma new_area_apart: "new_area K bytes n prot r m m' \<Longrightarrow> flags_at K m x \<noteq> None \<Longrightarrow> \<not> in_range r (unat n) x"
  by (auto simp: new_area_def simp del: flags_at_None)

lemma owns_mapped: "owns K m a k \<Longrightarrow> in_range a k x \<Longrightarrow> flags_at K m x \<noteq> None"
  by (auto simp: owns_def permits_def simp del: flags_at_None split: option.splits)

lemma owns_kept:
  assumes "new_area K bytes n prot r m m'" "owns K m a k"
  shows "owns K m' a k" "in_range a k x \<Longrightarrow> bytes m' x = bytes m x" "in_range a k x \<Longrightarrow> \<not> in_range r (unat n) x"
proof -
  have *: "\<not> in_range r (unat n) x" if "in_range a k x" for x
    using new_area_apart [OF assms(1)] owns_mapped [OF assms(2) that] by blast
  then show "in_range a k x \<Longrightarrow> \<not> in_range r (unat n) x" .
  have keep: "flags_at K m' x = flags_at K m x \<and> bytes m' x = bytes m x" if "in_range a k x" for x
    using assms(1) * [OF that] by (simp add: new_area_def)
  then show "in_range a k x \<Longrightarrow> bytes m' x = bytes m x" by blast
  show "owns K m' a k" using keep assms(2) by (simp add: owns_def)
qed

lemma gives_unmapping:
  assumes "mm_laws K bytes" "4096 dvd unat n"
    and "4096 dvd unat a \<Longrightarrow> freed K bytes a n (mm s) (vm_munmap K a n (mm s)) \<Longrightarrow> gives (p 0) (s\<lparr>mm := vm_munmap K a n (mm s)\<rparr>) Q"
    and "\<not> 4096 dvd unat a \<Longrightarrow> gives (p (- 1)) s Q"
  shows "gives (unmapping K a n p) s Q"
proof (cases "4096 dvd unat a")
  case True
  have "freed K bytes a n (mm s) (vm_munmap K a n (mm s))"
    using vm_munmap_ok [OF assms(1) True assms(2), where m = "mm s"] by (simp add: freed_def)
  then show ?thesis using assms(3) True by (simp add: gives_def unmapping_def aligned_iff)
next
  case False
  then show ?thesis using assms(4) by (simp add: gives_def unmapping_def aligned_iff)
qed

lemma owns_freed:
  assumes "freed K bytes a n m m'" "owns K m b k" "\<And>x. in_range b k x \<Longrightarrow> \<not> in_range a (unat n) x"
  shows "owns K m' b k" "in_range b k x \<Longrightarrow> bytes m' x = bytes m x"
  using assms by (simp_all add: owns_def freed_def)

text \<open>Stores and loads.\<close>

lemma gives_storing:
  assumes laws: "mm_laws K bytes" and own: "owns K (mm s) a (length bs)"
    and "\<And>m. flags_at K m = flags_at K (mm s) \<Longrightarrow> (\<And>x. mtree_load K x m = mtree_load K x (mm s)) \<Longrightarrow>
        bytes m = mem_write a bs (bytes (mm s)) \<Longrightarrow> gives p (s\<lparr>mm := m\<rparr>) Q"
  shows "gives (storing K h a bs p) s Q"
proof -
  obtain m where m: "to_user K a bs (mm s) = (0, m)" "bytes m = mem_write a bs (bytes (mm s))" "flags_at K m = flags_at K (mm s)"
    using to_user_ok [OF laws, of a bs "mm s"] ownsD [OF own] by blast
  moreover have "mtree_load K x m = mtree_load K x (mm s)" for x using to_user_areas [OF laws, of x a bs "mm s"] m(1) by simp
  ultimately show ?thesis using assms(3) [of m] by (simp add: gives_def storing_def)
qed

lemma gives_fault:
  assumes "mm_laws K bytes" "bs \<noteq> []" "\<not> permits VM_WRITE (flags_at K (mm s) a)" "\<And>s. gives h s Q"
  shows "gives (storing K h a bs p) s Q"
proof -
  obtain r m where "to_user K a bs (mm s) = (r, m)" "r \<noteq> 0" using to_user_denied [OF assms(1,2,3)] by blast
  then show ?thesis using assms(4) by (simp add: gives_def storing_def)
qed

lemma gives_loading:
  assumes "mm_laws K bytes" "owns K (mm s) a (unat n)" "gives (p (mem_read a (unat n) (bytes (mm s)))) s Q"
  shows "gives (loading K h a n p) s Q"
  using from_user_ok [OF assms(1), of a n "mm s"] ownsD [OF assms(2)] assms(3) by (simp add: gives_def loading_def)

text \<open>What was mapped stays, with its contents.\<close>

definition keeps :: "'m mmapi \<Rightarrow> ('m \<Rightarrow> mem) \<Rightarrow> 'm \<Rightarrow> 'm \<Rightarrow> bool" where
  "keeps K bytes m m' \<longleftrightarrow> (\<forall>x. flags_at K m x \<noteq> None \<longrightarrow> flags_at K m' x = flags_at K m x \<and> bytes m' x = bytes m x)"

lemma keeps_refl [simp]: "keeps K bytes m m"
  by (simp add: keeps_def)

lemma keeps_trans: "keeps K bytes m m' \<Longrightarrow> keeps K bytes m' m'' \<Longrightarrow> keeps K bytes m m''"
  by (simp add: keeps_def del: flags_at_None)

lemma keeps_new: "new_area K bytes n prot r m m' \<Longrightarrow> keeps K bytes m m'"
  unfolding keeps_def new_area_def by (metis option.distinct(1))

lemma keeps_freed:
  assumes "keeps K bytes m m'" "freed K bytes r n m' m''" "\<And>x. in_range r (unat n) x \<Longrightarrow> flags_at K m x = None"
  shows "keeps K bytes m m''"
  using assms unfolding keeps_def freed_def by (metis option.distinct(1))

lemma owns_keeps:
  assumes "keeps K bytes m m'" "owns K m a k"
  shows "owns K m' a k" "in_range a k x \<Longrightarrow> bytes m' x = bytes m x"
  using assms owns_mapped [OF assms(2)] by (auto simp: keeps_def owns_def simp del: flags_at_None)

lemma free_before: "keeps K bytes m m' \<Longrightarrow> flags_at K m' x = None \<Longrightarrow> flags_at K m x = None"
  by (metis keeps_def)

text \<open>A readable and writable area of whole pages, for a program that gives up when it does not get it.\<close>

lemma gives_area:
  assumes laws: "mm_laws K bytes" and n: "page_align n = n"
    and bad: "IS_ERR (fst (vm_mmap K hint n RW PRIVATE (mm s))) \<Longrightarrow> gives (p (- 1)) s Q"
    and rest: "\<And>m r. vm_mmap K hint n RW PRIVATE (mm s) = (r, m) \<Longrightarrow> r \<noteq> - 1 \<Longrightarrow> owns K m r (unat n) \<Longrightarrow> 4096 dvd unat r \<Longrightarrow>
      unat r + unat n \<le> 2 ^ 47 \<Longrightarrow> (\<And>x. in_range r (unat n) x \<Longrightarrow> flags_at K (mm s) x = None) \<Longrightarrow> keeps K bytes (mm s) m \<Longrightarrow> gives (p r) (s\<lparr>mm := m\<rparr>) Q"
  shows "gives (mapping K hint n RW p) s Q"
proof (rule gives_mapping [OF laws private_flags(1)])
  show "IS_ERR (fst (vm_mmap K hint (page_align n) RW PRIVATE (mm s))) \<Longrightarrow> gives (p (- 1)) s Q" using bad n by simp
  fix r m
  assume run: "vm_mmap K hint (page_align n) RW PRIVATE (mm s) = (r, m)" and new: "new_area K bytes (page_align n) RW r (mm s) m"
  then show "gives (p r) (s\<lparr>mm := m\<rparr>) Q"
    using owns_new_area [OF new, of "unat n"] keeps_new [OF new] n
    by (intro rest) (simp_all add: new_area_def RW_def vm_consts del: flags_at_None)
qed

end
