(* ===== verification/Ptextract.thy ===== *)
theory Ptextract
  imports Btplus
begin

text \<open>
  The page table extractor of the VMA tests, \<^verbatim>\<open>Testcases/module_ptw/ptextract.c\<close>: a program writes an address to
  the device and reads back the entries of its page table at the two lowest levels.  The page
  tables, with the tests on their entries, are a parameter; so are the direct accesses to user memory, which
  may fault.  The structure that is copied to the user starts as whatever the stack held (\<open>junk\<close>).
\<close>

record ptw =
  chrdev +
  gptr :: u64
  gpte :: ptr

definition DEVNAME :: string where "DEVNAME = ''ptw''"

record data =
  d_pmd :: u64
  d_pte :: u64

record tables =
  pgd_offset :: "u64 \<Rightarrow> ptr"
  p4d_offset :: "ptr \<Rightarrow> u64 \<Rightarrow> ptr"
  pud_offset :: "ptr \<Rightarrow> u64 \<Rightarrow> ptr"
  pmd_offset :: "ptr \<Rightarrow> u64 \<Rightarrow> ptr"
  pte_offset_map :: "ptr \<Rightarrow> u64 \<Rightarrow> ptr"
  entry_at :: "ptr \<Rightarrow> u64"
  pgd_none :: "u64 \<Rightarrow> bool"
  pgd_bad :: "u64 \<Rightarrow> bool"
  p4d_none :: "u64 \<Rightarrow> bool"
  p4d_bad :: "u64 \<Rightarrow> bool"
  pud_none :: "u64 \<Rightarrow> bool"
  pud_bad :: "u64 \<Rightarrow> bool"
  pmd_none :: "u64 \<Rightarrow> bool"
  pmd_trans_huge :: "u64 \<Rightarrow> bool"

text \<open>Accesses between \<^verbatim>\<open>stac\<close> and \<^verbatim>\<open>clac\<close>; \<open>None\<close> when they fault.\<close>

record 'm direct =
  load64 :: "u64 \<Rightarrow> 'm \<Rightarrow> u64 option"
  store :: "u64 \<Rightarrow> u8 list \<Rightarrow> 'm \<Rightarrow> 'm option"

definition device_open :: "ptw \<Rightarrow> u32 \<times> ptw" where
  "device_open s =
     (let s = s\<lparr>device_opened := device_opened s + 1\<rparr>
      in (0, kcalled Try_module_get s))"

definition device_release :: "ptw \<Rightarrow> u32 \<times> ptw" where
  "device_release s =
     (let s = s\<lparr>device_opened := device_opened s - 1\<rparr>
      in (0, kcalled Module_put s))"

text \<open>The walk: the address of the lowest entry or null, and the structure, filled as far as the walk came.\<close>

definition get_pte :: "tables \<Rightarrow> u64 \<Rightarrow> data \<Rightarrow> ptr \<times> data" where
  "get_pte T address dt =
     (let pgd = pgd_offset T address
      in if pgd_none T (entry_at T pgd) \<or> pgd_bad T (entry_at T pgd) then (0, dt)
         else
           (let p4d = p4d_offset T pgd address
            in if p4d_none T (entry_at T p4d) then (0, dt)
               else if p4d_bad T (entry_at T p4d) then (0, dt)
               else
                 (let pud = pud_offset T p4d address
                  in if pud_none T (entry_at T pud) then (0, dt)
                     else if pud_bad T (entry_at T pud) then (0, dt)
                     else
                       (let pmd = pmd_offset T pud address
                        in if pmd_none T (entry_at T pmd) then (0, dt)
                           else if pmd_trans_huge T (entry_at T pmd) then (0, dt)
                           else
                             (let dt = dt\<lparr>d_pmd := entry_at T pmd\<rparr>;
                                  ptep = pte_offset_map T pmd address
                              in if ptep = 0 then (0, dt)
                                 else (ptep, dt\<lparr>d_pte := entry_at T ptep\<rparr>))))))"

definition put_data :: "data \<Rightarrow> u8 list" where
  "put_data dt = put64 (d_pmd dt) @ put64 (d_pte dt)"

definition device_read :: "tables \<Rightarrow> 'm direct \<Rightarrow> data \<Rightarrow> u64 \<Rightarrow> u64 \<Rightarrow> 'm \<Rightarrow> ptw \<Rightarrow> (ssize_t \<times> 'm \<times> ptw) outcome" where
  "device_read T D junk buffer n m s =
     (let (p, dt) = get_pte T (gptr s) junk;
          s = s\<lparr>gpte := p\<rparr>
      in case store D buffer (put_data dt) m of None \<Rightarrow> Oops | Some m \<Rightarrow> Done (0, m, s))"

definition device_write :: "'m direct \<Rightarrow> u64 \<Rightarrow> u64 \<Rightarrow> 'm \<Rightarrow> ptw \<Rightarrow> (ssize_t \<times> ptw) outcome" where
  "device_write D buff n m s =
     (case load64 D buff m of None \<Rightarrow> Oops | Some a \<Rightarrow> Done (8, s\<lparr>gptr := a\<rparr>))"

definition device_ioctl :: "u32 \<Rightarrow> u64 \<Rightarrow> ptw \<Rightarrow> u64 \<times> ptw" where
  "device_ioctl ioctl_num ioctl_param s = (0, s)"

definition demo_devnode :: "u32 \<Rightarrow> u16 option \<Rightarrow> ptw \<Rightarrow> u16 option" where
  "demo_devnode devt mode s =
     (case mode of None \<Rightarrow> None | Some v \<Rightarrow> if devt = MKDEV (major s) 0 then Some 0x1B6 else Some v)"

definition init_module :: "kapi \<Rightarrow> ptw \<Rightarrow> u32 \<times> ptw" where
  "init_module k s =
     (let (r, s) = register_chrdev k DEVNAME s;
          s = s\<lparr>major := r\<rparr>
      in if r <s 0 then (r, s)
         else
           (let (c, s) = class_create k DEVNAME s;
                s = s\<lparr>demo_class := c\<rparr>
            in if IS_ERR c then (PTR_ERR c, kcalled (Unregister_chrdev (major s) DEVNAME) s)
               else
                 (let (d, s) = device_create k c (MKDEV (major s) 0) DEVNAME s;
                      s = s\<lparr>demo_device := d\<rparr>
                  in if IS_ERR d then
                       (let s = kcalled (Class_destroy (demo_class s)) s
                        in (PTR_ERR d, kcalled (Unregister_chrdev (major s) DEVNAME) s))
                     else (0, s\<lparr>device_opened := 0\<rparr>))))"

definition cleanup_module :: "ptw \<Rightarrow> ptw" where
  "cleanup_module s =
     (let s = kcalled (Device_destroy (demo_class s) (MKDEV (major s) 0)) s;
          s = kcalled (Class_destroy (demo_class s)) s
      in kcalled (Unregister_chrdev (major s) DEVNAME) s)"

interpretation ptw_files: chrdev_files device_open device_release device_opened klog
  "\<lambda>s. (major s, demo_class s, demo_device s, gptr s, gpte s)"
  by unfold_locales (simp_all add: device_open_def device_release_def kcalled_def Let_def)

interpretation ptw_module: chrdev_module init_module cleanup_module klog "\<lambda>k s. True"
proof
  fix k s s'
  assume *: "init_module k s = (0, s')" "live (klog s) = {}" "well_used (klog s)"
  show "live (klog (cleanup_module s')) = {} \<and> well_used (klog (cleanup_module s'))"
    using * PTR_ERR_nonzero
    by (auto simp: init_module_def cleanup_module_def kernel_defs Let_def split: if_splits)
qed

section \<open>The walk\<close>

text \<open>
  The translation an address has in the tables: one step per level, each stopped by an entry that is
  empty, malformed or (at the third level) a huge page.
\<close>

definition descend :: "tables \<Rightarrow> (u64 \<Rightarrow> bool) \<Rightarrow> (ptr \<Rightarrow> u64 \<Rightarrow> ptr) \<Rightarrow> u64 \<Rightarrow> ptr \<Rightarrow> ptr option" where
  "descend T stop nxt a e = (if stop (entry_at T e) then None else Some (nxt e a))"

definition pmd_of :: "tables \<Rightarrow> u64 \<Rightarrow> ptr option" where
  "pmd_of T a =
     Option.bind (descend T (\<lambda>v. pgd_none T v \<or> pgd_bad T v) (p4d_offset T) a (pgd_offset T a)) (\<lambda>p4d.
       Option.bind (descend T (\<lambda>v. p4d_none T v \<or> p4d_bad T v) (pud_offset T) a p4d) (\<lambda>pud.
         descend T (\<lambda>v. pud_none T v \<or> pud_bad T v) (pmd_offset T) a pud))"

definition translate :: "tables \<Rightarrow> u64 \<Rightarrow> data option" where
  "translate T a =
     Option.bind (pmd_of T a) (\<lambda>pmd.
       Option.bind (descend T (\<lambda>v. pmd_none T v \<or> pmd_trans_huge T v) (pte_offset_map T) a pmd) (\<lambda>pte.
         if pte = 0 then None else Some \<lparr>d_pmd = entry_at T pmd, d_pte = entry_at T pte\<rparr>))"

lemma get_pte_translate:
  "translate T a = Some dt \<Longrightarrow> fst (get_pte T a junk) \<noteq> 0 \<and> snd (get_pte T a junk) = dt"
  "translate T a = None \<Longrightarrow> fst (get_pte T a junk) = 0 \<and> d_pte (snd (get_pte T a junk)) = d_pte junk"
  by (cases junk; auto simp: translate_def pmd_of_def descend_def get_pte_def Let_def split: if_splits)+

text \<open>
  C23: The page table extractor.  Writing an address and then reading stores the two entries of its translation in
  the caller's buffer, whatever address that is.  For an address that is not translated, because it is not mapped or lies
  in a huge page, the read succeeds all the same and hands the caller what was left on the kernel's stack.
\<close>

theorem ptextract_reads_entries:
  assumes "load64 D buff m = Some a" "\<And>bs. length bs = 16 \<Longrightarrow> store D buffer bs m' = Some (mem_write buffer bs m')"
  shows "\<exists>s1 s2 m2. device_write D buff n m s = Done (8, s1) \<and> device_read T D junk buffer k m' s1 = Done (0, m2, s2) \<and>
    (case translate T a of
       Some dt \<Rightarrow> m2 = mem_write buffer (put_data dt) m' \<and> gpte s2 \<noteq> 0
     | None \<Rightarrow> mem_read (buffer + 8) 8 m2 = put64 (d_pte junk) \<and> gpte s2 = 0)"
proof -
  have len: "length (put_data dt) = 16" "length (put64 w) = 8" for dt w by (simp_all add: put_data_def put64_def)
  have snd_half: "mem_read (buffer + 8) 8 (mem_write buffer (put_data dt) m') = put64 (d_pte dt)" for dt
  proof -
    have "length (put_data dt) \<le> 2 ^ 64" using len by simp
    from mem_read_write_same [OF this, of buffer m'] have "mem_read buffer (8 + 8) (mem_write buffer (put_data dt) m') = put_data dt"
      unfolding len by simp
    then show ?thesis unfolding mem_read_append by (simp add: put_data_def len)
  qed
  show ?thesis
    using assms(1) assms(2) [OF len(1)] get_pte_translate [where T = T and a = a and junk = junk] snd_half
    by (cases "translate T a") (auto simp: device_write_def device_read_def split: prod.splits)
qed

text \<open>Tables that translate one page and nothing else, for an example.\<close>

definition one_page :: tables where
  "one_page =
     \<lparr>pgd_offset = (\<lambda>a. if drop_bit 12 a = 5 then 1 else 0), p4d_offset = (\<lambda>e a. 2), pud_offset = (\<lambda>e a. 3),
      pmd_offset = (\<lambda>e a. 4), pte_offset_map = (\<lambda>e a. 5), entry_at = (\<lambda>e. e * 4096),
      pgd_none = (\<lambda>v. v = 0), pgd_bad = (\<lambda>v. False), p4d_none = (\<lambda>v. v = 0), p4d_bad = (\<lambda>v. False),
      pud_none = (\<lambda>v. v = 0), pud_bad = (\<lambda>v. False), pmd_none = (\<lambda>v. v = 0), pmd_trans_huge = (\<lambda>v. False)\<rparr>"

definition no_fault :: "u64 \<Rightarrow> mem direct" where
  "no_fault a = \<lparr>load64 = (\<lambda>p m. Some a), store = (\<lambda>p bs m. Some (mem_write p bs m))\<rparr>"

definition ex_ptw :: ptw where
  "ex_ptw = \<lparr>major = 240, device_opened = 1, demo_class = 1, demo_device = 2, klog = [], gptr = 0, gpte = 0\<rparr>"

theorem ptextract_reads_entries_witness:
  "\<exists>s1 s2 m2. device_write (no_fault 0x5123) 0x100 8 (\<lambda>_. 0) ex_ptw = Done (8, s1) \<and>
     device_read one_page (no_fault 0x5123) \<lparr>d_pmd = 77, d_pte = 78\<rparr> 0x200 16 (\<lambda>_. 0) s1 = Done (0, m2, s2) \<and>
     m2 = mem_write 0x200 (put_data \<lparr>d_pmd = 0x4000, d_pte = 0x5000\<rparr>) (\<lambda>_. 0)"
proof -
  have "translate one_page 0x5123 = Some \<lparr>d_pmd = 0x4000, d_pte = 0x5000\<rparr>"
    by (simp add: translate_def pmd_of_def descend_def one_page_def drop_bit_eq_div)
  with ptextract_reads_entries [of "no_fault 0x5123" "0x100" "\<lambda>_. 0" "0x5123" "0x200" "\<lambda>_. 0" 8 ex_ptw one_page
      "\<lparr>d_pmd = 77, d_pte = 78\<rparr>" 16]
  show ?thesis by (auto simp: no_fault_def)
qed

end
