(* ===== verification/Vmprogs_Compact.thy ===== *)
theory Vmprogs_Compact
  imports Vmprogs_Rules Ptextract
begin

text \<open>
  The test programs of the VMA module that compact areas: \<^verbatim>\<open>Testcases/testcases/tc31.c\<close> to \<^verbatim>\<open>tc40.c\<close> and
  \<^verbatim>\<open>template/user_progs/part3.c\<close>; and what they share with the programs of the promotion: loops that store, and
  loops that show page table entries through the extractor module.
\<close>

section \<open>Loops over a mapping\<close>

text \<open>
  \<^verbatim>\<open>for (int j = 0; j < bound; j += step) ptr[at j] = val j\<close>, with the counter at its width: a bound of 2 GB is never
  reached.  The flag tells that the loop came to its end; else a store faulted.
\<close>

partial_function (option) store_loop ::
  "'m mmapi \<Rightarrow> (u32 \<Rightarrow> u64) \<Rightarrow> (u32 \<Rightarrow> u8 list) \<Rightarrow> int \<Rightarrow> u32 \<Rightarrow> u32 \<Rightarrow> 'm \<Rightarrow> (bool \<times> 'm) option" where
  "store_loop K at val bound step j m =
     (if sint j < bound then
        (let (r, m) = to_user K (at j) (val j) m
         in if r \<noteq> 0 then Some (False, m) else store_loop K at val bound step (j + step) m)
      else Some (True, m))"

definition store_all ::
  "'m mmapi \<Rightarrow> 'm prog \<Rightarrow> (u32 \<Rightarrow> u64) \<Rightarrow> (u32 \<Rightarrow> u8 list) \<Rightarrow> int \<Rightarrow> u32 \<Rightarrow> 'm prog \<Rightarrow> 'm prog" where
  "store_all K h at val bound step p s =
     (case store_loop K at val bound step 0 (mm s) of
        None \<Rightarrow> Hang
      | Some (ok, m) \<Rightarrow> if ok then p (s\<lparr>mm := m\<rparr>) else h (s\<lparr>mm := m\<rparr>))"

text \<open>\<^verbatim>\<open>'A' + i % 10\<close>; the remainder has the sign of \<^verbatim>\<open>i\<close>.\<close>

definition letter :: "u32 \<Rightarrow> u8" where
  "letter i = 65 + word_of_int (sgn (sint i) * (\<bar>sint i\<bar> mod 10))"

text \<open>
  Looking up an address: it is written to the extractor, the entries are read to \<open>dt\<close> and printed.  The extractor has the
  access rights of the program, but a fault in it is one of the kernel.  Its page tables, and what its stack held, depend on the
  address space.
\<close>

record 'm pagewalk =
  pw_state :: ptw
  pw_tables :: "'m \<Rightarrow> tables"
  pw_junk :: "'m \<Rightarrow> data"

definition user_access :: "'m mmapi \<Rightarrow> 'm direct" where
  "user_access K =
     \<lparr>load64 = (\<lambda>a m. let (r, bs) = from_user K a 8 m in if r \<noteq> 0 then None else Some (get64 bs)),
      store = (\<lambda>a bs m. let (r, m) = to_user K a bs m in if r \<noteq> 0 then None else Some m)\<rparr>"

definition walk_step :: "'m mmapi \<Rightarrow> 'm pagewalk \<Rightarrow> venv \<Rightarrow> u64 \<Rightarrow> u64 \<Rightarrow> ptw \<Rightarrow> 'm \<Rightarrow> (said option \<times> 'm \<times> ptw) outcome" where
  "walk_step K W E addr dt w m =
     (let (r, m) = to_user K (e_addr E) (put64 addr) m
      in if r \<noteq> 0 then Done (None, m, w)
         else obind (Ptextract.device_write (user_access K) (e_addr E) 8 m w) (\<lambda>(_, w).
           obind (Ptextract.device_read (pw_tables W m) (user_access K) (pw_junk W m) dt 16 m w) (\<lambda>(_, m, w).
             let (r, bs) = from_user K dt 16 m
             in if r \<noteq> 0 then Done (None, m, w)
                else Done (Some (Entries (get64 bs) (get64 (drop 8 bs))), m, w))))"

text \<open>The lookups every 2 MB, with the entries stored one after the other.\<close>

partial_function (option) walk_loop ::
  "'m mmapi \<Rightarrow> 'm pagewalk \<Rightarrow> venv \<Rightarrow> u64 \<Rightarrow> int \<Rightarrow> u32 \<Rightarrow> u64 \<Rightarrow> ptw \<Rightarrow> 'm \<Rightarrow> (bool \<times> said list \<times> 'm \<times> ptw) outcome option" where
  "walk_loop K W E ptr bound j dt w m =
     (if sint j < bound then
        (case walk_step K W E (ptr + scast j) dt w m of
           Done (line, m, w) \<Rightarrow>
             (case line of
                None \<Rightarrow> Some (Done (False, [], m, w))
              | Some l \<Rightarrow> Option.bind (walk_loop K W E ptr bound (j + 0x200000) (dt + 16) w m) (\<lambda>out.
                  Some (obind out (\<lambda>(ok, ws, m, w). Done (ok, l # ws, m, w)))))
         | Oops \<Rightarrow> Some Oops
         | Hang \<Rightarrow> Some Hang)
      else Some (Done (True, [], m, w)))"

definition walks ::
  "'m mmapi \<Rightarrow> 'm pagewalk \<Rightarrow> 'm prog \<Rightarrow> venv \<Rightarrow> u64 \<Rightarrow> int \<Rightarrow> u64 \<Rightarrow> ptw \<Rightarrow> (ptw \<Rightarrow> 'm prog) \<Rightarrow> 'm prog" where
  "walks K W h E ptr bound dt w p s =
     (case walk_loop K W E ptr bound 0 dt w (mm s) of
        None \<Rightarrow> Hang
      | Some out \<Rightarrow> obind out (\<lambda>(ok, ws, m, w). foldr say ws (if ok then p w else h) (s\<lparr>mm := m\<rparr>)))"

text \<open>Both devices are opened first; the extractor is closed when the program ends.\<close>

definition with_devices :: "venv \<Rightarrow> 'm pagewalk \<Rightarrow> (ptw \<Rightarrow> 'm prog) \<Rightarrow> 'm prog" where
  "with_devices E W p =
     with_device E (if e_opens_ptw E then p (snd (Ptextract.device_open (pw_state W))) else quits (- 1))"

text \<open>The number of blocks of 2 MB, for the table of entries.\<close>

definition num_2MB :: "u64 \<Rightarrow> u64" where
  "num_2MB n = (if push_bit 21 (drop_bit 21 n) = n then drop_bit 21 n else drop_bit 21 n + 1)"

section \<open>The programs\<close>

definition put32 :: "u32 \<Rightarrow> u8 list" where
  "put32 w = map (\<lambda>i. ucast (drop_bit (8 * i) w)) [0..<4]"

definition set_input :: "'m mmapi \<Rightarrow> 'm prog \<Rightarrow> venv \<Rightarrow> u64 \<Rightarrow> u32 \<Rightarrow> 'm prog \<Rightarrow> 'm prog" where
  "set_input K h E a l p =
     storing K h (e_arg E) (put64 a) (storing K h (e_arg E + 8) (put32 l) (storing K h (e_arg E + 16) (put64 (e_stack E)) p))"

text \<open>An area above where the kernel would place it.\<close>

definition shifted_area :: "'m mmapi \<Rightarrow> u64 \<Rightarrow> (u64 \<Rightarrow> 'm prog) \<Rightarrow> 'm prog" where
  "shifted_area K n p =
     mapping K 0 n RW (\<lambda>ptr. unmapping K ptr n (\<lambda>_. mapping K (next_page ptr) n RW (\<lambda>ptr.
       if ptr = - 1 then quits (- 1) else p ptr)))"

text \<open>The field \<^verbatim>\<open>new\<close> of entry \<open>i\<close> of the table.\<close>

definition table_new :: "'m mmapi \<Rightarrow> 'm prog \<Rightarrow> venv \<Rightarrow> u64 \<Rightarrow> (u64 \<Rightarrow> 'm prog) \<Rightarrow> 'm prog" where
  "table_new K h E i p = loading K h (e_stack E + 16 * i + 8) 8 (\<lambda>bs. p (get64 bs))"

definition tc31 :: "kapi \<Rightarrow> 'm mmapi \<Rightarrow> venv \<Rightarrow> 'm prog" where
  "tc31 k K E = with_device E (shifted_area K 0x400000 (\<lambda>ptr.
     storing K dies (ptr + (0x400000 - 4096)) [65] (set_input K dies E ptr 1024 (demand k K E IOCTL_COMPACT_VMA (
       table_new K dies E 1023 (\<lambda>new. if new \<noteq> drop_bit 12 ptr then say Failed (quits (- 1)) else closing (exits 0)))))))"

text \<open>Three programs that expect a refusal.\<close>

definition expect_refusal :: "kapi \<Rightarrow> 'm mmapi \<Rightarrow> venv \<Rightarrow> 'm prog" where
  "expect_refusal k K E =
     request k K E IOCTL_COMPACT_VMA (\<lambda>r. if r <s 0 then say Passed (quits 0) else closing (exits (- 1)))"

definition tc32 :: "kapi \<Rightarrow> 'm mmapi \<Rightarrow> venv \<Rightarrow> 'm prog" where
  "tc32 k K E = with_device E (shifted_area K 0x400000 (\<lambda>ptr. set_input K dies E ptr 1024 (expect_refusal k K E)))"

definition tc33 :: "kapi \<Rightarrow> 'm mmapi \<Rightarrow> venv \<Rightarrow> 'm prog" where
  "tc33 k K E = with_device E (mapping K 0 0x400000 RW (\<lambda>ptr.
     if ptr = - 1 then quits (- 1)
     else storing K dies ptr (replicate 0x400000 65) (set_input K dies E ptr 1024 (
       unmapping K ptr 0x400000 (\<lambda>_. expect_refusal k K E)))))"

definition tc34 :: "kapi \<Rightarrow> 'm mmapi \<Rightarrow> venv \<Rightarrow> 'm prog" where
  "tc34 k K E = with_device E (shifted_area K 0x400000 (\<lambda>ptr.
     storing K dies ptr (replicate 0x400000 65) (set_input K dies E ptr 2048 (expect_refusal k K E))))"

text \<open>A program with an array larger than its stack is killed when it enters \<^verbatim>\<open>main\<close>.\<close>

definition with_array :: "venv \<Rightarrow> nat \<Rightarrow> 'm prog \<Rightarrow> 'm prog" where
  "with_array E n p s = (if n \<le> e_stack_room E then p s else Done ([], Killed, s))"

text \<open>The address a program computes is the entry shifted by the sum of 12 and the offset.\<close>

definition new_addr :: "u64 \<Rightarrow> u64 \<Rightarrow> u64" where
  "new_addr new a = push_bit (12 + unat (a AND 0xfff)) new"

definition tc35 :: "kapi \<Rightarrow> 'm mmapi \<Rightarrow> venv \<Rightarrow> 'm prog" where
  "tc35 k K E = with_array E (1048576 * 16) (with_device E (shifted_area K 0x80000000 (\<lambda>ptr.
     storing K dies ptr (replicate 0x40000000 65) (set_input K dies E (ptr + 0x40000000) 0x40000 (
       demand k K E IOCTL_COMPACT_VMA (table_new K dies E 0x40001 (\<lambda>new.
         let a = new_addr new (ptr + 0x40001000)
         in if ptr \<le> a \<and> a < ptr + 0x40000000 then say Failed (quits (- 1)) else closing (exits 0))))))))"

definition tc36 :: "kapi \<Rightarrow> 'm mmapi \<Rightarrow> venv \<Rightarrow> 'm prog" where
  "tc36 k K E = with_device E (mapping K 0 16384 RW (\<lambda>ptr.
     if ptr = - 1 then quits (- 1)
     else storing K dies (ptr + 13312) [65] (set_input K dies E (ptr + 8192) 2 (demand k K E IOCTL_COMPACT_VMA (
       table_new K dies E 3 (\<lambda>new.
         if new \<noteq> drop_bit 12 (ptr + 8192) then say Failed (quits (- 1)) else closing (exits 0)))))))"

definition tc37 :: "kapi \<Rightarrow> 'm mmapi \<Rightarrow> venv \<Rightarrow> 'm prog" where
  "tc37 k K E = with_array E (524288 * 16) (with_device E (with_handler E (shifted_area K 0x80000000 (\<lambda>ptr.
     storing K segv_passed (ptr + (0x80000000 - 1024)) [67] (set_input K segv_passed E ptr 0x80000 (
       demand k K E IOCTL_COMPACT_VMA (table_new K segv_passed E 0 (\<lambda>new.
         show_pages K segv_passed (new_addr new ptr) 1 (closing (exits (- 1)))))))))))"

text \<open>Programs that show the page table entries before and after.\<close>

definition around :: "kapi \<Rightarrow> 'm mmapi \<Rightarrow> 'm pagewalk \<Rightarrow> venv \<Rightarrow> (u32 \<Rightarrow> u64) \<Rightarrow> int \<Rightarrow> u32 \<Rightarrow> 'm prog" where
  "around k K W E at bound step = with_devices E W (\<lambda>w.
     mapping K 0 0x1000000 RW (\<lambda>ptr. unmapping K ptr 0x1000000 (\<lambda>_. mapping K (next_page ptr) 0x1000000 RW (\<lambda>ptr.
       populating K 0 (num_2MB 0x1000000 * 16) RW (\<lambda>dt.
         if ptr = - 1 \<or> dt = - 1 then quits (- 1)
         else store_all K dies (\<lambda>i. ptr + at i) (\<lambda>i. [letter i]) bound step (set_input K dies E ptr 4096 (
           walks K W dies E ptr 0x1000000 dt w (\<lambda>w. demand k K E IOCTL_COMPACT_VMA (
             walks K W dies E ptr 0x1000000 dt w (\<lambda>_. closing (exits 0)))))))))))"

definition tc38 :: "kapi \<Rightarrow> 'm mmapi \<Rightarrow> 'm pagewalk \<Rightarrow> venv \<Rightarrow> 'm prog" where
  "tc38 k K W E = around k K W E scast 0x1000000 8192"

definition tc39 :: "kapi \<Rightarrow> 'm mmapi \<Rightarrow> venv \<Rightarrow> 'm prog" where
  "tc39 k K E = with_device E (shifted_area K 0x400000 (\<lambda>ptr.
     store_all K dies (\<lambda>i. ptr + scast i) (\<lambda>i. [68]) 0x400000 12288 (set_input K dies E ptr 1024 (
       demand k K E IOCTL_COMPACT_VMA (closing (unmapping K ptr 0x400000 (\<lambda>_. exits 0)))))))"

definition tc40 :: "kapi \<Rightarrow> 'm mmapi \<Rightarrow> 'm pagewalk \<Rightarrow> venv \<Rightarrow> 'm prog" where
  "tc40 k K W E = around k K W E (\<lambda>i. scast (i * 8192)) 256 1"

definition part3 :: "kapi \<Rightarrow> 'm mmapi \<Rightarrow> venv \<Rightarrow> 'm prog" where
  "part3 k K E = with_device E (mapping K 0 0x400000 RW (\<lambda>ptr.
     if ptr = - 1 then quits (- 1)
     else store_all K dies (\<lambda>i. ptr + scast i) (\<lambda>i. replicate 4096 65) 0x400000 8192 (set_input K dies E ptr 1024 (
       demand k K E IOCTL_COMPACT_VMA (
         loading K dies (e_stack E + 16 * drop_bit 12 ((ptr + 10) - ptr)) 16 (\<lambda>bs.
           show_pages K dies (to_addr (get_address bs) + ((ptr + 10) AND 0xfff)) 1 (
             closing (unmapping K ptr 0x400000 (\<lambda>_. exits 0)))))))))"

section \<open>The loops return\<close>

lemma sint_add_u32:
  fixes a b :: u32
  assumes "0 \<le> sint a" "0 \<le> sint b" "sint a + sint b < 2 ^ 31"
  shows "sint (a + b) = sint a + sint b"
proof -
  have "sint (a + b) = signed_take_bit 31 (sint a + sint b)" using sint_word_ariths(1) [of a b] by simp
  then show ?thesis using assms by (simp add: signed_take_bit_int_eq_self)
qed

text \<open>Stores into memory of the program come to their end when the counter cannot overflow.\<close>

lemma store_loop_ok:
  assumes laws: "mm_laws K bytes" and step: "0 < sint step" "bound + sint step \<le> 2 ^ 31"
    and own: "\<And>i. 0 \<le> sint i \<Longrightarrow> sint i < bound \<Longrightarrow> sint step dvd sint i \<Longrightarrow> owns K m (at i) (length (val i))"
    and small: "\<And>i. length (val i) \<le> 2 ^ 64" and j: "0 \<le> sint j" "sint step dvd sint j"
  shows "\<exists>m'. store_loop K at val bound step j m = Some (True, m') \<and> flags_at K m' = flags_at K m \<and>
    (\<forall>x. (\<forall>i. sint j \<le> sint i \<and> sint i < bound \<and> sint step dvd sint i \<longrightarrow> \<not> in_range (at i) (length (val i)) x) \<longrightarrow> bytes m' x = bytes m x)"
  using own j
proof (induction "nat (bound - sint j)" arbitrary: j m rule: less_induct)
  case less
  show ?case
  proof (cases "sint j < bound")
    case False
    then show ?thesis by (simp add: store_loop.simps [of _ _ _ _ _ j])
  next
    case True
    obtain m1 where m1: "to_user K (at j) (val j) m = (0, m1)" "bytes m1 = mem_write (at j) (val j) (bytes m)" "flags_at K m1 = flags_at K m"
      using to_user_ok [OF laws, of "at j" "val j" m] ownsD [OF less.prems(1) [OF less.prems(2) True less.prems(3)]] by blast
    have next_j: "sint (j + step) = sint j + sint step" using True step less.prems(2) by (intro sint_add_u32) auto
    then have dec: "nat (bound - sint (j + step)) < nat (bound - sint j)" "0 \<le> sint (j + step)" "sint step dvd sint (j + step)"
      using True step(1) less.prems(2,3) by auto
    have own1: "owns K m1 (at i) (length (val i))" if "0 \<le> sint i" "sint i < bound" "sint step dvd sint i" for i
      using less.prems(1) [OF that] owns_flags [OF m1(3)] by simp
    obtain m' where m': "store_loop K at val bound step (j + step) m1 = Some (True, m')" "flags_at K m' = flags_at K m1"
      "\<And>x. \<forall>i. sint (j + step) \<le> sint i \<and> sint i < bound \<and> sint step dvd sint i \<longrightarrow> \<not> in_range (at i) (length (val i)) x \<Longrightarrow> bytes m' x = bytes m1 x"
      using less.hyps [OF dec(1) own1 dec(2,3)] by blast
    have "bytes m' x = bytes m x"
      if x: "\<forall>i. sint j \<le> sint i \<and> sint i < bound \<and> sint step dvd sint i \<longrightarrow> \<not> in_range (at i) (length (val i)) x" for x
    proof -
      have "\<not> in_range (at j) (length (val j)) x" using x True less.prems(3) by blast
      then have "bytes m1 x = bytes m x" unfolding m1(2) using small [of j] by (simp add: mem_write_apply in_range_def)
      moreover have "bytes m' x = bytes m1 x" by (rule m'(3)) (use x next_j step(1) in auto)
      ultimately show ?thesis by simp
    qed
    then show ?thesis using True m1 m' by (auto simp: store_loop.simps [of _ _ _ _ _ j])
  qed
qed

text \<open>The bytes of the first store stay when no later one touches them.\<close>

lemma store_loop_first:
  assumes "mm_laws K bytes" "0 < sint step" "bound + sint step \<le> 2 ^ 31" "0 < bound"
    and own: "\<And>i. 0 \<le> sint i \<Longrightarrow> sint i < bound \<Longrightarrow> sint step dvd sint i \<Longrightarrow> owns K m (at i) (length (val i))"
    and small: "\<And>i. length (val i) \<le> 2 ^ 64" and run: "store_loop K at val bound step 0 m = Some (True, m')"
    and x: "in_range (at 0) (length (val 0)) x" "\<And>i. sint step \<le> sint i \<Longrightarrow> sint i < bound \<Longrightarrow> \<not> in_range (at i) (length (val i)) x"
  shows "bytes m' x = val 0 ! unat (x - at 0)"
proof -
  obtain m1 where m1: "to_user K (at 0) (val 0) m = (0, m1)" "bytes m1 = mem_write (at 0) (val 0) (bytes m)" "flags_at K m1 = flags_at K m"
    using to_user_ok [OF assms(1), of "at 0" "val 0" m] ownsD [OF own [of 0]] assms(4) by auto
  have own1: "owns K m1 (at i) (length (val i))" if "0 \<le> sint i" "sint i < bound" "sint step dvd sint i" for i
    using own [OF that] owns_flags [OF m1(3)] by simp
  obtain m2 where "store_loop K at val bound step step m1 = Some (True, m2)"
    "\<forall>x. (\<forall>i. sint step \<le> sint i \<and> sint i < bound \<and> sint step dvd sint i \<longrightarrow> \<not> in_range (at i) (length (val i)) x) \<longrightarrow> bytes m2 x = bytes m1 x"
    using store_loop_ok [of K bytes step bound m1 at val step, OF assms(1-3) own1 small] assms(2) by auto
  moreover from this have "m2 = m'" using run m1(1) assms(4) by (simp add: store_loop.simps [of _ _ _ _ _ 0])
  ultimately have "bytes m' x = bytes m1 x" using x(2) by blast
  then show ?thesis unfolding m1(2) using x(1) small [of 0] by (simp add: mem_write_apply in_range_def)
qed

lemma gives_store_all:
  assumes "mm_laws K bytes" "0 < sint step" "bound + sint step \<le> 2 ^ 31" "0 < bound"
    and own: "\<And>i. 0 \<le> sint i \<Longrightarrow> sint i < bound \<Longrightarrow> sint step dvd sint i \<Longrightarrow> owns K (mm s) (at i) (length (val i))"
    and small: "\<And>i. length (val i) \<le> 2 ^ 64"
    and rest: "\<And>m. flags_at K m = flags_at K (mm s) \<Longrightarrow>
      (\<And>x. (\<And>i. 0 \<le> sint i \<Longrightarrow> sint i < bound \<Longrightarrow> sint step dvd sint i \<Longrightarrow> \<not> in_range (at i) (length (val i)) x) \<Longrightarrow>
        bytes m x = bytes (mm s) x) \<Longrightarrow>
      (\<And>x. in_range (at 0) (length (val 0)) x \<Longrightarrow> (\<And>i. sint step \<le> sint i \<Longrightarrow> sint i < bound \<Longrightarrow> \<not> in_range (at i) (length (val i)) x) \<Longrightarrow>
        bytes m x = val 0 ! unat (x - at 0)) \<Longrightarrow>
      gives p (s\<lparr>mm := m\<rparr>) Q"
  shows "gives (store_all K h at val bound step p) s Q"
proof -
  obtain m where m: "store_loop K at val bound step 0 (mm s) = Some (True, m)" "flags_at K m = flags_at K (mm s)"
    "\<forall>x. (\<forall>i. 0 \<le> sint i \<and> sint i < bound \<and> sint step dvd sint i \<longrightarrow> \<not> in_range (at i) (length (val i)) x) \<longrightarrow> bytes m x = bytes (mm s) x"
    using store_loop_ok [of K bytes step bound "mm s" at val 0, OF assms(1,2,3) own small] by auto
  have "gives p (s\<lparr>mm := m\<rparr>) Q"
    using m(2,3) store_loop_first [of K bytes step bound "mm s" at val m, OF assms(1-4) own small m(1)] by (intro rest) blast+
  then show ?thesis using m(1) by (simp add: gives_def store_all_def)
qed

section \<open>The structure of a compaction request\<close>

lemma get64_take: "get64 (take 8 bs) = get64 bs"
  by (simp add: get64_def)

lemma length_puts [simp]: "length (put64 a) = 8" "length (put32 l) = 4"
  by (simp_all add: put64_def put32_def)

lemma get_put32: "length rest = 4 \<Longrightarrow> (ucast (get64 (put32 l @ rest)) :: u32) = l"
proof (rule bit_word_eqI)
  fix n assume "length rest = 4" "n < LENGTH(32)"
  then have "n < 32" "n div 8 < 4" by auto
  then show "bit (ucast (get64 (put32 l @ rest)) :: u32) n = bit l n" using \<open>length rest = 4\<close>
    by (simp add: bit_ucast_iff bit_get64 nth_append put32_def bit_drop_bit_eq)
qed

lemma apart_read:
  assumes "\<And>x. in_range a n x \<Longrightarrow> m' x = m x" "n \<le> 2 ^ 64"
  shows "mem_read a n m' = mem_read a n m"
  using assms by (intro mem_read_cong) (auto simp: in_range_offset)

lemma in_range_at:
  assumes "d + n \<le> 2 ^ 64"
  shows "in_range (c + of_nat d) n x \<longleftrightarrow> d \<le> unat (x - c) \<and> unat (x - c) < d + n"
proof (cases "d = 2 ^ 64")
  case True
  then show ?thesis using assms unat_u64 [of "x - c"] by simp
next
  case False
  then have d: "unat (of_nat d :: u64) = d" using assms by (intro unat_of_nat_u64) simp
  have e: "x - (c + of_nat d) = (x - c) - of_nat d" by simp
  show ?thesis using assms unat_u64 [of "x - c"] unfolding in_range_def e unat_sub_if' d by auto
qed

lemma read_apart:
  assumes "d + n \<le> e \<or> e + length bs \<le> d" "d + n \<le> 2 ^ 64" "e + length bs \<le> 2 ^ 64"
  shows "mem_read (c + of_nat d) n (mem_write (c + of_nat e) bs m) = mem_read (c + of_nat d) n m"
proof (rule apart_read)
  fix x assume "in_range (c + of_nat d) n x"
  then have "\<not> in_range (c + of_nat e) (length bs) x" using assms by (auto simp: in_range_at)
  then show "mem_write (c + of_nat e) bs m x = m x" using assms(3) by (simp add: mem_write_apply in_range_def)
qed (use assms(2) in simp)

lemma written_input:
  fixes a b :: u64 and l :: u32
  assumes "m' = mem_write (c + 16) (put64 b) (mem_write (c + 8) (put32 l) (mem_write c (put64 a) m))"
  shows "get_input (mem_read c 24 m') = \<lparr>in_addr = a, in_length = l, in_buff = b\<rparr>"
    and "\<not> in_range c 24 x \<Longrightarrow> m' x = m x"
proof -
  have split: "mem_read c 24 m' = mem_read c 8 m' @ mem_read (c + 8) 4 m' @ mem_read (c + 12) 4 m' @ mem_read (c + 16) 8 m'"
    using mem_read_append [of c 8 16 m'] mem_read_append [of "c + 8" 4 12 m'] mem_read_append [of "c + 12" 4 8 m']
    by (simp add: add.assoc)
  have parts: "mem_read c 8 m' = put64 a" "mem_read (c + 8) 4 m' = put32 l" "mem_read (c + 16) 8 m' = put64 b"
    unfolding assms
    using read_apart [of 0 8 16 "put64 b" c] read_apart [of 0 8 8 "put32 l" c] read_apart [of 8 4 16 "put64 b" c]
      mem_read_write_same [of "put64 a" c] mem_read_write_same [of "put32 l" "c + 8"] mem_read_write_same [of "put64 b" "c + 16"]
    by simp_all
  have "get64 (put32 l @ mem_read (c + 12) 4 m' @ put64 b) = get64 (put32 l @ mem_read (c + 12) 4 m')"
    by (subst (1 2) get64_take [symmetric]) simp
  moreover have "get64 (put64 b) = b" using get64_put64 [of b "[]"] by simp
  ultimately show "get_input (mem_read c 24 m') = \<lparr>in_addr = a, in_length = l, in_buff = b\<rparr>"
    unfolding get_input_def split parts by (simp add: get_put32)
  assume x: "\<not> in_range c 24 x"
  then have "\<not> in_range (c + 16) 8 x" "\<not> in_range (c + 8) 4 x" "\<not> in_range c 8 x"
    using in_range_at [of 16 8 c x] in_range_at [of 8 4 c x] by (auto simp: in_range_def)
  then show "m' x = m x" unfolding assms by (simp add: mem_write_apply in_range_def)
qed

lemma gives_set_input:
  assumes laws: "mm_laws K bytes" and own: "owns K (mm s) (e_arg E) 24"
    and rest: "\<And>m. flags_at K m = flags_at K (mm s) \<Longrightarrow>
      get_input (mem_read (e_arg E) 24 (bytes m)) = \<lparr>in_addr = a, in_length = l, in_buff = e_stack E\<rparr> \<Longrightarrow>
      (\<And>x. \<not> in_range (e_arg E) 24 x \<Longrightarrow> bytes m x = bytes (mm s) x) \<Longrightarrow> gives p (s\<lparr>mm := m\<rparr>) Q"
  shows "gives (set_input K h E a l p) s Q"
proof -
  have parts: "owns K (mm s) (e_arg E) 8" "owns K (mm s) (e_arg E + 8) 4" "owns K (mm s) (e_arg E + 16) 8"
    using owns_part [OF own, of 0 8] owns_part [OF own, of 8 4] owns_part [OF own, of 16 8] by simp_all
  show ?thesis unfolding set_input_def
  proof (intro gives_storing [OF laws])
    fix m m1 m2
    assume 1: "flags_at K m = flags_at K (mm s)" "bytes m = mem_write (e_arg E) (put64 a) (bytes (mm s))"
    assume 2: "flags_at K m1 = flags_at K (mm (s\<lparr>mm := m\<rparr>))" "bytes m1 = mem_write (e_arg E + 8) (put32 l) (bytes (mm (s\<lparr>mm := m\<rparr>)))"
    assume 3: "flags_at K m2 = flags_at K (mm (s\<lparr>mm := m, mm := m1\<rparr>))"
      "bytes m2 = mem_write (e_arg E + 16) (put64 (e_stack E)) (bytes (mm (s\<lparr>mm := m, mm := m1\<rparr>)))"
    have "flags_at K m2 = flags_at K (mm s)" using 1 2 3 by simp
    moreover have "bytes m2 = mem_write (e_arg E + 16) (put64 (e_stack E)) (mem_write (e_arg E + 8) (put32 l) (mem_write (e_arg E) (put64 a) (bytes (mm s))))"
      using 1 2 3 by simp
    note written_input [OF this]
    ultimately have "gives p (s\<lparr>mm := m2\<rparr>) Q" by (intro rest)
    then show "gives p (s\<lparr>mm := m, mm := m1, mm := m2\<rparr>) Q" by simp
  qed (use parts in \<open>simp_all add: owns_def\<close>)
qed

text \<open>The request itself, when the structure and the first entry of the table are memory of the program.\<close>

lemma gives_compaction:
  assumes laws: "mm_laws K bytes" and alloc: "\<And>l. k_alloc k l \<noteq> 0"
    and own: "owns K (mm s) (e_arg E) 24" "owns K (mm s) b 16"
    and ip: "get_input (mem_read (e_arg E) 24 (bytes (mm s))) = \<lparr>in_addr = a, in_length = l, in_buff = b\<rparr>"
    and rest: "\<And>s'. flags_at K (mm s') = flags_at K (mm s) \<Longrightarrow>
      bytes (mm s') = mem_write b (put_address \<lparr>from_addr = a, to_addr = a\<rparr>) (bytes (mm s)) \<Longrightarrow> gives (p 0) s' Q"
  shows "gives (request k K E IOCTL_COMPACT_VMA p) s Q"
proof -
  obtain s' where "Btplus.device_ioctl k K IOCTL_COMPACT_VMA (e_arg E) s = Done (0, s')" "flags_at K (mm s') = flags_at K (mm s)"
    "bytes (mm s') = mem_write b (put_address \<lparr>from_addr = a, to_addr = a\<rparr>) (bytes (mm s))"
    using compact_effect [OF laws alloc ownsD(1) [OF own(1)] ip [symmetric]] ownsD(2) [OF own(2)] by auto
  then show ?thesis using rest [of s'] by (simp add: gives_def request_def)
qed

lemma gives_demand_compaction:
  assumes "mm_laws K bytes" "\<And>l. k_alloc k l \<noteq> 0" "owns K (mm s) (e_arg E) 24" "owns K (mm s) b 16"
    and "get_input (mem_read (e_arg E) 24 (bytes (mm s))) = \<lparr>in_addr = a, in_length = l, in_buff = b\<rparr>"
    and "\<And>s'. flags_at K (mm s') = flags_at K (mm s) \<Longrightarrow>
      bytes (mm s') = mem_write b (put_address \<lparr>from_addr = a, to_addr = a\<rparr>) (bytes (mm s)) \<Longrightarrow> gives p s' Q"
  shows "gives (demand k K E IOCTL_COMPACT_VMA p) s Q"
  unfolding demand_def using gives_compaction [OF assms(1-5)] assms(6) by simp

text \<open>The shifted area.\<close>

lemma gives_shifted_area:
  assumes laws: "mm_laws K bytes" and n: "page_align n = n" and bad: "Q [] (Exit (- 1))"
    and rest: "\<And>m r. owns K m r (unat n) \<Longrightarrow> 4096 dvd unat r \<Longrightarrow> unat r + unat n \<le> 2 ^ 47 \<Longrightarrow>
      (\<And>x. in_range r (unat n) x \<Longrightarrow> flags_at K (mm s) x = None) \<Longrightarrow> keeps K bytes (mm s) m \<Longrightarrow> gives (p r) (s\<lparr>mm := m\<rparr>) Q"
  shows "gives (shifted_area K n p) s Q"
proof -
  have second: "gives (mapping K hint n RW (\<lambda>ptr. if ptr = - 1 then quits (- 1) else p ptr)) (s\<lparr>mm := m\<rparr>) Q"
    if k: "keeps K bytes (mm s) m" for m hint
  proof (rule gives_area [OF laws n])
    show "gives (if - 1 = (- 1 :: u64) then quits (- 1) else p (- 1)) (s\<lparr>mm := m\<rparr>) Q" using bad by (simp add: gives_ends)
    fix m' r
    assume "r \<noteq> - 1" "owns K m' r (unat n)" "4096 dvd unat r" "unat r + unat n \<le> 2 ^ 47"
      "\<And>x. in_range r (unat n) x \<Longrightarrow> flags_at K (mm (s\<lparr>mm := m\<rparr>)) x = None" "keeps K bytes (mm (s\<lparr>mm := m\<rparr>)) m'"
    then show "gives (if r = - 1 then quits (- 1) else p r) (s\<lparr>mm := m, mm := m'\<rparr>) Q"
      using rest [of m' r] free_before [OF k] keeps_trans [OF k] by (simp del: flags_at_None)
  qed
  have al: "4096 dvd unat n" using page_align_aligned [of n] n by simp
  show ?thesis unfolding shifted_area_def
  proof (rule gives_area [OF laws n])
    show "gives (unmapping K (- 1) n (\<lambda>_. mapping K (next_page (- 1)) n RW (\<lambda>ptr. if ptr = - 1 then quits (- 1) else p ptr))) s Q"
      using second [of "mm s"] by (simp add: gives_def unmapping_def)
    fix m r
    assume r: "r \<noteq> - 1" "owns K m r (unat n)" "4096 dvd unat r" "\<And>x. in_range r (unat n) x \<Longrightarrow> flags_at K (mm s) x = None"
      and k: "keeps K bytes (mm s) m"
    show "gives (unmapping K r n (\<lambda>_. mapping K (next_page r) n RW (\<lambda>ptr. if ptr = - 1 then quits (- 1) else p ptr))) (s\<lparr>mm := m\<rparr>) Q"
    proof (rule gives_unmapping [OF laws al])
      assume "freed K bytes r n (mm (s\<lparr>mm := m\<rparr>)) (vm_munmap K r n (mm (s\<lparr>mm := m\<rparr>)))"
      then show "gives (mapping K (next_page r) n RW (\<lambda>ptr. if ptr = - 1 then quits (- 1) else p ptr))
          (s\<lparr>mm := m, mm := vm_munmap K r n (mm (s\<lparr>mm := m\<rparr>))\<rparr>) Q"
        using second keeps_freed [OF k] r(4) by (simp del: flags_at_None)
    qed (use r(3) in simp)
  qed
qed

section \<open>Verdicts\<close>

text \<open>A refusal never comes.\<close>

lemma gives_expect_refusal:
  assumes "mm_laws K bytes" "\<And>l. k_alloc k l \<noteq> 0" "owns K (mm s) (e_arg E) 24" "owns K (mm s) b 16"
    and "get_input (mem_read (e_arg E) 24 (bytes (mm s))) = \<lparr>in_addr = a, in_length = l, in_buff = b\<rparr>" "Q [] (Exit (- 1))"
  shows "gives (expect_refusal k K E) s Q"
  unfolding expect_refusal_def using gives_compaction [OF assms(1-5)] assms(6) by (simp add: gives_closing gives_ends)

text \<open>A program that has its argument structure and its table of \<open>n\<close> bytes in memory of its own, apart from each other.\<close>

definition ready :: "kapi \<Rightarrow> 'm mmapi \<Rightarrow> ('m \<Rightarrow> mem) \<Rightarrow> venv \<Rightarrow> nat \<Rightarrow> 'm \<Rightarrow> bool" where
  "ready k K bytes E n m \<longleftrightarrow> mm_laws K bytes \<and> (\<forall>l. k_alloc k l \<noteq> 0) \<and> e_opens E \<and> 16 \<le> n \<and> n \<le> 2 ^ 64 \<and>
     owns K m (e_arg E) 24 \<and> owns K m (e_stack E) n \<and> (\<forall>x. in_range (e_arg E) 24 x \<longrightarrow> \<not> in_range (e_stack E) n x)"

lemma readyD:
  assumes "ready k K bytes E n m"
  shows "mm_laws K bytes" "k_alloc k l \<noteq> 0" "owns K m (e_arg E) 24" "owns K m (e_stack E) n" "owns K m (e_stack E) 16"
    "in_range (e_arg E) 24 x \<Longrightarrow> \<not> in_range (e_stack E) n x" "e_opens E" "n \<le> 2 ^ 64"
  using assms owns_part [of K m "e_stack E" n 0 16] by (auto simp: ready_def)

lemma ready_keeps: "ready k K bytes E n m \<Longrightarrow> keeps K bytes m m' \<Longrightarrow> ready k K bytes E n m'"
  using owns_keeps(1) [of K bytes m m'] by (simp add: ready_def)

lemma ready_flags: "ready k K bytes E n m \<Longrightarrow> flags_at K m' = flags_at K m \<Longrightarrow> ready k K bytes E n m'"
  by (simp add: ready_def owns_def)

lemma mem_read_stack:
  assumes "\<And>x. in_range a n x \<Longrightarrow> m' x = m x" "i + k \<le> n" "n \<le> 2 ^ 64"
  shows "mem_read (a + of_nat i) k m' = mem_read (a + of_nat i) k m"
  by (rule apart_read) (use assms in_range_part in \<open>blast, simp\<close>)

text \<open>The structure is filled and the request made: of the table only the first entry changes.\<close>

lemma gives_ask:
  fixes s :: "'m bt"
  assumes rdy: "ready k K bytes E n (mm s)"
    and rest: "\<And>s'. flags_at K (mm s') = flags_at K (mm s) \<Longrightarrow>
      mem_read (e_stack E) 16 (bytes (mm s')) = put_address \<lparr>from_addr = a, to_addr = a\<rparr> \<Longrightarrow>
      (\<And>i k. 16 \<le> i \<Longrightarrow> i + k \<le> n \<Longrightarrow> mem_read (e_stack E + of_nat i) k (bytes (mm s')) = mem_read (e_stack E + of_nat i) k (bytes (mm s))) \<Longrightarrow>
      (\<And>x. \<not> in_range (e_arg E) 24 x \<Longrightarrow> \<not> in_range (e_stack E) n x \<Longrightarrow> bytes (mm s') x = bytes (mm s) x) \<Longrightarrow> gives p s' Q"
  shows "gives (set_input K h E a l (demand k K E IOCTL_COMPACT_VMA p)) s Q"
proof (rule gives_set_input [OF readyD(1,3) [OF rdy]])
  fix m
  assume fl: "flags_at K m = flags_at K (mm s)"
    and ip: "get_input (mem_read (e_arg E) 24 (bytes m)) = \<lparr>in_addr = a, in_length = l, in_buff = e_stack E\<rparr>"
    and out: "\<And>x. \<not> in_range (e_arg E) 24 x \<Longrightarrow> bytes m x = bytes (mm s) x"
  note r = readyD [OF ready_flags [OF rdy fl]]
  show "gives (demand k K E IOCTL_COMPACT_VMA p) (s\<lparr>mm := m\<rparr>) Q"
  proof (rule gives_demand_compaction [OF r(1,2), where b = "e_stack E" and a = a and l = l])
    fix s' :: "'m bt"
    let ?e = "put_address \<lparr>from_addr = a, to_addr = a\<rparr>"
    assume fl': "flags_at K (mm s') = flags_at K (mm (s\<lparr>mm := m\<rparr>))"
      and wr: "bytes (mm s') = mem_write (e_stack E) ?e (bytes (mm (s\<lparr>mm := m\<rparr>)))"
    have first: "mem_read (e_stack E) 16 (bytes (mm s')) = ?e"
      using mem_read_write_same [of ?e "e_stack E" "bytes m"] wr by simp
    have table: "mem_read (e_stack E + of_nat i) k (bytes (mm s')) = mem_read (e_stack E + of_nat i) k (bytes (mm s))"
      if "16 \<le> i" "i + k \<le> n" for i k
    proof -
      have "mem_read (e_stack E + of_nat i) k (bytes (mm s')) = mem_read (e_stack E + of_nat i) k (bytes m)"
        using read_apart [of i k 0 ?e "e_stack E" "bytes m"] that r(8) wr by simp
      also have "\<dots> = mem_read (e_stack E + of_nat i) k (bytes (mm s))"
        by (rule mem_read_stack [OF _ that(2) r(8)]) (use out r(6) in blast)
      finally show ?thesis .
    qed
    have other: "bytes (mm s') x = bytes (mm s) x" if "\<not> in_range (e_arg E) 24 x" "\<not> in_range (e_stack E) n x" for x
    proof -
      have "\<not> in_range (e_stack E) 16 x" using that(2) in_range_mono [of "e_stack E" 16 x n] rdy by (auto simp: ready_def)
      then show ?thesis using out [OF that(1)] wr by (simp add: mem_write_apply in_range_def)
    qed
    show "gives p s' Q" by (rule rest [OF _ first table other]) (use fl fl' in simp_all)
  qed (use r(3,5) ip in simp_all)
qed

lemma gives_table_new:
  assumes rdy: "ready k K bytes E n m" and fl: "flags_at K (mm s) = flags_at K m" and i: "16 * unat i + 16 \<le> n"
    and rest: "gives (p (get64 (mem_read (e_stack E + of_nat (16 * unat i + 8)) 8 (bytes (mm s))))) s Q"
  shows "gives (table_new K h E i p) s Q"
proof -
  note r = readyD [OF ready_flags [OF rdy fl]]
  have a: "e_stack E + 16 * i + 8 = e_stack E + of_nat (16 * unat i + 8)" by (simp add: algebra_simps)
  have "owns K (mm s) (e_stack E + of_nat (16 * unat i + 8)) 8" by (rule owns_part [OF r(4) _ r(8)]) (use i in simp)
  then show ?thesis unfolding table_new_def a using rest by (intro gives_loading [OF r(1)]) simp_all
qed

text \<open>The entry that a test looks at, as it was when the program started.\<close>

definition leftover :: "('m \<Rightarrow> mem) \<Rightarrow> venv \<Rightarrow> nat \<Rightarrow> 'm \<Rightarrow> u64" where
  "leftover bytes E i m = get64 (mem_read (e_stack E + of_nat (16 * i + 8)) 8 (bytes m))"

text \<open>An area of the program's own with a byte stored in it.\<close>

lemma gives_touch:
  assumes rdy: "ready k K bytes E n m0" and k: "keeps K bytes m0 (mm s)" and own: "owns K (mm s) r c" and d: "d + length bs \<le> c" "c \<le> 2 ^ 64"
    and free: "\<And>x. in_range r c x \<Longrightarrow> flags_at K m0 x = None"
    and rest: "\<And>m. owns K m r c \<Longrightarrow> keeps K bytes m0 m \<Longrightarrow> gives p (s\<lparr>mm := m\<rparr>) Q"
  shows "gives (storing K h (r + of_nat d) bs p) s Q"
proof (rule gives_storing [OF readyD(1) [OF rdy] owns_part [OF own d]])
  fix m
  assume m: "flags_at K m = flags_at K (mm s)" "bytes m = mem_write (r + of_nat d) bs (bytes (mm s))"
  have "bytes m x = bytes (mm s) x" if "flags_at K m0 x \<noteq> None" for x
  proof -
    have "\<not> in_range (r + of_nat d) (length bs) x" using free [OF in_range_part [OF _ d], of x] that by auto
    then show ?thesis using m(2) d by (simp add: mem_write_apply in_range_def)
  qed
  then have "keeps K bytes m0 m" using k m(1) by (simp add: keeps_def del: flags_at_None)
  then show "gives p (s\<lparr>mm := m\<rparr>) Q" using rest own m(1) by (simp add: owns_def)
qed

lemma leftover_kept:
  assumes "ready k K bytes E n m" "keeps K bytes m m'" "16 * i + 16 \<le> n"
  shows "leftover bytes E i m' = leftover bytes E i m"
proof -
  have "mem_read (e_stack E + of_nat (16 * i + 8)) 8 (bytes m') = mem_read (e_stack E + of_nat (16 * i + 8)) 8 (bytes m)"
    by (rule mem_read_stack [OF owns_keeps(2) [OF assms(2) readyD(4) [OF assms(1)]] _ readyD(8) [OF assms(1)]]) (assumption, use assms(3) in linarith)
  then show ?thesis by (simp add: leftover_def)
qed

text \<open>The common end of the tests that look at one entry: they pass only if the stack happened to hold the number of a
  page that was free.\<close>

definition by_chance :: "'m mmapi \<Rightarrow> ('m \<Rightarrow> mem) \<Rightarrow> venv \<Rightarrow> nat \<Rightarrow> 'm \<Rightarrow> said list \<Rightarrow> fate \<Rightarrow> bool" where
  "by_chance K bytes E i m ws e \<longleftrightarrow> ws \<in> {[], [Failed]} \<and> e = Exit (- 1) \<or>
     ws = [] \<and> e = Exit 0 \<and> mtree_load K (push_bit 12 (leftover bytes E i m)) m = None"

lemma gives_look:
  assumes rdy: "ready k K bytes E n m0" and k: "keeps K bytes m0 (mm s)" and i: "0 < unat i" "16 * unat i + 16 \<le> n"
    and b: "4096 dvd unat b" "flags_at K m0 b = None"
  shows "gives (set_input K dies E a l (demand k K E IOCTL_COMPACT_VMA (table_new K dies E i (\<lambda>new.
      if new \<noteq> drop_bit 12 b then say Failed (quits (- 1)) else closing (exits 0))))) s
    (by_chance K bytes E (unat i) m0)"
proof (rule gives_ask [OF ready_keeps [OF rdy k]])
  fix s' :: "'a bt"
  assume s': "flags_at K (mm s') = flags_at K (mm s)"
    "\<And>i k. 16 \<le> i \<Longrightarrow> i + k \<le> n \<Longrightarrow> mem_read (e_stack E + of_nat i) k (bytes (mm s')) = mem_read (e_stack E + of_nat i) k (bytes (mm s))"
  have "leftover bytes E (unat i) (mm s') = leftover bytes E (unat i) (mm s)" unfolding leftover_def
    by (subst s'(2)) (use i in auto)
  then have new: "leftover bytes E (unat i) (mm s') = leftover bytes E (unat i) m0" using leftover_kept [OF rdy k i(2)] by simp
  have "push_bit 12 (drop_bit 12 b) = b" using clear_low_id [OF b(1)] by (simp only: clear_low)
  then show "gives (table_new K dies E i (\<lambda>new. if new \<noteq> drop_bit 12 b then say Failed (quits (- 1)) else closing (exits 0))) s'
    (by_chance K bytes E (unat i) m0)"
    using b(2) unfolding by_chance_def new [symmetric]
    by (intro gives_table_new [OF ready_keeps [OF rdy k] s'(1) i(2)])
      (auto simp: leftover_def intro!: gives_say gives_closing gives_ends)
qed

abbreviation fails :: "said list \<Rightarrow> fate \<Rightarrow> bool" where
  "fails ws e \<equiv> ws = [] \<and> e = Exit (- 1)"

lemma gives_ask_refusal:
  assumes rdy: "ready k K bytes E n m0" and k: "keeps K bytes m0 (mm s)"
  shows "gives (set_input K h E a l (expect_refusal k K E)) s fails"
proof (rule gives_set_input)
  fix m
  assume m: "flags_at K m = flags_at K (mm s)"
    "get_input (mem_read (e_arg E) 24 (bytes m)) = \<lparr>in_addr = a, in_length = l, in_buff = e_stack E\<rparr>"
  note r = readyD [OF ready_flags [OF ready_keeps [OF rdy k] m(1)]]
  show "gives (expect_refusal k K E) (s\<lparr>mm := m\<rparr>) fails"
    using gives_expect_refusal [OF r(1,2), where s = "s\<lparr>mm := m\<rparr>" and b = "e_stack E"] r(3,5) m(2) by simp
qed (use readyD [OF ready_keeps [OF rdy k]] in simp_all)

lemma whole_pages [simp]: "page_align 0x400000 = 0x400000" "page_align 16384 = 16384" "page_align 0x80000000 = 0x80000000"
  by (simp_all add: page_align_def)

lemma tc32_verdict:
  assumes rdy: "ready k K bytes E n (mm s)"
  shows "gives (tc32 k K E) s fails"
  unfolding tc32_def using rdy
  by (intro gives_device gives_shifted_area [OF readyD(1) [OF rdy]] gives_ask_refusal) (auto intro: readyD)

lemma tc34_verdict:
  assumes rdy: "ready k K bytes E n (mm s)"
  shows "gives (tc34 k K E) s fails"
  unfolding tc34_def
proof (intro gives_device gives_shifted_area [OF readyD(1) [OF rdy]])
  fix m r
  assume "owns K m r (unat (0x400000 :: u64))" "\<And>x. in_range r (unat (0x400000 :: u64)) x \<Longrightarrow> flags_at K (mm (snd (Btplus.device_open s))) x = None"
    "keeps K bytes (mm (snd (Btplus.device_open s))) m"
  then show "gives (storing K dies r (replicate 0x400000 65) (set_input K dies E r 2048 (expect_refusal k K E)))
      (snd (Btplus.device_open s)\<lparr>mm := m\<rparr>) fails"
    using gives_touch [OF rdy, of "snd (Btplus.device_open s)\<lparr>mm := m\<rparr>" r "0x400000" 0 "replicate 0x400000 65"] gives_ask_refusal [OF rdy]
    by (simp del: flags_at_None)
qed (use readyD [OF rdy] in simp_all)

text \<open>The area may be unmapped between the two.\<close>

lemma gives_ask_unmapped:
  assumes rdy: "ready k K bytes E n m0" and k: "keeps K bytes m0 (mm s)" and c: "4096 dvd unat c" "4096 dvd unat r"
    and free: "\<And>x. in_range r (unat c) x \<Longrightarrow> flags_at K m0 x = None"
  shows "gives (set_input K h E a l (unmapping K r c (\<lambda>_. expect_refusal k K E))) s fails"
proof (rule gives_set_input)
  fix m
  assume m: "flags_at K m = flags_at K (mm s)"
    "get_input (mem_read (e_arg E) 24 (bytes m)) = \<lparr>in_addr = a, in_length = l, in_buff = e_stack E\<rparr>"
  note r = readyD [OF ready_flags [OF ready_keeps [OF rdy k] m(1)]]
  show "gives (unmapping K r c (\<lambda>_. expect_refusal k K E)) (s\<lparr>mm := m\<rparr>) fails"
  proof (rule gives_unmapping [OF r(1) c(1)])
    let ?m = "vm_munmap K r c (mm (s\<lparr>mm := m\<rparr>))"
    assume fr: "freed K bytes r c (mm (s\<lparr>mm := m\<rparr>)) ?m"
    have out: "\<not> in_range r (unat c) x" if "in_range b j x" "owns K m0 b j" for b j x
      using free [of x] owns_mapped [OF that(2,1)] by blast
    have own: "owns K ?m (e_arg E) 24" "owns K ?m (e_stack E) 16"
      using owns_freed(1) [OF fr] r(3,5) out readyD(3,5) [OF rdy] by auto
    have "bytes ?m x = bytes m x" if "in_range (e_arg E) 24 x" for x
      using owns_freed(2) [OF fr, of "e_arg E" 24] r(3) that out readyD(3) [OF rdy] by auto
    then have "mem_read (e_arg E) 24 (bytes ?m) = mem_read (e_arg E) 24 (bytes m)" by (intro apart_read) simp_all
    then show "gives (expect_refusal k K E) (s\<lparr>mm := m, mm := ?m\<rparr>) fails"
      using gives_expect_refusal [OF r(1,2), where s = "s\<lparr>mm := m, mm := ?m\<rparr>" and b = "e_stack E"] own m(2) by simp
  qed (use c(2) in simp)
qed (use readyD [OF ready_keeps [OF rdy k]] in simp_all)

lemma tc33_verdict:
  assumes rdy: "ready k K bytes E n (mm s)"
  shows "gives (tc33 k K E) s fails"
  unfolding tc33_def
proof (intro gives_device gives_area [OF readyD(1) [OF rdy]])
  fix m r
  let ?s = "snd (Btplus.device_open s)"
  assume r: "r \<noteq> - 1" "owns K m r (unat (0x400000 :: u64))" "4096 dvd unat r"
    "\<And>x. in_range r (unat (0x400000 :: u64)) x \<Longrightarrow> flags_at K (mm ?s) x = None" "keeps K bytes (mm ?s) m"
  have "gives (storing K dies (r + of_nat 0) (replicate 0x400000 65) (set_input K dies E r 1024 (unmapping K r 0x400000 (\<lambda>_. expect_refusal k K E))))
      (?s\<lparr>mm := m\<rparr>) fails"
    using r by (intro gives_touch [OF rdy, where c = "0x400000"] gives_ask_unmapped [OF rdy]) (simp_all del: flags_at_None)
  then show "gives (if r = - 1 then quits (- 1) else storing K dies r (replicate 0x400000 65) (set_input K dies E r 1024 (
      unmapping K r 0x400000 (\<lambda>_. expect_refusal k K E)))) (?s\<lparr>mm := m\<rparr>) fails"
    using r(1) by simp
qed (use readyD [OF rdy] in \<open>simp_all add: gives_ends\<close>)

text \<open>The tests that look at one entry.\<close>

lemma tc31_verdict:
  assumes rdy: "ready k K bytes E 16384 (mm s)"
  shows "gives (tc31 k K E) s (by_chance K bytes E 1023 (mm s))"
  unfolding tc31_def
proof (intro gives_device gives_shifted_area [OF readyD(1) [OF rdy]])
  fix m r
  let ?s = "snd (Btplus.device_open s)"
  assume r: "owns K m r (unat (0x400000 :: u64))" "4096 dvd unat r"
    "\<And>x. in_range r (unat (0x400000 :: u64)) x \<Longrightarrow> flags_at K (mm ?s) x = None" "keeps K bytes (mm ?s) m"
  have "flags_at K (mm s) r = None" using r(3) [of r] by (simp add: in_range_def)
  then have "gives (set_input K dies E r 1024 (demand k K E IOCTL_COMPACT_VMA (
       table_new K dies E 1023 (\<lambda>new. if new \<noteq> drop_bit 12 r then say Failed (quits (- 1)) else closing (exits 0))))) (?s\<lparr>mm := m'\<rparr>)
      (by_chance K bytes E 1023 (mm s))" if "keeps K bytes (mm s) m'" for m'
    using gives_look [OF rdy, of "?s\<lparr>mm := m'\<rparr>" 1023 r] that r(2) by simp
  then have "gives (storing K dies (r + of_nat 0x3ff000) [65] (set_input K dies E r 1024 (demand k K E IOCTL_COMPACT_VMA (
       table_new K dies E 1023 (\<lambda>new. if new \<noteq> drop_bit 12 r then say Failed (quits (- 1)) else closing (exits 0)))))) (?s\<lparr>mm := m\<rparr>)
      (by_chance K bytes E 1023 (mm s))"
    using r by (intro gives_touch [OF rdy, where c = "0x400000"]) (simp_all del: flags_at_None)
  then show "gives (storing K dies (r + (0x400000 - 4096)) [65] (set_input K dies E r 1024 (demand k K E IOCTL_COMPACT_VMA (
       table_new K dies E 1023 (\<lambda>new. if new \<noteq> drop_bit 12 r then say Failed (quits (- 1)) else closing (exits 0)))))) (?s\<lparr>mm := m\<rparr>)
      (by_chance K bytes E 1023 (mm s))"
    by simp
qed (use readyD [OF rdy] in \<open>simp_all add: by_chance_def\<close>)

lemma tc36_verdict:
  assumes rdy: "ready k K bytes E 64 (mm s)"
  shows "gives (tc36 k K E) s (by_chance K bytes E 3 (mm s))"
  unfolding tc36_def
proof (intro gives_device gives_area [OF readyD(1) [OF rdy]])
  fix m r
  let ?s = "snd (Btplus.device_open s)"
  let ?p = "set_input K dies E (r + 8192) 2 (demand k K E IOCTL_COMPACT_VMA (table_new K dies E 3 (\<lambda>new.
         if new \<noteq> drop_bit 12 (r + 8192) then say Failed (quits (- 1)) else closing (exits 0))))"
  assume r: "r \<noteq> - 1" "owns K m r (unat (16384 :: u64))" "4096 dvd unat r"
    "\<And>x. in_range r (unat (16384 :: u64)) x \<Longrightarrow> flags_at K (mm ?s) x = None" "keeps K bytes (mm ?s) m"
  have "flags_at K (mm s) (r + 8192) = None" using r(4) [of "r + 8192"] by (simp add: in_range_def)
  moreover have "4096 dvd unat (r + 8192)" by (rule aligned_add [OF r(3)]) simp
  ultimately have "gives ?p (?s\<lparr>mm := m'\<rparr>) (by_chance K bytes E 3 (mm s))" if "keeps K bytes (mm s) m'" for m'
    using gives_look [OF rdy, of "?s\<lparr>mm := m'\<rparr>" 3 "r + 8192"] that by simp
  then have "gives (storing K dies (r + of_nat 13312) [65] ?p) (?s\<lparr>mm := m\<rparr>) (by_chance K bytes E 3 (mm s))"
    using r by (intro gives_touch [OF rdy, where c = 16384]) (simp_all del: flags_at_None)
  then show "gives (if r = - 1 then quits (- 1) else storing K dies (r + 13312) [65] ?p) (?s\<lparr>mm := m\<rparr>) (by_chance K bytes E 3 (mm s))"
    using r(1) by simp
qed (use readyD [OF rdy] in \<open>simp_all add: by_chance_def gives_ends\<close>)

text \<open>A loop that stores all over a new area.\<close>

lemma scast_offset: "0 \<le> sint (i :: u32) \<Longrightarrow> (scast i :: u64) = of_nat (nat (sint i))"
  by (simp only: scast_eq of_nat_nat)

lemma gives_store_area:
  assumes rdy: "ready k K bytes E n m0" and kp: "keeps K bytes m0 (mm s)" and own: "owns K (mm s) r c" "c \<le> 2 ^ 64"
    and step: "0 < sint step" "bound + sint step \<le> 2 ^ 31" "0 < bound"
    and at: "\<And>i. 0 \<le> sint i \<Longrightarrow> sint i < bound \<Longrightarrow> sint step dvd sint i \<Longrightarrow> nat (sint i) + length (val i) \<le> c"
    and small: "\<And>i. length (val i) \<le> 2 ^ 63" and free: "\<And>x. in_range r c x \<Longrightarrow> flags_at K m0 x = None"
    and rest: "\<And>m. owns K m r c \<Longrightarrow> keeps K bytes m0 m \<Longrightarrow>
      (\<And>d. d < length (val 0) \<Longrightarrow> (\<And>i :: u32. sint step \<le> sint i \<Longrightarrow> sint i < bound \<Longrightarrow> d < nat (sint i)) \<Longrightarrow> bytes m (r + of_nat d) = val 0 ! d) \<Longrightarrow>
      gives p (s\<lparr>mm := m\<rparr>) Q"
  shows "gives (store_all K h (\<lambda>i. r + scast i) val bound step p) s Q"
proof -
  have off: "0 \<le> sint i \<Longrightarrow> r + scast i = r + of_nat (nat (sint i))" for i :: u32 by (simp only: scast_offset)
  have part: "in_range r c x" if "0 \<le> sint i" "sint i < bound" "sint step dvd sint i" "in_range (r + scast i) (length (val i)) x" for i x
    using in_range_part [OF _ at [OF that(1-3)] own(2)] that(4) unfolding off [OF that(1)] .
  show ?thesis
  proof (rule gives_store_all [OF readyD(1) [OF rdy] step])
    show "length (val i) \<le> 2 ^ 64" for i using small [of i] by simp
    show "owns K (mm s) (r + scast i) (length (val i))" if "0 \<le> sint i" "sint i < bound" "sint step dvd sint i" for i
      using owns_part [OF own(1) at [OF that] own(2)] unfolding off [OF that(1)] .
    fix m
    assume m: "flags_at K m = flags_at K (mm s)"
      "\<And>x. (\<And>i. 0 \<le> sint i \<Longrightarrow> sint i < bound \<Longrightarrow> sint step dvd sint i \<Longrightarrow> \<not> in_range (r + scast i) (length (val i)) x) \<Longrightarrow> bytes m x = bytes (mm s) x"
      "\<And>x. in_range (r + scast (0 :: u32)) (length (val 0)) x \<Longrightarrow>
        (\<And>i. sint step \<le> sint i \<Longrightarrow> sint i < bound \<Longrightarrow> \<not> in_range (r + scast i) (length (val i)) x) \<Longrightarrow>
        bytes m x = val 0 ! unat (x - (r + scast (0 :: u32)))"
    have "bytes m x = bytes (mm s) x" if "flags_at K m0 x \<noteq> None" for x
    proof (rule m(2))
      fix i :: u32 assume i: "0 \<le> sint i" "sint i < bound" "sint step dvd sint i"
      show "\<not> in_range (r + scast i) (length (val i)) x"
      proof
        assume "in_range (r + scast i) (length (val i)) x"
        then have "flags_at K m0 x = None" by (rule free [OF part [OF i]])
        with that show False by (rule notE)
      qed
    qed
    then have keep: "keeps K bytes m0 m" using kp m(1) by (simp add: keeps_def del: flags_at_None)
    have "bytes m (r + of_nat d) = val 0 ! d"
      if d: "d < length (val 0)" "\<And>i :: u32. sint step \<le> sint i \<Longrightarrow> sint i < bound \<Longrightarrow> d < nat (sint i)" for d
    proof -
      have dc: "d < c" "d < 2 ^ 64" using at [of 0] step(3) d(1) own(2) by auto
      have "\<not> in_range (r + scast i) (length (val i)) (r + of_nat d)" if "sint step \<le> sint i" "sint i < bound" for i :: u32
      proof -
        have "0 \<le> sint i" using that step(1) by simp
        have "sint i < 2 ^ 31" using that(2) step(1,2) by linarith
        then have "nat (sint i) < 2 ^ 31" by simp
        then have "nat (sint i) + length (val i) \<le> 2 ^ 64" using small [of i] by simp
        then show ?thesis using d(2) [OF that] dc(2) unfolding off [OF \<open>0 \<le> sint i\<close>]
          by (subst in_range_at) (simp_all add: unat_of_nat_u64)
      qed
      then show ?thesis using m(3) [of "r + of_nat d"] d(1) dc by (simp add: in_range_offset unat_of_nat_u64)
    qed
    then show "gives p (s\<lparr>mm := m\<rparr>) Q" using rest [OF _ keep] own(1) m(1) by (simp add: owns_def)
  qed
qed

lemma part3_verdict:
  assumes rdy: "ready k K bytes E 16384 (mm s)" and grant: "\<not> IS_ERR (fst (vm_mmap K 0 0x400000 RW PRIVATE (mm s)))"
  shows "gives (part3 k K E) s (\<lambda>ws e. ws = [Shown 65] \<and> e = Exit 0)"
  unfolding part3_def
proof (intro gives_device gives_area [OF readyD(1) [OF rdy]])
  fix m r
  let ?s = "snd (Btplus.device_open s)" and ?Q = "\<lambda>ws e. ws = [Shown 65] \<and> e = Exit 0"
  let ?finish = "\<lambda>ptr. show_pages K dies ptr 1 (closing (unmapping K r 0x400000 (\<lambda>_. exits 0)))"
  let ?look = "loading K dies (e_stack E + 16 * drop_bit 12 ((r + 10) - r)) 16 (\<lambda>bs. ?finish (to_addr (get_address bs) + ((r + 10) AND 0xfff)))"
  assume r: "r \<noteq> - 1" "owns K m r (unat (0x400000 :: u64))" "4096 dvd unat r"
    "\<And>x. in_range r (unat (0x400000 :: u64)) x \<Longrightarrow> flags_at K (mm ?s) x = None" "keeps K bytes (mm ?s) m"
    "unat r + unat (0x400000 :: u64) \<le> 2 ^ 47"
  have low: "(r + 10) AND 0xfff = 10"
  proof -
    have "unat (r + 10) = unat r + 10" using r(6) unat_word_ariths(1) [of r 10] by simp
    then have "unat ((r + 10) mod 4096) = 10" using r(3) by (auto simp: unat_mod elim!: dvdE)
    then have "(r + 10) mod 4096 = 10" by (simp add: word_unat_eq_iff)
    then show ?thesis by (simp add: low_bits take_bit_eq_mod)
  qed
  have look: "gives ?look s' ?Q"
    if "owns K (mm s') r 0x400000" "owns K (mm s') (e_stack E) 16" "bytes (mm s') (r + 10) = 65"
      "mem_read (e_stack E) 16 (bytes (mm s')) = put_address \<lparr>from_addr = r, to_addr = r\<rparr>" for s'
  proof -
    have "owns K (mm s') (r + 10) 1" using owns_part [OF that(1), of 10 1] by simp
    then have "gives (?finish (r + 10)) s' ?Q" using that(3)
      by (auto simp: mem_read_def intro!: gives_loading [OF readyD(1) [OF rdy]] gives_say gives_closing gives_unmapping [OF readyD(1) [OF rdy]] gives_ends)
    then show ?thesis using that(2,4) unfolding low by (intro gives_loading [OF readyD(1) [OF rdy]]) simp_all
  qed
  have "gives (store_all K dies (\<lambda>i. r + scast i) (\<lambda>i. replicate 4096 65) 0x400000 8192 (set_input K dies E r 1024 (
      demand k K E IOCTL_COMPACT_VMA ?look))) (?s\<lparr>mm := m\<rparr>) ?Q"
  proof (rule gives_store_area [OF rdy, where c = "0x400000"])
    show "nat (sint i) + length (replicate 4096 (65 :: u8)) \<le> 0x400000"
      if "0 \<le> sint i" "sint i < 0x400000" "sint (8192 :: u32) dvd sint i" for i :: u32
      using that by (auto elim!: dvdE)
    fix m'
    assume own: "owns K m' r 0x400000" and k: "keeps K bytes (mm s) m'"
      and d: "\<And>d. d < length (replicate 4096 (65 :: u8)) \<Longrightarrow> (\<And>i :: u32. sint (8192 :: u32) \<le> sint i \<Longrightarrow> sint i < 0x400000 \<Longrightarrow> d < nat (sint i)) \<Longrightarrow>
        bytes m' (r + of_nat d) = replicate 4096 65 ! d"
    have A: "bytes m' (r + 10) = 65" using d [of 10] by simp
    have out: "\<not> in_range (e_arg E) 24 (r + 10)" "\<not> in_range (e_stack E) 16384 (r + 10)"
      using owns_mapped [OF readyD(3) [OF rdy], of "r + 10"] owns_mapped [OF readyD(4) [OF rdy], of "r + 10"] r(4) [of "r + 10"]
      by (auto simp: in_range_def simp del: flags_at_None)
    show "gives (set_input K dies E r 1024 (demand k K E IOCTL_COMPACT_VMA ?look)) (?s\<lparr>mm := m, mm := m'\<rparr>) ?Q"
    proof (rule gives_ask)
      show "ready k K bytes E 16384 (mm (?s\<lparr>mm := m, mm := m'\<rparr>))" using ready_keeps [OF rdy k] by simp
      fix s' :: "'a bt"
      assume s': "flags_at K (mm s') = flags_at K (mm (?s\<lparr>mm := m, mm := m'\<rparr>))"
        "mem_read (e_stack E) 16 (bytes (mm s')) = put_address \<lparr>from_addr = r, to_addr = r\<rparr>"
        "\<And>x. \<not> in_range (e_arg E) 24 x \<Longrightarrow> \<not> in_range (e_stack E) 16384 x \<Longrightarrow> bytes (mm s') x = bytes (mm (?s\<lparr>mm := m, mm := m'\<rparr>)) x"
      show "gives ?look s' ?Q"
        using look [of s'] own s'(1,2) s'(3) [OF out] A readyD(5) [OF ready_keeps [OF rdy k]] by (simp add: owns_def)
    qed
  qed (use r in \<open>simp_all del: flags_at_None\<close>)
  then show "gives (if r = - 1 then quits (- 1) else store_all K dies (\<lambda>i. r + scast i) (\<lambda>i. replicate 4096 65) 0x400000 8192 (
      set_input K dies E r 1024 (demand k K E IOCTL_COMPACT_VMA ?look))) (?s\<lparr>mm := m\<rparr>) ?Q"
    using r(1) by simp
qed (use readyD [OF rdy] grant in simp_all)

section \<open>All programs end\<close>

lemma store_loop_returns:
  assumes "0 < sint step" "bound + sint step \<le> 2 ^ 31" "0 \<le> sint j"
  shows "\<exists>ok m'. store_loop K at val bound step j m = Some (ok, m')"
  using assms(3)
proof (induction "nat (bound - sint j)" arbitrary: j m rule: less_induct)
  case less
  show ?case
  proof (cases "sint j < bound")
    case False
    then have "store_loop K at val bound step j m = Some (True, m)" by (simp add: store_loop.simps [of _ _ _ _ _ j])
    then show ?thesis by blast
  next
    case True
    have "sint (j + step) = sint j + sint step" using True assms(1,2) less.prems by (intro sint_add_u32) auto
    then have "\<exists>ok m'. store_loop K at val bound step (j + step) m1 = Some (ok, m')" for m1
      using True assms(1) less.prems by (intro less.hyps) auto
    then show ?thesis using True by (auto simp: store_loop.simps [of _ _ _ _ _ j] split: prod.split)
  qed
qed

lemma ends_store_all [ends_intro]:
  fixes p h :: "'m prog"
  assumes "0 < sint step" "bound + sint step \<le> 2 ^ 31" "ends d h" "ends d p"
  shows "ends d (store_all K h at val bound step p)"
  unfolding ends_def store_all_def
proof
  fix s :: "'m bt"
  obtain ok m where "store_loop K at val bound step 0 (mm s) = Some (ok, m)" using store_loop_returns [OF assms(1,2), of 0 K at val "mm s"] by auto
  then show "\<exists>ws e s'. (case store_loop K at val bound step 0 (mm s) of None \<Rightarrow> Hang
      | Some (ok, m) \<Rightarrow> if ok then p (s\<lparr>mm := m\<rparr>) else h (s\<lparr>mm := m\<rparr>)) = Done (ws, e, s') \<and> device_opened s' = device_opened s - d"
    using assms(3,4) [unfolded ends_def, rule_format, of "s\<lparr>mm := m\<rparr>"] by simp
qed

lemma compaction_returns:
  assumes "\<And>l. k_alloc k l \<noteq> 0"
  shows "returns s (Btplus.device_ioctl k K IOCTL_COMPACT_VMA param s)"
proof -
  have "returns s (compact_vma k K b param (kcalled c s))" for b c
  proof -
    let ?s = "snd (kalloc k 24 (kcalled c s))"
    define ip where "ip = get_input (snd (from_user K param 24 (mm ?s)))"
    define a buff where "a = in_addr ip" and "buff = in_buff ip"
    obtain early t where loop: "compact_loop K b (find_vma K (a + ucast (in_length ip * 4096)) (mm ?s)) a buff a
        (a + ucast (in_length ip * 4096)) a (a + ucast (in_length ip * 4096)) \<lparr>from_addr = a, to_addr = a\<rparr> (mm ?s) =
        Some (Done (early, \<lparr>from_addr = a, to_addr = a\<rparr>, (table_write K buff a ^^ t) (mm ?s)))"
      using compact_loop_returns [OF refl, of K b "find_vma K (a + ucast (in_length ip * 4096)) (mm ?s)" a buff "in_length ip" "mm ?s"]
      by (elim exE conjE) (rule that)
    have "device_opened ?s = device_opened s" by (simp add: kalloc_result)
    then show ?thesis using loop assms unfolding ip_def a_def buff_def
      by (auto simp: compact_vma_def kalloc_result Let_def split: prod.split option.split intro!: returns_intro)
  qed
  then show ?thesis by (simp add: Btplus.device_ioctl_def kalloc_result ioctl_defs)
qed

lemma ends_compaction:
  assumes "\<And>l. k_alloc k l \<noteq> 0"
  shows "(\<And>r. ends d (p r)) \<Longrightarrow> ends d (request k K E IOCTL_COMPACT_VMA p)"
    and "ends 1 q \<Longrightarrow> ends 1 (demand k K E IOCTL_COMPACT_VMA q)"
proof -
  have *: "ends d (request k K E IOCTL_COMPACT_VMA p)" if "\<And>r. ends d (p r)" for d p
  proof -
    have "\<exists>r s'. Btplus.device_ioctl k K IOCTL_COMPACT_VMA (e_arg E) s = Done (r, s') \<and> device_opened s' = device_opened s" for s
      using compaction_returns [OF assms] by (simp add: returns_def)
    with that show ?thesis unfolding ends_def request_def by (metis (no_types, lifting) obind_simps(1) old.prod.case)
  qed
  then show "(\<And>r. ends d (p r)) \<Longrightarrow> ends d (request k K E IOCTL_COMPACT_VMA p)" .
  show "ends 1 q \<Longrightarrow> ends 1 (demand k K E IOCTL_COMPACT_VMA q)" unfolding demand_def by (intro *) (auto intro!: ends_intro)
qed

lemma ends_pieces [ends_intro]:
  "ends d h \<Longrightarrow> ends d p \<Longrightarrow> ends d (set_input K h E a l p)" "ends d h \<Longrightarrow> (\<And>x. ends d (q x)) \<Longrightarrow> ends d (table_new K h E i q)"
  "(\<And>x. ends 1 (q x)) \<Longrightarrow> ends 1 (shifted_area K n q)"
  unfolding set_input_def table_new_def shifted_area_def by (intro ends_intro; simp)+

lemma ends_array: "ends 0 p \<Longrightarrow> ends 0 (with_array E n p)"
  by (simp add: ends_def with_array_def)

lemma compaction_programs_end:
  assumes "\<And>l. k_alloc k l \<noteq> 0" and "p \<in> set [tc31, tc32, tc33, tc34, tc35, tc36, tc37, tc39, part3]"
  shows "ends 0 (p k K E)"
  using assms(2) unfolding list.set insert_iff empty_iff
  by (elim disjE FalseE) (simp_all only: tc31_def tc32_def tc33_def tc34_def tc35_def tc36_def tc37_def tc39_def part3_def expect_refusal_def Let_def,
    (intro ends_array ends_device ends_handler ends_intro ends_compaction assms(1) | simp)+)


text \<open>A program whose stack lies in the area of \<open>ex_space\<close>, and a kernel that always has memory.\<close>

definition ex_env :: venv where
  "ex_env = \<lparr>e_opens = True, e_opens_ptw = True, e_opens_sysfs = True, e_sigaction = True,
     e_arg = 0x200000, e_stack = 0x210000, e_addr = 0x220000, e_stack_room = 0x800000\<rparr>"

definition ample :: kapi where
  "ample = granting\<lparr>k_alloc := \<lambda>_. 16384\<rparr>"


lemma ready_less: "ready k K bytes E n m \<Longrightarrow> 16 \<le> j \<Longrightarrow> j \<le> n \<Longrightarrow> ready k K bytes E j m"
  using owns_part [of K m "e_stack E" n 0 j] in_range_mono [of "e_stack E" j _ n] by (auto simp: ready_def)

text \<open>
  C14: The verdicts of the compaction tests.  The three tests that expect the request to be refused, for an area without
  pages, an address that is not mapped and a length beyond the area, never pass: the request succeeds and they end with -1.  The
  two that look up where a page went pass only if their stack happened to hold the number of a free page where the request
  wrote nothing.  The example program prints the byte it stored, at the address where it was.
\<close>

theorem compaction_tests:
  assumes "ready k K bytes E 16384 (mm s)"
  shows "(\<forall>p \<in> set [tc32, tc33, tc34]. gives (p k K E) s fails) \<and>
    gives (tc31 k K E) s (by_chance K bytes E 1023 (mm s)) \<and> gives (tc36 k K E) s (by_chance K bytes E 3 (mm s)) \<and>
    (\<not> IS_ERR (fst (vm_mmap K 0 0x400000 RW PRIVATE (mm s))) \<longrightarrow> gives (part3 k K E) s (\<lambda>ws e. ws = [Shown 65] \<and> e = Exit 0))"
  using tc32_verdict [OF assms] tc33_verdict [OF assms] tc34_verdict [OF assms] tc31_verdict [OF assms]
    tc36_verdict [OF ready_less [OF assms]] part3_verdict [OF assms] by simp

lemma ready_example: "ready ample plain_mm contents ex_env 16384 ex_space"
proof -
  have "owns plain_mm ex_space a n" if "0x200000 \<le> unat a" "unat a + n \<le> 0x400000" for a n
    using permits_ex_space [OF _ that] by (simp add: owns_def)
  moreover have "\<not> in_range 0x210000 16384 x" if "in_range 0x200000 24 x" for x
    using in_range_le [OF _ that] in_range_le [of "0x210000" 16384 x] by (auto simp: word_le_nat_alt)
  ultimately show ?thesis by (simp add: ready_def plain_mm_laws ample_def ex_env_def)
qed

lemma ex_space_grants: "n \<noteq> 0 \<Longrightarrow> n \<le> 0x40000000 \<Longrightarrow> vm_mmap plain_mm 0 n p f ex_space = (0x7f0000000000, snd (vm_mmap plain_mm 0 n p f ex_space))"
proof -
  assume n: "n \<noteq> 0" "n \<le> 0x40000000"
  have "space_load x ex_space = None" if "in_range 0x7f0000000000 (unat n) x" for x
  proof -
    have "0x7f0000000000 \<le> x" using in_range_le [OF _ that] n(2) by (simp add: word_le_nat_alt)
    then show ?thesis using load_ex_space [of x] by (simp add: plain_mm_def word_le_nat_alt word_less_nat_alt)
  qed
  then have "fits ex_space n 0x7f0000000000" using n
    by (auto simp: fits_def word_le_nat_alt word_neq_0_conv intro!: all_rangeI)
  moreover have "\<not> fits ex_space n 0" by (simp add: fits_def)
  ultimately show ?thesis by (simp add: plain_mm_def plain_mmap_def)
qed

theorem compaction_tests_witness:
  "gives (tc32 ample plain_mm ex_env) (inserted ex_space) fails \<and>
   gives (part3 ample plain_mm ex_env) (inserted ex_space) (\<lambda>ws e. ws = [Shown 65] \<and> e = Exit 0)"
proof -
  have "\<not> IS_ERR (fst (vm_mmap plain_mm 0 0x400000 RW PRIVATE ex_space))"
    by (subst ex_space_grants) (simp_all add: IS_ERR_def word_le_nat_alt)
  then show ?thesis using compaction_tests [of ample plain_mm contents ex_env "inserted ex_space"] ready_example by simp
qed

end
