(* ===== verification/Vmprogs_Promote.thy ===== *)
theory Vmprogs_Promote
  imports Vmprogs_Compact
begin

text \<open>
  The test programs of the VMA module that promote areas: \<^verbatim>\<open>Testcases/testcases/tc21.c\<close> to \<^verbatim>\<open>tc30.c\<close> and
  \<^verbatim>\<open>template/user_progs/part2.c\<close>.  They make the promotion request, write to the sysfs file of the module, and wait for it to
  read as 0.
\<close>

section \<open>The steps\<close>

text \<open>\<^verbatim>\<open>for (int j = 0; j < bound; j += 4096) printf("%c", ptr[j])\<close>; the flag tells that the loop came to its end.\<close>

partial_function (option) load_loop :: "'m mmapi \<Rightarrow> u64 \<Rightarrow> int \<Rightarrow> u32 \<Rightarrow> 'm \<Rightarrow> (bool \<times> u8 list) option" where
  "load_loop K ptr bound j m =
     (if sint j < bound then
        (let (r, bs) = from_user K (ptr + scast j) 1 m
         in if r \<noteq> 0 then Some (False, [])
            else Option.bind (load_loop K ptr bound (j + 4096) m) (\<lambda>(ok, cs). Some (ok, hd bs # cs)))
      else Some (True, []))"

definition load_all :: "'m mmapi \<Rightarrow> u64 \<Rightarrow> int \<Rightarrow> (bool \<Rightarrow> u8 list \<Rightarrow> 'm prog) \<Rightarrow> 'm prog" where
  "load_all K ptr bound p s =
     (case load_loop K ptr bound 0 (mm s) of
        None \<Rightarrow> Hang
      | Some (ok, cs) \<Rightarrow> p ok cs s)"

definition print_all :: "'m mmapi \<Rightarrow> 'm prog \<Rightarrow> u64 \<Rightarrow> int \<Rightarrow> 'm prog \<Rightarrow> 'm prog" where
  "print_all K h ptr bound p = load_all K ptr bound (\<lambda>ok cs. foldr say (map Shown cs) (if ok then p else h))"

text \<open>The request; a program that gets an error ends.\<close>

definition promote :: "kapi \<Rightarrow> 'm mmapi \<Rightarrow> venv \<Rightarrow> 'm prog \<Rightarrow> 'm prog" where
  "promote k K E p = request k K E IOCTL_PROMOTE_VMA (\<lambda>r. if r <s 0 then quits (- 1) else p)"

definition with_sysfs :: "venv \<Rightarrow> 'm prog \<Rightarrow> 'm prog" where
  "with_sysfs E p = (if e_opens_sysfs E then p else quits (- 1))"

definition sysfs_write :: "u8 list \<Rightarrow> 'm prog \<Rightarrow> 'm prog" where
  "sysfs_write buff p s = (let (r, s) = sysfs_store buff 4 s in if r <s 0 then quits (- 1) s else p s)"

text \<open>
  \<^verbatim>\<open>read(fd_sysfs, buff, n)\<close> from the beginning of the file: the kernel has the module fill a cleared page, and at most
  \<open>n\<close> bytes of the text it reports go to the front of \<^verbatim>\<open>buff\<close>; the rest of \<^verbatim>\<open>buff\<close> stays as it is.
\<close>

definition sysfs_read :: "nat \<Rightarrow> u8 list \<Rightarrow> 'm bt \<Rightarrow> ssize_t \<times> u8 list \<times> 'm bt" where
  "sysfs_read n buff s =
     (let (r, page, s) = sysfs_show (replicate 4096 0) s
      in if r <s 0 then (r, buff, s)
         else
           (let got = take n (take (unat r) page)
            in (of_nat (length got), got @ drop (length got) buff, s)))"

text \<open>
  The wait for the merge, with \<open>n\<close> rounds of ten seconds left: the file is read into \<^verbatim>\<open>buff\<close>, and the wait is over when it
  holds a 0; the twelfth round ends the program.
\<close>

fun wait_rounds :: "nat \<Rightarrow> u8 list \<Rightarrow> 'm prog \<Rightarrow> 'm prog" where
  "wait_rounds 0 buff p s = quits (- 1) s"
| "wait_rounds (Suc n) buff p s =
     (let (r, buff, s) = sysfs_read 4 buff s
      in if r <s 0 then quits (- 1) s
         else if n = 0 then quits (- 1) s
         else if atoi buff \<noteq> 0 then wait_rounds n buff p s
         else p s)"

text \<open>\<^verbatim>\<open>sprintf\<close> sets the first two of the four bytes of \<^verbatim>\<open>buff\<close>; the text ends there.\<close>

definition merging :: "'m prog \<Rightarrow> 'm prog" where
  "merging p = (let buff = dec_int 1 @ [0] in sysfs_write buff (wait_rounds 12 buff p))"

definition table_for :: "'m mmapi \<Rightarrow> u64 \<Rightarrow> (u64 \<Rightarrow> 'm prog) \<Rightarrow> 'm prog" where
  "table_for K n = populating K 0 (num_2MB n * 16) RW"

definition letters :: "'m mmapi \<Rightarrow> u64 \<Rightarrow> int \<Rightarrow> 'm prog \<Rightarrow> 'm prog" where
  "letters K ptr n = store_all K segv_failed (\<lambda>i. ptr + scast i) (\<lambda>i. [letter i]) n 4096"

section \<open>The programs\<close>

text \<open>Every program opens both devices and installs a handler that reports a failure.\<close>

definition promoting :: "venv \<Rightarrow> 'm pagewalk \<Rightarrow> (ptw \<Rightarrow> 'm prog) \<Rightarrow> 'm prog" where
  "promoting E W p = with_devices E W (\<lambda>w. with_handler E (p w))"

text \<open>An area at an address of the program's choice, above or where the kernel would place it.\<close>

definition placed_area ::
  "'m mmapi \<Rightarrow> u64 \<Rightarrow> ((u64 \<Rightarrow> (u64 \<Rightarrow> 'm prog) \<Rightarrow> 'm prog)) \<Rightarrow> (u64 \<Rightarrow> u64) \<Rightarrow> (u64 \<Rightarrow> u64 \<Rightarrow> 'm prog) \<Rightarrow> 'm prog" where
  "placed_area K n map_at place p =
     mapping K 0 n PROT_READ (\<lambda>ptr. unmapping K ptr n (\<lambda>_. map_at (place ptr) (\<lambda>ptr. table_for K n (\<lambda>dt.
       if ptr = - 1 \<or> dt = - 1 then quits (- 1) else p ptr dt))))"

definition unmap_last :: "'m mmapi \<Rightarrow> u64 \<Rightarrow> u64 \<Rightarrow> 'm prog" where
  "unmap_last K ptr n = closing (unmapping K ptr n (\<lambda>r. if r <s 0 then exits (- 1) else exits 0))"

definition tc21 :: "kapi \<Rightarrow> 'm mmapi \<Rightarrow> 'm pagewalk \<Rightarrow> venv \<Rightarrow> 'm prog" where
  "tc21 k K W E = promoting E W (\<lambda>w.
     placed_area K 0x800000 (\<lambda>a. populating K a 0x800000 RW) (\<lambda>a. (a + 0x200000) AND NOT 0x1fffff) (\<lambda>ptr dt.
       letters K ptr 0x800000 (walks K W segv_failed E ptr 0x800000 dt w (\<lambda>w. promote k K E (with_sysfs E (merging (
         print_all K segv_failed ptr 0x800000 (walks K W segv_failed E ptr 0x800000 dt w (\<lambda>_. unmap_last K ptr 0x800000)))))))))"

definition tc22 :: "kapi \<Rightarrow> 'm mmapi \<Rightarrow> 'm pagewalk \<Rightarrow> venv \<Rightarrow> 'm prog" where
  "tc22 k K W E = promoting E W (\<lambda>w.
     placed_area K 0x800000 (\<lambda>a. mapping K a 0x800000 RW) (\<lambda>a. (a + 0x200000) AND NOT 0x1fffff) (\<lambda>ptr dt.
       walks K W segv_failed E ptr 0x800000 dt w (\<lambda>w. promote k K E (with_sysfs E (merging (
         walks K W segv_failed E ptr 0x800000 dt w (\<lambda>_. unmap_last K ptr 0x800000)))))))"

definition tc23 :: "kapi \<Rightarrow> 'm mmapi \<Rightarrow> 'm pagewalk \<Rightarrow> venv \<Rightarrow> 'm prog" where
  "tc23 k K W E = promoting E W (\<lambda>w.
     placed_area K 16384 (\<lambda>a. mapping K a 16384 RW) (\<lambda>a. a AND NOT 0xfff) (\<lambda>ptr dt.
       letters K ptr 16384 (walks K W segv_failed E ptr 16384 dt w (\<lambda>w. promote k K E (with_sysfs E (merging (
         print_all K segv_failed ptr 16384 (walks K W segv_failed E ptr 16384 dt w (\<lambda>_. unmap_last K ptr 16384)))))))))"

text \<open>Eight areas; the address looked up is that of the array of their addresses.\<close>

fun eight_areas :: "'m mmapi \<Rightarrow> 'm pagewalk \<Rightarrow> venv \<Rightarrow> u64 \<Rightarrow> nat \<Rightarrow> ptw \<Rightarrow> u64 list \<Rightarrow> (ptw \<Rightarrow> u64 list \<Rightarrow> 'm prog) \<Rightarrow> 'm prog" where
  "eight_areas K W E dt 0 w ptrs p = p w ptrs"
| "eight_areas K W E dt (Suc n) w ptrs p =
     mapping K 0 2101248 RW (\<lambda>ptr.
       if ptr = - 1 then quits (- 1)
       else letters K ptr 2101248 (walks K W segv_failed E (e_stack E) 2101248 dt w (\<lambda>w.
         eight_areas K W E dt n w (ptrs @ [ptr]) p)))"

fun show_areas :: "'m mmapi \<Rightarrow> 'm pagewalk \<Rightarrow> venv \<Rightarrow> u64 \<Rightarrow> u64 list \<Rightarrow> ptw \<Rightarrow> 'm prog \<Rightarrow> 'm prog" where
  "show_areas K W E dt [] w p = p"
| "show_areas K W E dt (ptr # ptrs) w p =
     print_all K segv_failed ptr 2101248 (walks K W segv_failed E (e_stack E) 2101248 dt w (\<lambda>w. show_areas K W E dt ptrs w p))"

definition tc24 :: "kapi \<Rightarrow> 'm mmapi \<Rightarrow> 'm pagewalk \<Rightarrow> venv \<Rightarrow> 'm prog" where
  "tc24 k K W E = promoting E W (\<lambda>w. table_for K 2101248 (\<lambda>dt.
     if dt = - 1 then quits (- 1)
     else eight_areas K W E dt 8 w [] (\<lambda>w ptrs. promote k K E (with_sysfs E (merging (
       show_areas K W E dt ptrs w (closing (exits 0))))))))"

definition tc25 :: "kapi \<Rightarrow> 'm mmapi \<Rightarrow> 'm pagewalk \<Rightarrow> venv \<Rightarrow> 'm prog" where
  "tc25 k K W E = promoting E W (\<lambda>w. mapping K 0 3145728 RW (\<lambda>ptr. table_for K 3145728 (\<lambda>dt.
     if ptr = - 1 \<or> dt = - 1 then quits (- 1)
     else letters K ptr 3145728 (walks K W segv_failed E ptr 3145728 dt w (\<lambda>w. promote k K E (
       unmapping K (ptr + 1572864) 4096 (\<lambda>_. with_sysfs E (merging (
         print_all K segv_failed ptr 1572864 (walks K W segv_failed E ptr 3145728 dt w (\<lambda>_. closing (exits 0))))))))))))"

text \<open>Areas of 2 GB: the counter of the loops is an \<^verbatim>\<open>int\<close>, which wraps around below the bound.\<close>

definition tc26 :: "kapi \<Rightarrow> 'm mmapi \<Rightarrow> 'm pagewalk \<Rightarrow> venv \<Rightarrow> 'm prog" where
  "tc26 k K W E = promoting E W (\<lambda>w. mapping K 0 0x80000000 RW (\<lambda>ptr. table_for K 0x80000000 (\<lambda>dt.
     if ptr = - 1 \<or> dt = - 1 then quits (- 1)
     else letters K ptr 0x80000000 (walks K W segv_failed E ptr 0x80000000 dt w (\<lambda>w. promote k K E (with_sysfs E (merging (
       unmapping K (ptr + 1048576) 4096 (\<lambda>_. walks K W segv_failed E ptr 0x80000000 dt w (\<lambda>_. closing (exits 0)))))))))))"

definition tc27 :: "kapi \<Rightarrow> 'm mmapi \<Rightarrow> 'm pagewalk \<Rightarrow> venv \<Rightarrow> 'm prog" where
  "tc27 k K W E = promoting E W (\<lambda>w. mapping K 0 0x80000000 RW (\<lambda>ptr. table_for K 0x80000000 (\<lambda>dt.
     if ptr = - 1 \<or> dt = - 1 then quits (- 1)
     else letters K ptr 0x80000000 (walks K W segv_failed E ptr 0x80000000 dt w (\<lambda>w. promote k K E (with_sysfs E (merging (
       unmapping K (ptr + 1048576) 0x20000000 (\<lambda>_. unmapping K (ptr + 1074790400) 0x20000000 (\<lambda>_.
         walks K W segv_failed E ptr 0x80000000 dt w (\<lambda>_. closing (exits 0))))))))))))"

text \<open>Four merges, each after a quarter of the area was written.\<close>

fun merges :: "'m mmapi \<Rightarrow> u64 \<Rightarrow> nat \<Rightarrow> 'm prog \<Rightarrow> 'm prog" where
  "merges K ptr 0 p = p"
| "merges K ptr (Suc n) p =
     storing K segv_failed ptr (replicate 0x10000000 48) (merging (merges K (ptr + 0x20000000) n p))"

definition tc28 :: "kapi \<Rightarrow> 'm mmapi \<Rightarrow> 'm pagewalk \<Rightarrow> venv \<Rightarrow> 'm prog" where
  "tc28 k K W E = promoting E W (\<lambda>w. mapping K 0 0x80000000 RW (\<lambda>ptr. table_for K 0x80000000 (\<lambda>dt.
     if ptr = - 1 \<or> dt = - 1 then quits (- 1)
     else walks K W segv_failed E ptr 0x80000000 dt w (\<lambda>w. promote k K E (with_sysfs E (merges K ptr 4 (
       walks K W segv_failed E ptr 0x80000000 dt w (\<lambda>_. closing (exits 0)))))))))"

text \<open>Two areas with different rights; \<open>protect\<close> is \<^verbatim>\<open>mprotect\<close>, whose result is not looked at.\<close>

definition two_rights ::
  "kapi \<Rightarrow> 'm mmapi \<Rightarrow> 'm pagewalk \<Rightarrow> venv \<Rightarrow> (u64 \<Rightarrow> 'm prog \<Rightarrow> 'm prog) \<Rightarrow> 'm prog" where
  "two_rights k K W E change = promoting E W (\<lambda>w.
     mapping K 0 1572864 PROT_WRITE (\<lambda>ptr. mapping K ptr 1572864 PROT_READ (\<lambda>ptr1. table_for K 1572864 (\<lambda>dt.
       if ptr = - 1 \<or> dt = - 1 \<or> ptr1 = - 1 then quits (- 1)
       else walks K W segv_failed E ptr 1572864 dt w (\<lambda>w. promote k K E (with_sysfs E (
         storing K segv_failed ptr (replicate 1572864 48) (change ptr1 (merging (
           storing K segv_failed ptr (replicate 1572864 48) (
             walks K W segv_failed E ptr 1572864 dt w (\<lambda>_. closing (exits 0)))))))))))))"

definition tc29 :: "kapi \<Rightarrow> 'm mmapi \<Rightarrow> 'm pagewalk \<Rightarrow> venv \<Rightarrow> 'm prog" where
  "tc29 k K W E = two_rights k K W E (\<lambda>ptr1 p. p)"

definition tc30 :: "(u64 \<Rightarrow> u64 \<Rightarrow> u64 \<Rightarrow> 'm \<Rightarrow> 'm) \<Rightarrow> kapi \<Rightarrow> 'm mmapi \<Rightarrow> 'm pagewalk \<Rightarrow> venv \<Rightarrow> 'm prog" where
  "tc30 protect k K W E = two_rights k K W E (\<lambda>ptr1 p s. p (s\<lparr>mm := protect ptr1 1572864 PROT_WRITE (mm s)\<rparr>))"

text \<open>The example: it reads the file once, into an \<^verbatim>\<open>int\<close> that was 1, and ends in any case.\<close>

definition part2 :: "kapi \<Rightarrow> 'm mmapi \<Rightarrow> venv \<Rightarrow> 'm prog" where
  "part2 k K E = with_device E (mapping K 0 0x800000 (RW OR PROT_EXEC) (\<lambda>ptr.
     if ptr = - 1 then quits (- 1)
     else promote k K E (store_all K dies (\<lambda>i. ptr + scast i) (\<lambda>i. [65]) 0x800000 4096 (with_sysfs E (
       sysfs_write [1, 0, 0, 0] (load_all K ptr 0x800000 (\<lambda>ok _ s.
         let (r, temp, s) = sysfs_read 4 [1, 0, 0, 0] s
         in if \<not> ok then dies s
            else if r <s 0 then quits (- 1) s
            else closing (unmapping K ptr 0x800000 (\<lambda>_. exits 0)) s)))))))"

section \<open>No test passes\<close>

text \<open>A program that does not end with the status 0, in whatever state it starts.\<close>

definition unsuccessful :: "'m prog \<Rightarrow> bool" where
  "unsuccessful p \<longleftrightarrow> (\<forall>s ws s'. p s \<noteq> Done (ws, Exit 0, s'))"

named_theorems unsuccessful_intro

lemma unsuccessful_ends [unsuccessful_intro]:
  "c \<noteq> 0 \<Longrightarrow> unsuccessful (exits c)" "c \<noteq> 0 \<Longrightarrow> unsuccessful (quits c)" "unsuccessful dies" "unsuccessful segv_failed"
  by (auto simp: unsuccessful_def exits_def quits_def dies_def segv_failed_def say_def)

lemma unsuccessful_say: "unsuccessful p \<Longrightarrow> unsuccessful (foldr say ws p)"
  by (induction ws) (auto simp: unsuccessful_def say_def obind_def split: outcome.splits)

lemma unsuccessful_if [unsuccessful_intro]: "unsuccessful p \<Longrightarrow> unsuccessful q \<Longrightarrow> unsuccessful (if b then p else q)"
  by simp

lemma unsuccessful_mapping [unsuccessful_intro]:
  "(\<And>r. unsuccessful (p r)) \<Longrightarrow> unsuccessful (mapping K hint n prot p)" "(\<And>r. unsuccessful (p r)) \<Longrightarrow> unsuccessful (populating K hint n prot p)"
  "(\<And>r. unsuccessful (q r)) \<Longrightarrow> unsuccessful (unmapping K a n q)"
  by (simp_all add: unsuccessful_def mapping_def populating_def mapping_as_def unmapping_def split: prod.splits)

lemma unsuccessful_storing [unsuccessful_intro]:
  "unsuccessful h \<Longrightarrow> unsuccessful p \<Longrightarrow> unsuccessful (storing K h a bs p)"
  "unsuccessful h \<Longrightarrow> unsuccessful p \<Longrightarrow> unsuccessful (store_all K h at val bound step p)"
  by (simp_all add: unsuccessful_def storing_def store_all_def split: prod.splits option.splits)

lemma unsuccessful_walks [unsuccessful_intro]:
  assumes "unsuccessful h" "\<And>w. unsuccessful (p w)"
  shows "unsuccessful (walks K W h E ptr bound dt w p)"
proof -
  have "unsuccessful (foldr say ws (if ok then p w else h))" for ws ok w
    using assms by (intro unsuccessful_say) simp
  then show ?thesis by (simp add: unsuccessful_def walks_def obind_def split: prod.splits option.splits outcome.splits)
qed

lemma unsuccessful_promote [unsuccessful_intro]: "unsuccessful p \<Longrightarrow> unsuccessful (promote k K E p)"
proof -
  assume "unsuccessful p"
  then have "unsuccessful (if r <s 0 then quits (- 1) else p)" for r :: u32 by (auto intro: unsuccessful_intro)
  then show ?thesis by (simp add: unsuccessful_def promote_def request_def obind_def split: prod.splits outcome.splits)
qed

text \<open>The sysfs file always reads as empty, so what the program wrote there stays in its buffer and every wait runs
  into its limit.\<close>

lemma sysfs_reads_nothing: "sysfs_read n buff s = (0, buff, s)"
  by (simp add: sysfs_read_def sysfs_show_def)

lemma wait_limit: "0 < n \<Longrightarrow> wait_rounds n (dec_int 1 @ [0]) p s = quits (- 1) s"
proof (induction n)
  case (Suc n)
  have "atoi (dec_int 1 @ [0]) \<noteq> 0" by code_simp
  with Suc show ?case by (simp add: sysfs_reads_nothing)
qed simp

lemma merging_quits: "merging p s = quits (- 1) s"
  by (simp add: merging_def sysfs_write_def sysfs_store_def wait_limit Let_def)

lemma unsuccessful_merging [unsuccessful_intro]: "unsuccessful (merging p)"
  by (simp add: unsuccessful_def merging_quits quits_def exits_def)

lemma unsuccessful_pieces [unsuccessful_intro]:
  "unsuccessful p \<Longrightarrow> unsuccessful (with_sysfs E p)" "unsuccessful p \<Longrightarrow> unsuccessful (with_handler E p)"
  "unsuccessful p \<Longrightarrow> unsuccessful (with_device E p)"
  by (auto simp: with_sysfs_def with_handler_def with_device_def unsuccessful_def quits_def exits_def)

lemma unsuccessful_promoting [unsuccessful_intro]: "(\<And>w. unsuccessful (q w)) \<Longrightarrow> unsuccessful (promoting E W q)"
  unfolding promoting_def with_devices_def by (intro unsuccessful_intro) simp_all

lemma eight_areas_unsuccessful: "(\<And>w ptrs. unsuccessful (p w ptrs)) \<Longrightarrow> unsuccessful (eight_areas K W E dt n w ptrs p)"
  by (induction n arbitrary: w ptrs) (auto simp: letters_def intro!: unsuccessful_intro)

lemma merges_unsuccessful: "unsuccessful (merges K ptr (Suc n) p)"
  by (auto intro!: unsuccessful_intro)

lemma two_rights_unsuccessful:
  assumes "\<And>a p. unsuccessful p \<Longrightarrow> unsuccessful (change a p)"
  shows "unsuccessful (two_rights k K W E change)"
  unfolding two_rights_def table_for_def by (intro unsuccessful_intro assms) simp_all

lemmas promotion_programs = tc21_def tc22_def tc23_def tc24_def tc25_def tc26_def tc27_def tc28_def

lemmas promotion_pieces = placed_area_def table_for_def letters_def

lemma promotion_programs_unsuccessful:
  assumes "p \<in> set [tc21, tc22, tc23, tc24, tc25, tc26, tc27, tc28, tc29, tc30 protect]"
  shows "unsuccessful (p k K W E)"
proof -
  have merge: "unsuccessful (merges K ptr 4 q)" for ptr q
  proof -
    have "(4 :: nat) = Suc 3" by simp
    show ?thesis unfolding \<open>4 = Suc 3\<close> by (rule merges_unsuccessful)
  qed
  have "unsuccessful (p k K W E)" if "p \<in> set [tc21, tc22, tc23, tc24, tc25, tc26, tc27, tc28]" for p
    using that unfolding list.set insert_iff empty_iff
    by (elim disjE FalseE) (simp_all only: promotion_programs promotion_pieces,
      (intro unsuccessful_intro eight_areas_unsuccessful merge | simp)+)
  moreover have "unsuccessful (tc29 k K W E)" unfolding tc29_def by (rule two_rights_unsuccessful)
  moreover have "unsuccessful (tc30 protect k K W E)" unfolding tc30_def
    by (rule two_rights_unsuccessful) (simp add: unsuccessful_def)
  ultimately show ?thesis using assms by auto
qed

section \<open>The counter that wraps around\<close>

text \<open>No \<^verbatim>\<open>int\<close> reaches 2 GB.\<close>

lemma store_loop_never:
  assumes "store_loop K at val 0x80000000 step j m = Some y"
  shows "\<not> fst y"
proof -
  have "sint i < 0x80000000" for i :: u32 using sint_lt [of i] by simp
  then have "bound = 0x80000000 \<longrightarrow> \<not> fst y" if "store_loop K at val bound step j m = Some y" for bound y
    using that
    by (rule_tac store_loop.raw_induct [where P = "\<lambda>K at val bound step j m y. bound = 0x80000000 \<longrightarrow> \<not> fst y"])
      (auto split: prod.splits if_splits)
  then show ?thesis using assms by blast
qed

text \<open>The loop over such an area goes on until a store faults.\<close>

lemma letters_never: "letters K ptr 0x80000000 p s = Hang \<or> (\<exists>s'. letters K ptr 0x80000000 p s = Done ([Failed], Exit (- 1), s'))"
proof (cases "store_loop K (\<lambda>i. ptr + scast i) (\<lambda>i. [letter i]) 0x80000000 4096 0 (mm s)")
  case (Some y)
  then have "\<not> fst y" by (rule store_loop_never)
  then show ?thesis using Some
    by (cases y) (simp add: letters_def store_all_def segv_failed_def say_def quits_def exits_def)
qed (simp add: letters_def store_all_def)

lemma overflow_programs:
  assumes "p \<in> set [tc26, tc27]"
  shows "p k K W E s = Hang \<or> (\<exists>ws s'. p k K W E s = Done (ws, Exit (- 1), s') \<and> ws \<in> {[], [Failed]})"
proof -
  define stuck :: "'a prog \<Rightarrow> bool" where
    "stuck p \<longleftrightarrow> (\<forall>s. p s = Hang \<or> (\<exists>ws s'. p s = Done (ws, Exit (- 1), s') \<and> ws \<in> {[], [Failed]}))" for p
  have 1: "stuck (letters K ptr 0x80000000 q)" for ptr q
    using letters_never [of K ptr q] unfolding stuck_def by blast
  have 2: "stuck (quits (- 1))" by (simp add: stuck_def quits_def exits_def)
  have 3: "(\<And>r. stuck (q r)) \<Longrightarrow> stuck (mapping_as f K hint n prot q)" for f hint n prot q
    by (simp add: stuck_def mapping_as_def split: prod.splits)
  have 4: "(\<And>w. stuck (q w)) \<Longrightarrow> stuck (promoting E W q)" for q
    using 2 by (auto simp: stuck_def promoting_def with_devices_def with_handler_def with_device_def exits_def)
  have "stuck (p k K W E)" using assms unfolding list.set insert_iff empty_iff
    by (elim disjE FalseE) (simp_all only: tc26_def tc27_def mapping_def populating_def table_for_def, (intro 3 4 | simp add: 1 2)+)
  then show ?thesis by (simp add: stuck_def)
qed

section \<open>The crash\<close>

lemma area_run:
  assumes new: "new_area K bytes n prot r m m'" and n: "0x200000 \<le> unat n"
  shows "\<exists>e. 4096 * e < 2 ^ 47 \<and> row (\<lambda>x. mtree_load K x m' \<noteq> None) 0 512 e"
proof (intro exI conjI)
  define q where "q = unat r div 4096"
  have r: "unat r = 4096 * q" "unat r + unat n \<le> 2 ^ 47" using new by (auto simp: new_area_def q_def)
  show "4096 * (q + 511) < 2 ^ 47" using r n by simp
  have "mtree_load K (page 0 (q + d)) m' \<noteq> None" if "d < 512" for d
  proof -
    have "page 0 (q + d) = r + of_nat (4096 * d)"
    proof -
      have "r = of_nat (unat r)" by simp
      then have "r = 4096 * of_nat q" unfolding r(1) by simp
      then show ?thesis by (simp add: page_def algebra_simps)
    qed
    moreover have "in_range r (unat n) (r + of_nat (4096 * d))" using that n by (subst in_range_offset) simp_all
    ultimately show ?thesis using new by (auto simp: new_area_def flags_at_def)
  qed
  note run = this
  have "mtree_load K (page 0 i) m' \<noteq> None" if "q + 511 < i + 512" "i \<le> q + 511" for i
    using run [of "i - q"] that by simp
  then show "row (\<lambda>x. mtree_load K x m' \<noteq> None) 0 512 (q + 511)" by (simp add: row_def)
qed

text \<open>The request after a mapping of 2 MB or more kills the program, as long as page 0 is not mapped.\<close>

lemma promote_crash:
  assumes new: "new_area K bytes n prot r m (mm s)" "0x200000 \<le> unat n" "r \<noteq> 0" and zero: "mtree_load K 0 m = None"
    and copy: "\<And>d a n m. n \<noteq> 0 \<Longrightarrow> mtree_load K a m = None \<Longrightarrow> k_memcpy K d a n m = None"
    and pages: "\<And>n m x. mtree_load K x (snd (alloc_pages K n m)) = mtree_load K x m"
  shows "promote k K E p s = Oops"
proof -
  have "\<not> in_range r (unat n) 0"
  proof -
    have "unat r + unat n \<le> 2 ^ 47" using new(1) by (simp add: new_area_def)
    moreover have "unat (0 - r) = 2 ^ 64 - unat r" by (subst unat_sub_if') (use new(3) in \<open>simp add: unat_eq_zero\<close>)
    ultimately show ?thesis by (simp add: in_range_def)
  qed
  then have "mtree_load K 0 (mm s) = None" using new(1) zero unfolding new_area_def by (metis flags_at_None)
  then have "Btplus.device_ioctl k K IOCTL_PROMOTE_VMA (e_arg E) s = Oops"
    using promote_effect [of K s k "e_arg E", OF _ copy pages] area_run [OF new(1,2)] by simp
  then show ?thesis by (simp add: promote_def request_def)
qed

lemma part2_crash:
  assumes laws: "mm_laws K bytes" and E: "e_opens E"
    and grant: "vm_mmap K 0 0x800000 (RW OR PROT_EXEC) PRIVATE (mm s) = (r, m)" "\<not> IS_ERR r" "r \<noteq> 0"
    and zero: "mtree_load K 0 (mm s) = None"
    and copy: "\<And>d a n m. n \<noteq> 0 \<Longrightarrow> mtree_load K a m = None \<Longrightarrow> k_memcpy K d a n m = None"
    and pages: "\<And>n m x. mtree_load K x (snd (alloc_pages K n m)) = mtree_load K x m"
  shows "part2 k K E s = Oops"
proof -
  have al: "page_align 0x800000 = 0x800000" by (simp add: page_align_def)
  note mp = vm_mmap_ok [OF laws _ grant(1,2)]
  have neg: "r \<noteq> - 1" using grant(2) by (auto simp: IS_ERR_def)
  have "new_area K bytes 0x800000 (RW OR PROT_EXEC) r (mm s) m"
    using mp neg private_flags(1) by (simp add: new_area_def area_flags_def del: flags_at_None)
  then have "promote k K E p (s'\<lparr>mm := m\<rparr>) = Oops" for p s'
    using promote_crash [OF _ _ grant(3) zero copy pages] by simp
  then show ?thesis using E grant(1,2) neg al by (simp add: part2_def with_device_def mapping_def mapping_as_def)
qed

text \<open>
  C13: The verdicts of the promotion tests.  None of the ten tests ever ends with status 0, whatever the kernel, the page
  tables and the address space: the module ignores what is written to its sysfs file and shows nothing there, so every wait for
  the file to read as 0 ends the program at its limit with the status -1, unless the request or a loop stops it before.  Two of the
  tests with an area of 2 GB never make the request: their counter wraps around, and they go on until a store faults.  The example
  program is killed by the request whenever it gets its area.
\<close>

theorem promotion_tests:
  shows "(\<forall>p. merging p s = quits (- 1) s) \<and>
    (\<forall>p \<in> set [tc21, tc22, tc23, tc24, tc25, tc26, tc27, tc28, tc29, tc30 protect]. p k K W E s \<noteq> Done (ws, Exit 0, s')) \<and>
    (\<forall>p \<in> set [tc26, tc27]. p k K W E s = Hang \<or> (\<exists>ws s'. p k K W E s = Done (ws, Exit (- 1), s') \<and> ws \<in> {[], [Failed]})) \<and>
    (mm_laws K bytes \<and> e_opens E \<and> \<not> IS_ERR (fst (vm_mmap K 0 0x800000 (RW OR PROT_EXEC) PRIVATE (mm s))) \<and>
       fst (vm_mmap K 0 0x800000 (RW OR PROT_EXEC) PRIVATE (mm s)) \<noteq> 0 \<and> mtree_load K 0 (mm s) = None \<and>
       (\<forall>d a n m. n \<noteq> 0 \<and> mtree_load K a m = None \<longrightarrow> k_memcpy K d a n m = None) \<and>
       (\<forall>n m x. mtree_load K x (snd (alloc_pages K n m)) = mtree_load K x m) \<longrightarrow> part2 k K E s = Oops)"
proof (intro conjI)
  show "\<forall>p. merging p s = quits (- 1) s" by (simp add: merging_quits)
  show "\<forall>p \<in> set [tc21, tc22, tc23, tc24, tc25, tc26, tc27, tc28, tc29, tc30 protect]. p k K W E s \<noteq> Done (ws, Exit 0, s')"
    using promotion_programs_unsuccessful unfolding unsuccessful_def by blast
qed (use overflow_programs in blast, use part2_crash [OF _ _ prod.collapse [symmetric]] in blast)

definition ex_walk :: "space pagewalk" where
  "ex_walk = \<lparr>pw_state = ex_ptw, pw_tables = \<lambda>_. one_page, pw_junk = \<lambda>_. \<lparr>d_pmd = 77, d_pte = 78\<rparr>\<rparr>"

theorem promotion_tests_witness:
  "tc23 ample plain_mm ex_walk ex_env (inserted ex_space) \<noteq> Done ([], Exit 0, inserted ex_space) \<and>
   tc26 ample plain_mm ex_walk ex_env (inserted ex_space) \<noteq> Oops \<and> part2 ample plain_mm ex_env (inserted ex_space) = Oops"
proof -
  have "fst (vm_mmap plain_mm 0 0x800000 (RW OR PROT_EXEC) PRIVATE ex_space) = 0x7f0000000000"
    by (subst ex_space_grants) simp_all
  moreover have "\<not> IS_ERR 0x7f0000000000" by (simp add: IS_ERR_def word_le_nat_alt)
  moreover have "e_opens ex_env" by (simp add: ex_env_def)
  ultimately show ?thesis
    using promotion_tests [where protect = "\<lambda>_ _ _ m. m" and k = ample and K = plain_mm and W = ex_walk and E = ex_env and s = "inserted ex_space" and
        ws = "[]" and s' = "inserted ex_space" and bytes = contents] plain_mm_laws plain_pages
    by auto
qed

end
