(* ===== verification/Btplus_Template.thy ===== *)
theory Btplus_Template
  imports Btplus_Requests
begin

text \<open>
  The module the VMA assignment starts from, \<^verbatim>\<open>template/module/btplus.c\<close>: the same device as \<open>Btplus\<close> with
  requests that only copy their arguments.  Around the requests the two modules are the same functions, and the
  template's compaction is what the finished one still does.
\<close>

section \<open>The files of the device\<close>

definition device_open :: "'m bt \<Rightarrow> u32 \<times> 'm bt" where
  "device_open s =
     (let s = s\<lparr>device_opened := device_opened s + 1\<rparr>
      in (0, kcalled Try_module_get s))"

definition device_release :: "'m bt \<Rightarrow> u32 \<times> 'm bt" where
  "device_release s =
     (let s = s\<lparr>device_opened := device_opened s - 1\<rparr>
      in (0, kcalled Module_put s))"

definition device_read :: "u64 \<Rightarrow> u64 \<Rightarrow> 'm bt \<Rightarrow> ssize_t \<times> 'm bt" where
  "device_read buffer n s = (0, s)"

definition device_write :: "u64 \<Rightarrow> u64 \<Rightarrow> 'm bt \<Rightarrow> ssize_t \<times> 'm bt" where
  "device_write buffer n s = (8, s)"

section \<open>The requests\<close>

text \<open>A failed copy returns \<open>ret\<close> (0) and keeps the buffer.\<close>

definition device_ioctl :: "kapi \<Rightarrow> 'm mmapi \<Rightarrow> u32 \<Rightarrow> u64 \<Rightarrow> 'm bt \<Rightarrow> (u64 \<times> 'm bt) outcome" where
  "device_ioctl k K ioctl_num ioctl_param s =
     (if ioctl_num = IOCTL_MVE_VMA_TO \<or> ioctl_num = IOCTL_MVE_VMA then
        (let (b, s) = kalloc k 16 s
         in if b = 0 then Oops
            else
              (let (r, bs) = from_user K ioctl_param 16 (mm s)
               in if r \<noteq> 0 then Done (0, s) else Done (0, kcalled (Kfree b) s)))
      else if ioctl_num = IOCTL_PROMOTE_VMA then Done (0, s)
      else if ioctl_num = IOCTL_COMPACT_VMA then
        (let (ip, s) = kalloc k 24 s
         in if ip = 0 then Oops
            else
              (let (r, bs) = from_user K ioctl_param 24 (mm s)
               in if r \<noteq> 0 then Done (0, s)
                  else
                    (let vma_addr = in_addr (get_input bs);
                         buff = in_buff (get_input bs);
                         temp = \<lparr>from_addr = vma_addr, to_addr = vma_addr\<rparr>;
                         index = ucast (drop_bit 12 (vma_addr - vma_addr)) :: u32;
                         (r, m) = to_user K (buff + 16 * ucast index) (put_address temp) (mm s);
                         s = s\<lparr>mm := m\<rparr>
                     in if r \<noteq> 0 then Done (0, s) else Done (0, kcalled (Kfree ip) s))))
      else Done (0, s))"

section \<open>The sysfs file, loading and unloading\<close>

definition demo_devnode :: "u32 \<Rightarrow> u16 option \<Rightarrow> 'm bt \<Rightarrow> u16 option" where
  "demo_devnode devt mode s =
     (case mode of None \<Rightarrow> None | Some v \<Rightarrow> if devt = MKDEV (major s) 0 then Some 0x1B6 else Some v)"

definition sysfs_show :: "u8 list \<Rightarrow> 'm bt \<Rightarrow> ssize_t \<times> u8 list \<times> 'm bt" where
  "sysfs_show buf s = (0, buf, s)"

definition sysfs_store :: "u8 list \<Rightarrow> u64 \<Rightarrow> 'm bt \<Rightarrow> ssize_t \<times> 'm bt" where
  "sysfs_store buf count s = (count, s)"

definition init_module :: "ptr \<Rightarrow> kapi \<Rightarrow> 'm bt \<Rightarrow> u32 \<times> 'm bt" where
  "init_module kernel_kobj k s =
     (let (r, s) = register_chrdev k DEVNAME s;
          s = s\<lparr>major := r\<rparr>
      in if r <s 0 then (r, s)
         else
           (let (c, s) = class_create k DEVNAME s;
                s = s\<lparr>demo_class := c\<rparr>
            in if IS_ERR c then (PTR_ERR c, kcalled (Unregister_chrdev (major s) DEVNAME) s)
               else
                 (let (d, s) = device_create k c (MKDEV (major s) 0) DEVNAME s;
                      s = s\<lparr>demo_device := d\<rparr>
                  in if IS_ERR d then
                       (let s = kcalled (Class_destroy (demo_class s)) s
                        in (PTR_ERR d, kcalled (Unregister_chrdev (major s) DEVNAME) s))
                     else
                       (let s = s\<lparr>device_opened := 0\<rparr>;
                            (kobj, s) = kobject_create_and_add k ''kobject_cs614'' s;
                            s = s\<lparr>cs614_kobject := kobj\<rparr>
                        in if kobj = 0 then (- ENOMEM, s)
                           else
                             (let (err, s) = sysfs_create_file k kobj ''promote'' s
                              in if err \<noteq> 0 then
                                   (let s = kcalled (Kobject_put kobj) s;
                                        s = kcalled (Sysfs_remove_file kernel_kobj ''promote'') s;
                                        s = kcalled (Class_destroy (demo_class s)) s
                                    in (err, kcalled (Unregister_chrdev (major s) DEVNAME) s))
                                 else (0, s))))))"

definition cleanup_module :: "ptr \<Rightarrow> 'm bt \<Rightarrow> 'm bt" where
  "cleanup_module kernel_kobj s =
     (let s = kcalled (Device_destroy (demo_class s) (MKDEV (major s) 0)) s;
          s = kcalled (Class_destroy (demo_class s)) s;
          s = kcalled (Unregister_chrdev (major s) DEVNAME) s;
          s = kcalled (Kobject_put (cs614_kobject s)) s
      in kcalled (Sysfs_remove_file kernel_kobj ''promote'') s)"

lemmas template_defs = device_open_def device_release_def device_read_def device_write_def demo_devnode_def
  sysfs_show_def sysfs_store_def init_module_def cleanup_module_def

interpretation template_files: chrdev_files device_open device_release device_opened klog
  "\<lambda>s. (major s, demo_class s, demo_device s, cs614_kobject s, mm s)"
  by unfold_locales (simp_all add: device_open_def device_release_def kcalled_def Let_def)

section \<open>The finished module against the template\<close>

lemma template_module_same:
  "Btplus_Template.init_module = Btplus.init_module" "Btplus_Template.cleanup_module = Btplus.cleanup_module"
  by (intro ext, simp add: Btplus_Template.init_module_def Btplus.init_module_def
      Btplus_Template.cleanup_module_def Btplus.cleanup_module_def)+

interpretation template_module: chrdev_module "init_module kernel_kobj" "cleanup_module kernel_kobj" klog
  "\<lambda>k s. kernel_kobj \<noteq> 0"
  for kernel_kobj
  unfolding template_module_same by (rule bt_module.chrdev_module_axioms)

lemma template_compact_effect:
  assumes laws: "mm_laws K bytes" and alloc: "k_alloc k (klog s) \<noteq> 0"
    and arg: "\<And>x. in_range param 24 x \<Longrightarrow> permits VM_READ (flags_at K (mm s) x)"
    and ip: "ip = get_input (mem_read param 24 (bytes (mm s)))"
    and table: "\<And>x. in_range (in_buff ip) 16 x \<Longrightarrow> permits VM_WRITE (flags_at K (mm s) x)"
  shows "\<exists>s'. device_ioctl k K IOCTL_COMPACT_VMA param s = Done (0, s') \<and> flags_at K (mm s') = flags_at K (mm s) \<and>
    bytes (mm s') = mem_write (in_buff ip) (put_address \<lparr>from_addr = in_addr ip, to_addr = in_addr ip\<rparr>) (bytes (mm s)) \<and>
    live (klog s') = live (Kfree (k_alloc k (klog s)) # Kalloc 24 (k_alloc k (klog s)) # klog s)"
proof -
  let ?e = "put_address \<lparr>from_addr = in_addr ip, to_addr = in_addr ip\<rparr>"
  obtain m' where m': "to_user K (in_buff ip) ?e (mm s) = (0, m')"
    "bytes m' = mem_write (in_buff ip) ?e (bytes (mm s))" "flags_at K m' = flags_at K (mm s)"
    using to_user_ok [OF laws, of "in_buff ip" ?e "mm s"] table by (auto simp: put_address_def put64_def)
  have "from_user K param 24 (mm s) = (0, mem_read param 24 (bytes (mm s)))"
    using from_user_ok [OF laws, of param 24] arg by simp
  with m' alloc ip show ?thesis
    by (simp add: device_ioctl_def kalloc_def kcalled_def ioctl_defs Let_def)
qed

text \<open>
  The finished module against the template it was written from.  Opening, closing, reading, writing, loading and
  unloading are the same functions, and for every readable request with a writable result table the finished
  compaction returns the same value and leaves the same caller memory and the same mappings as the template's,
  which only writes one table entry that moves a page onto itself.
\<close>

lemma compaction_is_the_template:
  assumes laws: "mm_laws K bytes"
    and alloc: "k_alloc k (klog s) \<noteq> 0" "k_alloc k (Kalloc 4096 (k_alloc k (klog s)) # klog s) \<noteq> 0"
    and arg: "\<And>x. in_range param 24 x \<Longrightarrow> permits VM_READ (flags_at K (mm s) x)"
    and table: "\<And>x. in_range (in_buff (get_input (mem_read param 24 (bytes (mm s))))) 16 x \<Longrightarrow>
      permits VM_WRITE (flags_at K (mm s) x)"
  shows "(\<exists>s1 s2. Btplus.device_ioctl k K IOCTL_COMPACT_VMA param s = Done (0, s1) \<and>
      Btplus_Template.device_ioctl k K IOCTL_COMPACT_VMA param s = Done (0, s2) \<and>
      bytes (mm s1) = bytes (mm s2) \<and> flags_at K (mm s1) = flags_at K (mm s2)) \<and>
    Btplus.device_open s = Btplus_Template.device_open s \<and>
    Btplus.device_release s = Btplus_Template.device_release s \<and>
    Btplus.device_read buffer n s = Btplus_Template.device_read buffer n s \<and>
    Btplus.device_write buffer n s = Btplus_Template.device_write buffer n s \<and>
    Btplus.demo_devnode devt mode s = Btplus_Template.demo_devnode devt mode s \<and>
    Btplus.sysfs_show buf s = Btplus_Template.sysfs_show buf s \<and>
    Btplus.sysfs_store buf cnt s = Btplus_Template.sysfs_store buf cnt s \<and>
    Btplus.init_module kobj k s = Btplus_Template.init_module kobj k s \<and>
    Btplus.cleanup_module kobj s = Btplus_Template.cleanup_module kobj s"
proof -
  obtain s1 where s1: "Btplus.device_ioctl k K IOCTL_COMPACT_VMA param s = Done (0, s1)"
    "flags_at K (mm s1) = flags_at K (mm s)" "bytes (mm s1) =
       mem_write (in_buff (get_input (mem_read param 24 (bytes (mm s)))))
         (put_address \<lparr>from_addr = in_addr (get_input (mem_read param 24 (bytes (mm s)))),
            to_addr = in_addr (get_input (mem_read param 24 (bytes (mm s))))\<rparr>) (bytes (mm s))"
    using compact_effect [OF laws alloc(2) arg refl table] by blast
  obtain s2 where s2: "Btplus_Template.device_ioctl k K IOCTL_COMPACT_VMA param s = Done (0, s2)"
    "flags_at K (mm s2) = flags_at K (mm s)" "bytes (mm s2) =
       mem_write (in_buff (get_input (mem_read param 24 (bytes (mm s)))))
         (put_address \<lparr>from_addr = in_addr (get_input (mem_read param 24 (bytes (mm s)))),
            to_addr = in_addr (get_input (mem_read param 24 (bytes (mm s))))\<rparr>) (bytes (mm s))"
    using template_compact_effect [OF laws alloc(1) arg refl table] by blast
  have files: "Btplus.device_open s = Btplus_Template.device_open s"
    "Btplus.device_release s = Btplus_Template.device_release s"
    "Btplus.device_read buffer n s = Btplus_Template.device_read buffer n s"
    "Btplus.device_write buffer n s = Btplus_Template.device_write buffer n s"
    "Btplus.demo_devnode devt mode s = Btplus_Template.demo_devnode devt mode s"
    "Btplus.sysfs_show buf s = Btplus_Template.sysfs_show buf s"
    "Btplus.sysfs_store buf cnt s = Btplus_Template.sysfs_store buf cnt s"
    by (simp_all add: template_defs Btplus.device_open_def Btplus.device_release_def Btplus.device_read_def
        Btplus.device_write_def Btplus.demo_devnode_def Btplus.sysfs_show_def Btplus.sysfs_store_def)
  have module: "Btplus.init_module kobj k s = Btplus_Template.init_module kobj k s"
    "Btplus.cleanup_module kobj s = Btplus_Template.cleanup_module kobj s"
    by (simp_all add: template_defs Btplus.init_module_def Btplus.cleanup_module_def)
  show ?thesis using s1 s2 files module by simp
qed

end
