(* ===== verification/Simplecdev.thy ===== *)
theory Simplecdev
  imports Kernel
begin

text \<open>
  The example character device, \<^verbatim>\<open>question/examples/chdev/simplecdev.c\<close>: a buffer of one page in the
  kernel that user programs write and read.  Kernel memory is the field \<open>kmem\<close>; user memory is passed in
  and out, with the copies of the kernel as a parameter.
\<close>

record cdev =
  chrdev +
  d_buf :: ptr
  kmem :: mem

definition DEVNAME :: string where "DEVNAME = ''democdev''"

definition demo_open :: "cdev \<Rightarrow> u32 \<times> cdev" where
  "demo_open s =
     (let s = s\<lparr>device_opened := device_opened s + 1\<rparr>
      in (0, kcalled Try_module_get s))"

definition demo_release :: "cdev \<Rightarrow> u32 \<times> cdev" where
  "demo_release s =
     (let s = s\<lparr>device_opened := device_opened s - 1\<rparr>
      in (0, kcalled Module_put s))"

text \<open>A missing buffer (its allocation is not checked) is a null dereference.\<close>

definition demo_read :: "uaccess \<Rightarrow> u64 \<Rightarrow> u64 \<Rightarrow> mem \<Rightarrow> cdev \<Rightarrow> (ssize_t \<times> mem) outcome" where
  "demo_read U ubuf len m s =
     (if len < 4096 then Done (- EINVAL, m)
      else if d_buf s = 0 then Oops
      else
        (let (r, m) = u_to U ubuf (mem_read (d_buf s) 4096 (kmem s)) m
         in if r \<noteq> 0 then Done (- EINVAL, m) else Done (4096, m)))"

definition demo_write :: "uaccess \<Rightarrow> u64 \<Rightarrow> u64 \<Rightarrow> mem \<Rightarrow> cdev \<Rightarrow> (ssize_t \<times> cdev) outcome" where
  "demo_write U buff len m s =
     (if d_buf s = 0 \<and> len \<noteq> 0 then Oops
      else
        (let (r, bs) = u_from U buff len m;
             s = s\<lparr>kmem := mem_write (d_buf s) bs (kmem s)\<rparr>
         in if r \<noteq> 0 then Done (- EINVAL, s) else Done (8, s)))"

definition demo_devnode :: "u32 \<Rightarrow> u16 option \<Rightarrow> cdev \<Rightarrow> u16 option" where
  "demo_devnode devt mode s =
     (case mode of None \<Rightarrow> None | Some v \<Rightarrow> if devt = MKDEV (major s) 0 then Some 0x1B6 else Some v)"

text \<open>\<^verbatim>\<open>kzalloc\<close> clears the page it returns.\<close>

definition init_module :: "kapi \<Rightarrow> cdev \<Rightarrow> u32 \<times> cdev" where
  "init_module k s =
     (let (r, s) = register_chrdev k DEVNAME s;
          s = s\<lparr>major := r\<rparr>
      in if r <s 0 then (r, s)
         else
           (let (c, s) = class_create k DEVNAME s;
                s = s\<lparr>demo_class := c\<rparr>
            in if IS_ERR c then (PTR_ERR c, kcalled (Unregister_chrdev (major s) DEVNAME) s)
               else
                 (let (d, s) = device_create k c (MKDEV (major s) 0) DEVNAME s;
                      s = s\<lparr>demo_device := d\<rparr>
                  in if IS_ERR d then
                       (let s = kcalled (Class_destroy (demo_class s)) s
                        in (PTR_ERR d, kcalled (Unregister_chrdev (major s) DEVNAME) s))
                     else
                       (let (b, s) = kalloc k 4096 s;
                            s = s\<lparr>d_buf := b\<rparr>;
                            s = (if b = 0 then s else s\<lparr>kmem := mem_write b (replicate 4096 0) (kmem s)\<rparr>)
                        in (0, s\<lparr>device_opened := 0\<rparr>)))))"

definition cleanup_module :: "cdev \<Rightarrow> cdev" where
  "cleanup_module s =
     (let s = kcalled (Kfree (d_buf s)) s;
          s = kcalled (Device_destroy (demo_class s) (MKDEV (major s) 0)) s;
          s = kcalled (Class_destroy (demo_class s)) s
      in kcalled (Unregister_chrdev (major s) DEVNAME) s)"

lemmas cdev_defs = init_module_def cleanup_module_def kernel_defs Let_def

interpretation cdev_files: chrdev_files demo_open demo_release device_opened klog
  "\<lambda>s. (major s, demo_class s, demo_device s, d_buf s, kmem s)"
  by unfold_locales (simp_all add: demo_open_def demo_release_def kcalled_def Let_def)

interpretation cdev_module: chrdev_module init_module cleanup_module klog "\<lambda>k s. True"
proof
  fix k s s'
  assume *: "init_module k s = (0, s')" "live (klog s) = {}" "well_used (klog s)"
  show "live (klog (cleanup_module s')) = {} \<and> well_used (klog (cleanup_module s'))"
    using * PTR_ERR_nonzero by (auto simp: cdev_defs split: if_splits)
qed

text \<open>
  The example device.  A write of at most one page is read back at the start of the page, followed by what
  the page held before, and touches no kernel memory but the page.  The length of a write is not checked:
  a longer one overwrites the kernel memory behind the page with the caller's bytes.  Every write reports 8 bytes.
\<close>

lemma simplecdev_write_read:
  assumes buf: "d_buf s \<noteq> 0" and user: "user_ok U buff n" "user_ok U ubuf 4096"
  shows "\<exists>s'. demo_write U buff n m s = Done (8, s') \<and>
    (unat n \<le> 4096 \<longrightarrow>
       (\<forall>x. 4096 \<le> unat (x - d_buf s) \<longrightarrow> kmem s' x = kmem s x) \<and>
       (4096 \<le> len \<longrightarrow> demo_read U ubuf len m' s' = Done (4096, mem_write ubuf
          (mem_read buff (unat n) m @ mem_read (d_buf s + n) (4096 - unat n) (kmem s)) m'))) \<and>
    (4096 < unat n \<longrightarrow> kmem s' (d_buf s + 4096) = m (buff + 4096))"
proof -
  let ?bs = "mem_read buff (unat n) m"
  define s' where "s' = s\<lparr>kmem := mem_write (d_buf s) ?bs (kmem s)\<rparr>"
  have len: "length ?bs \<le> 2 ^ 64" using unat_u64 [of n] by simp
  have w: "demo_write U buff n m s = Done (8, s')"
    using buf user(1) by (simp add: demo_write_def user_ok_def s'_def)
  have k: "kmem s' x = (if unat (x - d_buf s) < unat n then ?bs ! unat (x - d_buf s) else kmem s x)" for x
    using mem_write_apply [OF len, of "d_buf s" "kmem s" x] by (simp add: s'_def)
  have page: "mem_read (d_buf s) 4096 (kmem s') = ?bs @ mem_read (d_buf s + n) (4096 - unat n) (kmem s)" if n: "unat n \<le> 4096"
  proof (rule nth_equalityI)
    fix i assume i: "i < length (mem_read (d_buf s) 4096 (kmem s'))"
    then have "unat (of_nat i :: u64) = i" by (intro unat_of_nat_u64) simp
    moreover have "d_buf s + n + of_nat (i - unat n) = d_buf s + of_nat i" if "unat n \<le> i"
      using that by (simp add: of_nat_diff)
    ultimately show "mem_read (d_buf s) 4096 (kmem s') ! i = (?bs @ mem_read (d_buf s + n) (4096 - unat n) (kmem s)) ! i"
      using i n k [of "d_buf s + of_nat i"] by (auto simp: nth_append)
  qed (use n in simp)
  have "demo_read U ubuf len m' s' = Done (4096, mem_write ubuf (mem_read (d_buf s) 4096 (kmem s')) m')" if "4096 \<le> len"
    using that buf user(2) by (simp add: demo_read_def user_ok_def s'_def not_less [symmetric])
  moreover have "4096 < unat n \<longrightarrow> kmem s' (d_buf s + 4096) = m (buff + 4096)" using k [of "d_buf s + 4096"] by simp
  ultimately show ?thesis using w k page by auto
qed

definition ex_cdev :: cdev where
  "ex_cdev = \<lparr>major = 240, device_opened = 1, demo_class = 1, demo_device = 2, klog = [], d_buf = 0x8000, kmem = (\<lambda>_. 0)\<rparr>"

end
