(* ===== verification/Spec2Isabelle.thy ===== *)
theory Spec2Isabelle
  imports Infoprogs_Forks Infoprogs_Threads Processes Multiprocess Mapped Testfile Vmprogs_Promote Btplus_Template Simplecdev
begin

text \<open>
  A verification development for three kernel assignments and the programs around them.

  \<^bold>\<open>The programs.\<close>  \<^verbatim>\<open>src/Assignment_1\<close> holds a character device in three stages (\<^verbatim>\<open>part1\<close>, \<^verbatim>\<open>part2\<close>, \<^verbatim>\<open>part3\<close>):
  a process writes a command to a sysfs file and reads a piece of information about itself from the device.
  \<^verbatim>\<open>src/Assignment_2/btplus.c\<close> is a module that moves, promotes and compacts areas of the caller's address space.
  \<^verbatim>\<open>src/Assignment_3\<close> is the driver of a PCI encryption card (\<^verbatim>\<open>drivers/cryptocard.c\<close>), the library programs use it
  through (\<^verbatim>\<open>src/crypter.c\<close>), and the acceptance tests and benchmarks of both.  The examples and test modules
  that come with the assignments (\<^verbatim>\<open>simplecdev.c\<close>, \<^verbatim>\<open>ptextract.c\<close>, the template of \<^verbatim>\<open>btplus.c\<close>) are modelled too.

  \<^bold>\<open>Conventions.\<close>  Machine integers are words of their width, so that wrap-around is that of the code; user memory is
  a function from addresses to bytes.  A call into the kernel that hands out or takes back an object appends to a log
  (\<open>Kernel.klog\<close>), and what the kernel answers is a parameter (\<open>Kernel.kapi\<close>): \<open>live\<close> is the set of objects a
  log leaves allocated, \<open>well_used\<close> says that nothing was released that was not held.  An operation that can
  fail in the kernel has the type \<open>outcome\<close>: \<open>Done\<close> with its result, \<open>Oops\<close> for an access to an invalid address, \<open>Hang\<close>
  for a wait that cannot end.  Uninitialised variables are arguments named \<open>junk\<close>.

  \<^bold>\<open>Theories.\<close>
  \<^item> \<open>Prelude\<close>: words, memory, formatted input and output, \<^verbatim>\<open>strncpy\<close>, \<^verbatim>\<open>ioctl\<close> numbers; \<open>Kernel\<close>: the log of kernel
    calls and the contracts of character devices as locales (\<open>chrdev_files\<close> for open and release, \<open>chrdev_module\<close>
    for load and unload), which every module of the development interprets.
  \<^item> \<open>Part1\<close>, \<open>Nodes\<close>, \<open>Part2\<close>, \<open>Part3\<close>: the three stages of the first driver.  \<open>Nodes\<close> is the linked list of commands
    in an explicit store, with its representation predicate.  Shown: what a read returns after a write, per process
    and per command, on every error branch; that a process does not see the commands of another; that every state
    the loaded part 2 reaches (\<open>p2_life\<close>, by rule induction) is well-formed and not stuck; that part 3 extends
    part 2; that the loops over threads and files end and what they compute for threads that share one address space; what load and unload leave behind.
  \<^item> \<open>Infoprogs\<close>, \<open>Infoprogs_Forks\<close>, \<open>Infoprogs_Threads\<close>: the test programs of the first driver, of one process, of several
    and of several threads, with the ends of all their processes (\<open>u_exits\<close>), over the locale \<open>info_device\<close>, which all three parts interpret (\<open>info_isolated\<close>, that the commands of
    processes are separate, only parts 2 and 3).  Shown: the verdict of every program on every part.
  \<^item> \<open>Card\<close>: the card as a parameter (its register accesses), the laws of its registers (\<open>card_ok\<close>) and a
    simulated card that satisfies them.  \<open>Cryptocard\<close>: all of \<^verbatim>\<open>cryptocard.c\<close>.  \<open>Cryptocard_Ops\<close>: each transfer routine computes
    the card's function, and its busy wait or sleep ends; \<open>Cryptocard_Files\<close>: requests, files, probing and removal, and
    the refinement of an abstract service in which a request is one atomic step.  \<open>Processes\<close>: the handler cut into the pieces
    other processes can interleave with, as a step relation; mutual exclusion, isolation and progress by rule induction.
    \<open>Signals\<close>: a request that a signal cuts short, and what it does to the next one.
  \<^item> \<open>Crypter\<close>: the library over the locale \<open>crypto_device\<close>, interpreted on the driver.  \<open>Cipher\<close>: the reference cipher
    of \<^verbatim>\<open>gen.c\<close>.  \<open>Harness\<close>, \<open>Suite\<close>, \<open>Mapped\<close>, \<open>Testfile\<close>: the rest of \<^verbatim>\<open>gen.c\<close>, the acceptance tests and benchmarks
    for MMIO, DMA and mapped memory, and the program that creates their input file; \<open>Multiprocess\<close>: the acceptance tests with
    several processes and threads, each with any system calls of the others between its own.  Shown: the verdict of every program
    on the library, the driver and a correct card together, and for the benchmarks the exact list of requests they make, with what
    each leaves in memory.  The programs are verified over the locale \<open>bench_device\<close>, which the driver alone and the driver among
    other processes interpret; its part without the requests, \<open>handle_device\<close>, also holds of a driver that a signal left with a
    stale flag.
  \<^item> \<open>Addrspace\<close>: the memory management of the kernel as a parameter with laws, and an instance.  \<open>Btplus\<close>: all of \<^verbatim>\<open>btplus.c\<close>.
    \<open>Btplus_Requests\<close> and \<open>Btplus_Moves\<close>: what each request does, and that its loops end.  \<open>Btplus_Template\<close>, \<open>Ptextract\<close>: the
    template module and the page table extractor.  \<open>Simplecdev\<close>: the example device of the first assignment.
  \<^item> \<open>Vmprogs\<close>, \<open>Vmprogs_Compact\<close>, \<open>Vmprogs_Promote\<close>: the test programs of \<^verbatim>\<open>btplus.c\<close> that move, compact and promote areas, with
    their faults and fault handlers, written with the rest of the program as an argument of each step; \<open>Vmprogs_Rules\<close>: for each
    step the rule that reduces what a program gives to what its rest gives.  An array larger than the stack kills a program (\<open>with_array\<close>).
    Shown: that the programs end, and their verdicts on the
    module as it is.
  \<^item> This theory: the bench, the library, the driver and the card together.

  \<^bold>\<open>Termination and bounds.\<close>  Counting loops are recursive functions with a measure or over the number of rounds.  A
  loop that waits for the card is \<open>Cryptocard.poll\<close>, a \<open>while_option\<close>, so that not ending is a value; the laws of the card give
  a bound on its work, and every transfer is proved to return.  The compaction loop is a \<open>partial_function\<close> and
  proved to return for every input; so are the loops of the test programs whose \<^verbatim>\<open>int\<close> counter may overflow, which return
  as long as it does not.  The library's lengths are 64-bit words cut to an \<^verbatim>\<open>int\<close>; its theorems hold below \<open>32000 * 2 ^ 31\<close>
  bytes, where that cut is exact.

  \<^bold>\<open>What is assumed.\<close>  The hypotheses of the theorems are about code outside the sources: the card (\<open>card_ok\<close>), the kernel's
  memory management (\<open>mm_laws\<close>), the mapping of the card (\<open>card_mappable\<close>), copies to and from user memory (\<open>user_ok\<close>), and which
  kernel calls succeed.  Each has an instance in the development.  A process that sleeps in a request can be woken by a signal
  (\<open>Card.signal\<close>, \<open>Cryptocard.wait_event_interruptible\<close>): the theorems on the driver and its programs assume that none arrives
  (\<open>undisturbed\<close>, part of \<open>driver_good\<close> and \<open>place_ok\<close>), except those of \<open>Signals\<close> and the one of \<open>Multiprocess\<close> on the kills of the
  fifth test, which are about one that does, for the DMA routines and on a card that works longer than the driver copies (\<open>outlasts_copy\<close>).

  \<^bold>\<open>Not modelled.\<close>  Messages to the log; interleavings inside a piece of \<open>Processes\<close> and inside the functions of the other
  modules; that the driver sleeps and allocates while it holds a spinlock, which the kernel forbids; supervisor access prevention and
  faults where a driver writes to user memory with \<^verbatim>\<open>sprintf\<close>: user memory is total there (the direct read of \<^verbatim>\<open>cryptocard_fmmap\<close>
  and the string of \<^verbatim>\<open>cryptocard_fwrite\<close> can fault); templates with empty functions; generated
  \<^verbatim>\<open>.mod.c\<close> files; the firmware that comes with the emulator, which is third-party code.
\<close>

section \<open>The test bench, the library, the driver and the card together\<close>

text \<open>
  C3: On a card that computes the reference cipher of gen.c, a program that opens and configures the device
  with create_device_handle (any mode, any key) and encrypts a buffer through the library finds in its
  memory exactly what the reference encryptMessage computes; for a text without terminators inside,
  the comparison of the bench (create_encrpyted_buffer and isValid) succeeds.
\<close>

theorem bench_encrypts_like_reference:
  assumes good: "driver_good C S k (os s)" and f: "\<not> next_fd (os s) <s 0"
    and card: "enc S = encrypt_byte" and len: "unat len < 32000 * 2 ^ 31"
    and user: "\<And>i c. unat i + unat c \<le> unat len \<Longrightarrow> user_ok U (addr + i) c"
  shows "\<exists>fd s1 s2 buf out.
    create_device_handle (driver_sys C k U ja jb mmap munmap) isDMA isInterrupt a b s = Done (Some fd, s1) \<and>
    encrypt (driver_sys C k U ja jb mmap munmap) junk fd addr len 0 s1 = Done (0, s2) \<and>
    buf = mem_read addr (unat len) (umem (os s)) \<and> out = mem_read addr (unat len) (umem (os s2)) \<and>
    encryptMessage buf (unat len) a b = Some out \<and>
    (0 \<notin> set buf \<longrightarrow> (\<exists>expected. create_encrpyted_buffer buf a b (unat len) = Some expected \<and>
       isValid out expected (unat len) = Some 1))"
proof -
  let ?A = "driver_sys C k U ja jb mmap munmap" and ?f = "next_fd (os s)"
  obtain t1 where t1: "create_device_handle ?A isDMA isInterrupt a b s = Done (Some ?f, s\<lparr>os := t1\<rparr>)"
    "driver_good C S k t1" "umem t1 = umem (os s)" "conf_a (fconf t1 ?f) = a" "conf_b (fconf t1 ?f) = b"
    using create_device_handle_driver [OF good f] unfolding Let_def by blast
  have "driver_good C S k (os (s\<lparr>os := t1\<rparr>))" using t1 by simp
  from driver.encrypt_any_length [OF this len user, of ja jb mmap munmap junk ?f]
  obtain t2 where t2: "encrypt ?A junk ?f addr len 0 (s\<lparr>os := t1\<rparr>) = Done (0, s\<lparr>os := t2\<rparr>)"
    "umem t2 = mem_map (encrypt_byte a b) addr (unat len) (umem (os s))"
    using t1 card by (auto simp: file_fn_def crypt_def)
  define buf out where "buf = mem_read addr (unat len) (umem (os s))"
    and "out = mem_read addr (unat len) (umem (os (s\<lparr>os := t2\<rparr>)))"
  have out: "out = map (encrypt_byte a b) buf"
    using t2 by (simp add: out_def buf_def mem_read_map)
  have ref: "encryptMessage buf (unat len) a b = Some out"
    by (simp add: out encryptMessage_map buf_def)
  have "0 \<notin> set buf \<longrightarrow> create_encrpyted_buffer buf a b (unat len) = Some out"
    using ref strncpy_no_nul [of "unat len" buf] by (simp add: create_encrpyted_buffer_def buf_def)
  moreover have "isValid out out (unat len) = Some 1" by (simp add: isValid_eq out buf_def)
  ultimately show ?thesis using t1 t2 ref buf_def out_def by blast
qed

theorem bench_encrypts_like_reference_witness:
  "\<exists>fd s1 s2. create_device_handle bench_sys 1 1 30 17 \<lparr>map_size = 0, os = bench_system\<rparr> = Done (Some fd, s1) \<and>
    encrypt bench_sys 99 fd 0x4000 2 0 s1 = Done (0, s2) \<and>
    encryptMessage [72, 72] 2 30 17 = Some (mem_read 0x4000 2 (umem (os s2)))"
  using bench_encrypts_like_reference [of "sim_card encrypt_byte decrypt_byte" "sim_spec encrypt_byte decrypt_byte"
      ex_kernel "\<lparr>map_size = 0, os = bench_system\<rparr>" 2 flat_user "0x4000" 0 0 "\<lambda>n f t. (MAP_FAILED, t)"
      "\<lambda>a n t. (- 1, t)" 1 1 30 17 99]
  unfolding bench_sys_def [symmetric]
  by (auto simp: mem_read_two word_sless_alt)

text \<open>
  On such a card, for a second key byte of at most 128 and a buffer of at most 32768 bytes, decrypting
  through the library what was encrypted through it gives the original buffer back.
\<close>

lemma bench_round_trip:
  assumes good: "driver_good C S k (os s)" and f: "\<not> next_fd (os s) <s 0"
    and card: "enc S = encrypt_byte" "dec S = decrypt_byte" and key: "uint b \<le> 128" and len: "unat len \<le> 32768"
    and user: "\<And>i c. unat i + unat c \<le> unat len \<Longrightarrow> user_ok U (addr + i) c"
  shows "\<exists>fd s1 s2 s3.
    create_device_handle (driver_sys C k U ja jb mmap munmap) isDMA isInterrupt a b s = Done (Some fd, s1) \<and>
    encrypt (driver_sys C k U ja jb mmap munmap) junk fd addr len 0 s1 = Done (0, s2) \<and>
    decrypt (driver_sys C k U ja jb mmap munmap) junk' fd addr len 0 s2 = Done (0, s3) \<and>
    umem (os s3) = umem (os s)"
proof -
  let ?A = "driver_sys C k U ja jb mmap munmap" and ?f = "next_fd (os s)"
  obtain t1 where t1: "create_device_handle ?A isDMA isInterrupt a b s = Done (Some ?f, s\<lparr>os := t1\<rparr>)"
    "driver_good C S k t1" "umem t1 = umem (os s)" "conf_a (fconf t1 ?f) = a" "conf_b (fconf t1 ?f) = b"
    using create_device_handle_driver [OF good f] unfolding Let_def by blast
  have g1: "driver_good C S k (os (s\<lparr>os := t1\<rparr>))" and len': "unat len < 32000 * 2 ^ 31" using t1 len by simp_all
  from driver.encrypt_any_length [OF g1 len' user, of ja jb mmap munmap junk ?f]
  obtain t2 where t2: "encrypt ?A junk ?f addr len 0 (s\<lparr>os := t1\<rparr>) = Done (0, s\<lparr>os := t2\<rparr>)" "driver_good C S k t2"
    "umem t2 = mem_map (encrypt_byte a b) addr (unat len) (umem (os s))" "same_fn (file_fn S) t1 t2"
    using t1 card by (auto simp: file_fn_def crypt_def)
  have g2: "driver_good C S k (os (s\<lparr>os := t2\<rparr>))" using t2 by simp
  have u: "user_ok U addr len" using user [of 0 len] by simp
  have fn: "file_fn S True ?f t2 = decrypt_byte a b"
  proof -
    have "file_fn S True ?f t2 = file_fn S True ?f t1" using t2(4) by (simp only: same_fn_def)
    then show ?thesis using t1 card by (simp add: file_fn_def crypt_def)
  qed
  from driver.decrypt_small [OF g2 len u, of ja jb mmap munmap junk' ?f] fn
  obtain t3 where t3: "decrypt ?A junk' ?f addr len 0 (s\<lparr>os := t2\<rparr>) = Done (0, s\<lparr>os := t3\<rparr>)"
    "umem t3 = mem_map (decrypt_byte a b) addr (unat len) (umem t2)" by auto
  have "umem t3 = umem (os s)"
    using t2 t3 len key by (auto simp: fun_eq_iff mem_map_apply decrypt_encrypt_byte)
  with t1 t2 t3 show ?thesis by force
qed

end
